(* ===== verification/Prelude.thy ===== *)
theory Prelude
  imports Main "HOL-Library.AList" "HOL-Library.Char_ord" "HOL-Library.List_Lexorder"
    "HOL-Library.Multiset"
begin

text \<open>
  Shared vocabulary of the development: Go maps as association lists (the list is one iteration
  order of the map), the interface every client of a map relies on, error results, traversal of
  a list with early exit, and decimal notation of integers as the \<^verbatim>\<open>strconv\<close> and \<^verbatim>\<open>fmt\<close>
  packages print and read it.
\<close>

named_theorems go_map_simps \<open>laws of Go maps as association lists\<close>
named_theorems wire_simps \<open>rewriting of the wire format: tokens, literals, quoting\<close>
named_theorems scan_simps \<open>rewriting of the schema validator\<close>
named_theorems build_simps \<open>rewriting of the schema builder\<close>

type_synonym 'a go_map = "(string \<times> 'a) list"

section \<open>Maps\<close>

definition go_map_ok :: "('k \<times> 'v) list \<Rightarrow> bool" where
  "go_map_ok m \<longleftrightarrow> distinct (map fst m)"

text \<open>
  What a client of a map relies on: reading after a store or a delete, and the enumeration of the
  keys. The enumeration is an order the client must not depend on.
\<close>

locale map_store =
  fixes get :: "'m \<Rightarrow> 'k \<Rightarrow> 'v option"
    and put :: "'k \<Rightarrow> 'v \<Rightarrow> 'm \<Rightarrow> 'm"
    and del :: "'k \<Rightarrow> 'm \<Rightarrow> 'm"
    and keys :: "'m \<Rightarrow> 'k list"
    and ok :: "'m \<Rightarrow> bool"
    and none :: "'m"
  assumes get_none: "get none k = None"
    and get_put: "ok m \<Longrightarrow> get (put k v m) k' = (if k' = k then Some v else get m k')"
    and get_del: "ok m \<Longrightarrow> get (del k m) k' = (if k' = k then None else get m k')"
    and set_keys: "ok m \<Longrightarrow> set (keys m) = {k. get m k \<noteq> None}"
    and distinct_keys: "ok m \<Longrightarrow> distinct (keys m)"
    and ok_none: "ok none"
    and ok_put: "ok m \<Longrightarrow> ok (put k v m)"
    and ok_del: "ok m \<Longrightarrow> ok (del k m)"
begin

lemma get_put_same: "ok m \<Longrightarrow> get (put k v m) k = Some v"
  by (simp add: get_put)

lemma get_put_other: "ok m \<Longrightarrow> k' \<noteq> k \<Longrightarrow> get (put k v m) k' = get m k'"
  by (simp add: get_put)

lemma del_put: "ok m \<Longrightarrow> get (del k (put k v m)) k' = get (del k m) k'"
  by (simp add: get_put get_del ok_put)

lemma set_keys_put: "ok m \<Longrightarrow> set (keys (put k v m)) = insert k (set (keys m))"
  by (auto simp: set_keys ok_put get_put)

lemma set_keys_del: "ok m \<Longrightarrow> set (keys (del k m)) = set (keys m) - {k}"
  by (auto simp: set_keys ok_del get_del)

lemma length_keys_put_new:
  assumes "ok m" and "get m k = None"
  shows "length (keys (put k v m)) = Suc (length (keys m))"
proof -
  have "k \<notin> set (keys m)"
    using assms by (simp add: set_keys)
  then have "card (set (keys (put k v m))) = Suc (card (set (keys m)))"
    using assms(1) by (simp add: set_keys_put)
  then show ?thesis
    using assms by (simp add: distinct_card distinct_keys ok_put)
qed

end

lemma go_map_ok_Nil [simp]: "go_map_ok []"
  by (simp add: go_map_ok_def)

lemma go_map_ok_Cons [simp]:
  "go_map_ok ((k, v) # m) \<longleftrightarrow> k \<notin> fst ` set m \<and> go_map_ok m"
  by (simp add: go_map_ok_def)

lemma go_map_ok_update [simp]: "go_map_ok m \<Longrightarrow> go_map_ok (AList.update k v m)"
  by (simp add: go_map_ok_def distinct_update)

lemma go_map_ok_delete [simp]: "go_map_ok m \<Longrightarrow> go_map_ok (AList.delete k m)"
  by (simp add: go_map_ok_def distinct_delete)

interpretation gm: map_store map_of AList.update AList.delete "map fst" go_map_ok "[]"
proof unfold_locales
  fix m :: "('a \<times> 'b) list" and k k' :: 'a and v :: 'b
  show "map_of ([] :: ('a \<times> 'b) list) k = None"
    by simp
  show "map_of (AList.update k v m) k' = (if k' = k then Some v else map_of m k')"
    by (simp add: update_conv')
  show "map_of (AList.delete k m) k' = (if k' = k then None else map_of m k')"
    by (simp add: delete_conv')
  show "set (map fst m) = {k. map_of m k \<noteq> None}"
    by (auto simp: map_of_eq_None_iff)
  show "go_map_ok m \<Longrightarrow> distinct (map fst m)"
    by (simp add: go_map_ok_def)
qed simp_all

lemma map_of_ok_iff: "go_map_ok m \<Longrightarrow> map_of m k = Some v \<longleftrightarrow> (k, v) \<in> set m"
  by (simp add: go_map_ok_def)

lemma map_of_map_snd: "map_of (map (\<lambda>(k, v). (k, f v)) m) k = map_option f (map_of m k)"
  by (induction m) auto

lemma map_of_perm:
  assumes "go_map_ok m" and "mset m = mset m'"
  shows "map_of m' = map_of m"
proof -
  have "distinct (map fst m')"
    using assms by (metis go_map_ok_def mset_eq_imp_distinct_iff mset_map)
  moreover have "set m = set m'"
    using assms(2) by (rule mset_eq_setD)
  ultimately show ?thesis
    using assms(1) by (metis go_map_ok_def map_of_inject_set)
qed

lemma go_map_ok_perm: "mset m = mset m' \<Longrightarrow> go_map_ok m \<longleftrightarrow> go_map_ok m'"
  by (metis go_map_ok_def mset_eq_imp_distinct_iff mset_map)

section \<open>Results and traversal\<close>

text \<open>
  A fallible operation returns \<open>Inl\<close> of an error or \<open>Inr\<close> of a value. \<open>mapR\<close> is the
  loop that appends to a slice and returns at the first error.
\<close>

fun mapR :: "('a \<Rightarrow> 'e + 'b) \<Rightarrow> 'a list \<Rightarrow> 'e + 'b list" where
  "mapR f [] = Inr []"
| "mapR f (x # xs) =
     (case f x of Inl e \<Rightarrow> Inl e
      | Inr y \<Rightarrow> (case mapR f xs of Inl e \<Rightarrow> Inl e | Inr ys \<Rightarrow> Inr (y # ys)))"

lemma mapR_cong [fundef_cong]:
  "xs = ys \<Longrightarrow> (\<And>x. x \<in> set ys \<Longrightarrow> f x = g x) \<Longrightarrow> mapR f xs = mapR g ys"
  by (induction ys arbitrary: xs) (auto split: sum.splits)

lemma mapR_Inr_iff:
  "mapR f xs = Inr ys \<longleftrightarrow> list_all2 (\<lambda>x y. f x = Inr y) xs ys"
proof (induction xs arbitrary: ys)
  case (Cons x xs)
  show ?case
    by (cases "f x"; cases "mapR f xs"; cases ys) (auto simp: Cons.IH [symmetric])
qed auto

lemma mapR_all_Inr: "(\<And>x. x \<in> set xs \<Longrightarrow> f x = Inr (g x)) \<Longrightarrow> mapR f xs = Inr (map g xs)"
  by (induction xs) auto

lemma mapR_Inl_iff:
  "(\<exists>e. mapR f xs = Inl e) \<longleftrightarrow> (\<exists>x \<in> set xs. \<exists>e. f x = Inl e)"
  by (induction xs) (auto split: sum.splits)

lemma mapR_length: "mapR f xs = Inr ys \<Longrightarrow> length ys = length xs"
  by (simp add: mapR_Inr_iff list_all2_lengthD)

lemma map_sum_iff [simp]:
  "map_sum f g r = Inl e \<longleftrightarrow> (\<exists>x. r = Inl x \<and> e = f x)"
  "map_sum f g r = Inr y \<longleftrightarrow> (\<exists>x. r = Inr x \<and> y = g x)"
  by (cases r; auto)+

text \<open>The loop that threads a state and returns at the first error.\<close>

fun foldR :: "('a \<Rightarrow> 's \<Rightarrow> 'e + 's) \<Rightarrow> 'a list \<Rightarrow> 's \<Rightarrow> 'e + 's" where
  "foldR f [] s = Inr s"
| "foldR f (x # xs) s = (case f x s of Inl e \<Rightarrow> Inl e | Inr s' \<Rightarrow> foldR f xs s')"

lemma foldR_invariant:
  "foldR f xs s = Inr s' \<Longrightarrow> P s \<Longrightarrow>
     (\<And>x s s'. x \<in> set xs \<Longrightarrow> P s \<Longrightarrow> f x s = Inr s' \<Longrightarrow> P s') \<Longrightarrow> P s'"
proof (induction xs arbitrary: s)
  case (Cons x xs)
  then obtain s1 where s1: "f x s = Inr s1" "foldR f xs s1 = Inr s'"
    by (auto split: sum.splits)
  moreover have "P s1" using Cons.prems s1(1) by auto
  ultimately show ?case using Cons.IH [of s1] Cons.prems(3) by auto
qed simp

lemma foldR_error:
  "foldR f xs s = Inl e \<Longrightarrow> \<exists>x s'. f x s' = Inl e"
  by (induction xs arbitrary: s) (auto split: sum.splits)

lemma foldR_append:
  "foldR f (xs @ ys) s = (case foldR f xs s of Inl e \<Rightarrow> Inl e | Inr s' \<Rightarrow> foldR f ys s')"
  by (induction xs arbitrary: s) (auto split: sum.splits)

section \<open>Decimal notation\<close>

abbreviation char_code :: "char \<Rightarrow> nat" where
  "char_code c \<equiv> of_char c"

definition is_digit :: "char \<Rightarrow> bool" where
  "is_digit c \<longleftrightarrow> 48 \<le> char_code c \<and> char_code c \<le> 57"

definition digit_char :: "nat \<Rightarrow> char" where
  "digit_char d = char_of (48 + d)"

definition digit_val :: "char \<Rightarrow> nat" where
  "digit_val c = char_code c - 48"

fun show_nat :: "nat \<Rightarrow> string" where
  "show_nat n = (if n < 10 then [digit_char n] else show_nat (n div 10) @ [digit_char (n mod 10)])"

declare show_nat.simps [simp del]

definition show_int :: "int \<Rightarrow> string" where
  "show_int i = (if i < 0 then CHR ''-'' # show_nat (nat (- i)) else show_nat (nat i))"

definition read_nat :: "string \<Rightarrow> nat" where
  "read_nat s = foldl (\<lambda>n c. n * 10 + digit_val c) 0 s"

text \<open>\<^verbatim>\<open>strconv.ParseInt(s, 10, 64)\<close>: an optional sign, then decimal digits only, in the
  range of a signed 64-bit integer.\<close>

definition int64_min :: int where "int64_min = - (2 ^ 63)"
definition int64_max :: int where "int64_max = 2 ^ 63 - 1"

definition in_int64 :: "int \<Rightarrow> bool" where
  "in_int64 i \<longleftrightarrow> int64_min \<le> i \<and> i \<le> int64_max"

definition parse_udec :: "string \<Rightarrow> nat option" where
  "parse_udec s = (if s \<noteq> [] \<and> list_all is_digit s then Some (read_nat s) else None)"

definition parse_sdec :: "string \<Rightarrow> int option" where
  "parse_sdec s =
     (case s of [] \<Rightarrow> None
      | c # r \<Rightarrow>
          if c = CHR ''-'' then map_option (\<lambda>n. - int n) (parse_udec r)
          else if c = CHR ''+'' then map_option int (parse_udec r)
          else map_option int (parse_udec s))"

definition ParseInt :: "string \<Rightarrow> int option" where
  "ParseInt s =
     (case parse_sdec s of None \<Rightarrow> None
      | Some i \<Rightarrow> if in_int64 i then Some i else None)"

lemma digit_char_code: "d < 10 \<Longrightarrow> char_code (digit_char d) = 48 + d"
  by (simp add: digit_char_def)

lemma is_digit_digit_char [simp]: "d < 10 \<Longrightarrow> is_digit (digit_char d)"
  by (simp add: is_digit_def digit_char_code)

lemma digit_val_digit_char [simp]: "d < 10 \<Longrightarrow> digit_val (digit_char d) = d"
  by (simp add: digit_val_def digit_char_code)

lemma list_all_is_digit_show_nat [simp]: "list_all is_digit (show_nat n)"
  by (induction n rule: show_nat.induct) (subst show_nat.simps, simp)

lemma show_nat_not_Nil [simp]: "show_nat n \<noteq> []"
  by (subst show_nat.simps) simp

lemma read_nat_show_nat [simp]: "read_nat (show_nat n) = n"
proof (induction n rule: show_nat.induct)
  case (1 n)
  show ?case
  proof (cases "n < 10")
    case True
    then show ?thesis
      by (subst show_nat.simps) (simp add: read_nat_def)
  next
    case False
    have "read_nat (show_nat n) = read_nat (show_nat (n div 10)) * 10 + n mod 10"
      using False by (subst show_nat.simps) (simp add: read_nat_def)
    then show ?thesis
      using 1 [OF False] by simp
  qed
qed

lemma hd_show_nat_is_digit: "is_digit (hd (show_nat n))"
  using list_all_is_digit_show_nat [of n] by (cases "show_nat n") auto

lemma show_nat_no_leading_zero: "0 < n \<Longrightarrow> hd (show_nat n) \<noteq> CHR ''0''"
proof (induction n rule: show_nat.induct)
  case (1 n)
  show ?case
  proof (cases "n < 10")
    case True
    then have "char_code (hd (show_nat n)) \<noteq> char_code CHR ''0''"
      using 1(2) by (subst show_nat.simps) (simp add: digit_char_code)
    then show ?thesis by auto
  next
    case False
    then have "hd (show_nat n) = hd (show_nat (n div 10))"
      by (subst show_nat.simps) (simp add: hd_append)
    with 1 False show ?thesis by simp
  qed
qed

lemma not_is_digit_sign [simp]: "\<not> is_digit CHR ''-''" "\<not> is_digit CHR ''+''"
  by (simp_all add: is_digit_def)

lemma parse_udec_show_nat [simp]: "parse_udec (show_nat n) = Some n"
  by (simp add: parse_udec_def)

lemma show_nat_hd_sign: "show_nat n = c # r \<Longrightarrow> c \<noteq> CHR ''-'' \<and> c \<noteq> CHR ''+''"
  using hd_show_nat_is_digit [of n] not_is_digit_sign by auto

lemma parse_sdec_show_int [simp]: "parse_sdec (show_int i) = Some i"
proof (cases "i < 0")
  case True
  then show ?thesis by (simp add: parse_sdec_def show_int_def)
next
  case False
  obtain c r where cr: "show_nat (nat i) = c # r"
    by (cases "show_nat (nat i)") auto
  with show_nat_hd_sign [OF cr] have "parse_sdec (show_nat (nat i)) = map_option int (parse_udec (show_nat (nat i)))"
    by (simp add: parse_sdec_def)
  with False show ?thesis by (simp add: show_int_def)
qed

lemma ParseInt_show_int [simp]: "ParseInt (show_int i) = (if in_int64 i then Some i else None)"
  by (simp add: ParseInt_def)

lemma ParseInt_range: "ParseInt s = Some i \<Longrightarrow> in_int64 i"
  by (simp add: ParseInt_def split: option.splits if_splits)

lemma show_int_inj: "show_int i = show_int j \<Longrightarrow> i = j"
  by (metis option.inject parse_sdec_show_int)

end
