(* ===== verification/Float64.thy ===== *)
theory Float64
  imports Complex_Main Prelude
begin

text \<open>
  Go's \<^verbatim>\<open>float64\<close>: the rationals a double can hold, the infinities and NaN, with the rounding
  of an exact value to the nearest double (ties to even), the comparisons, \<^verbatim>\<open>strconv.ParseFloat\<close>
  and the text \<^verbatim>\<open>encoding/json\<close> prints for a double. The two zeros are one value here: no
  comparison of the program tells them apart. The lemmas show that rounding is monotone and exact
  on the integers up to \<open>2 ^ 53\<close>, which is what the range checks of a number schema rest on.
\<close>

section \<open>Rounding\<close>

datatype float64 = Fin rat | PosInf | NegInf | NaN

fun nbits :: "nat \<Rightarrow> nat" where
  "nbits n = (if n = 0 then 0 else Suc (nbits (n div 2)))"

declare nbits.simps [simp del]

definition ilog2 :: "rat \<Rightarrow> int" where
  "ilog2 q =
     (let (n, d) = quotient_of q;
          k = int (nbits (nat n)) - int (nbits (nat d))
      in if 2 powi k \<le> q then k else k - 1)"

definition round_even :: "rat \<Rightarrow> int" where
  "round_even q =
     (let f = \<lfloor>q\<rfloor>; r = q - of_int f
      in if r < 1 / 2 then f else if 1 / 2 < r then f + 1 else if even f then f else f + 1)"

definition quantum :: "rat \<Rightarrow> int" where
  "quantum q = max (ilog2 q - 52) (- 1074)"

definition round_pos :: "rat \<Rightarrow> rat" where
  "round_pos q = of_int (round_even (q / 2 powi quantum q)) * 2 powi quantum q"

definition f64_limit :: rat where
  "f64_limit = 2 ^ 1024"

definition f64_of_rat :: "rat \<Rightarrow> float64" where
  "f64_of_rat q =
     (if q = 0 then Fin 0
      else if 0 < q then
        (let r = round_pos q in if f64_limit \<le> r then PosInf else Fin r)
      else (let r = round_pos (- q) in if f64_limit \<le> r then NegInf else Fin (- r)))"

text \<open>Go's \<^verbatim>\<open><\<close>, \<^verbatim>\<open><=\<close> and \<^verbatim>\<open>==\<close> on doubles: every comparison with NaN is false.\<close>

fun f64_less :: "float64 \<Rightarrow> float64 \<Rightarrow> bool" where
  "f64_less (Fin a) (Fin b) = (a < b)"
| "f64_less (Fin a) PosInf = True"
| "f64_less NegInf (Fin b) = True"
| "f64_less NegInf PosInf = True"
| "f64_less _ _ = False"

fun f64_eq :: "float64 \<Rightarrow> float64 \<Rightarrow> bool" where
  "f64_eq (Fin a) (Fin b) = (a = b)"
| "f64_eq PosInf PosInf = True"
| "f64_eq NegInf NegInf = True"
| "f64_eq _ _ = False"

instantiation float64 :: ord
begin

definition less_float64 :: "float64 \<Rightarrow> float64 \<Rightarrow> bool" where
  "less_float64 x y = f64_less x y"

definition less_eq_float64 :: "float64 \<Rightarrow> float64 \<Rightarrow> bool" where
  "less_eq_float64 x y = (f64_less x y \<or> f64_eq x y)"

instance ..

end

section \<open>Reading a float\<close>

definition lower :: "char \<Rightarrow> char" where
  "lower c = (if 65 \<le> char_code c \<and> char_code c \<le> 90 then char_of (char_code c + 32) else c)"

definition float_digit :: "bool \<Rightarrow> char \<Rightarrow> nat option" where
  "float_digit hex c =
     (if is_digit c then Some (digit_val c)
      else let n = char_code (lower c)
           in if hex \<and> 97 \<le> n \<and> n \<le> 102 then Some (n - 87) else None)"

fun scan_mant :: "bool \<Rightarrow> bool \<Rightarrow> string \<Rightarrow> nat list \<times> nat \<times> string" where
  "scan_mant hex dot [] = ([], 0, [])"
| "scan_mant hex dot (c # r) =
     (if c = CHR ''_'' then scan_mant hex dot r
      else if c = CHR ''.'' then (if dot then ([], 0, c # r) else scan_mant hex True r)
      else case float_digit hex c of
             None \<Rightarrow> ([], 0, c # r)
           | Some d \<Rightarrow> (let (ds, k, rest) = scan_mant hex dot r
                        in (d # ds, (if dot then Suc k else k), rest)))"

fun scan_edigits :: "nat \<Rightarrow> string \<Rightarrow> nat \<times> string" where
  "scan_edigits e [] = (e, [])"
| "scan_edigits e (c # r) =
     (if c = CHR ''_'' then scan_edigits e r
      else if is_digit c then scan_edigits (if e < 10000 then e * 10 + digit_val c else e) r
      else (e, c # r))"

definition scan_exp :: "string \<Rightarrow> (int \<times> string) option" where
  "scan_exp s =
     (let (sgn, r) = (case s of c # t \<Rightarrow> if c = CHR ''+'' then (1, t)
                                          else if c = CHR ''-'' then (- 1, t) else (1, s)
                      | [] \<Rightarrow> (1, s))
      in case r of c # _ \<Rightarrow> if is_digit c then (let (e, rest) = scan_edigits 0 r in Some (sgn * int e, rest))
                             else None
         | [] \<Rightarrow> None)"

fun us_loop :: "bool \<Rightarrow> char \<Rightarrow> string \<Rightarrow> bool" where
  "us_loop hex i [] = (i \<noteq> CHR ''_'')"
| "us_loop hex i (c # r) =
     (if float_digit hex c \<noteq> None then us_loop hex CHR ''0'' r
      else if c = CHR ''_'' then i = CHR ''0'' \<and> us_loop hex CHR ''_'' r
      else i \<noteq> CHR ''_'' \<and> us_loop hex CHR ''!'' r)"

definition strip_sign :: "string \<Rightarrow> bool \<times> string" where
  "strip_sign s = (case s of c # r \<Rightarrow> if c = CHR ''-'' then (True, r)
                                      else if c = CHR ''+'' then (False, r) else (False, s)
                   | [] \<Rightarrow> (False, s))"

definition underscoreOK :: "string \<Rightarrow> bool" where
  "underscoreOK s =
     (case snd (strip_sign s) of
        c # b # r \<Rightarrow> if c = CHR ''0'' \<and> lower b \<in> set ''box'' then us_loop (lower b = CHR ''x'') CHR ''0'' r
                      else us_loop False CHR ''^'' (c # b # r)
      | t \<Rightarrow> us_loop False CHR ''^'' t)"

definition mant_val :: "nat \<Rightarrow> nat list \<Rightarrow> nat" where
  "mant_val base ds = foldl (\<lambda>n d. n * base + d) 0 ds"

text \<open>The finite forms of \<^verbatim>\<open>strconv.readFloat\<close>, as an exact rational.\<close>

definition read_float :: "string \<Rightarrow> rat option" where
  "read_float s =
     (let (neg, t) = strip_sign s;
          hex = (2 < length t \<and> t ! 0 = CHR ''0'' \<and> lower (t ! 1) = CHR ''x'');
          base = (if hex then 16 else 10 :: nat);
          (ds, k, rest) = scan_mant hex False (if hex then drop 2 t else t);
          m = of_nat (mant_val base ds) * (of_nat base powi (- int k)) :: rat;
          signed = (\<lambda>v. if neg then - v else v :: rat);
          us = (CHR ''_'' \<in> set s \<longrightarrow> underscoreOK s)
      in if ds = [] then None
         else case rest of
                [] \<Rightarrow> if hex \<or> \<not> us then None else Some (signed m)
              | c # r \<Rightarrow>
                  if lower c \<noteq> (if hex then CHR ''p'' else CHR ''e'') then None
                  else (case scan_exp r of
                          None \<Rightarrow> None
                        | Some (e, rest') \<Rightarrow>
                            if rest' \<noteq> [] \<or> \<not> us then None
                            else Some (signed (m * ((if hex then 2 else 10) powi e)))))"

definition special_float :: "string \<Rightarrow> float64 option" where
  "special_float s =
     (let l = map lower s
      in if l \<in> {''inf'', ''infinity'', ''+inf'', ''+infinity''} then Some PosInf
         else if l \<in> {''-inf'', ''-infinity''} then Some NegInf
         else if l = ''nan'' then Some NaN
         else None)"

definition is_inf :: "float64 \<Rightarrow> bool" where
  "is_inf f \<longleftrightarrow> f = PosInf \<or> f = NegInf"

text \<open>\<^verbatim>\<open>strconv.ParseFloat(s, 64)\<close>: the value and whether there was no error. A syntax error
  gives 0, a value out of range gives an infinity, both with an error.\<close>

definition ParseFloat :: "string \<Rightarrow> float64 \<times> bool" where
  "ParseFloat s =
     (case special_float s of
        Some f \<Rightarrow> (f, True)
      | None \<Rightarrow> (case read_float s of
                   None \<Rightarrow> (Fin 0, False)
                 | Some q \<Rightarrow> (let f = f64_of_rat q in (f, \<not> is_inf f))))"

section \<open>Printing a float\<close>

definition ilog10 :: "rat \<Rightarrow> int" where
  "ilog10 q =
     (let (n, d) = quotient_of q;
          k = int (length (show_nat (nat n))) - int (length (show_nat (nat d)))
      in if 10 powi k \<le> q then k else k - 1)"

definition sig_digits :: "nat \<Rightarrow> rat \<Rightarrow> int \<times> int" where
  "sig_digits n q = (let e = ilog10 q - int n + 1 in (round_even (q / 10 powi e), e))"

fun shortest_from :: "nat \<Rightarrow> nat \<Rightarrow> rat \<Rightarrow> int \<times> int" where
  "shortest_from 0 n q = sig_digits n q"
| "shortest_from (Suc left) n q =
     (let (d, e) = sig_digits n q
      in if f64_of_rat (of_int d * 10 powi e) = Fin q then (d, e) else shortest_from left (Suc n) q)"

definition strip_zeros :: "string \<Rightarrow> string" where
  "strip_zeros s = rev (dropWhile (\<lambda>c. c = CHR ''0'') (rev s))"

text \<open>The shortest decimal digits that read back as the positive \<open>q\<close>, and the position of the
  decimal point: the value is \<open>0.ds \<times> 10 ^ dp\<close>.\<close>

definition shortest :: "rat \<Rightarrow> string \<times> int" where
  "shortest q =
     (let (d, e) = shortest_from 16 1 q; ds = show_nat (nat d)
      in (strip_zeros ds, int (length ds) + e))"

definition fmt_f :: "string \<Rightarrow> int \<Rightarrow> string" where
  "fmt_f ds dp =
     (if dp \<le> 0 then ''0.'' @ replicate (nat (- dp)) CHR ''0'' @ ds
      else if int (length ds) \<le> dp then ds @ replicate (nat dp - length ds) CHR ''0''
      else take (nat dp) ds @ ''.'' @ drop (nat dp) ds)"

definition fmt_e :: "string \<Rightarrow> int \<Rightarrow> string" where
  "fmt_e ds dp =
     take 1 ds @ (if length ds \<le> 1 then [] else ''.'' @ drop 1 ds) @
     (if dp - 1 < 0 then ''e-'' else ''e+'') @ show_nat (nat \<bar>dp - 1\<bar>)"

text \<open>\<^verbatim>\<open>encoding/json\<close>'s \<^verbatim>\<open>floatEncoder\<close>: \<open>None\<close> for the values it refuses.\<close>

definition fmt_float :: "float64 \<Rightarrow> string option" where
  "fmt_float f =
     (case f of
        Fin q \<Rightarrow>
          if q = 0 then Some ''0''
          else (let (ds, dp) = shortest \<bar>q\<bar>;
                    body = (if \<bar>q\<bar> < 1 / 10 ^ 6 \<or> 10 ^ 21 \<le> \<bar>q\<bar> then fmt_e ds dp else fmt_f ds dp)
                in Some (if q < 0 then CHR ''-'' # body else body))
      | _ \<Rightarrow> None)"

section \<open>Properties of rounding\<close>

lemma nbits_bounds: "0 < n \<Longrightarrow> 2 ^ (nbits n - 1) \<le> n \<and> n < 2 ^ nbits n \<and> 0 < nbits n"
proof (induction n rule: nbits.induct)
  case (1 n)
  show ?case
  proof (cases "n = 1")
    case True
    then show ?thesis by (simp add: nbits.simps)
  next
    case False
    with 1(2) have pos: "0 < n div 2" "n \<noteq> 0" by auto
    obtain k where k: "nbits (n div 2) = Suc k"
      using 1(1) [OF pos(2) pos(1)] by (cases "nbits (n div 2)") auto
    have "2 ^ k \<le> n div 2" "n div 2 < 2 ^ Suc k"
      using 1(1) [OF pos(2) pos(1)] by (simp_all add: k)
    moreover have "nbits n = Suc (Suc k)"
      using pos k by (subst nbits.simps) simp
    ultimately show ?thesis by auto
  qed
qed

lemma nbits_powi:
  assumes "0 < n"
  shows "2 powi (int (nbits n) - 1) \<le> (of_nat n :: rat)" and "(of_nat n :: rat) < 2 powi int (nbits n)"
proof -
  from nbits_bounds [OF assms] have b: "2 ^ (nbits n - 1) \<le> n" "n < 2 ^ nbits n" "0 < nbits n"
    by auto
  have "(2 :: rat) powi (int (nbits n) - 1) = 2 ^ (nbits n - 1)"
    using b(3) by (simp add: power_int_def nat_diff_distrib)
  also have "\<dots> = of_nat (2 ^ (nbits n - 1))" by simp
  also have "\<dots> \<le> of_nat n" using b(1) by (simp only: of_nat_le_iff)
  finally show "2 powi (int (nbits n) - 1) \<le> (of_nat n :: rat)" .
  have "(of_nat n :: rat) < of_nat (2 ^ nbits n)" using b(2) by (simp only: of_nat_less_iff)
  then show "(of_nat n :: rat) < 2 powi int (nbits n)" by simp
qed

lemma ilog2_bounds:
  assumes "0 < q"
  shows "2 powi ilog2 q \<le> q" and "q < 2 powi (ilog2 q + 1)"
proof -
  obtain n d where nd: "quotient_of q = (n, d)" by (cases "quotient_of q")
  have d: "0 < d" and q: "q = of_int n / of_int d"
    using nd quotient_of_denom_pos quotient_of_div by blast+
  have n: "0 < n"
    using assms d q by (simp add: zero_less_divide_iff)
  define a where "a = int (nbits (nat n))"
  define b where "b = int (nbits (nat d))"
  have nb: "2 powi (a - 1) \<le> (of_int n :: rat)" "(of_int n :: rat) < 2 powi a"
    using nbits_powi [of "nat n"] n by (simp_all add: a_def)
  have db: "2 powi (b - 1) \<le> (of_int d :: rat)" "(of_int d :: rat) < 2 powi b"
    using nbits_powi [of "nat d"] d by (simp_all add: b_def)
  have "2 powi (a - 1) / 2 powi b \<le> q"
    unfolding q using nb(1) db(2) d n by (intro frac_le) auto
  moreover have "(2 :: rat) powi (a - 1) / 2 powi b = 2 powi (a - b - 1)"
    by (simp add: power_int_diff [symmetric] algebra_simps)
  ultimately have lo: "2 powi (a - b - 1) \<le> q" by simp
  have "q < 2 powi a / 2 powi (b - 1)"
    unfolding q using nb(2) db(1) n by (intro frac_less) auto
  moreover have "(2 :: rat) powi a / 2 powi (b - 1) = 2 powi (a - b + 1)"
    by (simp add: power_int_diff [symmetric] algebra_simps)
  ultimately have hi: "q < 2 powi (a - b + 1)" by simp
  have il: "ilog2 q = (if 2 powi (a - b) \<le> q then a - b else a - b - 1)"
    by (simp add: ilog2_def nd a_def b_def)
  show "2 powi ilog2 q \<le> q" using lo by (simp add: il)
  show "q < 2 powi (ilog2 q + 1)" using hi by (simp add: il)
qed

lemma powi_le_mono: "m \<le> n \<Longrightarrow> (2 :: rat) powi m \<le> 2 powi n"
  by (rule power_int_increasing) auto

lemma powi_less_imp: "(2 :: rat) powi m < 2 powi n \<Longrightarrow> m < n"
  using powi_le_mono [of n m] by (meson not_le)

lemma ilog2_mono: "0 < q \<Longrightarrow> q \<le> q' \<Longrightarrow> ilog2 q \<le> ilog2 q'"
proof -
  assume "0 < q" "q \<le> q'"
  then have "2 powi ilog2 q < (2 :: rat) powi (ilog2 q' + 1)"
    using ilog2_bounds(1) [of q] ilog2_bounds(2) [of q'] by simp
  then show ?thesis using powi_less_imp by fastforce
qed

lemma round_even_of_int [simp]: "round_even (of_int n) = n"
  by (simp add: round_even_def)

lemma round_even_bounds: "\<lfloor>q\<rfloor> \<le> round_even q" "round_even q \<le> \<lfloor>q\<rfloor> + 1"
  by (simp_all add: round_even_def Let_def)

lemma round_even_mono: "q \<le> q' \<Longrightarrow> round_even q \<le> round_even q'"
proof -
  assume le: "q \<le> q'"
  show ?thesis
  proof (cases "\<lfloor>q\<rfloor> = \<lfloor>q'\<rfloor>")
    case True
    with le show ?thesis by (auto simp: round_even_def Let_def)
  next
    case False
    with floor_mono [OF le] have "\<lfloor>q\<rfloor> + 1 \<le> \<lfloor>q'\<rfloor>" by simp
    with round_even_bounds [of q] round_even_bounds [of q'] show ?thesis by linarith
  qed
qed

lemma round_even_le_int: "q \<le> of_int n \<Longrightarrow> round_even q \<le> n"
  using round_even_mono [of q "of_int n"] by simp

lemma round_even_ge_int: "of_int n \<le> q \<Longrightarrow> n \<le> round_even q"
  using round_even_mono [of "of_int n" q] by simp

lemma powi_nonneg_int: "0 \<le> e \<Longrightarrow> (2 :: rat) powi e = of_int (2 ^ nat e)"
  by (simp add: power_int_def)

lemma round_pos_le_pow:
  assumes "0 < q" "q \<le> 2 powi e" "quantum q \<le> e"
  shows "round_pos q \<le> 2 powi e"
proof -
  let ?k = "quantum q"
  have "q / 2 powi ?k \<le> 2 powi e / 2 powi ?k"
    using assms(2) by (intro divide_right_mono) auto
  also have "\<dots> = of_int (2 ^ nat (e - ?k))"
    using assms(3) by (simp add: power_int_diff [symmetric] powi_nonneg_int)
  finally have "round_even (q / 2 powi ?k) \<le> 2 ^ nat (e - ?k)"
    by (rule round_even_le_int)
  then have "(of_int (round_even (q / 2 powi ?k)) :: rat) \<le> of_int (2 ^ nat (e - ?k))"
    by (simp only: of_int_le_iff)
  also have "\<dots> = 2 powi (e - ?k)"
    using assms(3) by (simp add: powi_nonneg_int)
  finally have "round_pos q \<le> 2 powi (e - ?k) * 2 powi ?k"
    unfolding round_pos_def by (intro mult_right_mono) auto
  then show ?thesis by (simp add: power_int_add [symmetric])
qed

lemma round_pos_ge_pow:
  assumes "0 < q" "2 powi e \<le> q" "quantum q \<le> e"
  shows "2 powi e \<le> round_pos q"
proof -
  let ?k = "quantum q"
  have "(of_int (2 ^ nat (e - ?k)) :: rat) = 2 powi e / 2 powi ?k"
    using assms(3) by (simp add: power_int_diff [symmetric] powi_nonneg_int)
  also have "\<dots> \<le> q / 2 powi ?k"
    using assms(2) by (intro divide_right_mono) auto
  finally have "2 ^ nat (e - ?k) \<le> round_even (q / 2 powi ?k)"
    by (rule round_even_ge_int)
  then have r: "(of_int (2 ^ nat (e - ?k)) :: rat) \<le> of_int (round_even (q / 2 powi ?k))"
    by (simp only: of_int_le_iff)
  have "(2 :: rat) powi (e - ?k) = of_int (2 ^ nat (e - ?k))"
    using assms(3) by (intro powi_nonneg_int) simp
  with r have "2 powi (e - ?k) * 2 powi ?k \<le> round_pos q"
    unfolding round_pos_def by (intro mult_right_mono) (simp_all only: power_int_eq_0_iff zero_le_power_int zero_le_numeral)
  then show ?thesis by (simp add: power_int_add [symmetric])
qed

lemma round_pos_mono:
  assumes "0 < q" "q \<le> q'"
  shows "round_pos q \<le> round_pos q'"
proof (cases "quantum q = quantum q'")
  case True
  have "q / 2 powi quantum q' \<le> q' / 2 powi quantum q'"
    using assms(2) by (intro divide_right_mono) auto
  then show ?thesis
    unfolding round_pos_def True
    by (intro mult_right_mono) (auto dest: round_even_mono)
next
  case False
  let ?e = "ilog2 q'"
  have l: "ilog2 q \<le> ?e" using assms by (rule ilog2_mono)
  then have "quantum q < quantum q'"
    using False by (auto simp: quantum_def max_def split: if_splits)
  then have q': "quantum q' = ?e - 52" and e: "ilog2 q + 1 \<le> ?e" "quantum q \<le> ?e"
    using l by (auto simp: quantum_def max_def split: if_splits)
  have "q \<le> 2 powi (ilog2 q + 1)"
    using ilog2_bounds(2) [OF assms(1)] by simp
  also have "\<dots> \<le> 2 powi ?e"
    using e(1) by (rule powi_le_mono)
  finally have "round_pos q \<le> 2 powi ?e"
    using assms(1) e(2) by (intro round_pos_le_pow)
  also have "\<dots> \<le> round_pos q'"
    using assms q' ilog2_bounds(1) [of q'] by (intro round_pos_ge_pow) auto
  finally show ?thesis .
qed

lemma round_pos_nonneg: "0 < q \<Longrightarrow> 0 \<le> round_pos q"
  unfolding round_pos_def
  by (intro mult_nonneg_nonneg) (auto intro!: round_even_ge_int [of 0, simplified])

lemma f64_of_rat_mono: "q \<le> q' \<Longrightarrow> f64_of_rat q \<le> f64_of_rat q'"
proof -
  assume le: "q \<le> q'"
  consider "q \<le> 0" "0 \<le> q'" | "0 < q" | "q' < 0" by linarith
  then show ?thesis
  proof cases
    case 1
    then show ?thesis
      using round_pos_nonneg [of "- q"] round_pos_nonneg [of q']
      by (auto simp: f64_of_rat_def less_eq_float64_def Let_def)
  next
    case 2
    then show ?thesis
      using round_pos_mono [OF 2 le] le
      by (auto simp: f64_of_rat_def less_eq_float64_def Let_def)
  next
    case 3
    then show ?thesis
      using round_pos_mono [of "- q'" "- q"] le
      by (auto simp: f64_of_rat_def less_eq_float64_def Let_def)
  qed
qed

lemma round_pos_exact: "q / 2 powi quantum q = of_int m \<Longrightarrow> round_pos q = q"
  by (simp add: round_pos_def) (metis nonzero_divide_eq_eq power_int_not_zero zero_neq_numeral)

lemma ilog2_eqI:
  assumes "0 < q" "2 powi e \<le> q" "q < 2 powi (e + 1)"
  shows "ilog2 q = e"
proof -
  have "2 powi e < (2 :: rat) powi (ilog2 q + 1)"
    using assms ilog2_bounds(2) [of q] by simp
  moreover have "2 powi ilog2 q < (2 :: rat) powi (e + 1)"
    using assms ilog2_bounds(1) [of q] by simp
  ultimately show ?thesis by (auto dest!: powi_less_imp)
qed

lemma round_pos_int:
  assumes "0 < n" "n \<le> 2 ^ 53"
  shows "round_pos (of_int n) = of_int n"
proof (cases "n = 2 ^ 53")
  case True
  have "ilog2 (of_int n) = 53"
    unfolding True by (rule ilog2_eqI) simp_all
  then have "quantum (of_int n) = 1" by (simp add: quantum_def)
  then show ?thesis
    by (intro round_pos_exact [of _ "2 ^ 52"]) (simp add: True)
next
  case False
  with assms have "(of_int n :: rat) < of_int (2 ^ 53)" by (simp only: of_int_less_iff)
  then have "2 powi ilog2 (of_int n) < (2 :: rat) powi 53"
    using ilog2_bounds(1) [of "of_int n"] assms(1) by simp
  then have "ilog2 (of_int n) < 53" by (rule powi_less_imp)
  then have k: "quantum (of_int n) \<le> 0" by (simp add: quantum_def)
  define k where "k = quantum (of_int n)"
  have "(of_int n :: rat) / 2 powi k = of_int n * 2 powi (- k)"
    by (simp add: divide_inverse power_int_minus)
  also have "(2 :: rat) powi (- k) = of_int (2 ^ nat (- k))"
    using k by (intro powi_nonneg_int) (simp add: k_def)
  finally have "(of_int n :: rat) / 2 powi k = of_int (n * 2 ^ nat (- k))"
    by simp
  then show ?thesis unfolding k_def by (rule round_pos_exact)
qed

lemma f64_of_int_exact:
  assumes "\<bar>n\<bar> \<le> 2 ^ 53"
  shows "f64_of_rat (of_int n) = Fin (of_int n)"
proof -
  have lim: "(of_int m :: rat) < f64_limit" if "m \<le> 2 ^ 53" for m :: int
  proof -
    have "(of_int m :: rat) \<le> of_int (2 ^ 53)" using that by (simp only: of_int_le_iff)
    also have "\<dots> < f64_limit" unfolding f64_limit_def by simp
    finally show ?thesis .
  qed
  consider "n = 0" | "0 < n" "n \<le> 2 ^ 53" | "n < 0" "- n \<le> 2 ^ 53"
    using assms by linarith
  then show ?thesis
  proof cases
    case 2
    then show ?thesis
      using round_pos_int [of n] lim [of n] by (simp add: f64_of_rat_def)
  next
    case 3
    then show ?thesis
      using round_pos_int [of "- n"] lim [of "- n"] by (simp add: f64_of_rat_def)
  qed (simp add: f64_of_rat_def)
qed

lemma f64_less_Fin [simp]: "Fin a < Fin b \<longleftrightarrow> a < b" "Fin a \<le> Fin b \<longleftrightarrow> a \<le> b"
  by (auto simp: less_float64_def less_eq_float64_def)

lemma f64_not_NaN [simp]: "f64_of_rat q \<noteq> NaN"
  by (simp add: f64_of_rat_def Let_def)

lemma f64_not_less_iff: "x \<noteq> NaN \<Longrightarrow> y \<noteq> NaN \<Longrightarrow> \<not> x < y \<longleftrightarrow> y \<le> (x :: float64)"
  by (cases x; cases y) (auto simp: less_float64_def less_eq_float64_def)

end
