(* ===== verification/Json_Text.thy ===== *)
theory Json_Text
  imports Prelude
begin

text \<open>
  The JSON text format as \<^verbatim>\<open>encoding/json\<close> (Go 1.21) reads and writes it: a string is a list of
  bytes; \<open>quote\<close> is the encoder's string literal with HTML-sensitive bytes, control bytes and the
  two line separators escaped; \<open>next_token\<close> and \<open>run\<close> are the decoder's scanner, a machine with
  a stack of open arrays and objects which stops after one value and leaves the rest of the input;
  \<open>enc_json\<close> prints a document. The main result is \<open>decode_enc\<close>: what \<open>enc_json\<close> prints, \<open>decode\<close>
  reads back, leaving whatever follows it in the stream.
\<close>

section \<open>Documents\<close>

datatype json =
    JNull
  | JBool bool
  | JNum string
  | JStr string
  | JArr "json list"
  | JObj "(string \<times> json) list"

section \<open>UTF-8\<close>

definition cont_byte :: "nat \<Rightarrow> nat \<Rightarrow> char \<Rightarrow> bool" where
  "cont_byte lo hi c \<longleftrightarrow> lo \<le> char_code c \<and> char_code c \<le> hi"

text \<open>The length of the well-formed UTF-8 sequence at the head of the bytes, 0 if there is none:
  \<^verbatim>\<open>utf8.DecodeRune\<close>'s tables of first bytes and accepted ranges.\<close>

definition utf8_lead :: "char \<Rightarrow> nat" where
  "utf8_lead c =
     (let n = char_code c
      in if n < 128 then 1
         else if 194 \<le> n \<and> n \<le> 223 then 2
         else if 224 \<le> n \<and> n \<le> 239 then 3
         else if 240 \<le> n \<and> n \<le> 244 then 4
         else 0)"

definition utf8_second :: "char \<Rightarrow> char \<Rightarrow> bool" where
  "utf8_second c c1 \<longleftrightarrow>
     (let n = char_code c
      in cont_byte (if n = 224 then 160 else if n = 240 then 144 else 128)
           (if n = 237 then 159 else if n = 244 then 143 else 191) c1)"

definition utf8_tail :: "char \<Rightarrow> string \<Rightarrow> bool" where
  "utf8_tail c t \<longleftrightarrow>
     (case t of [] \<Rightarrow> True | c1 # cs \<Rightarrow> utf8_second c c1 \<and> list_all (cont_byte 128 191) cs)"

fun utf8_len :: "string \<Rightarrow> nat" where
  "utf8_len [] = 0"
| "utf8_len (c # r) =
     (let n = utf8_lead c; t = take (n - 1) r
      in if length t = n - 1 \<and> utf8_tail c t then n else 0)"

text \<open>\<^verbatim>\<open>utf8.EncodeRune\<close>; surrogates and values out of range become U+FFFD.\<close>

definition replacement :: string where
  "replacement = [CHR 0xEF, CHR 0xBF, CHR 0xBD]"

definition encode_rune :: "nat \<Rightarrow> string" where
  "encode_rune r =
     (if r < 128 then [char_of r]
      else if r < 2048 then [char_of (192 + r div 64), char_of (128 + r mod 64)]
      else if 55296 \<le> r \<and> r \<le> 57343 \<or> 1114111 < r then replacement
      else if r < 65536 then
        [char_of (224 + r div 4096), char_of (128 + r div 64 mod 64), char_of (128 + r mod 64)]
      else [char_of (240 + r div 262144), char_of (128 + r div 4096 mod 64),
            char_of (128 + r div 64 mod 64), char_of (128 + r mod 64)])"

section \<open>String literals\<close>

definition hex_digit :: "nat \<Rightarrow> char" where
  "hex_digit d = (if d < 10 then char_of (48 + d) else char_of (87 + d))"

definition hex_val :: "char \<Rightarrow> nat option" where
  "hex_val c =
     (let n = char_code c
      in if 48 \<le> n \<and> n \<le> 57 then Some (n - 48)
         else if 97 \<le> n \<and> n \<le> 102 then Some (n - 87)
         else if 65 \<le> n \<and> n \<le> 70 then Some (n - 55)
         else None)"

text \<open>One byte below 128, as \<^verbatim>\<open>appendString\<close> writes it with HTML escaping on.\<close>

definition esc_ascii :: "char \<Rightarrow> string" where
  "esc_ascii c =
     (let n = char_code c
      in if c = CHR 0x22 \<or> c = CHR 0x5C then [CHR 0x5C, c]
         else if c = CHR 0x0A then [CHR 0x5C, CHR ''n'']
         else if c = CHR 0x0D then [CHR 0x5C, CHR ''r'']
         else if c = CHR 0x09 then [CHR 0x5C, CHR ''t'']
         else if n < 32 \<or> c = CHR ''<'' \<or> c = CHR ''>'' \<or> c = CHR ''&'' then
           CHR 0x5C # ''u00'' @ [hex_digit (n div 16), hex_digit (n mod 16)]
         else [c])"

definition line_sep :: string where
  "line_sep = [CHR 0xE2, CHR 0x80, CHR 0xA8]"

definition para_sep :: string where
  "para_sep = [CHR 0xE2, CHR 0x80, CHR 0xA9]"

definition quote_rune :: "string \<Rightarrow> string" where
  "quote_rune t =
     (if t = line_sep then CHR 0x5C # ''u2028''
      else if t = para_sep then CHR 0x5C # ''u2029'' else t)"

function quote_body :: "string \<Rightarrow> string" where
  "quote_body s =
     (case s of
        [] \<Rightarrow> []
      | c # r \<Rightarrow>
          if char_code c < 128 then esc_ascii c @ quote_body r
          else if utf8_len s = 0 then CHR 0x5C # ''ufffd'' @ quote_body r
          else quote_rune (take (utf8_len s) s) @ quote_body (drop (utf8_len s) s))"
  by pat_completeness auto
termination
  by (relation "measure length") auto

declare quote_body.simps [simp del]

definition quote :: "string \<Rightarrow> string" where
  "quote s = CHR 0x22 # quote_body s @ [CHR 0x22]"

text \<open>The result of reading one lexical element: it and the rest, the input ended inside it, or
  a byte that cannot occur there.\<close>

datatype 'a lexed = Done 'a string | Partial | Bad

fun lex_map :: "('a \<Rightarrow> 'b) \<Rightarrow> 'a lexed \<Rightarrow> 'b lexed" where
  "lex_map f (Done x r) = Done (f x) r"
| "lex_map f Partial = Partial"
| "lex_map f Bad = Bad"

definition is_hex :: "char \<Rightarrow> bool" where
  "is_hex c \<longleftrightarrow> hex_val c \<noteq> None"

definition simple_escapes :: string where
  "simple_escapes = [CHR ''b'', CHR ''f'', CHR ''n'', CHR ''r'', CHR ''t'', CHR 0x5C, CHR ''/'', CHR 0x22]"

text \<open>The body of a literal, up to the closing quote: the raw bytes, checked as the scanner's
  string states check them.\<close>

fun scan_str :: "string \<Rightarrow> string lexed" where
  "scan_str [] = Partial"
| "scan_str (c # r) =
     (if c = CHR 0x22 then Done [] r
      else if c = CHR 0x5C then
        (case r of
           [] \<Rightarrow> Partial
         | e # r' \<Rightarrow>
             if e \<in> set simple_escapes then lex_map (\<lambda>b. c # e # b) (scan_str r')
             else if e = CHR ''u'' then
               (case r' of
                  h1 # h2 # h3 # h4 # r'' \<Rightarrow>
                    if is_hex h1 \<and> is_hex h2 \<and> is_hex h3 \<and> is_hex h4
                    then lex_map (\<lambda>b. c # e # h1 # h2 # h3 # h4 # b) (scan_str r'')
                    else Bad
                | _ \<Rightarrow> if list_all is_hex r' then Partial else Bad)
             else Bad)
      else if char_code c < 32 then Bad
      else lex_map (Cons c) (scan_str r))"

definition unescape :: "char \<Rightarrow> char" where
  "unescape e =
     (if e = CHR ''b'' then CHR 0x08 else if e = CHR ''f'' then CHR 0x0C
      else if e = CHR ''n'' then CHR 0x0A else if e = CHR ''r'' then CHR 0x0D
      else if e = CHR ''t'' then CHR 0x09 else e)"

text \<open>\<^verbatim>\<open>getu4\<close>: the code unit of a \<^verbatim>\<open>\u\<close> escape at the head of the bytes.\<close>

definition getu4 :: "string \<Rightarrow> nat option" where
  "getu4 s =
     (case s of
        b # u # h1 # h2 # h3 # h4 # _ \<Rightarrow>
          if b = CHR 0x5C \<and> u = CHR ''u'' then
            (case (hex_val h1, hex_val h2, hex_val h3, hex_val h4) of
               (Some a, Some b, Some c, Some d) \<Rightarrow> Some (((a * 16 + b) * 16 + c) * 16 + d)
             | _ \<Rightarrow> None)
          else None
      | _ \<Rightarrow> None)"

definition is_surrogate :: "nat \<Rightarrow> bool" where
  "is_surrogate r \<longleftrightarrow> 55296 \<le> r \<and> r < 57344"

definition utf16_pair :: "nat \<Rightarrow> nat \<Rightarrow> nat option" where
  "utf16_pair a b =
     (if 55296 \<le> a \<and> a < 56320 \<and> 56320 \<le> b \<and> b < 57344
      then Some ((a - 55296) * 1024 + (b - 56320) + 65536) else None)"

text \<open>\<^verbatim>\<open>unquoteBytes\<close> on a body that \<open>scan_str\<close> accepted.\<close>

function unquote :: "string \<Rightarrow> string" where
  "unquote s =
     (case s of
        [] \<Rightarrow> []
      | c # r \<Rightarrow>
          if c = CHR 0x5C then
            (case getu4 s of
               Some u \<Rightarrow>
                 if is_surrogate u then
                   (case getu4 (drop 6 s) of
                      Some u2 \<Rightarrow>
                        (case utf16_pair u u2 of
                           Some p \<Rightarrow> encode_rune p @ unquote (drop 12 s)
                         | None \<Rightarrow> replacement @ unquote (drop 6 s))
                    | None \<Rightarrow> replacement @ unquote (drop 6 s))
                 else encode_rune u @ unquote (drop 6 s)
             | None \<Rightarrow> (case r of e # r' \<Rightarrow> unescape e # unquote r' | [] \<Rightarrow> []))
          else if char_code c < 128 then c # unquote r
          else if utf8_len s = 0 then replacement @ unquote r
          else take (utf8_len s) s @ unquote (drop (utf8_len s) s))"
  by pat_completeness auto
termination
  by (relation "measure length") auto

declare unquote.simps [simp del]

section \<open>Number literals\<close>

definition lex_digits :: "string \<Rightarrow> string lexed" where
  "lex_digits s =
     (case s of
        [] \<Rightarrow> Partial
      | d # _ \<Rightarrow> if is_digit d then Done (takeWhile is_digit s) (dropWhile is_digit s) else Bad)"

definition exp_sign :: "string \<Rightarrow> string \<times> string" where
  "exp_sign s =
     (case s of
        d # t \<Rightarrow> if d = CHR ''+'' \<or> d = CHR ''-'' then ([d], t) else ([], s)
      | [] \<Rightarrow> ([], s))"

definition lex_exp :: "string \<Rightarrow> string lexed" where
  "lex_exp s =
     (case s of
        c # r \<Rightarrow>
          if c = CHR ''e'' \<or> c = CHR ''E''
          then lex_map (\<lambda>ds. c # fst (exp_sign r) @ ds) (lex_digits (snd (exp_sign r)))
          else Done [] s
      | [] \<Rightarrow> Done [] s)"

definition lex_then :: "string lexed \<Rightarrow> (string \<Rightarrow> string lexed) \<Rightarrow> string lexed" where
  "lex_then l f = (case l of Done x r \<Rightarrow> lex_map (\<lambda>y. x @ y) (f r) | e \<Rightarrow> e)"

definition lex_frac :: "string \<Rightarrow> string lexed" where
  "lex_frac s =
     (case s of
        c # r \<Rightarrow> if c = CHR ''.'' then lex_map (Cons c) (lex_then (lex_digits r) lex_exp) else lex_exp s
      | [] \<Rightarrow> Done [] s)"

definition lex_int :: "string \<Rightarrow> string lexed" where
  "lex_int s =
     (case s of
        [] \<Rightarrow> Partial
      | c # r \<Rightarrow>
          if c = CHR ''0'' then lex_map (Cons c) (lex_frac r)
          else lex_then (lex_digits s) lex_frac)"

definition lex_num :: "string \<Rightarrow> string lexed" where
  "lex_num s =
     (case s of
        c # r \<Rightarrow> if c = CHR ''-'' then lex_map (Cons c) (lex_int r) else lex_int s
      | [] \<Rightarrow> Partial)"

text \<open>\<^verbatim>\<open>isValidNumber\<close>: the whole text is one number literal.\<close>

definition is_number :: "string \<Rightarrow> bool" where
  "is_number s \<longleftrightarrow> lex_num s = Done s []"

section \<open>Tokens\<close>

datatype tok =
    TLBrace | TRBrace | TLBrack | TRBrack | TColon | TComma
  | TNull | TTrue | TFalse | TNum string | TStr string

datatype next_tok = Tok tok string | NoMore | TokPartial | TokBad

definition is_ws :: "char \<Rightarrow> bool" where
  "is_ws c \<longleftrightarrow> c \<in> {CHR '' '', CHR 0x09, CHR 0x0A, CHR 0x0D}"

definition lex_word :: "string \<Rightarrow> tok \<Rightarrow> string \<Rightarrow> next_tok" where
  "lex_word w t s =
     (if take (length w) s = w then Tok t (drop (length w) s)
      else if take (length s) w = s then TokPartial else TokBad)"

definition tok_of :: "('a \<Rightarrow> tok) \<Rightarrow> 'a lexed \<Rightarrow> next_tok" where
  "tok_of f l = (case l of Done x r \<Rightarrow> Tok (f x) r | Partial \<Rightarrow> TokPartial | Bad \<Rightarrow> TokBad)"

definition punct :: "char \<Rightarrow> tok option" where
  "punct = map_of [(CHR ''{'', TLBrace), (CHR ''}'', TRBrace), (CHR ''['', TLBrack),
     (CHR '']'', TRBrack), (CHR '':'', TColon), (CHR '','', TComma)]"

definition keyword :: "char \<Rightarrow> (string \<times> tok) option" where
  "keyword = map_of [(CHR ''t'', (''true'', TTrue)), (CHR ''f'', (''false'', TFalse)),
     (CHR ''n'', (''null'', TNull))]"

definition lex_tok :: "char \<Rightarrow> string \<Rightarrow> next_tok" where
  "lex_tok c r =
     (if c = CHR 0x22 then tok_of (\<lambda>b. TStr (unquote b)) (scan_str r)
      else if c = CHR ''-'' \<or> is_digit c then tok_of TNum (lex_num (c # r))
      else case punct c of
             Some t \<Rightarrow> Tok t r
           | None \<Rightarrow> (case keyword c of Some (w, t) \<Rightarrow> lex_word w t (c # r) | None \<Rightarrow> TokBad))"

definition next_token :: "string \<Rightarrow> next_tok" where
  "next_token s =
     (case dropWhile is_ws s of [] \<Rightarrow> NoMore | c # r \<Rightarrow> lex_tok c r)"

section \<open>The decoder\<close>

text \<open>Open arrays and objects, innermost first. An object's frame also holds the key whose value
  is being read.\<close>

datatype frame = InArr "json list" | InObj "(string \<times> json) list" string

datatype mode =
    WantValue      \<comment> \<open>a value must come\<close>
  | WantValueOrEnd \<comment> \<open>just after an opening bracket\<close>
  | WantKey        \<comment> \<open>after a comma in an object\<close>
  | WantKeyOrEnd   \<comment> \<open>just after an opening brace\<close>
  | WantColon
  | WantNext       \<comment> \<open>after an element or a member: a comma or the closing\<close>

datatype decoded = DOk json string | DEOF | DUnexpectedEOF | DSyntax

definition max_depth :: nat where
  "max_depth = 10000"

datatype action = Shift mode "frame list" | Finish json | Reject

definition deliver :: "json \<Rightarrow> frame list \<Rightarrow> action" where
  "deliver v st =
     (case st of
        [] \<Rightarrow> Finish v
      | InArr xs # st' \<Rightarrow> Shift WantNext (InArr (xs @ [v]) # st')
      | InObj kvs k # st' \<Rightarrow> Shift WantNext (InObj (kvs @ [(k, v)]) [] # st'))"

definition open_frame :: "mode \<Rightarrow> frame \<Rightarrow> frame list \<Rightarrow> action" where
  "open_frame m f st = (if length st < max_depth then Shift m (f # st) else Reject)"

definition begin_value :: "tok \<Rightarrow> frame list \<Rightarrow> action" where
  "begin_value t st =
     (case t of
        TLBrace \<Rightarrow> open_frame WantKeyOrEnd (InObj [] []) st
      | TLBrack \<Rightarrow> open_frame WantValueOrEnd (InArr []) st
      | TNull \<Rightarrow> deliver JNull st
      | TTrue \<Rightarrow> deliver (JBool True) st
      | TFalse \<Rightarrow> deliver (JBool False) st
      | TNum n \<Rightarrow> deliver (JNum n) st
      | TStr s \<Rightarrow> deliver (JStr s) st
      | _ \<Rightarrow> Reject)"

definition parse_step :: "mode \<Rightarrow> tok \<Rightarrow> frame list \<Rightarrow> action" where
  "parse_step m t st =
     (case m of
        WantValue \<Rightarrow> begin_value t st
      | WantValueOrEnd \<Rightarrow>
          (case (t, st) of
             (TRBrack, InArr xs # st') \<Rightarrow> deliver (JArr xs) st'
           | _ \<Rightarrow> begin_value t st)
      | WantKey \<Rightarrow>
          (case (t, st) of
             (TStr k, InObj kvs _ # st') \<Rightarrow> Shift WantColon (InObj kvs k # st')
           | _ \<Rightarrow> Reject)
      | WantKeyOrEnd \<Rightarrow>
          (case (t, st) of
             (TRBrace, InObj kvs _ # st') \<Rightarrow> deliver (JObj kvs) st'
           | (TStr k, InObj kvs _ # st') \<Rightarrow> Shift WantColon (InObj kvs k # st')
           | _ \<Rightarrow> Reject)
      | WantColon \<Rightarrow> (if t = TColon then Shift WantValue st else Reject)
      | WantNext \<Rightarrow>
          (case (t, st) of
             (TComma, InArr xs # st') \<Rightarrow> Shift WantValue st
           | (TRBrack, InArr xs # st') \<Rightarrow> deliver (JArr xs) st'
           | (TComma, InObj kvs k # st') \<Rightarrow> Shift WantKey st
           | (TRBrace, InObj kvs k # st') \<Rightarrow> deliver (JObj kvs) st'
           | _ \<Rightarrow> Reject))"

section \<open>Lexical elements consume input\<close>

lemma lex_map_Done [simp]: "lex_map f l = Done y r \<longleftrightarrow> (\<exists>x. l = Done x r \<and> y = f x)"
  by (cases l) auto

lemma lex_map_not [simp]: "lex_map f l = Partial \<longleftrightarrow> l = Partial" "lex_map f l = Bad \<longleftrightarrow> l = Bad"
  by (cases l; simp)+

lemma scan_str_shorter: "scan_str s = Done b r \<Longrightarrow> length r < length s"
  by (induction s arbitrary: b rule: scan_str.induct)
     (fastforce split: if_splits list.splits)+

lemma lex_then_Done [simp]:
  "lex_then l f = Done z t \<longleftrightarrow> (\<exists>x r y. l = Done x r \<and> f r = Done y t \<and> z = x @ y)"
  by (cases l) (auto simp: lex_then_def)

lemma lex_digits_split: "lex_digits s = Done x r \<Longrightarrow> x @ r = s \<and> x \<noteq> []"
  by (auto simp: lex_digits_def split: list.splits if_splits)

lemma exp_sign_split: "fst (exp_sign s) @ snd (exp_sign s) = s"
  by (simp add: exp_sign_def split: list.split)

lemma lex_exp_split: "lex_exp s = Done x r \<Longrightarrow> x @ r = s"
  by (auto simp: lex_exp_def dest!: lex_digits_split split: list.splits if_splits)
     (metis exp_sign_split)+

lemma lex_frac_split: "lex_frac s = Done x r \<Longrightarrow> x @ r = s"
  by (auto simp: lex_frac_def dest!: lex_digits_split lex_exp_split split: list.splits if_splits)

lemma lex_int_split: "lex_int s = Done x r \<Longrightarrow> x @ r = s \<and> x \<noteq> []"
  by (auto simp: lex_int_def dest!: lex_digits_split lex_frac_split split: list.splits if_splits)

lemma lex_num_split: "lex_num s = Done x r \<Longrightarrow> x @ r = s \<and> x \<noteq> []"
  by (auto simp: lex_num_def dest!: lex_int_split split: list.splits if_splits)

lemma lex_num_shorter: "lex_num s = Done x r \<Longrightarrow> length r < length s"
  using lex_num_split [of s x r] by (cases x) auto

lemma lex_word_shorter:
  "lex_word w t s = Tok t' r \<Longrightarrow> w \<noteq> [] \<Longrightarrow> s \<noteq> [] \<Longrightarrow> length r < length s"
  by (auto simp: lex_word_def split: if_split_asm)

lemma keyword_not_Nil: "keyword c = Some (w, t) \<Longrightarrow> w \<noteq> []"
  by (auto simp: keyword_def split: if_split_asm)

lemma tok_of_Tok [simp]: "tok_of f l = Tok t r \<longleftrightarrow> (\<exists>x. l = Done x r \<and> t = f x)"
  by (auto simp: tok_of_def split: lexed.splits)

lemma lex_tok_shorter:
  assumes "lex_tok c u = Tok t r"
  shows "length r < length (c # u)"
proof (cases "c = CHR 0x22")
  case True
  with assms show ?thesis by (auto simp: lex_tok_def dest: scan_str_shorter)
next
  case nq: False
  show ?thesis
  proof (cases "c = CHR ''-'' \<or> is_digit c")
    case True
    with assms nq have "\<exists>x. lex_num (c # u) = Done x r" by (auto simp: lex_tok_def)
    then show ?thesis by (blast dest: lex_num_shorter)
  next
    case False
    show ?thesis
    proof (cases "punct c")
      case None
      with assms nq False obtain w t' where "keyword c = Some (w, t')" "lex_word w t' (c # u) = Tok t r"
        by (auto simp: lex_tok_def split: option.splits)
      then show ?thesis using lex_word_shorter keyword_not_Nil by blast
    qed (use assms nq False in \<open>simp add: lex_tok_def\<close>)
  qed
qed

lemma next_token_shorter: "next_token s = Tok t r \<Longrightarrow> length r < length s"
proof -
  assume nt: "next_token s = Tok t r"
  have le: "length (dropWhile is_ws s) \<le> length s" by (rule length_dropWhile_le)
  obtain c u where cu: "dropWhile is_ws s = c # u"
    using nt by (cases "dropWhile is_ws s") (auto simp: next_token_def)
  with nt have "lex_tok c u = Tok t r" by (simp add: next_token_def)
  from lex_tok_shorter [OF this] le cu show ?thesis by simp
qed

function run :: "mode \<Rightarrow> frame list \<Rightarrow> string \<Rightarrow> decoded" where
  "run m st s =
     (case next_token s of
        NoMore \<Rightarrow> if st = [] then DEOF else DUnexpectedEOF
      | TokPartial \<Rightarrow> DUnexpectedEOF
      | TokBad \<Rightarrow> DSyntax
      | Tok t r \<Rightarrow>
          (case parse_step m t st of
             Shift m' st' \<Rightarrow> run m' st' r
           | Finish v \<Rightarrow> DOk v r
           | Reject \<Rightarrow> DSyntax))"
  by pat_completeness auto
termination
  by (relation "measure (\<lambda>(m, st, s). length s)") (auto dest: next_token_shorter)

declare run.simps [simp del]

definition decode :: "string \<Rightarrow> decoded" where
  "decode s = run WantValue [] s"

fun join :: "string list \<Rightarrow> string" where
  "join [] = []"
| "join [x] = x"
| "join (x # y # ys) = x @ CHR '','' # join (y # ys)"

definition enc_member :: "string \<times> string \<Rightarrow> string" where
  "enc_member kt = quote (fst kt) @ CHR '':'' # snd kt"

primrec enc_json :: "json \<Rightarrow> string" where
  "enc_json JNull = ''null''"
| "enc_json (JBool b) = (if b then ''true'' else ''false'')"
| "enc_json (JNum n) = n"
| "enc_json (JStr s) = quote s"
| "enc_json (JArr xs) = CHR ''['' # join (map enc_json xs) @ '']''"
| "enc_json (JObj kvs) = CHR ''{'' # join (map enc_member (map (map_prod id enc_json) kvs)) @ ''}''"

section \<open>Quoting round trip\<close>

function to_valid_utf8 :: "string \<Rightarrow> string" where
  "to_valid_utf8 s =
     (case s of
        [] \<Rightarrow> []
      | c # r \<Rightarrow> if utf8_len s = 0 then replacement @ to_valid_utf8 r
                 else take (utf8_len s) s @ to_valid_utf8 (drop (utf8_len s) s))"
  by pat_completeness auto
termination
  by (relation "measure length") auto

declare to_valid_utf8.simps [simp del]

definition valid_utf8 :: "string \<Rightarrow> bool" where
  "valid_utf8 s \<longleftrightarrow> to_valid_utf8 s = s"

lemma utf8_len_ascii [simp]: "char_code c < 128 \<Longrightarrow> utf8_len (c # r) = 1"
  by (simp add: utf8_lead_def utf8_tail_def)

declare utf8_len.simps(2) [simp del]

lemma utf8_len_le: "utf8_len s \<le> length s"
  by (cases s) (auto simp: utf8_len.simps Let_def)

lemma utf8_len_take_append:
  "0 < utf8_len s \<Longrightarrow> utf8_len (take (utf8_len s) s @ x) = utf8_len s"
proof (cases s)
  case (Cons c r)
  assume "0 < utf8_len s"
  then show ?thesis
    by (cases "utf8_lead c") (auto simp: Cons utf8_len.simps Let_def split: if_split_asm)
qed simp

lemma hex_val_hex_digit [simp]: "d < 16 \<Longrightarrow> hex_val (hex_digit d) = Some d"
  by (simp add: hex_val_def hex_digit_def Let_def)

lemma is_hex_hex_digit [simp]: "d < 16 \<Longrightarrow> is_hex (hex_digit d)"
  by (simp add: is_hex_def)

lemma is_hex_consts [simp]: "is_hex CHR ''0''" "is_hex CHR ''2''" "is_hex CHR ''8''" "is_hex CHR ''9''"
  "is_hex CHR ''f''" "is_hex CHR ''d''"
  by (simp_all add: is_hex_def hex_val_def)

lemma esc_ascii_cases:
  assumes "char_code c < 128"
  obtains (escaped) e where "esc_ascii c = [CHR 0x5C, e]" "e \<in> set simple_escapes" "e \<noteq> CHR ''u''" "unescape e = c"
  | (hex) "esc_ascii c = CHR 0x5C # ''u00'' @ [hex_digit (char_code c div 16), hex_digit (char_code c mod 16)]"
  | (plain) "esc_ascii c = [c]" "32 \<le> char_code c" "c \<noteq> CHR 0x22" "c \<noteq> CHR 0x5C"
proof -
  consider "c = CHR 0x22 \<or> c = CHR 0x5C" | "c = CHR 0x0A" | "c = CHR 0x0D" | "c = CHR 0x09"
    | "c \<noteq> CHR 0x22" "c \<noteq> CHR 0x5C" "c \<noteq> CHR 0x0A" "c \<noteq> CHR 0x0D" "c \<noteq> CHR 0x09"
    by blast
  then show thesis
  proof cases
    case 1
    then show thesis by (intro escaped [of c]) (auto simp: esc_ascii_def simple_escapes_def unescape_def)
  next
    case 2
    then show thesis by (intro escaped [of "CHR ''n''"]) (simp_all add: esc_ascii_def simple_escapes_def unescape_def)
  next
    case 3
    then show thesis by (intro escaped [of "CHR ''r''"]) (simp_all add: esc_ascii_def simple_escapes_def unescape_def)
  next
    case 4
    then show thesis by (intro escaped [of "CHR ''t''"]) (simp_all add: esc_ascii_def simple_escapes_def unescape_def)
  next
    case 5
    show thesis
    proof (cases "char_code c < 32 \<or> c = CHR ''<'' \<or> c = CHR ''>'' \<or> c = CHR ''&''")
      case True
      with 5 show thesis by (intro hex) (simp add: esc_ascii_def Let_def)
    next
      case False
      with 5 show thesis by (intro plain) (simp_all add: esc_ascii_def Let_def)
    qed
  qed
qed


lemma lex_map_comp: "lex_map f (lex_map g l) = lex_map (f \<circ> g) l"
  by (cases l) auto

lemma simple_escapes_not_u [simp]: "CHR ''u'' \<notin> set simple_escapes"
  by (simp add: simple_escapes_def)

lemma scan_str_u4:
  "list_all is_hex [h1, h2, h3, h4] \<Longrightarrow>
   scan_str (CHR 0x5C # CHR ''u'' # h1 # h2 # h3 # h4 # x) =
     lex_map (\<lambda>b. CHR 0x5C # CHR ''u'' # h1 # h2 # h3 # h4 # b) (scan_str x)"
  by simp

lemma scan_str_plain:
  "32 \<le> char_code c \<Longrightarrow> c \<noteq> CHR 0x22 \<Longrightarrow> c \<noteq> CHR 0x5C \<Longrightarrow> scan_str (c # x) = lex_map (Cons c) (scan_str x)"
  by simp

lemma scan_str_escaped:
  "e \<in> set simple_escapes \<Longrightarrow> scan_str (CHR 0x5C # e # x) = lex_map (\<lambda>b. CHR 0x5C # e # b) (scan_str x)"
  by simp

declare scan_str.simps(2) [simp del]

lemma scan_str_esc_ascii:
  assumes "char_code c < 128"
  shows "scan_str (esc_ascii c @ x) = lex_map (\<lambda>b. esc_ascii c @ b) (scan_str x)"
  using assms
proof (cases rule: esc_ascii_cases)
  case hex
  have "char_code c div 16 < 16" using assms by simp
  with hex show ?thesis by (simp add: scan_str_u4)
qed (simp_all add: scan_str_escaped scan_str_plain)

lemma scan_str_high:
  "list_all (\<lambda>c. 128 \<le> char_code c) t \<Longrightarrow> scan_str (t @ x) = lex_map (\<lambda>b. t @ b) (scan_str x)"
proof (induction t)
  case (Cons c t)
  then have "c \<noteq> CHR 0x22" "c \<noteq> CHR 0x5C" "32 \<le> char_code c" by auto
  with Cons show ?case by (simp add: scan_str_plain lex_map_comp comp_def)
qed (cases "scan_str x"; simp)

lemma cont_byte_high: "cont_byte lo hi c \<Longrightarrow> 128 \<le> lo \<Longrightarrow> 128 \<le> char_code c"
  by (simp add: cont_byte_def)

lemma utf8_second_high: "utf8_second c c1 \<Longrightarrow> 128 \<le> char_code c1"
  by (auto simp: utf8_second_def Let_def cont_byte_def split: if_split_asm)

lemma utf8_tail_high: "utf8_tail c t \<Longrightarrow> list_all (\<lambda>c. 128 \<le> char_code c) t"
  by (cases t) (auto simp: utf8_tail_def cont_byte_def list_all_iff dest: utf8_second_high)

lemma utf8_take_high:
  "128 \<le> char_code c \<Longrightarrow> list_all (\<lambda>c. 128 \<le> char_code c) (take (utf8_len (c # r)) (c # r))"
  by (cases "utf8_lead c") (auto simp: utf8_len.simps Let_def dest: utf8_tail_high)

lemma utf8_induct [case_names Nil ascii invalid rune]:
  assumes "P []"
    and "\<And>c r. char_code c < 128 \<Longrightarrow> P r \<Longrightarrow> P (c # r)"
    and "\<And>c r. 128 \<le> char_code c \<Longrightarrow> utf8_len (c # r) = 0 \<Longrightarrow> P r \<Longrightarrow> P (c # r)"
    and "\<And>t u. t \<noteq> [] \<Longrightarrow> list_all (\<lambda>c. 128 \<le> char_code c) t \<Longrightarrow>
           (\<And>x. utf8_len (t @ x) = length t) \<Longrightarrow> P u \<Longrightarrow> P (t @ u)"
  shows "P s"
proof (induction s rule: length_induct)
  case (1 s)
  show ?case
  proof (cases s)
    case (Cons c r)
    consider "char_code c < 128" | "128 \<le> char_code c" "utf8_len s = 0"
      | "128 \<le> char_code c" "0 < utf8_len s" by linarith
    then show ?thesis
    proof cases
      case 3
      let ?t = "take (utf8_len s) s" and ?u = "drop (utf8_len s) s"
      have "P ?u" using 3 1 Cons by simp
      then have "P (?t @ ?u)"
        using 3 utf8_len_take_append [of s] utf8_take_high [of c r] utf8_len_le [of s]
        by (intro assms(4)) (simp_all add: Cons min_def)
      then show ?thesis by simp
    qed (use 1 Cons assms(2,3) in auto)
  qed (simp add: assms(1))
qed

lemma quote_body_Nil [simp]: "quote_body [] = []"
  by (subst quote_body.simps) simp

lemma quote_body_ascii: "char_code c < 128 \<Longrightarrow> quote_body (c # r) = esc_ascii c @ quote_body r"
  by (subst quote_body.simps) simp

lemma quote_body_invalid:
  "128 \<le> char_code c \<Longrightarrow> utf8_len (c # r) = 0 \<Longrightarrow> quote_body (c # r) = CHR 0x5C # ''ufffd'' @ quote_body r"
  by (subst quote_body.simps) simp

lemma quote_body_rune:
  assumes "t \<noteq> []" "list_all (\<lambda>c. 128 \<le> char_code c) t" "utf8_len (t @ u) = length t"
  shows "quote_body (t @ u) = quote_rune t @ quote_body u"
  using assms by (cases t) (simp_all add: quote_body.simps [of "_ # _"])

lemmas quote_body_simps = quote_body_Nil quote_body_ascii quote_body_invalid quote_body_rune

lemma scan_str_quote_rune:
  "list_all (\<lambda>c. 128 \<le> char_code c) t \<Longrightarrow>
   scan_str (quote_rune t @ x) = lex_map (\<lambda>b. quote_rune t @ b) (scan_str x)"
  by (cases "scan_str x") (simp_all add: quote_rune_def scan_str_u4 scan_str_high)

lemma scan_str_quote_body: "scan_str (quote_body s @ CHR 0x22 # r) = Done (quote_body s) r"
  by (induction s rule: utf8_induct)
     (simp_all add: quote_body_simps scan_str_esc_ascii scan_str_u4 scan_str_quote_rune scan_str.simps)

lemma to_valid_utf8_Nil [simp]: "to_valid_utf8 [] = []"
  by (subst to_valid_utf8.simps) simp

lemma to_valid_utf8_ascii: "char_code c < 128 \<Longrightarrow> to_valid_utf8 (c # r) = c # to_valid_utf8 r"
  by (subst to_valid_utf8.simps) simp

lemma to_valid_utf8_invalid:
  "utf8_len (c # r) = 0 \<Longrightarrow> to_valid_utf8 (c # r) = replacement @ to_valid_utf8 r"
  by (subst to_valid_utf8.simps) simp

lemma to_valid_utf8_rune:
  assumes "t \<noteq> []" "utf8_len (t @ u) = length t"
  shows "to_valid_utf8 (t @ u) = t @ to_valid_utf8 u"
  using assms by (cases t) (simp_all add: to_valid_utf8.simps [of "_ # _"])

lemma unquote_Nil [simp]: "unquote [] = []"
  by (subst unquote.simps) simp

lemma unquote_plain: "char_code c < 128 \<Longrightarrow> c \<noteq> CHR 0x5C \<Longrightarrow> unquote (c # r) = c # unquote r"
  by (subst unquote.simps) simp

lemma unquote_escaped:
  "e \<noteq> CHR ''u'' \<Longrightarrow> unquote (CHR 0x5C # e # r) = unescape e # unquote r"
  by (subst unquote.simps) (simp add: getu4_def split: list.split)

lemma unquote_u4:
  assumes "getu4 (CHR 0x5C # CHR ''u'' # h1 # h2 # h3 # h4 # r) = Some u" "\<not> is_surrogate u"
  shows "unquote (CHR 0x5C # CHR ''u'' # h1 # h2 # h3 # h4 # r) = encode_rune u @ unquote r"
  using assms by (subst unquote.simps) simp

lemma unquote_rune:
  assumes "t \<noteq> []" "list_all (\<lambda>c. 128 \<le> char_code c) t" "utf8_len (t @ u) = length t"
  shows "unquote (t @ u) = t @ unquote u"
proof -
  obtain c r where t: "t = c # r" using assms(1) by (cases t) auto
  then have "c \<noteq> CHR 0x5C" "\<not> char_code c < 128" using assms(2) by auto
  with t assms(3) show ?thesis by (simp add: unquote.simps [of "c # _"])
qed

lemma unquote_esc_ascii:
  assumes "char_code c < 128"
  shows "unquote (esc_ascii c @ x) = c # unquote x"
  using assms
proof (cases rule: esc_ascii_cases)
  case hex
  have h: "char_code c div 16 < 16" using assms by simp
  have "hex_val CHR ''0'' = Some 0" by (simp add: hex_val_def)
  with h have "getu4 (esc_ascii c @ x) = Some (char_code c)"
    by (simp add: hex getu4_def)
  then have "unquote (esc_ascii c @ x) = encode_rune (char_code c) @ unquote x"
    using assms by (simp add: hex unquote_u4 is_surrogate_def)
  with assms show ?thesis by (simp add: encode_rune_def)
qed (use assms in \<open>simp_all add: unquote_escaped unquote_plain\<close>)

lemma hex_val_consts [simp]: "hex_val CHR ''0'' = Some 0" "hex_val CHR ''2'' = Some 2"
  "hex_val CHR ''8'' = Some 8" "hex_val CHR ''9'' = Some 9" "hex_val CHR ''f'' = Some 15"
  "hex_val CHR ''d'' = Some 13"
  by (simp_all add: hex_val_def)

lemma char_of_code: "char_code c = n \<Longrightarrow> char_of n = c"
  by auto

lemma char_of_consts [simp]: "char_of (226 :: nat) = CHR 0xE2" "char_of (128 :: nat) = CHR 0x80"
  "char_of (168 :: nat) = CHR 0xA8" "char_of (169 :: nat) = CHR 0xA9" "char_of (239 :: nat) = CHR 0xEF"
  "char_of (191 :: nat) = CHR 0xBF" "char_of (189 :: nat) = CHR 0xBD"
  by (rule char_of_code, simp)+

lemma unquote_quote_rune:
  assumes "t \<noteq> []" "list_all (\<lambda>c. 128 \<le> char_code c) t" "\<And>x. utf8_len (t @ x) = length t"
  shows "unquote (quote_rune t @ u) = t @ unquote u"
proof -
  have "unquote (CHR 0x5C # ''u2028'' @ u) = line_sep @ unquote u"
    by (simp add: unquote_u4 getu4_def is_surrogate_def encode_rune_def line_sep_def)
  moreover have "unquote (CHR 0x5C # ''u2029'' @ u) = para_sep @ unquote u"
    by (simp add: unquote_u4 getu4_def is_surrogate_def encode_rune_def para_sep_def)
  ultimately show ?thesis
    using unquote_rune [OF assms(1,2) assms(3)] by (simp add: quote_rune_def)
qed

lemma unquote_quote_body: "unquote (quote_body s) = to_valid_utf8 s"
proof (induction s rule: utf8_induct)
  case (invalid c r)
  then show ?case
    by (simp add: quote_body_invalid to_valid_utf8_invalid unquote_u4 getu4_def is_surrogate_def
        encode_rune_def replacement_def)
qed (simp_all add: quote_body_simps unquote_esc_ascii unquote_quote_rune to_valid_utf8_ascii to_valid_utf8_rune)


lemma to_valid_utf8_idem [simp]: "to_valid_utf8 (to_valid_utf8 s) = to_valid_utf8 s"
proof (induction s rule: utf8_induct)
  case (invalid c r)
  have "utf8_len (replacement @ x) = length replacement" for x
    by (simp add: replacement_def utf8_len.simps utf8_lead_def utf8_tail_def utf8_second_def cont_byte_def Let_def)
  moreover have "replacement \<noteq> []" by (simp add: replacement_def)
  ultimately show ?case using invalid
    by (simp add: to_valid_utf8_invalid to_valid_utf8_rune)
qed (simp_all add: to_valid_utf8_ascii to_valid_utf8_rune)

section \<open>The decoder reads back what the encoder prints\<close>

primrec jclean :: "json \<Rightarrow> json" where
  "jclean JNull = JNull"
| "jclean (JBool b) = JBool b"
| "jclean (JNum n) = JNum n"
| "jclean (JStr s) = JStr (to_valid_utf8 s)"
| "jclean (JArr xs) = JArr (map jclean xs)"
| "jclean (JObj kvs) = JObj (map (map_prod to_valid_utf8 jclean) kvs)"

primrec json_ok :: "json \<Rightarrow> bool" where
  "json_ok JNull = True"
| "json_ok (JBool b) = True"
| "json_ok (JNum n) = is_number n"
| "json_ok (JStr s) = True"
| "json_ok (JArr xs) = list_all json_ok xs"
| "json_ok (JObj kvs) = list_all (pred_prod (\<lambda>_. True) json_ok) kvs"

definition max_list :: "nat list \<Rightarrow> nat" where
  "max_list ns = foldr max ns 0"

primrec jdepth :: "json \<Rightarrow> nat" where
  "jdepth JNull = 0"
| "jdepth (JBool b) = 0"
| "jdepth (JNum n) = 0"
| "jdepth (JStr s) = 0"
| "jdepth (JArr xs) = Suc (max_list (map jdepth xs))"
| "jdepth (JObj kvs) = Suc (max_list (map snd (map (map_prod id jdepth) kvs)))"

lemma max_list_ge: "n \<in> set ns \<Longrightarrow> n \<le> max_list ns"
  by (induction ns) (auto simp: max_list_def)

lemma max_list_le: "max_list ns \<le> k \<longleftrightarrow> (\<forall>n \<in> set ns. n \<le> k)"
  by (induction ns) (auto simp: max_list_def)

definition num_end :: "string \<Rightarrow> bool" where
  "num_end x \<longleftrightarrow> (case x of [] \<Rightarrow> True | c # _ \<Rightarrow> \<not> is_digit c \<and> c \<notin> set ''.eE'')"

lemma num_end_simps [simp]: "num_end []" "num_end (CHR '','' # x)" "num_end (CHR '']'' # x)"
  "num_end (CHR ''}'' # x)" "num_end (CHR 0x0A # x)"
  by (simp_all add: num_end_def is_digit_def)

definition finish_action :: "action \<Rightarrow> string \<Rightarrow> decoded" where
  "finish_action a x =
     (case a of Shift m st \<Rightarrow> run m st x | Finish v \<Rightarrow> DOk v x | Reject \<Rightarrow> DSyntax)"

lemma run_tok: "next_token s = Tok t r \<Longrightarrow> run m st s = finish_action (parse_step m t st) r"
  by (subst run.simps) (simp add: finish_action_def)

lemma takeWhile_is_digit_append:
  assumes "dropWhile is_digit s = [] \<Longrightarrow> num_end x"
  shows "takeWhile is_digit (s @ x) = takeWhile is_digit s"
    and "dropWhile is_digit (s @ x) = dropWhile is_digit s @ x"
  using assms by (induction s) (auto simp: num_end_def split: list.splits)

text \<open>Reading a number literal stops where the literal stops, whatever follows it.\<close>

lemma lex_digits_append:
  "lex_digits s = Done d r \<Longrightarrow> (r = [] \<Longrightarrow> num_end x) \<Longrightarrow> lex_digits (s @ x) = Done d (r @ x)"
  using takeWhile_is_digit_append [of s x]
  by (cases s) (auto simp: lex_digits_def split: if_split_asm)

lemma exp_sign_append: "s \<noteq> [] \<Longrightarrow> exp_sign (s @ x) = (fst (exp_sign s), snd (exp_sign s) @ x)"
  by (cases s) (simp_all add: exp_sign_def)

lemma lex_exp_append:
  assumes "lex_exp s = Done e r" "r = [] \<Longrightarrow> num_end x"
  shows "lex_exp (s @ x) = Done e (r @ x)"
proof (cases s)
  case Nil
  with assms show ?thesis
    by (cases x) (auto simp: lex_exp_def num_end_def)
next
  case (Cons c t)
  show ?thesis
  proof (cases "c = CHR ''e'' \<or> c = CHR ''E''")
    case True
    with assms(1) Cons obtain d where d: "lex_digits (snd (exp_sign t)) = Done d r" "e = c # fst (exp_sign t) @ d"
      by (auto simp: lex_exp_def)
    then have "t \<noteq> []" by (auto simp: lex_digits_def exp_sign_def)
    with True Cons d lex_digits_append [OF d(1), of x] assms(2) show ?thesis
      by (auto simp: lex_exp_def exp_sign_append)
  qed (use Cons assms in \<open>auto simp: lex_exp_def\<close>)
qed

lemma lex_frac_append:
  assumes "lex_frac s = Done e r" "r = [] \<Longrightarrow> num_end x"
  shows "lex_frac (s @ x) = Done e (r @ x)"
proof (cases s)
  case Nil
  with assms show ?thesis
    by (cases x) (auto simp: lex_frac_def lex_exp_def num_end_def)
next
  case (Cons c t)
  show ?thesis
  proof (cases "c = CHR ''.''")
    case True
    with assms(1) Cons obtain d u y where d: "lex_digits t = Done d u" "lex_exp u = Done y r" "e = c # d @ y"
      by (auto simp: lex_frac_def)
    have u: "lex_exp (u @ x) = Done y (r @ x)" using d(2) assms(2) by (rule lex_exp_append)
    have "u = [] \<Longrightarrow> num_end x" using d(2) assms(2) by (auto simp: lex_exp_def)
    with lex_digits_append [OF d(1)] u d(3) True Cons show ?thesis by (auto simp: lex_frac_def)
  next
    case False
    with Cons assms lex_exp_append [of s e r x] show ?thesis by (simp add: lex_frac_def)
  qed
qed

lemma lex_int_append:
  assumes "lex_int s = Done e r" "r = [] \<Longrightarrow> num_end x"
  shows "lex_int (s @ x) = Done e (r @ x)"
proof (cases s)
  case Nil
  with assms show ?thesis by (simp add: lex_int_def)
next
  case (Cons c t)
  show ?thesis
  proof (cases "c = CHR ''0''")
    case True
    with assms Cons lex_frac_append [of t _ r x] show ?thesis by (auto simp: lex_int_def)
  next
    case False
    with assms(1) Cons obtain d u y where d: "lex_digits s = Done d u" "lex_frac u = Done y r" "e = d @ y"
      by (auto simp: lex_int_def)
    have u: "lex_frac (u @ x) = Done y (r @ x)" using d(2) assms(2) by (rule lex_frac_append)
    have "u = [] \<Longrightarrow> num_end x" using d(2) assms(2) by (auto simp: lex_frac_def)
    with lex_digits_append [OF d(1)] u d(3) False Cons show ?thesis by (auto simp: lex_int_def)
  qed
qed

lemma lex_num_append:
  assumes "lex_num s = Done e r" "r = [] \<Longrightarrow> num_end x"
  shows "lex_num (s @ x) = Done e (r @ x)"
  using assms lex_int_append [of s e r x] lex_int_append [of "tl s" _ r x]
  by (cases s) (auto simp: lex_num_def)


lemma next_token_punct [wire_simps]:
  "next_token (CHR ''{'' # x) = Tok TLBrace x" "next_token (CHR ''}'' # x) = Tok TRBrace x"
  "next_token (CHR ''['' # x) = Tok TLBrack x" "next_token (CHR '']'' # x) = Tok TRBrack x"
  "next_token (CHR '':'' # x) = Tok TColon x" "next_token (CHR '','' # x) = Tok TComma x"
  by (simp_all add: next_token_def is_ws_def lex_tok_def is_digit_def punct_def)

lemma next_token_words [wire_simps]:
  "next_token (''null'' @ x) = Tok TNull x" "next_token (''true'' @ x) = Tok TTrue x"
  "next_token (''false'' @ x) = Tok TFalse x"
  by (simp_all add: next_token_def is_ws_def lex_tok_def is_digit_def punct_def keyword_def lex_word_def)

lemma next_token_quote [wire_simps]:
  "next_token (quote s @ x) = Tok (TStr (to_valid_utf8 s)) x"
  by (simp add: next_token_def quote_def is_ws_def lex_tok_def scan_str_quote_body tok_of_def unquote_quote_body)

lemma is_number_head:
  assumes "is_number n"
  obtains c t where "n = c # t" "c = CHR ''-'' \<or> is_digit c"
proof (cases n)
  case (Cons c t)
  with assms have "c = CHR ''-'' \<or> is_digit c"
    by (auto simp: is_number_def lex_num_def lex_int_def lex_digits_def is_digit_def split: if_split_asm)
  with Cons show thesis by (rule that)
qed (use assms in \<open>simp add: is_number_def lex_num_def\<close>)

lemma next_token_num [wire_simps]:
  assumes "is_number n" "num_end x"
  shows "next_token (n @ x) = Tok (TNum n) x"
proof -
  obtain c t where n: "n = c # t" "c = CHR ''-'' \<or> is_digit c" using assms(1) by (rule is_number_head)
  have "lex_num (n @ x) = Done n x"
    using assms lex_num_append [of n n "[]" x] by (simp add: is_number_def)
  moreover have "\<not> is_ws c" "c \<noteq> CHR 0x22" using n(2) by (auto simp: is_ws_def is_digit_def)
  ultimately show ?thesis using n by (simp add: next_token_def lex_tok_def tok_of_def)
qed

lemma next_token_ws: "is_ws c \<Longrightarrow> next_token (c # s) = next_token s"
  by (simp add: next_token_def)

abbreviation value_mode :: "mode \<Rightarrow> bool" where
  "value_mode m \<equiv> m = WantValue \<or> m = WantValueOrEnd"

text \<open>
  The claim about a text of one document, for the induction: wherever a value may start, reading the text delivers the
  document. The lemmas on arrays and objects allow whitespace between the tokens, which serves the compact and the indented
  form.
\<close>

definition reads_as :: "string \<Rightarrow> json \<Rightarrow> bool" where
  "reads_as t v \<longleftrightarrow>
     (\<forall>m st x. value_mode m \<longrightarrow> length st + jdepth v \<le> max_depth \<longrightarrow> num_end x \<longrightarrow>
        run m st (t @ x) = finish_action (deliver (jclean v) st) x)"

abbreviation reads :: "json \<Rightarrow> bool" where
  "reads v \<equiv> reads_as (enc_json v) v"

lemma readsI:
  "(\<And>m st x. value_mode m \<Longrightarrow> length st + jdepth v \<le> max_depth \<Longrightarrow> num_end x \<Longrightarrow>
     run m st (t @ x) = finish_action (deliver (jclean v) st) x) \<Longrightarrow> reads_as t v"
  by (auto simp: reads_as_def)

lemma readsD:
  "reads_as t v \<Longrightarrow> value_mode m \<Longrightarrow> length st + jdepth v \<le> max_depth \<Longrightarrow> num_end x \<Longrightarrow>
     run m st (t @ x) = finish_action (deliver (jclean v) st) x"
  unfolding reads_as_def by blast

lemma begin_scalar [simp]:
  assumes "value_mode m"
  shows "parse_step m TNull st = deliver JNull st" "parse_step m TTrue st = deliver (JBool True) st"
    "parse_step m TFalse st = deliver (JBool False) st" "parse_step m (TNum n) st = deliver (JNum n) st"
    "parse_step m (TStr s) st = deliver (JStr s) st"
    "parse_step m TLBrack st = open_frame WantValueOrEnd (InArr []) st"
    "parse_step m TLBrace st = open_frame WantKeyOrEnd (InObj [] []) st"
  using assms by (auto simp: parse_step_def begin_value_def split: list.split frame.split)

lemma finish_simps [simp]:
  "finish_action (Shift m st) x = run m st x" "finish_action (Finish v) x = DOk v x"
  "finish_action Reject x = DSyntax"
  by (simp_all add: finish_action_def)

lemma deliver_frames [simp]:
  "deliver v (InArr ys # st) = Shift WantNext (InArr (ys @ [v]) # st)"
  "deliver v (InObj kvs k # st) = Shift WantNext (InObj (kvs @ [(k, v)]) [] # st)"
  "deliver v [] = Finish v"
  by (simp_all add: deliver_def)

lemma next_steps [simp]:
  "parse_step WantNext TComma (InArr xs # st) = Shift WantValue (InArr xs # st)"
  "parse_step WantNext TRBrack (InArr xs # st) = deliver (JArr xs) st"
  "parse_step WantNext TComma (InObj kvs k # st) = Shift WantKey (InObj kvs k # st)"
  "parse_step WantNext TRBrace (InObj kvs k # st) = deliver (JObj kvs) st"
  "parse_step WantColon TColon st = Shift WantValue st"
  "parse_step WantKey (TStr k) (InObj kvs k0 # st) = Shift WantColon (InObj kvs k # st)"
  "parse_step WantKeyOrEnd (TStr k) (InObj kvs k0 # st) = Shift WantColon (InObj kvs k # st)"
  "parse_step WantKeyOrEnd TRBrace (InObj kvs k0 # st) = deliver (JObj kvs) st"
  "parse_step WantValueOrEnd TRBrack (InArr xs # st) = deliver (JArr xs) st"
  by (simp_all add: parse_step_def)

lemma run_words:
  "run m st (CHR ''n'' # CHR ''u'' # CHR ''l'' # CHR ''l'' # x) = finish_action (parse_step m TNull st) x"
  "run m st (CHR ''t'' # CHR ''r'' # CHR ''u'' # CHR ''e'' # x) = finish_action (parse_step m TTrue st) x"
  "run m st (CHR ''f'' # CHR ''a'' # CHR ''l'' # CHR ''s'' # CHR ''e'' # x) = finish_action (parse_step m TFalse st) x"
  using next_token_words [of x] by (simp_all add: run_tok)

lemma run_ws: "list_all is_ws ws \<Longrightarrow> run m st (ws @ s) = run m st s"
proof (induction ws)
  case (Cons c ws)
  then have "next_token (c # ws @ s) = next_token (ws @ s)" by (simp add: next_token_ws)
  then have "run m st (c # ws @ s) = run m st (ws @ s)" by (subst (1 2) run.simps) simp
  with Cons show ?case by simp
qed simp

lemma num_end_ws: "list_all is_ws ws \<Longrightarrow> num_end (c # x) \<Longrightarrow> num_end (ws @ c # x)"
  by (cases ws) (auto simp: num_end_def is_ws_def is_digit_def)

text \<open>Texts separated by a comma and whitespace, and a member with whitespace after its colon.\<close>

fun join_ws :: "string \<Rightarrow> string list \<Rightarrow> string" where
  "join_ws ws [] = []"
| "join_ws ws [x] = x"
| "join_ws ws (x # y # ys) = x @ CHR '','' # ws @ join_ws ws (y # ys)"

definition member_ws :: "string \<Rightarrow> string \<times> string \<Rightarrow> string" where
  "member_ws ws kt = quote (fst kt) @ CHR '':'' # ws @ snd kt"

lemma compact [simp]: "join_ws [] ts = join ts" "member_ws [] = enc_member"
  by (induction ts rule: join.induct) (auto simp: member_ws_def enc_member_def)

lemma run_elements:
  assumes "list_all2 reads_as (t # ts) (v # vs)" "value_mode m"
    and "\<forall>v \<in> set (v # vs). Suc (length st) + jdepth v \<le> max_depth" "list_all is_ws ws" "list_all is_ws ws'"
  shows "run m (InArr ys # st) (join_ws ws (t # ts) @ ws' @ CHR '']'' # x) =
    finish_action (deliver (JArr (ys @ map jclean (v # vs))) st) x"
  using assms
proof (induction ts arbitrary: t v vs ys m)
  case Nil
  then have "reads_as t v" by simp
  with Nil show ?case
    by (simp add: readsD [of t v] num_end_ws run_ws run_tok [OF next_token_punct(4)])
next
  case (Cons t' ts)
  then have v: "reads_as t v" by simp
  from Cons obtain w vs' where vs: "vs = w # vs'" by (cases vs) auto
  let ?rest = "join_ws ws (t' # ts) @ ws' @ CHR '']'' # x"
  have "run m (InArr ys # st) (t @ CHR '','' # ws @ ?rest) = run WantValue (InArr (ys @ [jclean v]) # st) (ws @ ?rest)"
    using Cons.prems by (simp add: readsD [OF v] run_tok [OF next_token_punct(6)])
  also have "\<dots> = run WantValue (InArr (ys @ [jclean v]) # st) ?rest"
    using Cons.prems by (intro run_ws)
  also have "\<dots> = finish_action (deliver (JArr ((ys @ [jclean v]) @ map jclean (w # vs'))) st) x"
    using Cons.prems vs by (intro Cons.IH) auto
  finally show ?case by (simp add: vs)
qed

abbreviation key_mode :: "mode \<Rightarrow> bool" where
  "key_mode m \<equiv> m = WantKey \<or> m = WantKeyOrEnd"

definition reads_member :: "string \<times> string \<Rightarrow> string \<times> json \<Rightarrow> bool" where
  "reads_member kt kv \<longleftrightarrow> fst kt = fst kv \<and> reads_as (snd kt) (snd kv)"

lemma run_member:
  assumes "reads_member kt kv" "key_mode m" "Suc (length st) + jdepth (snd kv) \<le> max_depth" "num_end x" "list_all is_ws cs"
  shows "run m (InObj kvs k0 # st) (member_ws cs kt @ x) =
    run WantNext (InObj (kvs @ [map_prod to_valid_utf8 jclean kv]) [] # st) x"
proof -
  obtain k t v where kv: "kt = (k, t)" "kv = (k, v)" "reads_as t v"
    using assms(1) by (cases kt; cases kv) (auto simp: reads_member_def)
  have "run m (InObj kvs k0 # st) (quote k @ CHR '':'' # cs @ t @ x) =
      run WantColon (InObj kvs (to_valid_utf8 k) # st) (CHR '':'' # cs @ t @ x)"
    using assms(2) by (auto simp: run_tok [OF next_token_quote])
  also have "\<dots> = run WantValue (InObj kvs (to_valid_utf8 k) # st) (t @ x)"
    using assms(5) by (simp add: run_tok [OF next_token_punct(5)] run_ws)
  finally show ?thesis
    using assms kv by (simp add: member_ws_def readsD)
qed

lemma run_members:
  assumes "list_all2 reads_member (kt # kts) (kv # kvs)" "key_mode m"
    and "\<forall>kv \<in> set (kv # kvs). Suc (length st) + jdepth (snd kv) \<le> max_depth"
    and "list_all is_ws ws" "list_all is_ws ws'" "list_all is_ws cs"
  shows "run m (InObj ys k0 # st) (join_ws ws (map (member_ws cs) (kt # kts)) @ ws' @ CHR ''}'' # x) =
    finish_action (deliver (JObj (ys @ map (map_prod to_valid_utf8 jclean) (kv # kvs))) st) x"
  using assms
proof (induction kts arbitrary: kt kv kvs ys m k0)
  case Nil
  then have "reads_member kt kv" by simp
  with Nil show ?case
    by (simp add: run_member [of kt kv] num_end_ws run_ws run_tok [OF next_token_punct(2)])
next
  case (Cons kt' kts)
  then have v: "reads_member kt kv" by simp
  from Cons obtain kw kvs' where kvs: "kvs = kw # kvs'" by (cases kvs) auto
  let ?rest = "join_ws ws (map (member_ws cs) (kt' # kts)) @ ws' @ CHR ''}'' # x"
  let ?ys = "ys @ [map_prod to_valid_utf8 jclean kv]"
  have "run m (InObj ys k0 # st) (member_ws cs kt @ CHR '','' # ws @ ?rest) = run WantKey (InObj ?ys [] # st) (ws @ ?rest)"
    using Cons.prems by (simp add: run_member [OF v] run_tok [OF next_token_punct(6)])
  also have "\<dots> = run WantKey (InObj ?ys [] # st) ?rest"
    using Cons.prems by (intro run_ws)
  also have "\<dots> = finish_action (deliver (JObj (?ys @ map (map_prod to_valid_utf8 jclean) (kw # kvs'))) st) x"
    using Cons.prems kvs by (intro Cons.IH) auto
  finally show ?case by (simp add: kvs del: map_map)
qed

lemma run_array:
  assumes "list_all2 reads_as ts vs" "value_mode m" "length st + jdepth (JArr vs) \<le> max_depth"
    and "list_all is_ws ws" "list_all is_ws ws'"
  shows "run m st (CHR ''['' # ws @ join_ws ws ts @ ws' @ CHR '']'' # x) = finish_action (deliver (jclean (JArr vs)) st) x"
proof -
  have d: "\<forall>v \<in> set vs. Suc (length st) + jdepth v \<le> max_depth"
    using assms(3) max_list_ge [of _ "map jdepth vs"] by fastforce
  have "run m st (CHR ''['' # ws @ join_ws ws ts @ ws' @ CHR '']'' # x) =
      run WantValueOrEnd (InArr [] # st) (join_ws ws ts @ ws' @ CHR '']'' # x)"
    using assms by (simp add: run_tok [OF next_token_punct(3)] open_frame_def run_ws)
  also have "\<dots> = finish_action (deliver (jclean (JArr vs)) st) x"
  proof (cases ts)
    case Nil
    with assms show ?thesis by (simp add: run_ws run_tok [OF next_token_punct(4)])
  next
    case (Cons t ts')
    with assms(1) obtain v vs' where "vs = v # vs'" by (cases vs) auto
    with Cons assms d run_elements [of t ts' v vs' WantValueOrEnd st ws ws' "[]" x] show ?thesis by simp
  qed
  finally show ?thesis .
qed

lemma run_object:
  assumes "list_all2 reads_member kts kvs" "value_mode m" "length st + jdepth (JObj kvs) \<le> max_depth"
    and "list_all is_ws ws" "list_all is_ws ws'" "list_all is_ws cs"
  shows "run m st (CHR ''{'' # ws @ join_ws ws (map (member_ws cs) kts) @ ws' @ CHR ''}'' # x) =
    finish_action (deliver (jclean (JObj kvs)) st) x"
proof -
  have d: "\<forall>kv \<in> set kvs. Suc (length st) + jdepth (snd kv) \<le> max_depth"
    using assms(3) max_list_ge [of _ "map snd (map (map_prod id jdepth) kvs)"] by fastforce
  have "run m st (CHR ''{'' # ws @ join_ws ws (map (member_ws cs) kts) @ ws' @ CHR ''}'' # x) =
      run WantKeyOrEnd (InObj [] [] # st) (join_ws ws (map (member_ws cs) kts) @ ws' @ CHR ''}'' # x)"
    using assms by (simp add: run_tok [OF next_token_punct(1)] open_frame_def run_ws)
  also have "\<dots> = finish_action (deliver (jclean (JObj kvs)) st) x"
  proof (cases kts)
    case Nil
    with assms show ?thesis by (simp add: run_ws run_tok [OF next_token_punct(2)])
  next
    case (Cons kt kts')
    with assms(1) obtain kv kvs' where "kvs = kv # kvs'" by (cases kvs) auto
    with Cons assms d run_members [of kt kts' kv kvs' WantKeyOrEnd st ws ws' cs "[]" "[]" x] show ?thesis by simp
  qed
  finally show ?thesis .
qed

lemma reads_JArr: "\<forall>v \<in> set vs. reads v \<Longrightarrow> reads (JArr vs)"
proof (rule readsI)
  fix m :: mode and st :: "frame list" and x
  assume "\<forall>v \<in> set vs. reads v" "value_mode m" "length st + jdepth (JArr vs) \<le> max_depth"
  moreover from this(1) have "list_all2 reads_as (map enc_json vs) vs"
    by (simp add: list.rel_map list_all2_same)
  ultimately show "run m st (enc_json (JArr vs) @ x) = finish_action (deliver (jclean (JArr vs)) st) x"
    using run_array [of "map enc_json vs" vs m st "[]" "[]" x] by simp
qed

lemma run_JObj:
  assumes "\<forall>kv \<in> set kvs. reads (snd kv)" "value_mode m" "length st + jdepth (JObj kvs) \<le> max_depth"
  shows "run m st (enc_json (JObj kvs) @ x) = finish_action (deliver (jclean (JObj kvs)) st) x"
proof -
  have "list_all2 reads_member (map (map_prod id enc_json) kvs) kvs"
    using assms(1) by (simp add: list.rel_map list_all2_same reads_member_def)
  from run_object [OF this assms(2,3), of "[]" "[]" "[]" x] show ?thesis by simp
qed

lemma reads_JObj: "\<forall>kv \<in> set kvs. reads (snd kv) \<Longrightarrow> reads (JObj kvs)"
  by (rule readsI) (rule run_JObj)

lemma reads_json: "json_ok v \<Longrightarrow> reads v"
proof (induction v)
  case JNull
  show ?case by (rule readsI) (auto simp: run_words)
next
  case (JBool b)
  show ?case
    by (rule readsI) (auto simp: run_words)
next
  case (JNum n)
  then show ?case by (intro readsI) (auto simp: run_tok [OF next_token_num])
next
  case (JStr s)
  show ?case by (rule readsI) (auto simp: run_tok [OF next_token_quote])
next
  case (JArr vs)
  then show ?case by (intro reads_JArr) (simp add: list_all_iff)
next
  case (JObj kvs)
  then show ?case by (intro reads_JObj) (fastforce simp: list_all_iff pred_prod_beta snds.simps)
qed

lemma decode_enc:
  assumes "json_ok v" "jdepth v \<le> max_depth" "num_end x"
  shows "decode (enc_json v @ x) = DOk (jclean v) x"
  using readsD [OF reads_json [OF assms(1)], of WantValue "[]" x] assms(2,3)
  by (simp add: decode_def)

text \<open>An object is its own delimiter: whatever follows it, only the object is consumed.\<close>

lemma decode_enc_obj:
  assumes "json_ok (JObj kvs)" "jdepth (JObj kvs) \<le> max_depth"
  shows "decode (enc_json (JObj kvs) @ x) = DOk (jclean (JObj kvs)) x"
proof -
  have "\<forall>kv \<in> set kvs. reads (snd kv)"
    using assms(1) reads_json by (auto simp: list_all_iff pred_prod_beta)
  from run_JObj [OF this, of WantValue "[]" x] assms(2) show ?thesis
    by (simp add: decode_def)
qed

end
