(* ===== verification/Go_Values.thy ===== *)
theory Go_Values
  imports Float64 Json_Text
begin

text \<open>
  Go's dynamic values (\<^verbatim>\<open>any\<close>) as the program passes them around, and the two conversions of
  \<^verbatim>\<open>encoding/json\<close> between a value and a JSON document: \<open>marshal\<close> (\<^verbatim>\<open>json.Marshal\<close>, with map keys
  sorted) and \<open>to_any\<close> (decoding into \<^verbatim>\<open>any\<close> with \<^verbatim>\<open>UseNumber\<close>). \<open>marshal_canon\<close> says what a value
  becomes on the other side of the wire.
\<close>

section \<open>Values\<close>

datatype gval =
    GNil
  | GBool bool
  | GInt int                     \<comment> \<open>\<^verbatim>\<open>int\<close>\<close>
  | GInt64 int                   \<comment> \<open>\<^verbatim>\<open>int64\<close>\<close>
  | GFloat float64
  | GNum string                  \<comment> \<open>\<^verbatim>\<open>json.Number\<close>, the literal's text\<close>
  | GStr string
  | GNilList                     \<comment> \<open>the nil \<^verbatim>\<open>[]any\<close>\<close>
  | GList "gval list"            \<comment> \<open>\<^verbatim>\<open>[]any\<close>\<close>
  | GStrs "string list"          \<comment> \<open>\<^verbatim>\<open>[]string\<close>\<close>
  | GMapList "gval list"         \<comment> \<open>\<^verbatim>\<open>[]map[string]any\<close>\<close>
  | GMap "(string \<times> gval) list"  \<comment> \<open>\<^verbatim>\<open>map[string]any\<close>, one iteration order\<close>
  | GAnyMap "(gval \<times> gval) list" \<comment> \<open>\<^verbatim>\<open>map[any]any\<close>\<close>

type_synonym gmap = "gval go_map"

text \<open>The type assertions \<^verbatim>\<open>v.([]any)\<close>, \<^verbatim>\<open>v.(map[string]any)\<close> and \<^verbatim>\<open>v.(string)\<close>.\<close>

definition as_list :: "gval \<Rightarrow> gval list option" where
  "as_list v = (case v of GList xs \<Rightarrow> Some xs | GNilList \<Rightarrow> Some [] | _ \<Rightarrow> None)"

definition as_map :: "gval \<Rightarrow> gmap option" where
  "as_map v = (case v of GMap m \<Rightarrow> Some m | _ \<Rightarrow> None)"

definition as_string :: "gval \<Rightarrow> string option" where
  "as_string v = (case v of GStr s \<Rightarrow> Some s | _ \<Rightarrow> None)"

definition as_bool :: "gval \<Rightarrow> bool option" where
  "as_bool v = (case v of GBool b \<Rightarrow> Some b | _ \<Rightarrow> None)"

lemma as_list_simps [simp]:
  "as_list (GList xs) = Some xs" "as_list GNilList = Some []" "as_list (GMap m) = None"
  "as_list GNil = None" "as_list (GStr s) = None" "as_list (GStrs ss) = None"
  "as_list (GMapList ms) = None"
  by (simp_all add: as_list_def)

lemma as_map_simps [simp]:
  "as_map (GMap m) = Some m" "as_map (GStr s) = None" "as_map (GList xs) = None" "as_map GNil = None"
  "as_map GNilList = None" "as_map (GBool b) = None" "as_map (GInt i) = None" "as_map (GNum n) = None"
  by (simp_all add: as_map_def)

lemma as_string_simps [simp]:
  "as_string (GStr s) = Some s" "as_string (GMap m) = None" "as_string (GList xs) = None"
  "as_string GNil = None" "as_string (GBool b) = None" "as_string (GInt i) = None"
  "as_string (GNum n) = None"
  by (simp_all add: as_string_def)

lemma as_bool_simps [simp]: "as_bool (GBool b) = Some b" "as_bool GNil = None" "as_bool (GStr s) = None"
  by (simp_all add: as_bool_def)

lemma as_map_Some_iff: "as_map v = Some m \<longleftrightarrow> v = GMap m"
  by (cases v) (auto simp: as_map_def)

lemma as_string_Some_iff: "as_string v = Some s \<longleftrightarrow> v = GStr s"
  by (cases v) (auto simp: as_string_def)

lemma as_bool_Some_iff: "as_bool v = Some b \<longleftrightarrow> v = GBool b"
  by (cases v) (auto simp: as_bool_def)

lemma as_list_Some_iff: "as_list v = Some xs \<longleftrightarrow> v = GList xs \<or> (v = GNilList \<and> xs = [])"
  by (cases v) (auto simp: as_list_def)

section \<open>Marshalling\<close>

datatype marshal_error = UnsupportedValue | UnsupportedType | InvalidNumber

definition marshal_num :: "string \<Rightarrow> marshal_error + json" where
  "marshal_num s =
     (if s = [] then Inr (JNum ''0'') else if is_number s then Inr (JNum s) else Inl InvalidNumber)"

definition marshal_float :: "float64 \<Rightarrow> marshal_error + json" where
  "marshal_float f = (case fmt_float f of Some s \<Rightarrow> Inr (JNum s) | None \<Rightarrow> Inl UnsupportedValue)"

lemma size_map_member: "(k, v) \<in> set m \<Longrightarrow> size v < Suc (size_list (size_prod g size) m)"
  by (induction m) auto

function marshal :: "gval \<Rightarrow> marshal_error + json" where
  "marshal GNil = Inr JNull"
| "marshal (GBool b) = Inr (JBool b)"
| "marshal (GInt i) = Inr (JNum (show_int i))"
| "marshal (GInt64 i) = Inr (JNum (show_int i))"
| "marshal (GFloat f) = marshal_float f"
| "marshal (GNum s) = marshal_num s"
| "marshal (GStr s) = Inr (JStr s)"
| "marshal GNilList = Inr JNull"
| "marshal (GList xs) = (case mapR marshal xs of Inl e \<Rightarrow> Inl e | Inr js \<Rightarrow> Inr (JArr js))"
| "marshal (GStrs ss) = Inr (JArr (map JStr ss))"
| "marshal (GMapList xs) = (case mapR marshal xs of Inl e \<Rightarrow> Inl e | Inr js \<Rightarrow> Inr (JArr js))"
| "marshal (GMap m) =
     (case mapR (\<lambda>(k, v). case marshal v of Inl e \<Rightarrow> Inl e | Inr j \<Rightarrow> Inr (k, j)) (sort_key fst m) of
        Inl e \<Rightarrow> Inl e | Inr kjs \<Rightarrow> Inr (JObj kjs))"
| "marshal (GAnyMap m) = Inl UnsupportedType"
  by pat_completeness auto
termination
proof (relation "measure size", goal_cases)
  case (4 m kv k v)
  then show ?case using size_map_member [of k v m] by simp
qed (auto simp: size_list_estimation' less_Suc_eq_le)

section \<open>Decoding into any\<close>

definition map_of_members :: "(string \<times> 'v) list \<Rightarrow> 'v go_map" where
  "map_of_members kvs = fold (\<lambda>(k, v). AList.update k v) kvs []"

primrec to_any :: "json \<Rightarrow> gval" where
  "to_any JNull = GNil"
| "to_any (JBool b) = GBool b"
| "to_any (JNum n) = GNum n"
| "to_any (JStr s) = GStr s"
| "to_any (JArr xs) = GList (map to_any xs)"
| "to_any (JObj kvs) = GMap (map_of_members (map (map_prod id to_any) kvs))"
section \<open>What a value becomes on the wire\<close>

primrec canon :: "gval \<Rightarrow> gval" where
  "canon GNil = GNil"
| "canon (GBool b) = GBool b"
| "canon (GInt i) = GNum (show_int i)"
| "canon (GInt64 i) = GNum (show_int i)"
| "canon (GFloat f) = (case fmt_float f of Some s \<Rightarrow> GNum s | None \<Rightarrow> GNil)"
| "canon (GNum s) = GNum (if s = [] then ''0'' else s)"
| "canon (GStr s) = GStr (to_valid_utf8 s)"
| "canon GNilList = GNil"
| "canon (GList xs) = GList (map canon xs)"
| "canon (GStrs ss) = GList (map (\<lambda>s. GStr (to_valid_utf8 s)) ss)"
| "canon (GMapList xs) = GList (map canon xs)"
| "canon (GMap m) = GMap (sort_key fst (map (map_prod id canon) m))"
| "canon (GAnyMap m) = GNil"

primrec marshal_ok :: "gval \<Rightarrow> bool" where
  "marshal_ok GNil = True"
| "marshal_ok (GBool b) = True"
| "marshal_ok (GInt i) = True"
| "marshal_ok (GInt64 i) = True"
| "marshal_ok (GFloat f) = (case fmt_float f of Some s \<Rightarrow> is_number s | None \<Rightarrow> False)"
| "marshal_ok (GNum s) = (s = [] \<or> is_number s)"
| "marshal_ok (GStr s) = True"
| "marshal_ok GNilList = True"
| "marshal_ok (GList xs) = list_all marshal_ok xs"
| "marshal_ok (GStrs ss) = True"
| "marshal_ok (GMapList xs) = list_all marshal_ok xs"
| "marshal_ok (GMap m) =
     (go_map_ok m \<and> list_all (\<lambda>kv. valid_utf8 (fst kv)) m \<and> list_all (pred_prod (\<lambda>_. True) marshal_ok) m)"
| "marshal_ok (GAnyMap m) = False"

primrec gdepth :: "gval \<Rightarrow> nat" where
  "gdepth GNil = 0"
| "gdepth (GBool b) = 0"
| "gdepth (GInt i) = 0"
| "gdepth (GInt64 i) = 0"
| "gdepth (GFloat f) = 0"
| "gdepth (GNum s) = 0"
| "gdepth (GStr s) = 0"
| "gdepth GNilList = 0"
| "gdepth (GList xs) = Suc (max_list (map gdepth xs))"
| "gdepth (GStrs ss) = 1"
| "gdepth (GMapList xs) = Suc (max_list (map gdepth xs))"
| "gdepth (GMap m) = Suc (max_list (map snd (map (map_prod id gdepth) m)))"
| "gdepth (GAnyMap m) = 0"

text \<open>A value in the form the decoder produces.\<close>

definition is_wire :: "gval \<Rightarrow> bool" where
  "is_wire v \<longleftrightarrow> marshal_ok v \<and> canon v = v"

text \<open>Every map in the value lists each key once.\<close>

primrec gval_ok :: "gval \<Rightarrow> bool" where
  "gval_ok GNil = True"
| "gval_ok (GBool b) = True"
| "gval_ok (GInt i) = True"
| "gval_ok (GInt64 i) = True"
| "gval_ok (GFloat f) = True"
| "gval_ok (GNum s) = True"
| "gval_ok (GStr s) = True"
| "gval_ok GNilList = True"
| "gval_ok (GList xs) = list_all gval_ok xs"
| "gval_ok (GStrs ss) = True"
| "gval_ok (GMapList xs) = list_all gval_ok xs"
| "gval_ok (GMap m) = (go_map_ok m \<and> list_all (pred_prod (\<lambda>_. True) gval_ok) m)"
| "gval_ok (GAnyMap m) = list_all (pred_prod gval_ok gval_ok) m"

lemma list_all_pred_snd: "list_all (pred_prod (\<lambda>_. True) P) m \<longleftrightarrow> (\<forall>(k, v) \<in> set m. P v)"
  by (auto simp: list_all_iff)

lemma is_number_show_nat [simp]: "is_number (show_nat n)"
proof (cases "n = 0")
  case True
  then show ?thesis
    using char_of_code [of "CHR ''0''" 48]
    by (simp add: is_number_def show_nat.simps digit_char_def lex_num_def lex_int_def lex_frac_def)
next
  case False
  obtain c r where cr: "show_nat n = c # r" by (cases "show_nat n") auto
  have "c \<noteq> CHR ''0''" "c \<noteq> CHR ''-''"
    using show_nat_no_leading_zero [of n] False show_nat_hd_sign [OF cr] cr by auto
  moreover have "lex_digits (show_nat n) = Done (show_nat n) []"
    using list_all_is_digit_show_nat [of n] cr
    by (auto simp: lex_digits_def list_all_iff)
  ultimately show ?thesis
    by (simp add: is_number_def lex_num_def lex_int_def cr lex_frac_def)
qed

lemma is_number_show_int [simp]: "is_number (show_int i)"
proof (cases "i < 0")
  case True
  obtain c r where cr: "show_nat (nat (- i)) = c # r" by (cases "show_nat (nat (- i))") auto
  have "lex_num (c # r) = lex_int (c # r)"
    using show_nat_hd_sign [OF cr] by (simp add: lex_num_def)
  with is_number_show_nat [of "nat (- i)"] True show ?thesis
    by (simp add: is_number_def show_int_def lex_num_def cr)
qed (simp add: show_int_def)

lemma AList_update_new: "k \<notin> fst ` set m \<Longrightarrow> AList.update k v m = m @ [(k, v)]"
  by (induction m) auto

lemma fold_update_new:
  "distinct (map fst (acc @ kvs)) \<Longrightarrow> fold (\<lambda>(k, v). AList.update k v) kvs acc = acc @ kvs"
proof (induction kvs arbitrary: acc)
  case (Cons kv kvs)
  obtain k v where kv: "kv = (k, v)" by (cases kv)
  have "AList.update k v acc = acc @ [kv]"
    using Cons.prems by (simp add: kv AList_update_new)
  with Cons kv show ?case by simp
qed simp

lemma map_of_members_id: "go_map_ok kvs \<Longrightarrow> map_of_members kvs = kvs"
  using fold_update_new [of "[]" kvs] by (simp add: map_of_members_def go_map_ok_def)

lemma go_map_ok_fold_update:
  "go_map_ok acc \<Longrightarrow> go_map_ok (fold (\<lambda>(k, v). AList.update k v) kvs acc)"
  by (induction kvs arbitrary: acc) (auto split: prod.splits)

lemma go_map_ok_members [simp]: "go_map_ok (map_of_members kvs)"
  by (simp add: map_of_members_def go_map_ok_fold_update)

lemma set_fold_update:
  "set (fold (\<lambda>(k, v). AList.update k v) kvs acc) \<subseteq> set kvs \<union> set acc"
proof (induction kvs arbitrary: acc)
  case (Cons kv kvs)
  have "set (AList.update (fst kv) (snd kv) acc) \<subseteq> insert kv (set acc)"
    by (induction acc) auto
  with Cons [of "AList.update (fst kv) (snd kv) acc"] show ?case by (cases kv) auto
qed simp

lemma set_map_of_members: "set (map_of_members kvs) \<subseteq> set kvs"
  using set_fold_update [of kvs "[]"] by (simp add: map_of_members_def)

lemma map_of_fold_update:
  "map_of (fold (\<lambda>(k, v). AList.update k v) kvs acc) k =
     (case map_of (rev kvs) k of Some v \<Rightarrow> Some v | None \<Rightarrow> map_of acc k)"
  by (induction kvs arbitrary: acc)
     (auto simp: update_conv' map_add_def split: option.splits)

text \<open>A repeated member overrides the earlier ones.\<close>

lemma map_of_map_of_members: "map_of (map_of_members kvs) k = map_of (rev kvs) k"
  by (simp add: map_of_members_def map_of_fold_update split: option.split)

lemma gval_ok_to_any [simp]: "gval_ok (to_any j)"
proof (induction j)
  case (JObj kvs)
  have "\<forall>(k, v) \<in> set (map (map_prod id to_any) kvs). gval_ok v"
    using JObj by (auto simp: snds.simps)
  with set_map_of_members [of "map (map_prod id to_any) kvs"]
  have "\<forall>(k, v) \<in> set (map_of_members (map (map_prod id to_any) kvs)). gval_ok v"
    by blast
  then show ?case by (simp add: list_all_pred_snd)
qed (auto simp: list_all_iff)

lemma insort_key_map_snd:
  "insort_key fst (map_prod id c x) (map (map_prod id c) xs) = map (map_prod id c) (insort_key fst x xs)"
  by (induction xs) auto

lemma sort_key_map_snd: "sort_key fst (map (map_prod id c) m) = map (map_prod id c) (sort_key fst m)"
proof (induction m)
  case (Cons x m)
  have "sort_key fst (map (map_prod id c) (x # m)) =
      insort_key fst (map_prod id c x) (sort_key fst (map (map_prod id c) m))"
    by simp
  also have "\<dots> = map (map_prod id c) (sort_key fst (x # m))"
    unfolding Cons.IH insort_key_map_snd by simp
  finally show ?case .
qed simp

lemma go_map_ok_sort [simp]: "go_map_ok (sort_key fst m) \<longleftrightarrow> go_map_ok m"
  by (rule go_map_ok_perm) simp

lemma go_map_ok_map_snd [simp]: "go_map_ok (map (map_prod id f) m) \<longleftrightarrow> go_map_ok m"
  by (simp add: go_map_ok_def comp_def)

text \<open>\<open>carries v j\<close>: the document \<open>j\<close> is what \<open>v\<close> marshals to, and decoding it gives \<open>canon v\<close>.\<close>

definition carries :: "gval \<Rightarrow> json \<Rightarrow> bool" where
  "carries v j \<longleftrightarrow>
     marshal v = Inr j \<and> json_ok j \<and> jdepth j = gdepth v \<and> to_any (jclean j) = canon v"

lemma carries_list:
  assumes "list_all2 carries xs js"
  shows "mapR marshal xs = Inr js" "list_all json_ok js" "map jdepth js = map gdepth xs"
    "map to_any (map jclean js) = map canon xs"
  using assms by (induction rule: list_all2_induct) (auto simp: carries_def)

lemma carries_members:
  assumes "list_all2 (\<lambda>(k, v) (k', j). k' = k \<and> carries v j) m js"
  shows "mapR (\<lambda>(k, v). case marshal v of Inl e \<Rightarrow> Inl e | Inr j \<Rightarrow> Inr (k, j)) m = Inr js"
    "list_all (pred_prod (\<lambda>_. True) json_ok) js" 
    "map (map_prod id jdepth) js = map (map_prod id gdepth) m"
    "map (map_prod id to_any) (map (map_prod id jclean) js) = map (map_prod id canon) m"
  using assms by (induction rule: list_all2_induct) (auto simp: carries_def)

lemma list_all2_ex: "(\<And>x. x \<in> set xs \<Longrightarrow> \<exists>y. P x y) \<Longrightarrow> \<exists>ys. list_all2 P xs ys"
proof (induction xs)
  case (Cons x xs)
  then obtain y ys where "P x y" "list_all2 P xs ys" by (metis list.set_intros)
  then have "list_all2 P (x # xs) (y # ys)" by simp
  then show ?case by blast
qed (auto intro: exI [of _ "[]"])

lemma max_list_mset: "mset xs = mset ys \<Longrightarrow> max_list xs = max_list ys"
  by (intro order_antisym) (simp_all add: max_list_le max_list_ge mset_eq_setD [of xs ys])

lemma marshal_strs: "carries (GStrs ss) (JArr (map JStr ss))"
  by (auto simp: carries_def list_all_iff comp_def max_list_def foldr_map)
     (induction ss; simp)+

lemma carries_GMap:
  assumes "list_all2 (\<lambda>(k, v) (k', j). k' = k \<and> carries v j) (sort_key fst m) js"
    and ok: "go_map_ok m" and keys: "list_all (\<lambda>kv. valid_utf8 (fst kv)) m"
  shows "carries (GMap m) (JObj js)"
proof -
  note c = carries_members [OF assms(1)]
  have jk: "map fst js = map fst (sort_key fst m)"
    using assms(1) by (induction rule: list_all2_induct) auto
  have "\<forall>kj \<in> set js. to_valid_utf8 (fst kj) = fst kj"
    using keys arg_cong [OF jk, of set] by (force simp: list_all_iff valid_utf8_def)
  then have cl: "map (map_prod to_valid_utf8 jclean) js = map (map_prod id jclean) js"
    by (auto simp: map_prod_def)
  have "mset (map snd (map (map_prod id gdepth) (sort_key fst m))) =
      mset (map snd (map (map_prod id gdepth) m))"
    by (simp only: mset_map mset_sort)
  then have "jdepth (JObj js) = gdepth (GMap m)"
    using c(3) by (simp add: max_list_mset del: map_map)
  moreover have "to_any (jclean (JObj js)) = canon (GMap m)"
    using c(4) ok by (simp add: cl sort_key_map_snd map_of_members_id del: map_map)
  ultimately show ?thesis
    using c by (simp add: carries_def)
qed

theorem marshal_canon: "marshal_ok v \<Longrightarrow> \<exists>j. carries v j"
proof (induction v)
  case (GList xs)
  then have "\<exists>js. list_all2 carries xs js"
    by (intro list_all2_ex) (auto simp: list_all_iff)
  then obtain js where "list_all2 carries xs js" ..
  from carries_list [OF this] have "carries (GList xs) (JArr js)"
    by (simp add: carries_def del: map_map)
  then show ?case ..
next
  case (GMapList xs)
  then have "\<exists>js. list_all2 carries xs js"
    by (intro list_all2_ex) (auto simp: list_all_iff)
  then obtain js where "list_all2 carries xs js" ..
  from carries_list [OF this] have "carries (GMapList xs) (JArr js)"
    by (simp add: carries_def del: map_map)
  then show ?case ..
next
  case (GMap m)
  have "\<exists>j. carries v j" if "(k, v) \<in> set m" for k v
    using GMap that by (auto simp: list_all_pred_snd snds.simps)
  then have "\<exists>js. list_all2 (\<lambda>(k, v) (k', j). k' = k \<and> carries v j) (sort_key fst m) js"
    by (intro list_all2_ex) auto
  then obtain js where "list_all2 (\<lambda>(k, v) (k', j). k' = k \<and> carries v j) (sort_key fst m) js" ..
  from carries_GMap [OF this] GMap.prems have "carries (GMap m) (JObj js)" by simp
  then show ?case ..
next
  case (GStrs ss)
  show ?case using marshal_strs ..
next
  case (GFloat f)
  then show ?case by (auto simp: carries_def marshal_float_def split: option.splits)
next
  case (GNum s)
  have "is_number ''0''" using is_number_show_nat [of 0] char_of_code [of "CHR ''0''" 48]
    by (simp add: show_nat.simps digit_char_def)
  then show ?case using GNum by (auto simp: carries_def marshal_num_def)
qed (force simp: carries_def)+

lemma is_wire_simps [simp]:
  "is_wire GNil" "is_wire (GBool b)" "\<not> is_wire (GInt i)" "\<not> is_wire (GInt64 i)"
  "\<not> is_wire (GFloat f)" "\<not> is_wire GNilList" "\<not> is_wire (GStrs ss)" "\<not> is_wire (GMapList ms)"
  "\<not> is_wire (GAnyMap am)"
  "is_wire (GStr s) \<longleftrightarrow> valid_utf8 s" "is_wire (GNum s) \<longleftrightarrow> is_number s"
  "is_wire (GList xs) \<longleftrightarrow> list_all is_wire xs"
  by (auto simp: is_wire_def valid_utf8_def list_all_iff is_number_def map_idI lex_num_def split: option.splits if_splits
      dest: map_eq_conv [THEN iffD1, of canon _ id, simplified])

text \<open>The decoder's form of a value can be marshalled as well, and is its own form.\<close>

lemma show_int_not_Nil: "show_int i \<noteq> []"
  using is_number_show_int [of i] by (auto simp: is_number_def lex_num_def)

lemma is_number_ends: "is_number ''0''" "\<not> is_number []"
  using is_number_show_nat [of 0] char_of_code [of "CHR ''0''" 48]
  by (simp_all add: show_nat.simps digit_char_def is_number_def lex_num_def)

lemma max_list_zero: "max_list (map (\<lambda>x. 0) xs) = 0"
  by (induction xs) (simp_all add: max_list_def)

lemma canon_map_idem:
  assumes "\<And>k v. (k, v) \<in> set m \<Longrightarrow> canon (f v) = f v"
  shows "canon (GMap (sort_key fst (map (map_prod id f) m))) = GMap (sort_key fst (map (map_prod id f) m))"
proof -
  have "map (map_prod id canon) (map (map_prod id f) m) = map (map_prod id f) m"
    using assms by (auto simp: map_prod_def)
  moreover have "sort_key fst (sort_key fst xs) = sort_key fst xs" for xs :: "(string \<times> gval) list"
    by (rule sort_key_id_if_sorted) simp
  ultimately show ?thesis by (simp add: sort_key_map_snd [symmetric] del: map_map)
qed

lemma canon_wire:
  assumes "marshal_ok v"
  shows "marshal_ok (canon v) \<and> canon (canon v) = canon v \<and> gdepth (canon v) = gdepth v"
  using assms
proof (induction v)
  case (GList xs)
  then show ?case by (simp add: list_all_iff max_list_def comp_def cong: map_cong)
next
  case (GMapList xs)
  then show ?case by (simp add: list_all_iff max_list_def comp_def cong: map_cong)
next
  case (GMap m)
  then have IH: "marshal_ok (canon v) \<and> canon (canon v) = canon v \<and> gdepth (canon v) = gdepth v" if "(k, v) \<in> set m" for k v
    using that by (auto simp: list_all_pred_snd snds.simps)
  let ?m = "sort_key fst (map (map_prod id canon) m)"
  have set: "set ?m = map_prod id canon ` set m" by simp
  have depths: "map (snd \<circ> map_prod id gdepth) (map (map_prod id canon) m) = map (snd \<circ> map_prod id gdepth) m"
    using IH by auto
  have perm: "mset (map (snd \<circ> map_prod id gdepth) ?m) = mset (map (snd \<circ> map_prod id gdepth) (map (map_prod id canon) m))"
    by (simp only: mset_map mset_sort)
  have "gdepth (GMap ?m) = gdepth (GMap m)"
    using max_list_mset [OF perm, unfolded depths] by (simp only: gdepth.simps map_map)
  moreover have "marshal_ok (GMap ?m)"
  proof -
    have "go_map_ok ?m" using GMap.prems by (simp del: map_map)
    moreover have "list_all (\<lambda>kv. valid_utf8 (fst kv)) ?m" using GMap.prems by (simp add: list_all_iff)
    moreover have "list_all (pred_prod (\<lambda>_. True) marshal_ok) ?m"
      unfolding list_all_iff set using IH by (auto simp: pred_prod_beta)
    ultimately show ?thesis by (simp only: marshal_ok.simps)
  qed
  ultimately show ?case using canon_map_idem [of m canon] IH by simp
qed (auto simp: to_valid_utf8_idem list_all_iff comp_def show_int_not_Nil is_number_ends max_list_zero split: option.splits)

end
