(* ===== verification/Messages.thy ===== *)
theory Messages
  imports Go_Values
begin

text \<open>
  The message values of the library: \<^verbatim>\<open>types.go\<close>, \<^verbatim>\<open>errors.go\<close>, \<^verbatim>\<open>validators.go\<close>,
  \<^verbatim>\<open>messageimpl.go\<close> and \<^verbatim>\<open>messagefactory.go\<close>. A message kind is a record that extends the
  base message; a Go panic is the left value of a sum. \<open>msg_ok\<close> is the invariant every constructor
  establishes and every operation keeps.
\<close>

section \<open>Data\<close>

record rpc_error =
  Code :: int
  Message :: string
  Data :: gval

datatype go_panic =
    PanicRPC rpc_error
  | PanicText string
  | PanicMarshal marshal_error
  | PanicErr string              \<comment> \<open>an error value with this text\<close>
  | PanicDecode                  \<comment> \<open>an error value of the JSON decoder\<close>
  | IndexOutOfRange
  | NilDereference

definition MKRequest :: nat where "MKRequest = 0"
definition MKNotify :: nat where "MKNotify = 1"
definition MKResult :: nat where "MKResult = 2"
definition MKError :: nat where "MKError = 3"

type_synonym http_header = "string list go_map"

record base_message =
  kind :: nat
  traceId :: string

record request_message = base_message +
  reqId :: gval
  reqMethod :: string
  reqParams :: "gval list"
  reqParamsAreList :: bool

record notify_message = base_message +
  ntfMethod :: string
  ntfParams :: "gval list"
  ntfParamsAreList :: bool

record result_message = base_message +
  resId :: gval
  resResult :: gval
  resHeader :: "http_header option"   \<comment> \<open>\<open>None\<close> is the nil map\<close>

record error_message = base_message +
  errId :: gval
  errError :: "rpc_error option"      \<comment> \<open>a pointer\<close>
  errHeader :: "http_header option"

text \<open>The dynamic types behind the interface \<^verbatim>\<open>Message\<close>.\<close>

datatype message =
    MReq request_message
  | MNtf notify_message
  | MRes result_message
  | MErr error_message

primrec base_of :: "message \<Rightarrow> base_message" where
  "base_of (MReq m) = \<lparr>kind = kind m, traceId = traceId m\<rparr>"
| "base_of (MNtf m) = \<lparr>kind = kind m, traceId = traceId m\<rparr>"
| "base_of (MRes m) = \<lparr>kind = kind m, traceId = traceId m\<rparr>"
| "base_of (MErr m) = \<lparr>kind = kind m, traceId = traceId m\<rparr>"

section \<open>Error values\<close>

definition mk_error :: "int \<Rightarrow> string \<Rightarrow> gval \<Rightarrow> rpc_error" where
  "mk_error c m d = \<lparr>Code = c, Message = m, Data = d\<rparr>"

definition ErrServerError :: rpc_error where
  "ErrServerError = mk_error 100 ''server error'' GNil"
definition ErrMethodNotFound :: rpc_error where
  "ErrMethodNotFound = mk_error (-32601) ''method not found'' GNil"
definition ErrEmptyMethod :: rpc_error where
  "ErrEmptyMethod = mk_error (-32601) ''empty method'' GNil"
definition ErrParseMessage :: rpc_error where
  "ErrParseMessage = mk_error (-32700) ''parse error'' GNil"
definition ErrInvalidRequest :: rpc_error where
  "ErrInvalidRequest = mk_error (-32600) ''invalid request'' GNil"
definition ErrInternalError :: rpc_error where
  "ErrInternalError = mk_error (-32603) ''internal error'' GNil"
definition ErrMessageType :: rpc_error where
  "ErrMessageType = mk_error 105 ''wrong message type'' GNil"
definition ErrTimeout :: rpc_error where
  "ErrTimeout = mk_error 200 ''request timeout'' GNil"
definition ErrBadResource :: rpc_error where
  "ErrBadResource = mk_error 201 ''bad resource'' GNil"
definition ErrLiveExit :: rpc_error where
  "ErrLiveExit = mk_error 202 ''live exit'' GNil"
definition ErrNotAllowed :: rpc_error where
  "ErrNotAllowed = mk_error 406 ''type not allowed'' GNil"
definition ErrAuthFailed :: rpc_error where
  "ErrAuthFailed = mk_error 401 ''auth failed'' GNil"
definition ErrInvalidSchema :: rpc_error where
  "ErrInvalidSchema = mk_error (-32633) ''invalid schema'' GNil"

definition ParamsError :: "string \<Rightarrow> rpc_error" where
  "ParamsError message = mk_error (-32602) message GNil"

definition WithData :: "rpc_error \<Rightarrow> gval \<Rightarrow> rpc_error" where
  "WithData e d = mk_error (Code e) (Message e) d"

definition NewErrMsgType :: "string \<Rightarrow> rpc_error" where
  "NewErrMsgType additional =
     mk_error (Code ErrMessageType) (''wrong message type '' @ additional) (GBool False)"

section \<open>Kinds and accessors\<close>

definition IsRequest :: "message \<Rightarrow> bool" where
  "IsRequest m \<longleftrightarrow> kind (base_of m) = MKRequest"

definition IsNotify :: "message \<Rightarrow> bool" where
  "IsNotify m \<longleftrightarrow> kind (base_of m) = MKNotify"

definition IsResponse :: "message \<Rightarrow> bool" where
  "IsResponse m \<longleftrightarrow> IsRequest m \<or> IsNotify m"

definition IsResult :: "message \<Rightarrow> bool" where
  "IsResult m \<longleftrightarrow> kind (base_of m) = MKResult"

definition IsError :: "message \<Rightarrow> bool" where
  "IsError m \<longleftrightarrow> kind (base_of m) = MKError"

definition IsResultOrError :: "message \<Rightarrow> bool" where
  "IsResultOrError m \<longleftrightarrow> IsResult m \<or> IsError m"

primrec SetTraceId :: "string \<Rightarrow> message \<Rightarrow> message" where
  "SetTraceId t (MReq m) = MReq (m\<lparr>traceId := t\<rparr>)"
| "SetTraceId t (MNtf m) = MNtf (m\<lparr>traceId := t\<rparr>)"
| "SetTraceId t (MRes m) = MRes (m\<lparr>traceId := t\<rparr>)"
| "SetTraceId t (MErr m) = MErr (m\<lparr>traceId := t\<rparr>)"

definition TraceId :: "message \<Rightarrow> string" where
  "TraceId m = traceId (base_of m)"

definition panicType :: "string \<Rightarrow> go_panic + 'a" where
  "panicType op = Inl (PanicRPC (NewErrMsgType op))"

primrec MustId :: "message \<Rightarrow> go_panic + gval" where
  "MustId (MReq m) = Inr (reqId m)"
| "MustId (MNtf m) = panicType ''MustId''"
| "MustId (MRes m) = Inr (resId m)"
| "MustId (MErr m) = Inr (errId m)"

primrec MustMethod :: "message \<Rightarrow> go_panic + string" where
  "MustMethod (MReq m) = Inr (reqMethod m)"
| "MustMethod (MNtf m) = Inr (ntfMethod m)"
| "MustMethod (MRes m) = panicType ''MustMethod''"
| "MustMethod (MErr m) = panicType ''MustMethod''"

primrec MustParams :: "message \<Rightarrow> go_panic + gval list" where
  "MustParams (MReq m) = Inr (reqParams m)"
| "MustParams (MNtf m) = Inr (ntfParams m)"
| "MustParams (MRes m) = panicType ''MustParams''"
| "MustParams (MErr m) = panicType ''MustParams''"

primrec MustResult :: "message \<Rightarrow> go_panic + gval" where
  "MustResult (MReq m) = panicType ''MustResult''"
| "MustResult (MNtf m) = panicType ''MustResult''"
| "MustResult (MRes m) = Inr (resResult m)"
| "MustResult (MErr m) = panicType ''MustResult''"

primrec MustError :: "message \<Rightarrow> go_panic + rpc_error option" where
  "MustError (MReq m) = panicType ''MustError''"
| "MustError (MNtf m) = panicType ''MustError''"
| "MustError (MRes m) = panicType ''MustError''"
| "MustError (MErr m) = Inr (errError m)"

section \<open>Constructors\<close>

text \<open>
  The branch on \<^verbatim>\<open>params\<close> shared by \<^verbatim>\<open>NewRequestMessage\<close> and \<^verbatim>\<open>NewNotifyMessage\<close>: the slice and
  \<^verbatim>\<open>paramsAreList\<close>.
\<close>

definition params_of :: "gval \<Rightarrow> gval list \<times> bool" where
  "params_of params =
     (if params = GNil then ([], True)
      else case as_list params of Some arr \<Rightarrow> (arr, True) | None \<Rightarrow> ([params], False))"

definition NewRequestMessage :: "gval \<Rightarrow> string \<Rightarrow> gval \<Rightarrow> go_panic + request_message" where
  "NewRequestMessage i method params =
     (if method = [] then Inl (PanicRPC ErrEmptyMethod)
      else let (ps, islist) = params_of params in
        Inr \<lparr>kind = MKRequest, traceId = [], reqId = i, reqMethod = method, reqParams = ps,
             reqParamsAreList = islist\<rparr>)"

definition NewNotifyMessage :: "string \<Rightarrow> gval \<Rightarrow> go_panic + notify_message" where
  "NewNotifyMessage method params =
     (if method = [] then Inl (PanicRPC ErrEmptyMethod)
      else let (ps, islist) = params_of params in
        Inr \<lparr>kind = MKNotify, traceId = [], ntfMethod = method, ntfParams = ps,
             ntfParamsAreList = islist\<rparr>)"

definition Clone :: "request_message \<Rightarrow> gval \<Rightarrow> go_panic + request_message" where
  "Clone msg newId =
     (case NewRequestMessage newId (reqMethod msg) (GList (reqParams msg)) of
        Inl p \<Rightarrow> Inl p | Inr newReq \<Rightarrow> Inr (newReq\<lparr>traceId := traceId msg\<rparr>))"

definition CacheKey :: "request_message \<Rightarrow> string \<Rightarrow> go_panic + string" where
  "CacheKey msg prefix =
     (case marshal (GList (reqParams msg)) of
        Inl e \<Rightarrow> Inl (PanicMarshal e)
      | Inr paramBytes \<Rightarrow> Inr (prefix @ reqMethod msg @ enc_json paramBytes))"

definition rawResultMessage :: "gval \<Rightarrow> gval \<Rightarrow> http_header option \<Rightarrow> result_message" where
  "rawResultMessage i result hdr =
     \<lparr>kind = MKResult, traceId = [], resId = i, resResult = result, resHeader = hdr\<rparr>"

definition rawErrorMessage :: "gval \<Rightarrow> rpc_error option \<Rightarrow> http_header option \<Rightarrow> error_message" where
  "rawErrorMessage i errbody hdr =
     \<lparr>kind = MKError, traceId = [], errId = i, errError = errbody, errHeader = hdr\<rparr>"

definition NewResultMessage :: "message option \<Rightarrow> gval \<Rightarrow> go_panic + result_message" where
  "NewResultMessage reqmsg result =
     (case reqmsg of None \<Rightarrow> Inr (rawResultMessage GNil result None)
      | Some r \<Rightarrow> (case MustId r of Inl p \<Rightarrow> Inl p
          | Inr i \<Rightarrow> Inr ((rawResultMessage i result None)\<lparr>traceId := TraceId r\<rparr>)))"

definition NewErrorMessage :: "message option \<Rightarrow> rpc_error option \<Rightarrow> go_panic + error_message" where
  "NewErrorMessage reqmsg errbody =
     (case reqmsg of None \<Rightarrow> Inr (rawErrorMessage GNil errbody None)
      | Some r \<Rightarrow> (case MustId r of Inl p \<Rightarrow> Inl p
          | Inr i \<Rightarrow> Inr ((rawErrorMessage i errbody None)\<lparr>traceId := TraceId r\<rparr>)))"

definition NewErrorMessageFromId :: "gval \<Rightarrow> string \<Rightarrow> rpc_error option \<Rightarrow> error_message" where
  "NewErrorMessageFromId rid t errbody = (rawErrorMessage rid errbody None)\<lparr>traceId := t\<rparr>"

definition RPCErrorMessage :: "message option \<Rightarrow> int \<Rightarrow> string \<Rightarrow> gval \<Rightarrow> go_panic + error_message" where
  "RPCErrorMessage reqmsg c m d = NewErrorMessage reqmsg (Some (mk_error c m d))"

definition RPCErrorMessageFromId :: "gval \<Rightarrow> string \<Rightarrow> int \<Rightarrow> string \<Rightarrow> gval \<Rightarrow> error_message" where
  "RPCErrorMessageFromId rid t c m d = NewErrorMessageFromId rid t (Some (mk_error c m d))"

definition ToMessage :: "rpc_error \<Rightarrow> request_message \<Rightarrow> go_panic + error_message" where
  "ToMessage e reqmsg = RPCErrorMessage (Some (MReq reqmsg)) (Code e) (Message e) (Data e)"

definition ToMessageFromId :: "rpc_error \<Rightarrow> gval \<Rightarrow> string \<Rightarrow> error_message" where
  "ToMessageFromId e rid t = RPCErrorMessageFromId rid t (Code e) (Message e) (Data e)"

primrec ReplaceId :: "message \<Rightarrow> gval \<Rightarrow> go_panic + message" where
  "ReplaceId (MReq m) newId = map_sum id MReq (Clone m newId)"
| "ReplaceId (MNtf m) newId = panicType ''ReplaceId''"
| "ReplaceId (MRes m) newId =
     Inr (MRes ((rawResultMessage newId (resResult m) (resHeader m))\<lparr>traceId := traceId m\<rparr>))"
| "ReplaceId (MErr m) newId =
     Inr (MErr ((rawErrorMessage newId (errError m) (errHeader m))\<lparr>traceId := traceId m\<rparr>))"

text \<open>\<^verbatim>\<open>HasResponseHeader\<close>, and \<^verbatim>\<open>ResponseHeader\<close> with the allocation it does on first use.\<close>

definition HasResponseHeader :: "message \<Rightarrow> bool" where
  "HasResponseHeader m \<longleftrightarrow>
     (case m of MRes r \<Rightarrow> resHeader r \<noteq> None | MErr r \<Rightarrow> errHeader r \<noteq> None | _ \<Rightarrow> False)"

definition resResponseHeader :: "result_message \<Rightarrow> http_header \<times> result_message" where
  "resResponseHeader m =
     (case resHeader m of Some h \<Rightarrow> (h, m) | None \<Rightarrow> ([], m\<lparr>resHeader := Some []\<rparr>))"

definition errResponseHeader :: "error_message \<Rightarrow> http_header \<times> error_message" where
  "errResponseHeader m =
     (case errHeader m of Some h \<Rightarrow> (h, m) | None \<Rightarrow> ([], m\<lparr>errHeader := Some []\<rparr>))"

section \<open>Method names\<close>

definition is_alnum :: "char \<Rightarrow> bool" where
  "is_alnum c \<longleftrightarrow> is_digit c \<or> (97 \<le> char_code c \<and> char_code c \<le> 122) \<or>
     (65 \<le> char_code c \<and> char_code c \<le> 90)"

definition IsMethod :: "string \<Rightarrow> bool" where
  "IsMethod name \<longleftrightarrow> name \<noteq> [] \<and> list_all (\<lambda>c. is_alnum c \<or> c \<in> set ''-_:+.'') name"

definition public_tail_chars :: string where
  "public_tail_chars = ''-_:+./'' @ [CHR 0x5C] @ ''&#''"

definition IsPublicMethod :: "string \<Rightarrow> bool" where
  "IsPublicMethod name \<longleftrightarrow>
     (if take 4 name = ''rpc.'' then False
      else case name of [] \<Rightarrow> False
        | c # r \<Rightarrow> is_alnum c \<and> list_all (\<lambda>c. is_alnum c \<or> c \<in> set public_tail_chars) r)"

section \<open>Message factory\<close>

record message_options =
  IdNotNull :: bool

definition opts_of :: "message_options list \<Rightarrow> message_options" where
  "opts_of options = (case options of [] \<Rightarrow> \<lparr>IdNotNull = False\<rparr> | opt # _ \<Rightarrow> opt)"

record message_factory =
  opts :: message_options

definition NewMessageFactory :: "message_options list \<Rightarrow> message_factory" where
  "NewMessageFactory options = \<lparr>opts = opts_of options\<rparr>"

definition factoryNewRequest ::
  "message_factory \<Rightarrow> gval \<Rightarrow> string \<Rightarrow> gval \<Rightarrow> go_panic + request_message" where
  "factoryNewRequest f i method params =
     (if IdNotNull (opts f) \<and> i = GNil then Inl (PanicText ''Request id cannot be null'')
      else NewRequestMessage i method params)"

definition factoryNewNotify :: "message_factory \<Rightarrow> string \<Rightarrow> gval \<Rightarrow> go_panic + notify_message" where
  "factoryNewNotify f method params = NewNotifyMessage method params"

text \<open>\<^verbatim>\<open>reqmsg == nil || reqmsg.MustId() == nil\<close>, which panics on a notify.\<close>

definition null_id :: "message option \<Rightarrow> go_panic + bool" where
  "null_id reqmsg =
     (case reqmsg of None \<Rightarrow> Inr True
      | Some r \<Rightarrow> (case MustId r of Inl p \<Rightarrow> Inl p | Inr i \<Rightarrow> Inr (i = GNil)))"

definition factoryNewResult ::
  "message_factory \<Rightarrow> message option \<Rightarrow> gval \<Rightarrow> go_panic + result_message" where
  "factoryNewResult f reqmsg result =
     (if IdNotNull (opts f) then
        (case null_id reqmsg of Inl p \<Rightarrow> Inl p
         | Inr True \<Rightarrow> Inl (PanicText ''Result id cannot be null'')
         | Inr False \<Rightarrow> NewResultMessage reqmsg result)
      else NewResultMessage reqmsg result)"

definition factoryNewError ::
  "message_factory \<Rightarrow> message option \<Rightarrow> rpc_error option \<Rightarrow> go_panic + error_message" where
  "factoryNewError f reqmsg errbody =
     (if IdNotNull (opts f) then
        (case null_id reqmsg of Inl p \<Rightarrow> Inl p
         | Inr True \<Rightarrow> Inl (PanicText ''Error id cannot be null'')
         | Inr False \<Rightarrow> NewErrorMessage reqmsg errbody)
      else NewErrorMessage reqmsg errbody)"

section \<open>Invariant\<close>

text \<open>
  Parameters that are not a list are one value, and that value is neither null nor a list: the
  marshaller can tell the two shapes apart.
\<close>

definition params_ok :: "gval list \<Rightarrow> bool \<Rightarrow> bool" where
  "params_ok ps islist \<longleftrightarrow> islist \<or> (case ps of [p] \<Rightarrow> p \<noteq> GNil \<and> as_list p = None | _ \<Rightarrow> False)"

primrec msg_ok :: "message \<Rightarrow> bool" where
  "msg_ok (MReq m) \<longleftrightarrow>
     kind m = MKRequest \<and> reqMethod m \<noteq> [] \<and> params_ok (reqParams m) (reqParamsAreList m)"
| "msg_ok (MNtf m) \<longleftrightarrow>
     kind m = MKNotify \<and> ntfMethod m \<noteq> [] \<and> params_ok (ntfParams m) (ntfParamsAreList m)"
| "msg_ok (MRes m) \<longleftrightarrow> kind m = MKResult"
| "msg_ok (MErr m) \<longleftrightarrow> kind m = MKError"

lemmas kind_defs = MKRequest_def MKNotify_def MKResult_def MKError_def
lemmas raw_defs = rawResultMessage_def rawErrorMessage_def

lemma kinds_distinct [simp]:
  "MKRequest \<noteq> MKNotify" "MKRequest \<noteq> MKResult" "MKRequest \<noteq> MKError" "MKNotify \<noteq> MKResult"
  "MKNotify \<noteq> MKError" "MKResult \<noteq> MKError"
  by (simp_all add: kind_defs)

lemmas kinds_distinct' [simp] = kinds_distinct [symmetric]

lemmas Is_defs = IsRequest_def IsNotify_def IsResult_def IsError_def

lemma TraceId_simps [simp]:
  "TraceId (MReq m) = traceId m" "TraceId (MNtf n) = traceId n"
  "TraceId (MRes r) = traceId r" "TraceId (MErr e) = traceId e"
  by (simp_all add: TraceId_def)

lemma panicType_simps [simp]: "panicType op \<noteq> Inr x" "panicType op = Inl p \<longleftrightarrow> p = PanicRPC (NewErrMsgType op)"
  by (auto simp: panicType_def)

lemma params_of_ok [simp]: "params_ok (fst (params_of v)) (snd (params_of v))"
  by (auto simp: params_of_def params_ok_def split: option.split)

lemma params_of_GList [simp]: "params_of (GList ps) = (ps, True)"
  by (simp add: params_of_def)

lemma NewRequestMessage_Inr:
  "NewRequestMessage i method params = Inr m \<longleftrightarrow> method \<noteq> [] \<and>
     m = \<lparr>kind = MKRequest, traceId = [], reqId = i, reqMethod = method,
          reqParams = fst (params_of params), reqParamsAreList = snd (params_of params)\<rparr>"
  by (auto simp: NewRequestMessage_def split: prod.splits)

lemma NewNotifyMessage_Inr:
  "NewNotifyMessage method params = Inr m \<longleftrightarrow> method \<noteq> [] \<and>
     m = \<lparr>kind = MKNotify, traceId = [], ntfMethod = method,
          ntfParams = fst (params_of params), ntfParamsAreList = snd (params_of params)\<rparr>"
  by (auto simp: NewNotifyMessage_def split: prod.splits)

lemma Clone_Inr:
  "Clone m i = Inr m' \<longleftrightarrow> reqMethod m \<noteq> [] \<and>
     m' = \<lparr>kind = MKRequest, traceId = traceId m, reqId = i, reqMethod = reqMethod m,
           reqParams = reqParams m, reqParamsAreList = True\<rparr>"
  by (auto simp: Clone_def NewRequestMessage_Inr split: sum.splits) (simp add: NewRequestMessage_def)

lemma NewRequestMessage_ok: "NewRequestMessage i method params = Inr m \<Longrightarrow> msg_ok (MReq m)"
  by (auto simp: NewRequestMessage_Inr)

lemma NewNotifyMessage_ok: "NewNotifyMessage method params = Inr m \<Longrightarrow> msg_ok (MNtf m)"
  by (auto simp: NewNotifyMessage_Inr)

lemma msg_ok_SetTraceId [simp]: "msg_ok (SetTraceId t m) \<longleftrightarrow> msg_ok m"
  by (cases m) simp_all

lemma msg_ok_kind:
  assumes "msg_ok m"
  shows "IsRequest m \<longleftrightarrow> (\<exists>r. m = MReq r)" "IsNotify m \<longleftrightarrow> (\<exists>n. m = MNtf n)"
    "IsResult m \<longleftrightarrow> (\<exists>r. m = MRes r)" "IsError m \<longleftrightarrow> (\<exists>e. m = MErr e)"
  using assms by (cases m; simp add: Is_defs)+

definition is_panic :: "go_panic + 'a \<Rightarrow> bool" where
  "is_panic r \<longleftrightarrow> (case r of Inl p \<Rightarrow> True | Inr v \<Rightarrow> False)"

lemma is_panic_simps [simp]: "is_panic (Inl p)" "\<not> is_panic (Inr v)" "is_panic (panicType op)"
  by (simp_all add: is_panic_def panicType_def)

text \<open>
  The accessors \<^verbatim>\<open>MustId\<close>, \<^verbatim>\<open>MustMethod\<close>, \<^verbatim>\<open>MustParams\<close>, \<^verbatim>\<open>MustResult\<close> and \<^verbatim>\<open>MustError\<close> panic on
  exactly the kinds their comments name, and of a well-formed message exactly one kind test holds.
\<close>

theorem must_accessors_panic_by_kind:
  assumes "msg_ok m"
  shows "(is_panic (MustId m) \<longleftrightarrow> IsNotify m) \<and>
    (is_panic (MustMethod m) \<longleftrightarrow> IsResultOrError m) \<and>
    (is_panic (MustParams m) \<longleftrightarrow> IsResultOrError m) \<and>
    (is_panic (MustResult m) \<longleftrightarrow> \<not> IsResult m) \<and>
    (is_panic (MustError m) \<longleftrightarrow> \<not> IsError m) \<and>
    [IsRequest m, IsNotify m, IsResult m, IsError m] \<in>
      {[True, False, False, False], [False, True, False, False],
       [False, False, True, False], [False, False, False, True]}"
  using assms by (cases m; simp add: Is_defs IsResultOrError_def)+

theorem must_accessors_witness:
  "msg_ok (MNtf \<lparr>kind = MKNotify, traceId = [], ntfMethod = ''m'', ntfParams = [], ntfParamsAreList = True\<rparr>) \<and>
   is_panic (MustId (MNtf \<lparr>kind = MKNotify, traceId = [], ntfMethod = ''m'', ntfParams = [],
     ntfParamsAreList = True\<rparr>))"
  using must_accessors_panic_by_kind [of "MNtf \<lparr>kind = MKNotify, traceId = [], ntfMethod = ''m'',
    ntfParams = [], ntfParamsAreList = True\<rparr>"]
  by (simp add: params_ok_def)

text \<open>
  \<^verbatim>\<open>ReplaceId\<close> panics exactly on a notify. Otherwise it gives a well-formed message of the same
  kind with the new id that keeps the trace id and everything the accessors and the response header
  show.
\<close>

theorem replace_id_keeps_message:
  assumes "msg_ok m"
  shows "case ReplaceId m i of
      Inl p \<Rightarrow> IsNotify m \<and> p = PanicRPC (NewErrMsgType ''ReplaceId'')
    | Inr m' \<Rightarrow> \<not> IsNotify m \<and> msg_ok m' \<and> MustId m' = Inr i \<and> kind (base_of m') = kind (base_of m) \<and>
        TraceId m' = TraceId m \<and> MustMethod m' = MustMethod m \<and> MustParams m' = MustParams m \<and>
        MustResult m' = MustResult m \<and> MustError m' = MustError m \<and>
        HasResponseHeader m' = HasResponseHeader m"
proof (cases m)
  case (MReq r)
  with assms have r: "reqMethod r \<noteq> []" "kind r = MKRequest" by simp_all
  then have "Clone r i = Inr \<lparr>kind = MKRequest, traceId = traceId r, reqId = i,
      reqMethod = reqMethod r, reqParams = reqParams r, reqParamsAreList = True\<rparr>"
    by (simp add: Clone_Inr)
  with MReq assms r show ?thesis
    by (simp add: Is_defs HasResponseHeader_def params_ok_def)
next
  case (MNtf n)
  with assms show ?thesis by (simp add: panicType_def Is_defs)
qed (use assms in \<open>simp_all add: raw_defs HasResponseHeader_def Is_defs\<close>)

theorem replace_id_witness:
  "msg_ok (MRes (rawResultMessage (GInt 1) (GStr ''v'') None)) \<and>
   (\<exists>m'. ReplaceId (MRes (rawResultMessage (GInt 1) (GStr ''v'') None)) (GInt 7) = Inr m' \<and>
      MustId m' = Inr (GInt 7) \<and> MustResult m' = Inr (GStr ''v''))"
  using replace_id_keeps_message [of "MRes (rawResultMessage (GInt 1) (GStr ''v'') None)" "GInt 7"]
  by (simp add: raw_defs)

section \<open>Responses\<close>

text \<open>The response \<open>m\<close> carries the id and the trace id of the message it answers.\<close>

definition answers :: "message \<Rightarrow> message \<Rightarrow> bool" where
  "answers m reqmsg \<longleftrightarrow> MustId m = MustId reqmsg \<and> TraceId m = TraceId reqmsg"

lemma NewResultMessage_Some:
  "NewResultMessage (Some r) v = Inr m \<longleftrightarrow> (\<exists>i. MustId r = Inr i \<and>
     m = (rawResultMessage i v None)\<lparr>traceId := TraceId r\<rparr>)"
  by (auto simp: NewResultMessage_def split: sum.splits)

lemma NewErrorMessage_Some:
  "NewErrorMessage (Some r) e = Inr m \<longleftrightarrow> (\<exists>i. MustId r = Inr i \<and>
     m = (rawErrorMessage i e None)\<lparr>traceId := TraceId r\<rparr>)"
  by (auto simp: NewErrorMessage_def split: sum.splits)

lemma NewResultMessage_answers:
  "NewResultMessage (Some r) v = Inr m \<Longrightarrow>
     msg_ok (MRes m) \<and> answers (MRes m) r \<and> MustResult (MRes m) = Inr v"
  by (auto simp: NewResultMessage_Some answers_def raw_defs)

lemma NewErrorMessage_answers:
  "NewErrorMessage (Some r) e = Inr m \<Longrightarrow>
     msg_ok (MErr m) \<and> answers (MErr m) r \<and> MustError (MErr m) = Inr e"
  by (auto simp: NewErrorMessage_Some answers_def raw_defs)

lemma ToMessage_answers:
  "\<exists>m. ToMessage e r = Inr m \<and> msg_ok (MErr m) \<and> answers (MErr m) (MReq r) \<and> errError m = Some e"
  by (simp add: ToMessage_def RPCErrorMessage_def NewErrorMessage_def answers_def raw_defs mk_error_def)

text \<open>
  A factory with \<^verbatim>\<open>IdNotNull\<close> never builds a request, a result or an error whose id is null,
  and what it builds in answer to a message carries that message's id and trace id.
\<close>

theorem factory_id_not_null:
  assumes "IdNotNull (opts f)"
  shows "(factoryNewRequest f i method ps = Inr q \<longrightarrow>
      msg_ok (MReq q) \<and> reqId q = i \<and> reqId q \<noteq> GNil) \<and>
    (factoryNewResult f r v = Inr m \<longrightarrow>
      (\<exists>q. r = Some q \<and> answers (MRes m) q \<and> resId m \<noteq> GNil)) \<and>
    (factoryNewError f r e = Inr em \<longrightarrow>
      (\<exists>q. r = Some q \<and> answers (MErr em) q \<and> errId em \<noteq> GNil))"
proof (intro conjI impI)
  assume "factoryNewRequest f i method ps = Inr q"
  with assms have "NewRequestMessage i method ps = Inr q" "i \<noteq> GNil"
    by (auto simp: factoryNewRequest_def split: if_splits)
  then show "msg_ok (MReq q)" "reqId q = i" "reqId q \<noteq> GNil"
    by (auto simp: NewRequestMessage_Inr)
next
  assume "factoryNewResult f r v = Inr m"
  with assms obtain q where "r = Some q" "null_id (Some q) = Inr False"
      "NewResultMessage (Some q) v = Inr m"
    by (auto simp: factoryNewResult_def null_id_def split: sum.splits bool.splits option.splits)
  then show "\<exists>q. r = Some q \<and> answers (MRes m) q \<and> resId m \<noteq> GNil"
    by (auto simp: NewResultMessage_Some null_id_def answers_def raw_defs)
next
  assume "factoryNewError f r e = Inr em"
  with assms obtain q where "r = Some q" "null_id (Some q) = Inr False"
      "NewErrorMessage (Some q) e = Inr em"
    by (auto simp: factoryNewError_def null_id_def split: sum.splits bool.splits option.splits)
  then show "\<exists>q. r = Some q \<and> answers (MErr em) q \<and> errId em \<noteq> GNil"
    by (auto simp: NewErrorMessage_Some null_id_def answers_def raw_defs)
qed

theorem factory_id_not_null_witness:
  "factoryNewRequest \<lparr>opts = \<lparr>IdNotNull = True\<rparr>\<rparr> (GInt 1) ''echo'' GNil =
     Inr \<lparr>kind = MKRequest, traceId = [], reqId = GInt 1, reqMethod = ''echo'', reqParams = [],
         reqParamsAreList = True\<rparr> \<and>
   msg_ok (MReq \<lparr>kind = MKRequest, traceId = [], reqId = GInt 1, reqMethod = ''echo'', reqParams = [],
         reqParamsAreList = True\<rparr>)"
  using factory_id_not_null [of "\<lparr>opts = \<lparr>IdNotNull = True\<rparr>\<rparr>" "GInt 1" "''echo''" GNil
    "\<lparr>kind = MKRequest, traceId = [], reqId = GInt 1, reqMethod = ''echo'', reqParams = [],
      reqParamsAreList = True\<rparr>" None GNil undefined None undefined]
  by (simp add: factoryNewRequest_def NewRequestMessage_def params_of_def)

section \<open>Cache keys\<close>

lemma enc_json_JArr: "\<exists>r. enc_json (JArr js) = CHR ''['' # r"
  by simp

lemma is_alnum_not_bracket [simp]: "\<not> is_alnum CHR ''[''"
  by (simp add: is_alnum_def is_digit_def)

lemma IsMethod_no_bracket: "IsMethod name \<Longrightarrow> CHR ''['' \<notin> set name"
  by (auto simp: IsMethod_def list_all_iff)

lemma append_bracket_inj:
  assumes "a @ CHR ''['' # r = b @ CHR ''['' # s" "CHR ''['' \<notin> set a" "CHR ''['' \<notin> set b"
  shows "a = b \<and> r = s"
proof -
  have t: "takeWhile (\<lambda>c. c \<noteq> CHR ''['') (x @ CHR ''['' # y) = x" if "CHR ''['' \<notin> set x" for x y
    using that by (induction x) auto
  have "a = b"
    using arg_cong [OF assms(1), of "takeWhile (\<lambda>c. c \<noteq> CHR ''['')"] assms(2,3) by (simp add: t)
  with assms(1) show ?thesis by simp
qed

lemma enc_json_inj:
  assumes "json_ok a" "json_ok b" "jdepth a \<le> max_depth" "jdepth b \<le> max_depth"
    and "enc_json a = enc_json b"
  shows "jclean a = jclean b"
  using decode_enc [of a "[]"] decode_enc [of b "[]"] assms by simp

lemma CacheKey_params:
  assumes "marshal_ok (GList ps)" "gdepth (GList ps) \<le> max_depth"
  shows "\<exists>js. marshal (GList ps) = Inr (JArr js) \<and> json_ok (JArr js) \<and>
    jdepth (JArr js) \<le> max_depth \<and> to_any (jclean (JArr js)) = canon (GList ps)"
proof -
  obtain j where j: "carries (GList ps) j" using marshal_canon [OF assms(1)] ..
  then obtain js where "j = JArr js" by (auto simp: carries_def split: sum.splits)
  with j assms(2) show ?thesis by (auto simp: carries_def)
qed

text \<open>
  Two requests with valid method names get the same cache key under one prefix only if their
  methods agree and their parameters are the same on the wire; the key exists.
\<close>

theorem cache_key_separates:
  assumes "IsMethod (reqMethod m)" "IsMethod (reqMethod m')"
    and "marshal_ok (GList (reqParams m))" "gdepth (GList (reqParams m)) \<le> max_depth"
    and "marshal_ok (GList (reqParams m'))" "gdepth (GList (reqParams m')) \<le> max_depth"
    and eq: "CacheKey m prefix = CacheKey m' prefix"
  shows "reqMethod m = reqMethod m' \<and> map canon (reqParams m) = map canon (reqParams m') \<and>
    \<not> is_panic (CacheKey m prefix)"
proof -
  from CacheKey_params [OF assms(3,4)] CacheKey_params [OF assms(5,6)]
  obtain js js' where js: "marshal (GList (reqParams m)) = Inr (JArr js)" "json_ok (JArr js)"
      "jdepth (JArr js) \<le> max_depth" "to_any (jclean (JArr js)) = canon (GList (reqParams m))"
    and js': "marshal (GList (reqParams m')) = Inr (JArr js')" "json_ok (JArr js')"
      "jdepth (JArr js') \<le> max_depth" "to_any (jclean (JArr js')) = canon (GList (reqParams m'))"
    by blast
  have "reqMethod m @ enc_json (JArr js) = reqMethod m' @ enc_json (JArr js')"
    using eq by (simp only: CacheKey_def js js' sum.case sum.inject same_append_eq)
  then have "reqMethod m = reqMethod m' \<and> enc_json (JArr js) = enc_json (JArr js')"
    using append_bracket_inj [OF _ IsMethod_no_bracket [OF assms(1)] IsMethod_no_bracket [OF assms(2)]]
    by simp
  moreover from this have "jclean (JArr js) = jclean (JArr js')"
    using enc_json_inj [OF js(2) js'(2) js(3) js'(3)] by blast
  then have "canon (GList (reqParams m)) = canon (GList (reqParams m'))"
    by (simp only: js(4) [symmetric] js'(4) [symmetric])
  moreover have "CacheKey m prefix = Inr (prefix @ reqMethod m @ enc_json (JArr js))"
    by (simp only: CacheKey_def js(1) sum.case)
  ultimately show ?thesis by simp
qed

theorem cache_key_separates_witness:
  "reqMethod \<lparr>kind = MKRequest, traceId = [], reqId = GInt 1, reqMethod = ''get'', reqParams = [GNum ''1''],
      reqParamsAreList = True\<rparr> =
   reqMethod \<lparr>kind = MKRequest, traceId = [], reqId = GInt 2, reqMethod = ''get'', reqParams = [GInt 1],
      reqParamsAreList = True\<rparr>"
proof -
  have one: "is_number ''1''" "show_int 1 = ''1''"
    using is_number_show_nat [of 1] char_of_code [of "CHR ''1''" 49]
    by (simp_all add: show_int_def show_nat.simps digit_char_def)
  then have "marshal_num ''1'' = Inr (JNum ''1'')" by (simp add: marshal_num_def)
  then show ?thesis
    using one cache_key_separates [of "\<lparr>kind = MKRequest, traceId = [], reqId = GInt 1, reqMethod = ''get'',
        reqParams = [GNum ''1''], reqParamsAreList = True\<rparr>"
      "\<lparr>kind = MKRequest, traceId = [], reqId = GInt 2, reqMethod = ''get'',
        reqParams = [GInt 1], reqParamsAreList = True\<rparr>" "''p:''"]
    by (simp add: CacheKey_def IsMethod_def is_alnum_def is_digit_def max_list_def max_depth_def)
qed

end
