(* ===== verification/Wire.thy ===== *)
theory Wire
  imports Messages
begin

text \<open>
  Messages on the wire: the marshalling templates of \<^verbatim>\<open>messagemarshal.go\<close>, \<^verbatim>\<open>Interface\<close> and
  \<^verbatim>\<open>MessageBytes\<close> of \<^verbatim>\<open>messageimpl.go\<close>, and the decoder of \<^verbatim>\<open>parse.go\<close>. A \<^verbatim>\<open>json.RawMessage\<close> is the
  document it holds. The interface \<open>framed_codec\<close> states what a reader of a stream of documents
  relies on.
\<close>

section \<open>Templates\<close>

record msgIdT =
  Value :: gval
  isSet :: bool

definition marshalMsgId :: "msgIdT \<Rightarrow> marshal_error + json" where
  "marshalMsgId mt = (if Value mt = GNil \<and> isSet mt then Inr JNull else marshal (Value mt))"

text \<open>The template structures, their fields in the order of the source after \<^verbatim>\<open>Jsonrpc\<close>.\<close>

datatype template =
    TemplateRequest string msgIdT gval string
  | TemplateNotify string gval string
  | TemplateResult msgIdT gval string
  | TemplateError msgIdT "rpc_error option" string

definition obj_of :: "(string \<times> (marshal_error + json)) list \<Rightarrow> marshal_error + json" where
  "obj_of fs = map_sum id JObj (mapR (\<lambda>(k, r). map_sum id (Pair k) r) fs)"

definition jsonrpc_field :: "string \<times> (marshal_error + json)" where
  "jsonrpc_field = (''jsonrpc'', Inr (JStr ''2.0''))"

definition trace_field :: "string \<Rightarrow> (string \<times> (marshal_error + json)) list" where
  "trace_field t = (if t = [] then [] else [(''traceid'', Inr (JStr t))])"

definition marshal_rpc_error :: "rpc_error \<Rightarrow> marshal_error + json" where
  "marshal_rpc_error e = obj_of ([(''code'', Inr (JNum (show_int (Code e)))),
     (''message'', Inr (JStr (Message e)))] @ (if Data e = GNil then [] else [(''data'', marshal (Data e))]))"

primrec marshal_template :: "template \<Rightarrow> marshal_error + json" where
  "marshal_template (TemplateRequest m i p t) =
     obj_of ([jsonrpc_field, (''method'', Inr (JStr m)), (''id'', marshalMsgId i), (''params'', marshal p)] @ trace_field t)"
| "marshal_template (TemplateNotify m p t) =
     obj_of ([jsonrpc_field, (''method'', Inr (JStr m)), (''params'', marshal p)] @ trace_field t)"
| "marshal_template (TemplateResult i r t) =
     obj_of ([jsonrpc_field, (''id'', marshalMsgId i), (''result'', marshal r)] @ trace_field t)"
| "marshal_template (TemplateError i e t) =
     obj_of ([jsonrpc_field, (''id'', marshalMsgId i),
       (''error'', case e of None \<Rightarrow> Inr JNull | Some b \<Rightarrow> marshal_rpc_error b)] @ trace_field t)"

definition params_value :: "gval list \<Rightarrow> bool \<Rightarrow> gval" where
  "params_value ps islist = (if islist \<or> ps = [] then GList ps else hd ps)"

primrec Interface :: "message \<Rightarrow> template" where
  "Interface (MReq m) = TemplateRequest (reqMethod m) \<lparr>Value = reqId m, isSet = True\<rparr>
     (params_value (reqParams m) (reqParamsAreList m)) (traceId m)"
| "Interface (MNtf m) = TemplateNotify (ntfMethod m)
     (params_value (ntfParams m) (ntfParamsAreList m)) (traceId m)"
| "Interface (MRes m) = TemplateResult \<lparr>Value = resId m, isSet = True\<rparr> (resResult m) (traceId m)"
| "Interface (MErr m) = TemplateError \<lparr>Value = errId m, isSet = True\<rparr> (errError m) (traceId m)"

definition MessageBytes :: "message \<Rightarrow> marshal_error + string" where
  "MessageBytes msg = map_sum id enc_json (marshal_template (Interface msg))"

definition MustMessageBytes :: "message \<Rightarrow> go_panic + string" where
  "MustMessageBytes msg = map_sum PanicMarshal id (MessageBytes msg)"

definition MessageString :: "message \<Rightarrow> go_panic + string" where
  "MessageString msg = map_sum PanicMarshal id (MessageBytes msg)"

section \<open>Decoding into structures\<close>

datatype decode_error =
    EOF | UnexpectedEOF | SyntaxError | TypeError | ErrDecode string | Panicked go_panic

text \<open>
  One \<^verbatim>\<open>Decode\<close> call on the remaining input. A document of the wrong type is consumed; an input that
  is not a document is not, and every later call meets it again.
\<close>

definition decode_into :: "(json \<Rightarrow> decode_error + 'a) \<Rightarrow> string \<Rightarrow> (decode_error + 'a) \<times> string" where
  "decode_into f s =
     (case decode s of
        DOk v r \<Rightarrow> (f v, r)
      | DEOF \<Rightarrow> (Inl EOF, s)
      | DUnexpectedEOF \<Rightarrow> (Inl UnexpectedEOF, s)
      | DSyntax \<Rightarrow> (Inl SyntaxError, s))"

text \<open>
  Field names match exactly, else up to simple case folding: ASCII case, and the two non-ASCII
  letters that fold to ASCII ones (U+017F and U+212A).
\<close>

definition to_lower :: "char \<Rightarrow> char" where
  "to_lower c = (if 65 \<le> char_code c \<and> char_code c \<le> 90 then char_of (char_code c + 32) else c)"

function fold_name :: "string \<Rightarrow> string" where
  "fold_name [] = []"
| "fold_name (c # r) =
     (if take 2 (c # r) = [CHR 0xC5, CHR 0xBF] then CHR ''s'' # fold_name (drop 2 (c # r))
      else if take 3 (c # r) = [CHR 0xE2, CHR 0x84, CHR 0xAA] then CHR ''k'' # fold_name (drop 3 (c # r))
      else to_lower c # fold_name r)"
  by pat_completeness auto
termination
  by (relation "measure length") (auto simp: take_Cons' split: if_splits)

definition match_field :: "string list \<Rightarrow> string \<Rightarrow> string option" where
  "match_field names key =
     (if key \<in> set names then Some key else find (\<lambda>n. fold_name n = fold_name key) names)"

definition into_struct ::
  "string list \<Rightarrow> (string \<Rightarrow> json \<Rightarrow> 's \<Rightarrow> decode_error + 's) \<Rightarrow> 's \<Rightarrow> json \<Rightarrow> decode_error + 's" where
  "into_struct names put s v =
     (case v of
        JObj kvs \<Rightarrow> foldR (\<lambda>(k, w) s. case match_field names k of None \<Rightarrow> Inr s | Some n \<Rightarrow> put n w s) kvs s
      | JNull \<Rightarrow> Inr s
      | _ \<Rightarrow> Inl TypeError)"

definition into_string :: "string \<Rightarrow> json \<Rightarrow> decode_error + string" where
  "into_string old v = (case v of JStr s \<Rightarrow> Inr s | JNull \<Rightarrow> Inr old | _ \<Rightarrow> Inl TypeError)"

definition into_int :: "int \<Rightarrow> json \<Rightarrow> decode_error + int" where
  "into_int old v =
     (case v of JNum n \<Rightarrow> (case ParseInt n of Some i \<Rightarrow> Inr i | None \<Rightarrow> Inl TypeError)
      | JNull \<Rightarrow> Inr old | _ \<Rightarrow> Inl TypeError)"

definition into_ptr :: "json \<Rightarrow> json option" where
  "into_ptr v = (case v of JNull \<Rightarrow> None | _ \<Rightarrow> Some v)"

definition unmarshalMsgId :: "json \<Rightarrow> decode_error + msgIdT" where
  "unmarshalMsgId v =
     (if v = JNull then Inr \<lparr>Value = GNil, isSet = True\<rparr>
      else case into_int 0 v of
        Inr intv \<Rightarrow> Inr \<lparr>Value = GInt intv, isSet = True\<rparr>
      | Inl _ \<Rightarrow> (case into_string [] v of
          Inl err \<Rightarrow> Inl err
        | Inr strv \<Rightarrow> Inr \<lparr>Value = GStr strv, isSet = True\<rparr>))"

record msgUnion =
  IdSt :: msgIdT
  unResult :: "json option"
  unError :: "json option"
  unParams :: "json option"
  unMethod :: string
  unTraceId :: string

definition empty_union :: msgUnion where
  "empty_union = \<lparr>IdSt = \<lparr>Value = GNil, isSet = False\<rparr>, unResult = None, unError = None,
     unParams = None, unMethod = [], unTraceId = []\<rparr>"

definition union_names :: "string list" where
  "union_names = [''id'', ''result'', ''error'', ''params'', ''method'', ''traceid'']"

definition put_union :: "string \<Rightarrow> json \<Rightarrow> msgUnion \<Rightarrow> decode_error + msgUnion" where
  "put_union n v un =
     (if n = ''id'' then map_sum id (\<lambda>i. un\<lparr>IdSt := i\<rparr>) (unmarshalMsgId v)
      else if n = ''result'' then Inr (un\<lparr>unResult := into_ptr v\<rparr>)
      else if n = ''error'' then Inr (un\<lparr>unError := into_ptr v\<rparr>)
      else if n = ''params'' then Inr (un\<lparr>unParams := into_ptr v\<rparr>)
      else if n = ''method'' then map_sum id (\<lambda>s. un\<lparr>unMethod := s\<rparr>) (into_string (unMethod un) v)
      else map_sum id (\<lambda>s. un\<lparr>unTraceId := s\<rparr>) (into_string (unTraceId un) v))"

definition error_names :: "string list" where
  "error_names = [''code'', ''message'', ''data'']"

definition put_error :: "string \<Rightarrow> json \<Rightarrow> rpc_error \<Rightarrow> decode_error + rpc_error" where
  "put_error n v e =
     (if n = ''code'' then map_sum id (\<lambda>c. e\<lparr>Code := c\<rparr>) (into_int (Code e) v)
      else if n = ''message'' then map_sum id (\<lambda>s. e\<lparr>Message := s\<rparr>) (into_string (Message e) v)
      else Inr (e\<lparr>Data := to_any v\<rparr>))"

definition error_body :: "json \<Rightarrow> decode_error + rpc_error" where
  "error_body = into_struct error_names put_error (mk_error 0 [] GNil)"

section \<open>Decoding messages\<close>

definition decodeParams :: "msgUnion \<Rightarrow> decode_error + gval list \<times> bool" where
  "decodeParams un =
     (case unParams un of
        None \<Rightarrow> Inl (ErrDecode ''no params field'')
      | Some v \<Rightarrow> (case v of
          JArr xs \<Rightarrow> Inr (map to_any xs, True)
        | JNull \<Rightarrow> Inr ([], True)
        | _ \<Rightarrow> Inr ([to_any v], False)))"

text \<open>\<^verbatim>\<open>DecodeMessage\<close> after the union is decoded, one definition per branch.\<close>

definition finish_error :: "msgUnion \<Rightarrow> json \<Rightarrow> decode_error + message" where
  "finish_error un ev =
     (if unResult un \<noteq> None then Inl (ErrDecode ''result and error cannot co exist'')
      else case error_body ev of
        Inl err \<Rightarrow> Inl err
      | Inr errbody \<Rightarrow>
          if \<not> isSet (IdSt un) then Inl (ErrDecode ''no message id'')
          else Inr (MErr ((rawErrorMessage (Value (IdSt un)) (Some errbody) None)\<lparr>traceId := unTraceId un\<rparr>)))"

definition finish_result :: "message_options \<Rightarrow> msgUnion \<Rightarrow> json \<Rightarrow> decode_error + message" where
  "finish_result opt un rv =
     (if isSet (IdSt un) \<and> Value (IdSt un) = GNil \<and> IdNotNull opt
      then Inl (ErrDecode ''Result.id cannot be null'')
      else let msgId = (if isSet (IdSt un) then Value (IdSt un) else GNil) in
        Inr (MRes ((rawResultMessage msgId (to_any rv) None)\<lparr>traceId := unTraceId un\<rparr>)))"

definition finish_call :: "message_options \<Rightarrow> msgUnion \<Rightarrow> decode_error + message" where
  "finish_call opt un =
     (case decodeParams un of
        Inl err \<Rightarrow> Inl err
      | Inr (params, islist) \<Rightarrow>
          if isSet (IdSt un) then
            (if Value (IdSt un) = GNil \<and> IdNotNull opt
             then Inl (ErrDecode ''Request.id cannot be null'')
             else case NewRequestMessage (Value (IdSt un)) (unMethod un) (GList params) of
               Inl p \<Rightarrow> Inl (Panicked p)
             | Inr reqmsg \<Rightarrow>
                 Inr (MReq (reqmsg\<lparr>reqParamsAreList := islist, traceId := unTraceId un\<rparr>)))
          else case NewNotifyMessage (unMethod un) (GList params) of
               Inl p \<Rightarrow> Inl (Panicked p)
             | Inr ntfmsg \<Rightarrow>
                 Inr (MNtf (ntfmsg\<lparr>ntfParamsAreList := islist, traceId := unTraceId un\<rparr>)))"

definition message_of_union :: "message_options \<Rightarrow> msgUnion \<Rightarrow> decode_error + message" where
  "message_of_union opt un =
     (case unError un of
        Some ev \<Rightarrow> finish_error un ev
      | None \<Rightarrow> (case unResult un of
          Some rv \<Rightarrow> finish_result opt un rv
        | None \<Rightarrow>
            if unMethod un \<noteq> [] then finish_call opt un
            else if isSet (IdSt un) then
              Inr (MRes ((rawResultMessage (Value (IdSt un)) GNil None)\<lparr>traceId := unTraceId un\<rparr>))
            else Inl (ErrDecode ''not a jsonrpc message'')))"

definition message_of_json :: "message_options \<Rightarrow> json \<Rightarrow> decode_error + message" where
  "message_of_json opt v =
     (case into_struct union_names put_union empty_union v of
        Inl err \<Rightarrow> Inl err | Inr un \<Rightarrow> message_of_union opt un)"

definition DecodeMessage :: "message_options list \<Rightarrow> string \<Rightarrow> (decode_error + message) \<times> string" where
  "DecodeMessage options s = decode_into (message_of_json (opts_of options)) s"

definition ParseBytes :: "message_options list \<Rightarrow> string \<Rightarrow> decode_error + message" where
  "ParseBytes options data = fst (DecodeMessage options data)"

definition factoryParse :: "message_factory \<Rightarrow> string \<Rightarrow> decode_error + message" where
  "factoryParse f data = ParseBytes [opts f] data"

definition factoryDecode :: "message_factory \<Rightarrow> string \<Rightarrow> (decode_error + message) \<times> string" where
  "factoryDecode f s = DecodeMessage [opts f] s"

text \<open>\<open>n\<close> successive reads from one stream.\<close>

fun read_n :: "(string \<Rightarrow> 'r \<times> string) \<Rightarrow> nat \<Rightarrow> string \<Rightarrow> 'r list \<times> string" where
  "read_n dec 0 s = ([], s)"
| "read_n dec (Suc n) s =
     (let (r, s') = dec s; (rs, s'') = read_n dec n s' in (r # rs, s''))"

section \<open>What decoding produces\<close>

text \<open>The ids a decoded message can have.\<close>

definition wire_id :: "gval \<Rightarrow> bool" where
  "wire_id i \<longleftrightarrow> (case i of GNil \<Rightarrow> True | GInt n \<Rightarrow> in_int64 n | GStr s \<Rightarrow> True | _ \<Rightarrow> False)"

primrec wire_fields :: "message \<Rightarrow> bool" where
  "wire_fields (MReq m) \<longleftrightarrow> wire_id (reqId m) \<and> list_all gval_ok (reqParams m)"
| "wire_fields (MNtf m) \<longleftrightarrow> list_all gval_ok (ntfParams m)"
| "wire_fields (MRes m) \<longleftrightarrow> wire_id (resId m) \<and> gval_ok (resResult m) \<and> resHeader m = None"
| "wire_fields (MErr m) \<longleftrightarrow> wire_id (errId m) \<and> errHeader m = None \<and>
     (case errError m of None \<Rightarrow> False | Some e \<Rightarrow> gval_ok (Data e) \<and> in_int64 (Code e))"

lemma into_struct_invariant:
  assumes "into_struct names put s v = Inr s'" "P s"
    and "\<And>n w s s'. P s \<Longrightarrow> put n w s = Inr s' \<Longrightarrow> P s'"
  shows "P s'"
proof (cases v)
  case (JObj kvs)
  with assms(1) have "foldR (\<lambda>(k, w) s. case match_field names k of None \<Rightarrow> Inr s | Some n \<Rightarrow> put n w s)
      kvs s = Inr s'"
    by (simp add: into_struct_def)
  then show ?thesis
    by (rule foldR_invariant) (auto intro: assms(2,3) split: option.splits)
qed (use assms in \<open>auto simp: into_struct_def\<close>)

lemma into_struct_error:
  assumes "into_struct names put s v = Inl e"
  shows "e = TypeError \<or> (\<exists>n w s. put n w s = Inl e)"
proof (cases v)
  case (JObj kvs)
  with assms show ?thesis
    by (auto simp: into_struct_def dest!: foldR_error split: option.splits)
qed (use assms in \<open>auto simp: into_struct_def\<close>)

lemma into_string_error: "into_string old v = Inl e \<Longrightarrow> e = TypeError"
  by (auto simp: into_string_def split: json.splits)

lemma into_int_range: "into_int old v = Inr i \<Longrightarrow> in_int64 old \<Longrightarrow> in_int64 i"
  by (auto simp: into_int_def dest: ParseInt_range split: json.splits option.splits)

lemma into_int_error: "into_int old v = Inl e \<Longrightarrow> e = TypeError"
  by (auto simp: into_int_def split: json.splits option.splits)

lemma unmarshalMsgId_ok: "unmarshalMsgId v = Inr i \<Longrightarrow> wire_id (Value i) \<and> isSet i"
  by (auto simp: unmarshalMsgId_def wire_id_def in_int64_def int64_min_def int64_max_def
      dest: into_int_range split: if_splits sum.splits)

lemma unmarshalMsgId_error: "unmarshalMsgId v = Inl e \<Longrightarrow> e = TypeError"
  by (auto simp: unmarshalMsgId_def dest: into_string_error split: if_splits sum.splits)

lemma put_union_ok:
  assumes "put_union n v un = Inr un'" "wire_id (Value (IdSt un))"
  shows "wire_id (Value (IdSt un'))"
  using assms
  by (auto simp: put_union_def dest: unmarshalMsgId_ok split: if_splits)

lemma union_ok:
  "into_struct union_names put_union empty_union v = Inr un \<Longrightarrow> wire_id (Value (IdSt un))"
  by (erule into_struct_invariant [where P = "\<lambda>un. wire_id (Value (IdSt un))"])
     (auto intro: put_union_ok, simp add: empty_union_def wire_id_def)

lemma union_error: "into_struct union_names put_union empty_union v = Inl e \<Longrightarrow> e = TypeError"
  by (drule into_struct_error)
     (auto simp: put_union_def dest: unmarshalMsgId_error into_string_error split: if_splits sum.splits)

lemma error_body_ok: "error_body v = Inr e \<Longrightarrow> gval_ok (Data e) \<and> in_int64 (Code e)"
  unfolding error_body_def
  by (erule into_struct_invariant)
     (auto simp: mk_error_def in_int64_def int64_min_def int64_max_def put_error_def
       dest: into_int_range split: if_splits sum.splits)

lemma error_body_error: "error_body v = Inl e \<Longrightarrow> e = TypeError"
  unfolding error_body_def
  by (drule into_struct_error)
     (auto simp: put_error_def dest: into_int_error into_string_error split: if_splits sum.splits)

lemma decodeParams_ok:
  "decodeParams un = Inr (ps, islist) \<Longrightarrow> params_ok ps islist \<and> list_all gval_ok ps"
  by (auto simp: decodeParams_def params_ok_def as_list_def list_all_iff simp del: to_any.simps(6) gval_ok.simps(12)
      split: option.splits json.splits) (simp_all add: as_list_def)

lemma decodeParams_error: "decodeParams un = Inl e \<Longrightarrow> e = ErrDecode ''no params field''"
  by (auto simp: decodeParams_def split: option.splits json.splits)

lemma finish_error_ok:
  "finish_error un v = Inr m \<Longrightarrow> wire_id (Value (IdSt un)) \<Longrightarrow> msg_ok m \<and> wire_fields m"
  by (auto simp: finish_error_def raw_defs dest: error_body_ok split: if_splits sum.splits)

lemma finish_result_ok:
  "finish_result opt un v = Inr m \<Longrightarrow> wire_id (Value (IdSt un)) \<Longrightarrow> msg_ok m \<and> wire_fields m"
  by (auto simp: finish_result_def raw_defs wire_id_def split: if_splits)

lemma finish_call_ok:
  assumes "finish_call opt un = Inr m" "wire_id (Value (IdSt un))" "unMethod un \<noteq> []"
  shows "msg_ok m \<and> wire_fields m"
  using assms
  by (auto simp: finish_call_def NewRequestMessage_Inr NewNotifyMessage_Inr dest: decodeParams_ok
      split: sum.splits if_splits prod.splits)

lemma message_of_union_ok:
  assumes "message_of_union opt un = Inr m" "wire_id (Value (IdSt un))"
  shows "msg_ok m \<and> wire_fields m"
proof (cases "unError un")
  case None
  show ?thesis
    using assms None finish_result_ok finish_call_ok
    by (auto simp: message_of_union_def raw_defs split: option.splits if_splits)
qed (use assms in \<open>auto simp: message_of_union_def dest: finish_error_ok\<close>)

text \<open>After the document is read, the only errors left are a type mismatch and the decoder's own.\<close>

definition content_error :: "decode_error \<Rightarrow> bool" where
  "content_error e \<longleftrightarrow> (case e of TypeError \<Rightarrow> True | ErrDecode t \<Rightarrow> True | _ \<Rightarrow> False)"

lemma finish_call_error: "finish_call opt un = Inl e \<Longrightarrow> unMethod un \<noteq> [] \<Longrightarrow> content_error e"
  by (auto simp: finish_call_def NewRequestMessage_def NewNotifyMessage_def content_error_def
      dest: decodeParams_error split: sum.splits prod.splits if_splits)

lemma finish_error_error: "finish_error un v = Inl e \<Longrightarrow> content_error e"
  by (auto simp: finish_error_def content_error_def dest: error_body_error split: sum.splits if_splits)

lemma finish_result_error: "finish_result opt un v = Inl e \<Longrightarrow> content_error e"
  by (auto simp: finish_result_def content_error_def Let_def split: if_splits)

lemma message_of_union_error: "message_of_union opt un = Inl e \<Longrightarrow> content_error e"
  by (auto simp: message_of_union_def dest: finish_call_error finish_error_error finish_result_error
      split: option.splits if_splits) (simp add: content_error_def)

lemma message_of_json_error: "message_of_json opt v = Inl e \<Longrightarrow> content_error e"
  by (auto simp: message_of_json_def dest: message_of_union_error split: sum.splits)
     (auto simp: content_error_def dest: union_error)

lemma message_of_json_ok: "message_of_json opt v = Inr m \<Longrightarrow> msg_ok m \<and> wire_fields m"
  by (auto simp: message_of_json_def dest: union_ok message_of_union_ok split: sum.splits)

lemma DecodeMessage_Inr:
  "DecodeMessage os s = (Inr m, r) \<longleftrightarrow> (\<exists>v. decode s = DOk v r \<and> message_of_json (opts_of os) v = Inr m)"
  by (auto simp: DecodeMessage_def decode_into_def split: decoded.splits)

text \<open>
  \<^bold>\<open>C3.\<close> On every input \<^verbatim>\<open>DecodeMessage\<close> returns without a panic; a message it returns satisfies the
  invariant of messages, has a null, 64-bit integer or string id, and its values are well-formed;
  when it reports a malformed or truncated document the input is left as it was.
\<close>

theorem decode_message_total:
  "case DecodeMessage os s of
     (Inr m, r) \<Rightarrow> msg_ok m \<and> wire_fields m \<and> (\<exists>v. decode s = DOk v r)
   | (Inl e, r) \<Rightarrow> (\<forall>p. e \<noteq> Panicked p) \<and>
       (if e \<in> {EOF, UnexpectedEOF, SyntaxError} then r = s else (\<exists>v. decode s = DOk v r))"
proof (cases "decode s")
  case (DOk v r)
  then show ?thesis
    using message_of_json_ok [of "opts_of os" v] message_of_json_error [of "opts_of os" v]
    by (cases "message_of_json (opts_of os) v")
       (auto simp: DecodeMessage_def decode_into_def content_error_def)
qed (simp_all add: DecodeMessage_def decode_into_def)

section \<open>Round trip\<close>

lemma to_valid_utf8_ascii_only: "list_all (\<lambda>c. char_code c < 128) s \<Longrightarrow> to_valid_utf8 s = s"
  by (induction s) (auto simp: to_valid_utf8_ascii)

lemma wire_names_valid [simp]:
  "to_valid_utf8 ''jsonrpc'' = ''jsonrpc''" "to_valid_utf8 ''method'' = ''method''"
  "to_valid_utf8 ''id'' = ''id''" "to_valid_utf8 ''params'' = ''params''"
  "to_valid_utf8 ''result'' = ''result''" "to_valid_utf8 ''error'' = ''error''"
  "to_valid_utf8 ''traceid'' = ''traceid''" "to_valid_utf8 ''code'' = ''code''"
  "to_valid_utf8 ''message'' = ''message''" "to_valid_utf8 ''data'' = ''data''"
  by (simp_all add: to_valid_utf8_ascii_only)

lemma to_valid_utf8_Nil_iff [simp]: "to_valid_utf8 s = [] \<longleftrightarrow> s = []"
  by (induction s rule: utf8_induct) (simp_all add: to_valid_utf8_ascii to_valid_utf8_invalid to_valid_utf8_rune replacement_def)

lemma match_exact: "key \<in> set names \<Longrightarrow> match_field names key = Some key"
  by (simp add: match_field_def)

lemma match_union [simp]:
  "match_field union_names ''id'' = Some ''id''" "match_field union_names ''result'' = Some ''result''"
  "match_field union_names ''error'' = Some ''error''" "match_field union_names ''params'' = Some ''params''"
  "match_field union_names ''method'' = Some ''method''" "match_field union_names ''traceid'' = Some ''traceid''"
  by (simp_all add: match_exact union_names_def)

lemma match_jsonrpc [simp]: "match_field union_names ''jsonrpc'' = None"
  by (simp add: match_field_def union_names_def to_lower_def)

lemma match_error [simp]:
  "match_field error_names ''code'' = Some ''code''" "match_field error_names ''message'' = Some ''message''"
  "match_field error_names ''data'' = Some ''data''"
  by (simp_all add: match_exact error_names_def)

lemma put_union_simps [simp]:
  "put_union ''id'' v un = map_sum id (\<lambda>i. un\<lparr>IdSt := i\<rparr>) (unmarshalMsgId v)"
  "put_union ''result'' v un = Inr (un\<lparr>unResult := into_ptr v\<rparr>)"
  "put_union ''error'' v un = Inr (un\<lparr>unError := into_ptr v\<rparr>)"
  "put_union ''params'' v un = Inr (un\<lparr>unParams := into_ptr v\<rparr>)"
  "put_union ''method'' v un = map_sum id (\<lambda>s. un\<lparr>unMethod := s\<rparr>) (into_string (unMethod un) v)"
  "put_union ''traceid'' v un = map_sum id (\<lambda>s. un\<lparr>unTraceId := s\<rparr>) (into_string (unTraceId un) v)"
  by (simp_all add: put_union_def)

lemma into_string_JStr [simp]: "into_string old (JStr s) = Inr s"
  by (simp add: into_string_def)

lemma obj_of_all:
  assumes "list_all2 (\<lambda>(k, r) (k', j). k' = k \<and> r = Inr j) fs kjs"
  shows "obj_of fs = Inr (JObj kjs)"
proof -
  have "mapR (\<lambda>(k, r). map_sum id (Pair k) r) fs = Inr kjs"
    unfolding mapR_Inr_iff using assms by (rule list_all2_mono) auto
  then show ?thesis by (simp add: obj_of_def)
qed

definition trace_json :: "string \<Rightarrow> (string \<times> json) list" where
  "trace_json t = (if t = [] then [] else [(''traceid'', JStr t)])"

lemma trace_field_json: "list_all2 (\<lambda>(k, r) (k', j). k' = k \<and> r = Inr j) (trace_field t) (trace_json t)"
  by (simp add: trace_field_def trace_json_def)

lemma jclean_obj: "jclean (JObj kvs) = JObj (map (map_prod to_valid_utf8 jclean) kvs)"
  by simp

text \<open>The union a printed message decodes to.\<close>

definition read_union :: "json \<Rightarrow> decode_error + msgUnion" where
  "read_union v = into_struct union_names put_union empty_union v"

lemma read_union_trace:
  assumes "read_union (JObj kvs) = Inr un" "unTraceId un = []"
  shows "read_union (JObj (kvs @ map (map_prod to_valid_utf8 jclean) (trace_json t))) =
    Inr (un\<lparr>unTraceId := to_valid_utf8 t\<rparr>)"
  using assms by (auto simp: read_union_def into_struct_def foldR_append trace_json_def)

section \<open>Ids\<close>

primrec canon_id :: "gval \<Rightarrow> gval" where
  "canon_id GNil = GNil"
| "canon_id (GBool b) = GBool b"
| "canon_id (GInt i) = GInt i"
| "canon_id (GInt64 i) = GInt i"
| "canon_id (GFloat f) = GFloat f"
| "canon_id (GNum s) = (case ParseInt s of Some i \<Rightarrow> GInt i | None \<Rightarrow> GNum s)"
| "canon_id (GStr s) = GStr (to_valid_utf8 s)"
| "canon_id GNilList = GNilList"
| "canon_id (GList xs) = GList xs"
| "canon_id (GStrs ss) = GStrs ss"
| "canon_id (GMapList xs) = GMapList xs"
| "canon_id (GMap m) = GMap m"
| "canon_id (GAnyMap m) = GAnyMap m"

definition id_ok :: "gval \<Rightarrow> bool" where
  "id_ok i \<longleftrightarrow> (case i of GNil \<Rightarrow> True | GInt n \<Rightarrow> in_int64 n | GInt64 n \<Rightarrow> in_int64 n
     | GNum s \<Rightarrow> is_number s \<and> ParseInt s \<noteq> None | GStr s \<Rightarrow> True | _ \<Rightarrow> False)"

lemma marshal_id:
  assumes "id_ok i"
  obtains j where "marshalMsgId \<lparr>Value = i, isSet = True\<rparr> = Inr j" "json_ok j" "jdepth j = 0"
    "unmarshalMsgId (jclean j) = Inr \<lparr>Value = canon_id i, isSet = True\<rparr>"
proof (cases i)
  case (GNum s)
  with assms have "s \<noteq> []" by (auto simp: id_ok_def is_number_def lex_num_def)
  with GNum assms that [of "JNum s"] show ?thesis
    by (auto simp: id_ok_def marshalMsgId_def marshal_num_def unmarshalMsgId_def into_int_def)
qed (use assms that in \<open>simp_all add: id_ok_def marshalMsgId_def unmarshalMsgId_def into_int_def into_string_def\<close>)

section \<open>Messages\<close>

definition canon_error :: "rpc_error \<Rightarrow> rpc_error" where
  "canon_error e = mk_error (Code e) (to_valid_utf8 (Message e)) (canon (Data e))"

text \<open>What a message becomes when it is printed and read back.\<close>

primrec canon_msg :: "message \<Rightarrow> message" where
  "canon_msg (MReq m) =
     (let (ps, islist) = params_of (canon (params_value (reqParams m) (reqParamsAreList m))) in
      MReq \<lparr>kind = MKRequest, traceId = to_valid_utf8 (traceId m), reqId = canon_id (reqId m),
            reqMethod = to_valid_utf8 (reqMethod m), reqParams = ps, reqParamsAreList = islist\<rparr>)"
| "canon_msg (MNtf m) =
     (let (ps, islist) = params_of (canon (params_value (ntfParams m) (ntfParamsAreList m))) in
      MNtf \<lparr>kind = MKNotify, traceId = to_valid_utf8 (traceId m),
            ntfMethod = to_valid_utf8 (ntfMethod m), ntfParams = ps, ntfParamsAreList = islist\<rparr>)"
| "canon_msg (MRes m) =
     MRes \<lparr>kind = MKResult, traceId = to_valid_utf8 (traceId m), resId = canon_id (resId m),
           resResult = canon (resResult m), resHeader = None\<rparr>"
| "canon_msg (MErr m) =
     MErr \<lparr>kind = MKError, traceId = to_valid_utf8 (traceId m), errId = canon_id (errId m),
           errError = map_option canon_error (errError m), errHeader = None\<rparr>"

text \<open>The values a message holds can be printed, and the whole stays under the decoder's nesting limit.\<close>

primrec sendable :: "message \<Rightarrow> bool" where
  "sendable (MReq m) \<longleftrightarrow> id_ok (reqId m) \<and>
     (let p = params_value (reqParams m) (reqParamsAreList m) in marshal_ok p \<and> gdepth p < max_depth)"
| "sendable (MNtf m) \<longleftrightarrow>
     (let p = params_value (ntfParams m) (ntfParamsAreList m) in marshal_ok p \<and> gdepth p < max_depth)"
| "sendable (MRes m) \<longleftrightarrow> id_ok (resId m) \<and> marshal_ok (resResult m) \<and> gdepth (resResult m) < max_depth"
| "sendable (MErr m) \<longleftrightarrow> id_ok (errId m) \<and>
     (case errError m of None \<Rightarrow> False
      | Some e \<Rightarrow> in_int64 (Code e) \<and> marshal_ok (Data e) \<and> Suc (gdepth (Data e)) < max_depth)"

text \<open>The id passes the decoder's \<^verbatim>\<open>IdNotNull\<close> test.\<close>

definition id_allowed :: "message_options \<Rightarrow> message \<Rightarrow> bool" where
  "id_allowed opt m \<longleftrightarrow> (case m of MReq r \<Rightarrow> IdNotNull opt \<longrightarrow> reqId r \<noteq> GNil
     | MRes r \<Rightarrow> IdNotNull opt \<longrightarrow> canon (resResult r) \<noteq> GNil \<longrightarrow> resId r \<noteq> GNil | _ \<Rightarrow> True)"

lemma canon_id_GNil [simp]: "id_ok i \<Longrightarrow> canon_id i = GNil \<longleftrightarrow> i = GNil"
  by (cases i) (auto simp: id_ok_def split: option.splits)

lemma to_any_GNil [simp]: "to_any j = GNil \<longleftrightarrow> j = JNull"
  by (cases j) simp_all

lemma into_ptr_simps [simp]: "into_ptr JNull = None" "v \<noteq> JNull \<Longrightarrow> into_ptr v = Some v"
  by (simp_all add: into_ptr_def split: json.split)

lemma decodeParams_params_of:
  "unParams un = into_ptr v \<Longrightarrow> v \<noteq> JNull \<Longrightarrow> decodeParams un = Inr (params_of (to_any v))"
  by (cases v) (simp_all add: decodeParams_def params_of_def as_list_def)

lemma canon_params_not_nil:
  assumes "params_ok ps islist" "marshal_ok (params_value ps islist)"
  shows "canon (params_value ps islist) \<noteq> GNil"
proof (cases "islist \<or> ps = []")
  case False
  then obtain p where "ps = [p]" "p \<noteq> GNil" "as_list p = None"
    using assms(1) by (auto simp: params_ok_def split: list.splits)
  with False assms(2) show ?thesis
    by (cases p) (auto simp: params_value_def split: option.splits)
qed (simp add: params_value_def)

lemma jdepth_trace [simp]:
  "max_list (map snd (map (map_prod id jdepth) (kvs @ trace_json t))) =
   max_list (map snd (map (map_prod id jdepth) kvs))"
  by (induction kvs) (simp_all add: trace_json_def max_list_def)

lemma json_ok_trace [simp]:
  "json_ok (JObj (kvs @ trace_json t)) \<longleftrightarrow> json_ok (JObj kvs)"
  by (simp add: trace_json_def)

text \<open>
  What a message is on the wire, before it is printed: an object the decoder can read, and the message the object is
  read as. Both the compact and the indented form of it read back as that message.
\<close>

definition wire_value :: "message_options list \<Rightarrow> message \<Rightarrow> message \<Rightarrow> bool" where
  "wire_value os m m' \<longleftrightarrow>
     (\<exists>kvs. marshal_template (Interface m) = Inr (JObj kvs) \<and> json_ok (JObj kvs) \<and> jdepth (JObj kvs) \<le> max_depth \<and>
        message_of_json (opts_of os) (jclean (JObj kvs)) = Inr m')"

lemma wire_value_template:
  assumes "marshal_template (Interface m) = Inr (JObj (kvs @ trace_json t))"
    and "json_ok (JObj kvs)" "jdepth (JObj kvs) \<le> max_depth"
    and "read_union (JObj (map (map_prod to_valid_utf8 jclean) kvs)) = Inr un" "unTraceId un = []"
    and "message_of_union (opts_of os) (un\<lparr>unTraceId := to_valid_utf8 t\<rparr>) = Inr m'"
  shows "wire_value os m m'"
  unfolding wire_value_def
proof (intro exI conjI)
  let ?kvs = "kvs @ trace_json t"
  show "json_ok (JObj ?kvs)" "jdepth (JObj ?kvs) \<le> max_depth"
    using assms(2,3) by (simp_all only: json_ok_trace jdepth.simps jdepth_trace)
  have "read_union (jclean (JObj ?kvs)) = Inr (un\<lparr>unTraceId := to_valid_utf8 t\<rparr>)"
    using read_union_trace [OF assms(4,5)] by (simp add: jclean_obj)
  then show "message_of_json (opts_of os) (jclean (JObj ?kvs)) = Inr m'"
    using assms(6) by (simp add: message_of_json_def read_union_def)
qed (rule assms(1))

lemma wire_value_bytes:
  assumes "wire_value os m m'"
  shows "\<exists>bs. MessageBytes m = Inr bs \<and> (\<forall>x. DecodeMessage os (bs @ x) = (Inr m', x))"
proof -
  obtain kvs where kvs: "marshal_template (Interface m) = Inr (JObj kvs)" "json_ok (JObj kvs)" "jdepth (JObj kvs) \<le> max_depth"
    "message_of_json (opts_of os) (jclean (JObj kvs)) = Inr m'"
    using assms unfolding wire_value_def by blast
  then have "DecodeMessage os (enc_json (JObj kvs) @ x) = (Inr m', x)" for x
    using decode_enc_obj [OF kvs(2,3), of x] by (simp add: DecodeMessage_def decode_into_def)
  with kvs(1) show ?thesis by (simp add: MessageBytes_def del: enc_json.simps)
qed

lemma wire_value_request:
  assumes ok: "msg_ok (MReq m)" and s: "sendable (MReq m)" and a: "id_allowed (opts_of os) (MReq m)"
  shows "wire_value os (MReq m) (canon_msg (MReq m))"
proof -
  let ?p = "params_value (reqParams m) (reqParamsAreList m)"
  have id: "id_ok (reqId m)" and p: "marshal_ok ?p" "gdepth ?p < max_depth"
    using s by (simp_all add: Let_def)
  from marshal_id [OF id] obtain ji where ji: "marshalMsgId \<lparr>Value = reqId m, isSet = True\<rparr> = Inr ji"
      "json_ok ji" "jdepth ji = 0" "unmarshalMsgId (jclean ji) = Inr \<lparr>Value = canon_id (reqId m), isSet = True\<rparr>" .
  from marshal_canon [OF p(1)] obtain jp where jp: "marshal ?p = Inr jp" "json_ok jp"
      "jdepth jp = gdepth ?p" "to_any (jclean jp) = canon ?p"
    by (auto simp: carries_def)
  have nn: "jclean jp \<noteq> JNull"
    using canon_params_not_nil [of "reqParams m" "reqParamsAreList m"] ok p(1) jp(4) by auto
  let ?kvs = "[(''jsonrpc'', JStr ''2.0''), (''method'', JStr (reqMethod m)), (''id'', ji), (''params'', jp)]"
  let ?un = "\<lparr>IdSt = \<lparr>Value = canon_id (reqId m), isSet = True\<rparr>, unResult = None, unError = None,
     unParams = Some (jclean jp), unMethod = to_valid_utf8 (reqMethod m), unTraceId = []\<rparr>"
  show ?thesis
  proof (rule wire_value_template [of _ ?kvs "traceId m" ?un])
    show "marshal_template (Interface (MReq m)) = Inr (JObj (?kvs @ trace_json (traceId m)))"
      unfolding Interface.simps marshal_template.simps
      by (rule obj_of_all) (simp add: ji jp jsonrpc_field_def trace_field_json)
    show "read_union (JObj (map (map_prod to_valid_utf8 jclean) ?kvs)) = Inr ?un"
      by (simp add: read_union_def into_struct_def ji nn empty_union_def)
    have "decodeParams (?un\<lparr>unTraceId := to_valid_utf8 (traceId m)\<rparr>) = Inr (params_of (canon ?p))"
      using nn jp(4) by (subst decodeParams_params_of [of _ "jclean jp"]) simp_all
    then show "message_of_union (opts_of os) (?un\<lparr>unTraceId := to_valid_utf8 (traceId m)\<rparr>) = Inr (canon_msg (MReq m))"
      using ok a id
      by (auto simp: message_of_union_def finish_call_def id_allowed_def NewRequestMessage_def split: prod.split)
  qed (use ji jp p(2) in \<open>simp_all add: max_list_def\<close>)
qed

lemma wire_value_notify:
  assumes ok: "msg_ok (MNtf m)" and s: "sendable (MNtf m)"
  shows "wire_value os (MNtf m) (canon_msg (MNtf m))"
proof -
  let ?p = "params_value (ntfParams m) (ntfParamsAreList m)"
  have p: "marshal_ok ?p" "gdepth ?p < max_depth"
    using s by (simp_all add: Let_def)
  from marshal_canon [OF p(1)] obtain jp where jp: "marshal ?p = Inr jp" "json_ok jp"
      "jdepth jp = gdepth ?p" "to_any (jclean jp) = canon ?p"
    by (auto simp: carries_def)
  have nn: "jclean jp \<noteq> JNull"
    using canon_params_not_nil [of "ntfParams m" "ntfParamsAreList m"] ok p(1) jp(4) by auto
  let ?kvs = "[(''jsonrpc'', JStr ''2.0''), (''method'', JStr (ntfMethod m)), (''params'', jp)]"
  let ?un = "\<lparr>IdSt = \<lparr>Value = GNil, isSet = False\<rparr>, unResult = None, unError = None,
     unParams = Some (jclean jp), unMethod = to_valid_utf8 (ntfMethod m), unTraceId = []\<rparr>"
  show ?thesis
  proof (rule wire_value_template [of _ ?kvs "traceId m" ?un])
    show "marshal_template (Interface (MNtf m)) = Inr (JObj (?kvs @ trace_json (traceId m)))"
      unfolding Interface.simps marshal_template.simps
      by (rule obj_of_all) (simp add: jp jsonrpc_field_def trace_field_json)
    show "read_union (JObj (map (map_prod to_valid_utf8 jclean) ?kvs)) = Inr ?un"
      by (simp add: read_union_def into_struct_def nn empty_union_def)
    have "decodeParams (?un\<lparr>unTraceId := to_valid_utf8 (traceId m)\<rparr>) = Inr (params_of (canon ?p))"
      using nn jp(4) by (subst decodeParams_params_of [of _ "jclean jp"]) simp_all
    then show "message_of_union (opts_of os) (?un\<lparr>unTraceId := to_valid_utf8 (traceId m)\<rparr>) = Inr (canon_msg (MNtf m))"
      using ok by (simp add: message_of_union_def finish_call_def NewNotifyMessage_def split: prod.split)
  qed (use jp p(2) in \<open>simp_all add: max_list_def\<close>)
qed

lemma wire_value_result:
  assumes s: "sendable (MRes m)" and a: "id_allowed (opts_of os) (MRes m)"
  shows "wire_value os (MRes m) (canon_msg (MRes m))"
proof -
  have id: "id_ok (resId m)" and p: "marshal_ok (resResult m)" "gdepth (resResult m) < max_depth"
    using s by simp_all
  from marshal_id [OF id] obtain ji where ji: "marshalMsgId \<lparr>Value = resId m, isSet = True\<rparr> = Inr ji"
      "json_ok ji" "jdepth ji = 0" "unmarshalMsgId (jclean ji) = Inr \<lparr>Value = canon_id (resId m), isSet = True\<rparr>" .
  from marshal_canon [OF p(1)] obtain jp where jp: "marshal (resResult m) = Inr jp" "json_ok jp"
      "jdepth jp = gdepth (resResult m)" "to_any (jclean jp) = canon (resResult m)"
    by (auto simp: carries_def)
  let ?kvs = "[(''jsonrpc'', JStr ''2.0''), (''id'', ji), (''result'', jp)]"
  let ?un = "\<lparr>IdSt = \<lparr>Value = canon_id (resId m), isSet = True\<rparr>, unResult = into_ptr (jclean jp),
     unError = None, unParams = None, unMethod = [], unTraceId = []\<rparr>"
  show ?thesis
  proof (rule wire_value_template [of _ ?kvs "traceId m" ?un])
    show "marshal_template (Interface (MRes m)) = Inr (JObj (?kvs @ trace_json (traceId m)))"
      unfolding Interface.simps marshal_template.simps
      by (rule obj_of_all) (simp add: ji jp jsonrpc_field_def trace_field_json)
    show "read_union (JObj (map (map_prod to_valid_utf8 jclean) ?kvs)) = Inr ?un"
      by (simp add: read_union_def into_struct_def ji empty_union_def)
    show "message_of_union (opts_of os) (?un\<lparr>unTraceId := to_valid_utf8 (traceId m)\<rparr>) = Inr (canon_msg (MRes m))"
      using a id jp(4) [symmetric]
      by (cases "jclean jp = JNull")
         (auto simp: message_of_union_def finish_result_def id_allowed_def raw_defs)
  qed (use ji jp p(2) in \<open>simp_all add: max_list_def\<close>)
qed

lemma round_trip_error_body:
  assumes "in_int64 (Code e)" "marshal_ok (Data e)"
  obtains j where "marshal_rpc_error e = Inr j" "json_ok j" "jdepth j \<le> Suc (gdepth (Data e))"
    "jclean j \<noteq> JNull" "error_body (jclean j) = Inr (canon_error e)"
proof -
  from marshal_canon [OF assms(2)] obtain jd where jd: "marshal (Data e) = Inr jd" "json_ok jd"
      "jdepth jd = gdepth (Data e)" "to_any (jclean jd) = canon (Data e)"
    by (auto simp: carries_def)
  let ?kvs = "[(''code'', JNum (show_int (Code e))), (''message'', JStr (Message e))] @
    (if Data e = GNil then [] else [(''data'', jd)])"
  have "marshal_rpc_error e = Inr (JObj ?kvs)"
    unfolding marshal_rpc_error_def by (rule obj_of_all) (simp add: jd)
  moreover have "error_body (jclean (JObj ?kvs)) = Inr (canon_error e)"
    using assms(1) jd
    by (simp add: error_body_def into_struct_def put_error_def into_int_def canon_error_def mk_error_def)
  ultimately show ?thesis
    using jd by (intro that [of "JObj ?kvs"]) (auto simp: max_list_def)
qed

lemma wire_value_error:
  assumes s: "sendable (MErr m)"
  shows "wire_value os (MErr m) (canon_msg (MErr m))"
proof -
  from s obtain e where id: "id_ok (errId m)" and e: "errError m = Some e" "in_int64 (Code e)"
      "marshal_ok (Data e)" and d: "Suc (gdepth (Data e)) < max_depth"
    by (auto split: option.splits)
  from marshal_id [OF id] obtain ji where ji: "marshalMsgId \<lparr>Value = errId m, isSet = True\<rparr> = Inr ji"
      "json_ok ji" "jdepth ji = 0" "unmarshalMsgId (jclean ji) = Inr \<lparr>Value = canon_id (errId m), isSet = True\<rparr>" .
  from round_trip_error_body [OF e(2,3)] obtain je where je: "marshal_rpc_error e = Inr je" "json_ok je"
      "jdepth je \<le> Suc (gdepth (Data e))" "jclean je \<noteq> JNull" "error_body (jclean je) = Inr (canon_error e)" .
  let ?kvs = "[(''jsonrpc'', JStr ''2.0''), (''id'', ji), (''error'', je)]"
  let ?un = "\<lparr>IdSt = \<lparr>Value = canon_id (errId m), isSet = True\<rparr>, unResult = None,
     unError = Some (jclean je), unParams = None, unMethod = [], unTraceId = []\<rparr>"
  show ?thesis
  proof (rule wire_value_template [of _ ?kvs "traceId m" ?un])
    show "marshal_template (Interface (MErr m)) = Inr (JObj (?kvs @ trace_json (traceId m)))"
      unfolding Interface.simps marshal_template.simps
      by (rule obj_of_all) (simp add: ji je e jsonrpc_field_def trace_field_json)
    show "read_union (JObj (map (map_prod to_valid_utf8 jclean) ?kvs)) = Inr ?un"
      by (simp add: read_union_def into_struct_def ji je empty_union_def)
    show "message_of_union (opts_of os) (?un\<lparr>unTraceId := to_valid_utf8 (traceId m)\<rparr>) = Inr (canon_msg (MErr m))"
      by (simp add: message_of_union_def finish_error_def je e raw_defs)
  qed (use ji je d in \<open>simp_all add: max_list_def\<close>)
qed

lemma wire_value_message:
  assumes "msg_ok m" "sendable m" "id_allowed (opts_of os) m"
  shows "wire_value os m (canon_msg m)"
  using assms wire_value_request wire_value_notify wire_value_result wire_value_error by (cases m) blast+

lemma round_trip:
  assumes "msg_ok m" "sendable m" "id_allowed (opts_of os) m"
  shows "\<exists>bs. MessageBytes m = Inr bs \<and> (\<forall>x. DecodeMessage os (bs @ x) = (Inr (canon_msg m), x))"
  using wire_value_message [OF assms] by (rule wire_value_bytes)

section \<open>Streams\<close>

text \<open>
  What a reader relies on when documents follow each other in one stream: a printed value is read
  back whole, and reading stops where it ends.
\<close>

locale framed_codec =
  fixes enc :: "'a \<Rightarrow> 'e + string"
    and dec :: "string \<Rightarrow> 'r \<times> string"
    and ok :: "'a \<Rightarrow> bool"
    and got :: "'a \<Rightarrow> 'r"
  assumes frame: "ok v \<Longrightarrow> \<exists>bs. enc v = Inr bs \<and> (\<forall>x. dec (bs @ x) = (got v, x))"
begin

lemma stream_reads:
  assumes "list_all ok vs"
  shows "\<exists>bss. mapR enc vs = Inr bss \<and>
    (\<forall>x. read_n dec (length vs) (concat bss @ x) = (map got vs, x))"
  using assms
proof (induction vs)
  case (Cons v vs)
  obtain bs where bs: "enc v = Inr bs" "\<forall>x. dec (bs @ x) = (got v, x)"
    using Cons.prems frame [of v] by auto
  obtain bss where bss: "mapR enc vs = Inr bss"
      "\<forall>x. read_n dec (length vs) (concat bss @ x) = (map got vs, x)"
    using Cons by auto
  from bs bss have "mapR enc (v # vs) = Inr (bs # bss)"
    "\<forall>x. read_n dec (length (v # vs)) (concat (bs # bss) @ x) = (map got (v # vs), x)"
    by simp_all
  then show ?case by blast
qed simp

lemma same_bytes_same_value: "ok v \<Longrightarrow> ok w \<Longrightarrow> enc v = enc w \<Longrightarrow> got v = got w"
  using frame [of v] frame [of w] by fastforce

end

interpretation msgs: framed_codec MessageBytes "DecodeMessage os"
  "\<lambda>m. msg_ok m \<and> sendable m \<and> id_allowed (opts_of os) m" "\<lambda>m. Inr (canon_msg m)"
  for os
  by unfold_locales (use round_trip in blast)

interpretation objs: framed_codec "\<lambda>kvs. Inr (enc_json (JObj kvs)) :: unit + string" "decode_into Inr"
  "\<lambda>kvs. json_ok (JObj kvs) \<and> jdepth (JObj kvs) \<le> max_depth" "\<lambda>kvs. Inr (jclean (JObj kvs))"
  by unfold_locales (auto simp: decode_into_def decode_enc_obj simp del: enc_json.simps jclean.simps json_ok.simps jdepth.simps)

section \<open>Properties\<close>

lemma message_of_json_Inr:
  "message_of_json opt v = Inr m \<longleftrightarrow>
     (\<exists>un. into_struct union_names put_union empty_union v = Inr un \<and> message_of_union opt un = Inr m)"
  by (auto simp: message_of_json_def split: sum.splits)

lemma ParseBytes_MessageBytes:
  assumes "msg_ok m" "sendable m" "id_allowed (opts_of os) m"
  shows "\<exists>bs. MessageBytes m = Inr bs \<and> ParseBytes os bs = Inr (canon_msg m)"
proof -
  obtain bs where "MessageBytes m = Inr bs" "\<forall>x. DecodeMessage os (bs @ x) = (Inr (canon_msg m), x)"
    using round_trip [OF assms] by blast
  then have "MessageBytes m = Inr bs \<and> ParseBytes os bs = Inr (canon_msg m)"
    by (metis ParseBytes_def append_Nil2 fst_conv)
  then show ?thesis ..
qed

lemma ParseBytes_ok: "ParseBytes os s = Inr m \<Longrightarrow> msg_ok m \<and> wire_fields m"
  by (cases "DecodeMessage os s") (auto simp: ParseBytes_def DecodeMessage_Inr dest: message_of_json_ok)

lemma wire_id_ok: "wire_id i \<Longrightarrow> id_ok i"
  by (auto simp: wire_id_def id_ok_def split: gval.splits)

lemma sendable_SetTraceId [simp]: "sendable (SetTraceId t m) \<longleftrightarrow> sendable m"
  by (cases m) simp_all

text \<open>
  \<^bold>\<open>C1.\<close> Round trip: a well-formed message whose values can be printed is printed by \<^verbatim>\<open>MessageBytes\<close>, and
  \<^verbatim>\<open>ParseBytes\<close> of the bytes gives the same message, its values in the form the decoder uses.
\<close>

theorem parse_message_bytes:
  assumes "msg_ok m" "sendable m" "id_allowed (opts_of os) m"
  shows "\<exists>bs. MessageBytes m = Inr bs \<and> ParseBytes os bs = Inr (canon_msg m)"
  using assms by (rule ParseBytes_MessageBytes)

theorem parse_message_bytes_witness:
  "sendable (MRes (rawResultMessage (GInt 1) (GStr ''ok'') None)) \<and>
   (\<exists>bs. MessageBytes (MRes (rawResultMessage (GInt 1) (GStr ''ok'') None)) = Inr bs \<and>
      ParseBytes [] bs = Inr (canon_msg (MRes (rawResultMessage (GInt 1) (GStr ''ok'') None))))"
proof
  show s: "sendable (MRes (rawResultMessage (GInt 1) (GStr ''ok'') None))"
    by (simp add: raw_defs id_ok_def in_int64_def int64_min_def int64_max_def max_depth_def)
  show "\<exists>bs. MessageBytes (MRes (rawResultMessage (GInt 1) (GStr ''ok'') None)) = Inr bs \<and>
      ParseBytes [] bs = Inr (canon_msg (MRes (rawResultMessage (GInt 1) (GStr ''ok'') None)))"
    by (rule parse_message_bytes [OF _ s]) (simp_all add: raw_defs id_allowed_def opts_of_def)
qed

text \<open>
  \<^bold>\<open>C2.\<close> Framing: messages written one after the other to a stream are read back by as many calls of
  \<^verbatim>\<open>DecodeMessage\<close>, in order and with nothing lost between them, whatever follows them.
\<close>

theorem decode_message_stream:
  assumes "list_all (\<lambda>m. msg_ok m \<and> sendable m \<and> id_allowed (opts_of os) m) ms"
  shows "\<exists>bss. mapR MessageBytes ms = Inr bss \<and>
    (\<forall>x. read_n (DecodeMessage os) (length ms) (concat bss @ x) = (map (Inr \<circ> canon_msg) ms, x))"
  using msgs.stream_reads [OF assms] by (simp add: comp_def)

theorem decode_message_stream_witness:
  "\<exists>bss. mapR MessageBytes [MRes (rawResultMessage (GInt 1) GNil None), MRes (rawResultMessage GNil (GBool True) None)] = Inr bss \<and>
    (\<forall>x. read_n (DecodeMessage []) (length [MRes (rawResultMessage (GInt 1) GNil None), MRes (rawResultMessage GNil (GBool True) None)])
       (concat bss @ x) =
     (map (Inr \<circ> canon_msg) [MRes (rawResultMessage (GInt 1) GNil None), MRes (rawResultMessage GNil (GBool True) None)], x))"
  by (rule decode_message_stream)
     (simp add: raw_defs id_ok_def in_int64_def int64_min_def int64_max_def max_depth_def id_allowed_def opts_of_def)

text \<open>
  Classification: the kind of a decoded message is a function of the members that are present
  and not null: an error if there is an error member, else a result if there is a result member, else a
  request or a notify by the presence of an id if there is a method, else a null result.
\<close>

theorem decode_message_kind:
  assumes "message_of_json opt v = Inr m" "into_struct union_names put_union empty_union v = Inr un"
  shows "(IsError m \<longleftrightarrow> unError un \<noteq> None) \<and>
    (IsResult m \<longleftrightarrow> unError un = None \<and> (unResult un \<noteq> None \<or> unMethod un = [])) \<and>
    (IsRequest m \<longleftrightarrow> unError un = None \<and> unResult un = None \<and> unMethod un \<noteq> [] \<and> isSet (IdSt un)) \<and>
    (IsNotify m \<longleftrightarrow> unError un = None \<and> unResult un = None \<and> unMethod un \<noteq> [] \<and> \<not> isSet (IdSt un)) \<and>
    (unError un \<noteq> None \<longrightarrow> unResult un = None)"
proof -
  from assms have m: "message_of_union opt un = Inr m"
    by (simp add: message_of_json_def)
  have call: "(\<exists>q. m = MReq q \<and> isSet (IdSt un)) \<or> (\<exists>q. m = MNtf q \<and> \<not> isSet (IdSt un))"
    if "finish_call opt un = Inr m"
    using that by (auto simp: finish_call_def split: sum.splits prod.splits if_splits)
  have ok: "msg_ok m" using message_of_json_ok [OF assms(1)] by simp
  show ?thesis
    using m ok call unfolding msg_ok_kind [OF ok]
    by (auto simp: message_of_union_def finish_error_def finish_result_def Let_def
        split: option.splits if_splits sum.splits)
qed

theorem decode_message_kind_witness:
  "\<exists>m. message_of_json \<lparr>IdNotNull = False\<rparr> (JObj [(''method'', JStr ''m''), (''params'', JArr [])]) = Inr m \<and>
     IsNotify m"
proof -
  let ?v = "JObj [(''method'', JStr ''m''), (''params'', JArr [])]"
  obtain m un where "message_of_json \<lparr>IdNotNull = False\<rparr> ?v = Inr m"
      "into_struct union_names put_union empty_union ?v = Inr un"
      "unError un = None" "unResult un = None" "unMethod un \<noteq> []" "\<not> isSet (IdSt un)"
    by (simp add: message_of_json_def into_struct_def empty_union_def message_of_union_def finish_call_def
        decodeParams_def NewNotifyMessage_def)
  with decode_message_kind [of "\<lparr>IdNotNull = False\<rparr>" ?v m un] show ?thesis by auto
qed

text \<open>
  With \<^verbatim>\<open>IdNotNull\<close>, \<^verbatim>\<open>DecodeMessage\<close> never returns a request whose id is null.
\<close>

theorem decode_request_id_not_null:
  assumes "IdNotNull (opts_of os)" "DecodeMessage os s = (Inr (MReq m), r)"
  shows "reqId m \<noteq> GNil"
proof -
  from assms(2) obtain v un where "message_of_union (opts_of os) un = Inr (MReq m)"
    by (auto simp: DecodeMessage_Inr message_of_json_Inr)
  then have "finish_call (opts_of os) un = Inr (MReq m)"
    by (auto simp: message_of_union_def finish_error_def finish_result_def Let_def
        split: option.splits if_splits sum.splits)
  with assms(1) show ?thesis
    by (auto simp: finish_call_def NewRequestMessage_Inr split: sum.splits prod.splits if_splits)
qed

theorem decode_request_id_not_null_witness:
  "\<exists>s m. DecodeMessage [\<lparr>IdNotNull = True\<rparr>] s = (Inr (MReq m), []) \<and> reqId m \<noteq> GNil"
proof -
  let ?m = "\<lparr>kind = MKRequest, traceId = [], reqId = GInt 1, reqMethod = ''m'', reqParams = [],
    reqParamsAreList = True\<rparr>"
  have "\<exists>bs. MessageBytes (MReq ?m) = Inr bs \<and>
      (\<forall>x. DecodeMessage [\<lparr>IdNotNull = True\<rparr>] (bs @ x) = (Inr (canon_msg (MReq ?m)), x))"
    by (rule round_trip)
       (simp_all add: params_ok_def params_value_def id_ok_def in_int64_def int64_min_def int64_max_def
         max_depth_def max_list_def id_allowed_def opts_of_def)
  then obtain bs q where "DecodeMessage [\<lparr>IdNotNull = True\<rparr>] (bs @ []) = (Inr (MReq q), [])"
    by (auto split: prod.splits)
  with decode_request_id_not_null [of "[\<lparr>IdNotNull = True\<rparr>]" "bs @ []" q "[]"] show ?thesis
    by (auto simp: opts_of_def)
qed

text \<open>
  \<^verbatim>\<open>IdNotNull\<close> is not enforced on a null result nor on an error: both documents with
  \<^verbatim>\<open>"id":null\<close> are accepted and give a message whose id is null.
\<close>

theorem null_id_accepted:
  "(\<exists>m. message_of_json \<lparr>IdNotNull = True\<rparr> (JObj [(''id'', JNull), (''result'', JNull)]) = Inr (MRes m) \<and>
      resId m = GNil) \<and>
   (\<exists>m. message_of_json \<lparr>IdNotNull = True\<rparr> (JObj [(''id'', JNull),
      (''error'', JObj [(''message'', JStr ''x'')])]) = Inr (MErr m) \<and> errId m = GNil)"
  by (simp add: message_of_json_def into_struct_def unmarshalMsgId_def empty_union_def message_of_union_def
      raw_defs finish_error_def error_body_def put_error_def)

text \<open>
  \<^verbatim>\<open>Clone\<close>, and \<^verbatim>\<open>ReplaceId\<close> with it, does not keep the shape of by-name parameters: a request whose
  parameters are one object is sent, after cloning, with the list that holds the object.
\<close>

theorem clone_wraps_object_params:
  assumes "msg_ok (MReq m)" "\<not> reqParamsAreList m" "Clone m i = Inr m'"
  shows "params_value (reqParams m') (reqParamsAreList m') =
    GList [params_value (reqParams m) (reqParamsAreList m)]"
  using assms by (auto simp: Clone_Inr params_value_def params_ok_def split: list.splits)

theorem clone_wraps_object_params_witness:
  "\<exists>m'. Clone \<lparr>kind = MKRequest, traceId = [], reqId = GInt 1, reqMethod = ''m'', reqParams = [GMap []],
      reqParamsAreList = False\<rparr> (GInt 2) = Inr m' \<and>
    params_value (reqParams m') (reqParamsAreList m') = GList [GMap []]"
  using clone_wraps_object_params [of "\<lparr>kind = MKRequest, traceId = [], reqId = GInt 1, reqMethod = ''m'',
      reqParams = [GMap []], reqParamsAreList = False\<rparr>" "GInt 2"]
  by (simp add: params_ok_def Clone_Inr params_value_def)

end
