(* ===== verification/Schema.thy ===== *)
theory Schema
  imports Wire
begin

text \<open>
  Schemas and their validation: \<^verbatim>\<open>schema/types.go\<close>, \<^verbatim>\<open>schema/schema.go\<close>, \<^verbatim>\<open>schema/validator.go\<close> and
  the list accessor of \<^verbatim>\<open>schema/convert.go\<close>. \<open>Scan\<close> threads the validator's path stack, which its
  \<^verbatim>\<open>popPath\<close> may find wrong and panic on; \<open>check\<close> is the error it reports, relative to the node, without
  the stack; \<open>valid\<close> is the meaning of a schema. The interface \<open>path_scanner\<close> relates the first two.
\<close>

section \<open>Schemas\<close>

record schema_mixin =
  sname :: string
  sdescription :: string

record 'a range =
  Minimum :: "'a option"
  Maximum :: "'a option"
  ExclusiveMinimum :: "bool option"
  ExclusiveMaximum :: "bool option"

text \<open>
  The schemas that the builder makes. \<^verbatim>\<open>NewListSchema\<close> and \<^verbatim>\<open>NewNotSchema\<close> leave \<^verbatim>\<open>Item\<close> and \<^verbatim>\<open>Child\<close> nil for their caller to set; a schema
  with such a nil, on which \<^verbatim>\<open>Scan\<close> panics, is not a value of this type.
\<close>

datatype schema =
    AnySchema schema_mixin
  | NullSchema schema_mixin
  | BoolSchema schema_mixin
  | NumberSchema schema_mixin "float64 range"
  | IntegerSchema schema_mixin "int range"
  | StringSchema schema_mixin "int option" "int option"    \<comment> \<open>\<^verbatim>\<open>MaxLength\<close>, \<^verbatim>\<open>MinLength\<close>\<close>
  | AnyOfSchema schema_mixin "schema list"
  | AllOfSchema schema_mixin "schema list"
  | NotSchema schema_mixin schema
  | ListSchema schema_mixin schema "int option" "int option"  \<comment> \<open>\<^verbatim>\<open>MinItems\<close>, \<^verbatim>\<open>MaxItems\<close>\<close>
  | TupleSchema schema_mixin "schema list" "schema option"
  | ObjectSchema schema_mixin "(string \<times> schema) list" "(string \<times> bool) list" "schema option"
  | MethodSchema schema_mixin "schema list" "schema option" "schema option"  \<comment> \<open>\<^verbatim>\<open>Params\<close>, \<^verbatim>\<open>Returns\<close>, \<^verbatim>\<open>AdditionalSchema\<close>\<close>

primrec mixin :: "schema \<Rightarrow> schema_mixin" where
  "mixin (AnySchema m) = m"
| "mixin (NullSchema m) = m"
| "mixin (BoolSchema m) = m"
| "mixin (NumberSchema m r) = m"
| "mixin (IntegerSchema m r) = m"
| "mixin (StringSchema m a b) = m"
| "mixin (AnyOfSchema m cs) = m"
| "mixin (AllOfSchema m cs) = m"
| "mixin (NotSchema m c) = m"
| "mixin (ListSchema m c a b) = m"
| "mixin (TupleSchema m cs a) = m"
| "mixin (ObjectSchema m ps rs a) = m"
| "mixin (MethodSchema m ps r a) = m"

primrec set_mixin :: "schema_mixin \<Rightarrow> schema \<Rightarrow> schema" where
  "set_mixin n (AnySchema m) = AnySchema n"
| "set_mixin n (NullSchema m) = NullSchema n"
| "set_mixin n (BoolSchema m) = BoolSchema n"
| "set_mixin n (NumberSchema m r) = NumberSchema n r"
| "set_mixin n (IntegerSchema m r) = IntegerSchema n r"
| "set_mixin n (StringSchema m a b) = StringSchema n a b"
| "set_mixin n (AnyOfSchema m cs) = AnyOfSchema n cs"
| "set_mixin n (AllOfSchema m cs) = AllOfSchema n cs"
| "set_mixin n (NotSchema m c) = NotSchema n c"
| "set_mixin n (ListSchema m c a b) = ListSchema n c a b"
| "set_mixin n (TupleSchema m cs a) = TupleSchema n cs a"
| "set_mixin n (ObjectSchema m ps rs a) = ObjectSchema n ps rs a"
| "set_mixin n (MethodSchema m ps r a) = MethodSchema n ps r a"

definition SetName :: "string \<Rightarrow> schema \<Rightarrow> schema" where
  "SetName n s = set_mixin ((mixin s)\<lparr>sname := n\<rparr>) s"

definition GetName :: "schema \<Rightarrow> string" where
  "GetName s = sname (mixin s)"

definition SetDescription :: "string \<Rightarrow> schema \<Rightarrow> schema" where
  "SetDescription d s = set_mixin ((mixin s)\<lparr>sdescription := d\<rparr>) s"

definition GetDescription :: "schema \<Rightarrow> string" where
  "GetDescription s = sdescription (mixin s)"

definition no_mixin :: schema_mixin where
  "no_mixin = \<lparr>sname = [], sdescription = []\<rparr>"

definition no_range :: "'a range" where
  "no_range = \<lparr>Minimum = None, Maximum = None, ExclusiveMinimum = None, ExclusiveMaximum = None\<rparr>"

definition NewNumberSchema :: schema where "NewNumberSchema = NumberSchema no_mixin no_range"
definition NewIntegerSchema :: schema where "NewIntegerSchema = IntegerSchema no_mixin no_range"
definition NewStringSchema :: schema where "NewStringSchema = StringSchema no_mixin None None"
definition NewAnyOfSchema :: schema where "NewAnyOfSchema = AnyOfSchema no_mixin []"
definition NewAllOfSchema :: schema where "NewAllOfSchema = AllOfSchema no_mixin []"
definition NewTupleSchema :: schema where "NewTupleSchema = TupleSchema no_mixin [] None"
definition NewMethodSchema :: schema where "NewMethodSchema = MethodSchema no_mixin [] None None"
definition NewObjectSchema :: schema where "NewObjectSchema = ObjectSchema no_mixin [] [] None"

primrec Type :: "schema \<Rightarrow> string" where
  "Type (AnySchema m) = ''any''"
| "Type (NullSchema m) = ''null''"
| "Type (BoolSchema m) = ''bool''"
| "Type (NumberSchema m r) = ''number''"
| "Type (IntegerSchema m r) = ''integer''"
| "Type (StringSchema m a b) = ''string''"
| "Type (AnyOfSchema m cs) = ''anyOf''"
| "Type (AllOfSchema m cs) = ''allOf''"
| "Type (NotSchema m c) = ''not''"
| "Type (ListSchema m c a b) = ''list''"
| "Type (TupleSchema m cs a) = ''list''"
| "Type (ObjectSchema m ps rs a) = ''object''"
| "Type (MethodSchema m ps r a) = ''method''"

section \<open>The validator\<close>

type_synonym paths = "string list"

record error_pos =
  pos_paths :: paths
  pos_hint :: string

text \<open>A scan reads and writes the path stack; it panics or returns an error position or nil.\<close>

type_synonym scan_result = "go_panic + error_pos option \<times> paths"
type_synonym scanner = "gval \<Rightarrow> paths \<Rightarrow> scan_result"

definition Path :: "error_pos \<Rightarrow> string" where
  "Path pos = concat (pos_paths pos)"

definition posError :: "error_pos \<Rightarrow> string" where
  "posError pos = ''Validation Error: '' @ Path pos @ '' '' @ pos_hint pos"

definition posToMessage :: "error_pos \<Rightarrow> request_message \<Rightarrow> go_panic + error_message" where
  "posToMessage pos reqmsg = ToMessage (mk_error (Code ErrInvalidSchema) (posError pos) GNil) reqmsg"

definition NewErrorPos :: "string \<Rightarrow> paths \<Rightarrow> error_pos" where
  "NewErrorPos hint ps = \<lparr>pos_paths = ps, pos_hint = hint\<rparr>"

definition pushPath :: "string \<Rightarrow> paths \<Rightarrow> paths" where
  "pushPath path ps = (if path \<noteq> [] then ps @ [path] else ps)"

definition popPath :: "string \<Rightarrow> paths \<Rightarrow> go_panic + paths" where
  "popPath path ps =
     (if path = [] then Inr ps
      else if ps = [] then Inl IndexOutOfRange
      else if last ps \<noteq> path
      then Inl (PanicErr (''pop path '' @ path @ '' is different from stack top '' @ last ps))
      else Inr (butlast ps))"

text \<open>\<^verbatim>\<open>validator.Scan(schema, path, data)\<close>, and the same frame around a body (\<^verbatim>\<open>pushPath\<close> with a deferred \<^verbatim>\<open>popPath\<close>).\<close>

definition in_path :: "string \<Rightarrow> (paths \<Rightarrow> scan_result) \<Rightarrow> paths \<Rightarrow> scan_result" where
  "in_path path body ps =
     (case body (pushPath path ps) of
        Inl p \<Rightarrow> Inl p
      | Inr (errPos, ps') \<Rightarrow> (case popPath path ps' of Inl p \<Rightarrow> Inl p | Inr ps'' \<Rightarrow> Inr (errPos, ps'')))"

definition validatorScan :: "scanner \<Rightarrow> string \<Rightarrow> scanner" where
  "validatorScan scan path data = in_path path (scan data)"

definition fail :: "string \<Rightarrow> paths \<Rightarrow> scan_result" where
  "fail hint ps = Inr (Some (NewErrorPos hint ps), ps)"

definition pass :: "paths \<Rightarrow> scan_result" where
  "pass ps = Inr (None, ps)"

text \<open>The loops: return at the first error, and return at the first success.\<close>

fun scan_first :: "('i \<Rightarrow> paths \<Rightarrow> scan_result) \<Rightarrow> 'i list \<Rightarrow> paths \<Rightarrow> scan_result" where
  "scan_first f [] ps = pass ps"
| "scan_first f (x # xs) ps =
     (case f x ps of
        Inl p \<Rightarrow> Inl p
      | Inr (errPos, ps') \<Rightarrow> if errPos \<noteq> None then Inr (errPos, ps') else scan_first f xs ps')"

fun scan_any :: "string \<Rightarrow> ('i \<Rightarrow> paths \<Rightarrow> scan_result) \<Rightarrow> 'i list \<Rightarrow> paths \<Rightarrow> scan_result" where
  "scan_any hint f [] ps = fail hint ps"
| "scan_any hint f (x # xs) ps =
     (case f x ps of
        Inl p \<Rightarrow> Inl p
      | Inr (errPos, ps') \<Rightarrow> if errPos = None then pass ps' else scan_any hint f xs ps')"

text \<open>One scan after another that found no error.\<close>

definition then_scan :: "scan_result \<Rightarrow> (paths \<Rightarrow> scan_result) \<Rightarrow> scan_result" where
  "then_scan r k = (case r of Inl p \<Rightarrow> Inl p | Inr (Some errPos, ps') \<Rightarrow> Inr (Some errPos, ps')
     | Inr (None, ps') \<Rightarrow> k ps')"

definition idx_path :: "nat \<Rightarrow> string" where
  "idx_path i = ''['' @ show_nat i @ '']''"

definition flag :: "bool option \<Rightarrow> bool" where
  "flag b = (case b of None \<Rightarrow> False | Some v \<Rightarrow> v)"

definition checkRange :: "('a :: ord) range \<Rightarrow> 'a \<Rightarrow> string option" where
  "checkRange s v =
     (case (case Maximum s of None \<Rightarrow> None
            | Some maxi \<Rightarrow>
                let exmax = flag (ExclusiveMaximum s) in
                if exmax \<and> maxi \<le> v then Some ''value >= maximum''
                else if \<not> exmax \<and> maxi < v then Some ''value > maximum'' else None) of
        Some hint \<Rightarrow> Some hint
      | None \<Rightarrow>
          (case Minimum s of None \<Rightarrow> None
           | Some mini \<Rightarrow>
               let exmin = flag (ExclusiveMinimum s) in
               if \<not> exmin \<and> v < mini then Some ''value < minimum''
               else if exmin \<and> v \<le> mini then Some ''value <= minimum'' else None))"

definition numberCheckRange :: "float64 range \<Rightarrow> float64 \<Rightarrow> string option" where
  [simp]: "numberCheckRange = checkRange"

definition integerCheckRange :: "int range \<Rightarrow> int \<Rightarrow> string option" where
  [simp]: "integerCheckRange = checkRange"

definition hinted :: "string option \<Rightarrow> paths \<Rightarrow> scan_result" where
  "hinted h ps = (case h of None \<Rightarrow> pass ps | Some hint \<Rightarrow> fail hint ps)"

text \<open>The value \<^verbatim>\<open>NumberSchema.Scan\<close> and \<^verbatim>\<open>IntegerSchema.Scan\<close> compare, when the data is of the type.\<close>

definition number_of :: "gval \<Rightarrow> float64 option" where
  "number_of data =
     (case data of GNum n \<Rightarrow> Some (fst (ParseFloat n)) | GInt n \<Rightarrow> Some (f64_of_rat (of_int n))
      | GFloat f \<Rightarrow> Some f | _ \<Rightarrow> None)"

definition integer_of :: "gval \<Rightarrow> int option" where
  "integer_of data = (case data of GNum n \<Rightarrow> ParseInt n | GInt n \<Rightarrow> Some n | _ \<Rightarrow> None)"

definition scanNumber :: "float64 range \<Rightarrow> scanner" where
  "scanNumber r data ps =
     (case number_of data of None \<Rightarrow> fail ''data is not number'' ps | Some f \<Rightarrow> hinted (numberCheckRange r f) ps)"

definition scanInteger :: "int range \<Rightarrow> scanner" where
  "scanInteger r data ps =
     (case integer_of data of None \<Rightarrow> fail ''data is not integer'' ps | Some n \<Rightarrow> hinted (integerCheckRange r n) ps)"

definition above :: "int \<Rightarrow> int option \<Rightarrow> bool" where
  "above n bound \<longleftrightarrow> (case bound of None \<Rightarrow> False | Some b \<Rightarrow> b < n)"

definition below :: "int \<Rightarrow> int option \<Rightarrow> bool" where
  "below n bound \<longleftrightarrow> (case bound of None \<Rightarrow> False | Some b \<Rightarrow> n < b)"

definition scanString :: "int option \<Rightarrow> int option \<Rightarrow> scanner" where
  "scanString maxLength minLength data ps =
     (case as_string data of None \<Rightarrow> fail ''data is not string'' ps
      | Some str \<Rightarrow>
          if above (int (length str)) maxLength then fail ''len(str) > maxLength'' ps
          else if below (int (length str)) minLength then fail ''len(str) < minLength'' ps
          else pass ps)"

definition scanNot :: "scanner \<Rightarrow> scanner" where
  "scanNot child data ps =
     (case child data ps of
        Inl p \<Rightarrow> Inl p
      | Inr (errPos, ps') \<Rightarrow> if errPos = None then fail ''not validator failed'' ps' else pass ps')"

definition scanList :: "scanner \<Rightarrow> int option \<Rightarrow> int option \<Rightarrow> scanner" where
  "scanList item minItems maxItems data ps =
     (case as_list data of None \<Rightarrow> fail ''data is not a list'' ps
      | Some items \<Rightarrow>
          if above (int (length items)) maxItems then fail ''len(items) > maxItems'' ps
          else if below (int (length items)) minItems then fail ''len(items) < minItems'' ps
          else scan_first (\<lambda>(i, d). validatorScan item (idx_path i) d) (enumerate 0 items) ps)"

text \<open>\<^verbatim>\<open>validator.Scan(schema, "[i]", items[i])\<close>, with the index check of the slice.\<close>

definition scan_at :: "gval list \<Rightarrow> nat \<times> scanner \<Rightarrow> paths \<Rightarrow> scan_result" where
  "scan_at items = (\<lambda>(i, scan) ps.
     if i < length items then validatorScan scan (idx_path i) (items ! i) ps else Inl IndexOutOfRange)"

definition scanTuple :: "scanner list \<Rightarrow> scanner option \<Rightarrow> scanner" where
  "scanTuple children additional data ps =
     (case as_list data of None \<Rightarrow> fail ''data is not a list'' ps
      | Some items \<Rightarrow>
          if Option.is_none additional \<and> length items \<noteq> length children then fail ''tuple items length mismatch'' ps
          else if \<not> Option.is_none additional \<and> length items < length children
          then fail ''data items length smaller than expected'' ps
          else
            then_scan (scan_first (scan_at items) (enumerate 0 children) ps)
              (case additional of None \<Rightarrow> pass
               | Some add \<Rightarrow> scan_first (\<lambda>(i, d). validatorScan add (idx_path i) d)
                   (enumerate (length children) (drop (length children) items))))"

definition convertAttrList :: "gmap \<Rightarrow> string \<Rightarrow> bool \<Rightarrow> gval list option" where
  "convertAttrList node attrName optional =
     (case map_of node attrName of
        Some v \<Rightarrow> as_list v
      | None \<Rightarrow> if optional then Some [] else None)"

definition ScanParams :: "scanner list \<Rightarrow> scanner option \<Rightarrow> gval list \<Rightarrow> paths \<Rightarrow> scan_result" where
  "ScanParams sParams additional params =
     in_path ''.params'' (\<lambda>ps.
       if length params < length sParams then fail ''length of params mismatch'' ps
       else
         then_scan (scan_first (scan_at params) (enumerate 0 sParams) ps)
           (if length params > length sParams then
              (case additional of None \<Rightarrow> fail ''length of params mismatch''
               | Some add \<Rightarrow> scan_first (scan_at params)
                   (map (\<lambda>i. (i, add)) [length sParams ..< length params]))
            else pass))"

definition ScanResult :: "scanner option \<Rightarrow> gval \<Rightarrow> paths \<Rightarrow> scan_result" where
  "ScanResult returns result ps =
     (case returns of None \<Rightarrow> pass ps | Some r \<Rightarrow> validatorScan r ''.result'' result ps)"

definition scanMethod :: "scanner list \<Rightarrow> scanner option \<Rightarrow> scanner option \<Rightarrow> scanner" where
  "scanMethod sParams returns additional data ps =
     (case as_map data of None \<Rightarrow> fail ''data is not object'' ps
      | Some dataMap \<Rightarrow>
          (case convertAttrList dataMap ''params'' False of
             Some params \<Rightarrow> ScanParams sParams additional params ps
           | None \<Rightarrow>
               (case map_of dataMap ''result'' of
                  Some result \<Rightarrow> ScanResult returns result ps
                | None \<Rightarrow> fail ''data is not a JSONRPC message'' ps)))"

definition scan_prop :: "gmap \<Rightarrow> (string \<times> bool) list \<Rightarrow> string \<times> scanner \<Rightarrow> paths \<Rightarrow> scan_result" where
  "scan_prop obj requires = (\<lambda>(prop, scan) ps.
     case map_of obj prop of
       Some v \<Rightarrow> validatorScan scan (CHR ''.'' # prop) v ps
     | None \<Rightarrow>
         if map_of requires prop \<noteq> None
         then in_path (CHR ''.'' # prop) (fail ''required prop is not present'') ps
         else pass ps)"

definition scanObject ::
  "(string \<times> scanner) list \<Rightarrow> (string \<times> bool) list \<Rightarrow> scanner option \<Rightarrow> scanner" where
  "scanObject props requires additional data ps =
     (case as_map data of None \<Rightarrow> fail ''data is not an object'' ps
      | Some obj \<Rightarrow>
          then_scan (scan_first (scan_prop obj requires) props ps)
            (case additional of None \<Rightarrow> pass
             | Some add \<Rightarrow>
                 scan_first (\<lambda>(prop, v). validatorScan add (CHR ''.'' # prop) v)
                   (filter (\<lambda>(prop, v). prop \<notin> set (map fst props)) obj)))"

definition scanAny :: scanner where
  [simp]: "scanAny data = pass"

definition scanNull :: scanner where
  [simp]: "scanNull data = (if data \<noteq> GNil then fail ''data is not null'' else pass)"

definition scanBool :: scanner where
  [simp]: "scanBool data = (if as_bool data \<noteq> None then pass else fail ''data is not bool'')"

definition scanAnyOf :: "scanner list \<Rightarrow> scanner" where
  [simp]: "scanAnyOf choices data =
     scan_any ''data is not any of the types'' (\<lambda>scan. validatorScan scan [] data) choices"

definition scanAllOf :: "scanner list \<Rightarrow> scanner" where
  [simp]: "scanAllOf choices data = scan_first (\<lambda>scan. validatorScan scan [] data) choices"

primrec Scan :: "schema \<Rightarrow> scanner" where
  "Scan (AnySchema m) = scanAny"
| "Scan (NullSchema m) = scanNull"
| "Scan (BoolSchema m) = scanBool"
| "Scan (NumberSchema m r) = scanNumber r"
| "Scan (IntegerSchema m r) = scanInteger r"
| "Scan (StringSchema m maxLength minLength) = scanString maxLength minLength"
| "Scan (AnyOfSchema m cs) = scanAnyOf (map Scan cs)"
| "Scan (AllOfSchema m cs) = scanAllOf (map Scan cs)"
| "Scan (NotSchema m c) = scanNot (Scan c)"
| "Scan (ListSchema m item minItems maxItems) = scanList (Scan item) minItems maxItems"
| "Scan (TupleSchema m cs additional) = scanTuple (map Scan cs) (map_option Scan additional)"
| "Scan (ObjectSchema m props requires additional) =
     scanObject (map (map_prod id Scan) props) requires (map_option Scan additional)"
| "Scan (MethodSchema m params returns additional) =
     scanMethod (map Scan params) (map_option Scan returns) (map_option Scan additional)"

definition Validate :: "paths \<Rightarrow> schema \<Rightarrow> gval \<Rightarrow> scan_result" where
  "Validate validator s data = validatorScan (Scan s) [] data validator"

definition ValidateBytes :: "paths \<Rightarrow> schema \<Rightarrow> string \<Rightarrow> scan_result" where
  "ValidateBytes validator s data =
     (case decode data of
        DOk v r \<Rightarrow> validatorScan (Scan s) [] (to_any v) validator
      | _ \<Rightarrow> Inl PanicDecode)"

section \<open>The error reported, without the path stack\<close>

type_synonym checker = "gval \<Rightarrow> (paths \<times> string) option"

definition place :: "paths \<Rightarrow> paths \<times> string \<Rightarrow> error_pos" where
  "place ps = (\<lambda>(q, h). \<lparr>pos_paths = ps @ q, pos_hint = h\<rparr>)"

definition beneath :: "string \<Rightarrow> (paths \<times> string) option \<Rightarrow> (paths \<times> string) option" where
  "beneath path = map_option (\<lambda>(q, h). (pushPath path [] @ q, h))"

definition fault :: "string \<Rightarrow> (paths \<times> string) option" where
  "fault h = Some ([], h)"

fun first_some :: "('i \<Rightarrow> 'e option) \<Rightarrow> 'i list \<Rightarrow> 'e option" where
  "first_some f [] = None"
| "first_some f (x # xs) = (case f x of None \<Rightarrow> first_some f xs | Some e \<Rightarrow> Some e)"

definition or_else :: "'e option \<Rightarrow> 'e option \<Rightarrow> 'e option" where
  "or_else a b = (case a of None \<Rightarrow> b | Some e \<Rightarrow> Some e)"

definition length_error :: "string \<Rightarrow> string \<Rightarrow> int option \<Rightarrow> int option \<Rightarrow> nat \<Rightarrow> (paths \<times> string) option" where
  "length_error tooLong tooShort maxi mini n =
     (if above (int n) maxi then fault tooLong else if below (int n) mini then fault tooShort else None)"

definition checkItems :: "checker \<Rightarrow> nat \<Rightarrow> gval list \<Rightarrow> (paths \<times> string) option" where
  "checkItems c start items = first_some (\<lambda>(i, d). beneath (idx_path i) (c d)) (enumerate start items)"

definition checkEach :: "checker list \<Rightarrow> gval list \<Rightarrow> (paths \<times> string) option" where
  "checkEach cs items = first_some (\<lambda>(i, c). beneath (idx_path i) (c (items ! i))) (enumerate 0 cs)"

definition checkTuple :: "checker list \<Rightarrow> checker option \<Rightarrow> checker" where
  "checkTuple cs additional data =
     (case as_list data of None \<Rightarrow> fault ''data is not a list''
      | Some items \<Rightarrow>
          (case additional of
             None \<Rightarrow> if length items \<noteq> length cs then fault ''tuple items length mismatch'' else checkEach cs items
           | Some add \<Rightarrow>
               if length items < length cs then fault ''data items length smaller than expected''
               else or_else (checkEach cs items) (checkItems add (length cs) (drop (length cs) items))))"

definition checkParams :: "checker list \<Rightarrow> checker option \<Rightarrow> gval list \<Rightarrow> (paths \<times> string) option" where
  "checkParams cs additional params = beneath ''.params''
     (if length params < length cs then fault ''length of params mismatch''
      else or_else (checkEach cs params)
        (if length params > length cs then
           (case additional of None \<Rightarrow> fault ''length of params mismatch''
            | Some add \<Rightarrow> checkItems add (length cs) (drop (length cs) params))
         else None))"

definition checkMethod :: "checker list \<Rightarrow> checker option \<Rightarrow> checker option \<Rightarrow> checker" where
  "checkMethod cs returns additional data =
     (case as_map data of None \<Rightarrow> fault ''data is not object''
      | Some dataMap \<Rightarrow>
          (case convertAttrList dataMap ''params'' False of
             Some params \<Rightarrow> checkParams cs additional params
           | None \<Rightarrow>
               (case map_of dataMap ''result'' of
                  Some result \<Rightarrow> (case returns of None \<Rightarrow> None | Some r \<Rightarrow> beneath ''.result'' (r result))
                | None \<Rightarrow> fault ''data is not a JSONRPC message'')))"

definition check_prop :: "gmap \<Rightarrow> (string \<times> bool) list \<Rightarrow> string \<times> checker \<Rightarrow> (paths \<times> string) option" where
  "check_prop obj requires = (\<lambda>(prop, c).
     case map_of obj prop of
       Some v \<Rightarrow> beneath (CHR ''.'' # prop) (c v)
     | None \<Rightarrow> if map_of requires prop \<noteq> None then beneath (CHR ''.'' # prop) (fault ''required prop is not present'')
               else None)"

definition checkObject :: "(string \<times> checker) list \<Rightarrow> (string \<times> bool) list \<Rightarrow> checker option \<Rightarrow> checker" where
  "checkObject props requires additional data =
     (case as_map data of None \<Rightarrow> fault ''data is not an object''
      | Some obj \<Rightarrow>
          or_else (first_some (check_prop obj requires) props)
            (case additional of None \<Rightarrow> None
             | Some add \<Rightarrow> first_some (\<lambda>(prop, v). beneath (CHR ''.'' # prop) (add v))
                 (filter (\<lambda>(prop, v). prop \<notin> set (map fst props)) obj)))"

primrec check :: "schema \<Rightarrow> checker" where
  "check (AnySchema m) = (\<lambda>data. None)"
| "check (NullSchema m) = (\<lambda>data. if data \<noteq> GNil then fault ''data is not null'' else None)"
| "check (BoolSchema m) = (\<lambda>data. if as_bool data \<noteq> None then None else fault ''data is not bool'')"
| "check (NumberSchema m r) = (\<lambda>data. case number_of data of None \<Rightarrow> fault ''data is not number''
     | Some f \<Rightarrow> map_option (Pair []) (checkRange r f))"
| "check (IntegerSchema m r) = (\<lambda>data. case integer_of data of None \<Rightarrow> fault ''data is not integer''
     | Some n \<Rightarrow> map_option (Pair []) (checkRange r n))"
| "check (StringSchema m maxLength minLength) = (\<lambda>data. case as_string data of None \<Rightarrow> fault ''data is not string''
     | Some str \<Rightarrow> length_error ''len(str) > maxLength'' ''len(str) < minLength'' maxLength minLength (length str))"
| "check (AnyOfSchema m cs) = (\<lambda>data.
     if list_ex (\<lambda>c. c data = None) (map check cs) then None else fault ''data is not any of the types'')"
| "check (AllOfSchema m cs) = (\<lambda>data. first_some (\<lambda>c. c data) (map check cs))"
| "check (NotSchema m c) = (\<lambda>data. if check c data = None then fault ''not validator failed'' else None)"
| "check (ListSchema m item minItems maxItems) = (\<lambda>data.
     case as_list data of None \<Rightarrow> fault ''data is not a list''
     | Some items \<Rightarrow>
         or_else (length_error ''len(items) > maxItems'' ''len(items) < minItems'' maxItems minItems (length items))
           (checkItems (check item) 0 items))"
| "check (TupleSchema m cs additional) = checkTuple (map check cs) (map_option check additional)"
| "check (ObjectSchema m props requires additional) =
     checkObject (map (map_prod id check) props) requires (map_option check additional)"
| "check (MethodSchema m params returns additional) =
     checkMethod (map check params) (map_option check returns) (map_option check additional)"

section \<open>The contract of a scan\<close>

text \<open>
  What a caller of a scan relies on: it does not panic, it leaves the path stack as it found it, and
  the error it reports is placed under the current path.
\<close>

locale path_scanner =
  fixes scan :: "paths \<Rightarrow> scan_result"
    and error :: "(paths \<times> string) option"
  assumes scans: "scan ps = Inr (map_option (place ps) error, ps)"
begin

lemma no_panic: "\<not> is_panic (scan ps)"
  by (simp add: scans)

lemma restores: "scan ps = Inr (e, ps') \<Longrightarrow> ps' = ps"
  by (simp add: scans)

lemma reports: "scan ps = Inr (e, ps') \<Longrightarrow> e = None \<longleftrightarrow> error = None"
  by (auto simp: scans)

lemma placed: "scan ps = Inr (Some e, ps') \<Longrightarrow> \<exists>q. pos_paths e = ps @ q"
  by (auto simp: scans place_def split: prod.splits)

end

lemmas path_scanner_iff [scan_simps] = path_scanner_def

lemma path_scanner_pass [simp]: "path_scanner pass None"
  by (simp add: path_scanner_def pass_def)

lemma path_scanner_fail [simp]: "path_scanner (fail h) (fault h)"
  by (simp add: path_scanner_def fail_def fault_def place_def NewErrorPos_def)

lemma path_scanner_hinted [simp]: "path_scanner (hinted h) (map_option (Pair []) h)"
  by (cases h) (simp_all add: path_scanner_def hinted_def pass_def fail_def place_def NewErrorPos_def)

lemma pop_push [simp]: "popPath p (pushPath p ps) = Inr ps"
  by (simp add: popPath_def pushPath_def)

lemma path_scanner_in_path:
  assumes "path_scanner f c"
  shows "path_scanner (in_path p f) (beneath p c)"
  using assms
  by (cases c) (auto simp: path_scanner_def in_path_def beneath_def place_def pushPath_def popPath_def)

lemma path_scanner_first:
  "(\<And>x. x \<in> set xs \<Longrightarrow> path_scanner (f x) (c x)) \<Longrightarrow> path_scanner (scan_first f xs) (first_some c xs)"
proof (induction xs)
  case (Cons x xs)
  then have "path_scanner (f x) (c x)" "path_scanner (scan_first f xs) (first_some c xs)" by auto
  then show ?case by (cases "c x") (simp_all add: path_scanner_def)
qed (simp add: path_scanner_def pass_def)

lemma path_scanner_any:
  "(\<And>x. x \<in> set xs \<Longrightarrow> path_scanner (f x) (c x)) \<Longrightarrow>
     path_scanner (scan_any h f xs) (if list_ex (\<lambda>x. c x = None) xs then None else fault h)"
proof (induction xs)
  case (Cons x xs)
  then have "path_scanner (f x) (c x)"
      "path_scanner (scan_any h f xs) (if list_ex (\<lambda>x. c x = None) xs then None else fault h)" by auto
  then show ?case by (cases "c x") (simp_all add: path_scanner_def pass_def)
qed (simp add: path_scanner_def fail_def fault_def place_def NewErrorPos_def)

lemma path_scanner_then:
  "path_scanner f c \<Longrightarrow> path_scanner g d \<Longrightarrow> path_scanner (\<lambda>ps. then_scan (f ps) g) (or_else c d)"
  by (cases c) (simp_all add: path_scanner_def then_scan_def or_else_def)

lemma path_scanner_if:
  "(b \<Longrightarrow> path_scanner f c) \<Longrightarrow> (\<not> b \<Longrightarrow> path_scanner g d) \<Longrightarrow>
     path_scanner (if b then f else g) (if b then c else d)"
  by simp

lemma map_scan_first [simp]: "scan_first f (map g xs) = scan_first (f \<circ> g) xs"
proof
  show "scan_first f (map g xs) ps = scan_first (f \<circ> g) xs ps" for ps
    by (induction xs arbitrary: ps) (auto split: sum.splits)
qed

lemma map_scan_any [simp]: "scan_any h f (map g xs) = scan_any h (f \<circ> g) xs"
proof
  show "scan_any h f (map g xs) ps = scan_any h (f \<circ> g) xs ps" for ps
    by (induction xs arbitrary: ps) (auto split: sum.splits)
qed

lemma map_first_some [simp]: "first_some f (map g xs) = first_some (f \<circ> g) xs"
  by (induction xs) (auto split: option.splits)

lemma enumerate_map: "enumerate n (map g xs) = map (map_prod id g) (enumerate n xs)"
  by (induction xs arbitrary: n) simp_all

lemma enumerate_drop: "enumerate n (drop n xs) = map (\<lambda>i. (i, xs ! i)) [n ..< length xs]"
  by (rule nth_equalityI) (auto simp: nth_enumerate_eq)

lemma path_scanner_each:
  assumes "\<And>c d. c \<in> set cs \<Longrightarrow> path_scanner (Scan c d) (check c d)" and "length cs \<le> length items"
  shows "path_scanner (scan_first (scan_at items) (enumerate 0 (map Scan cs))) (checkEach (map check cs) items)"
proof -
  have "path_scanner (scan_first (scan_at items \<circ> map_prod id Scan) (enumerate 0 cs))
      (first_some ((\<lambda>(i, c). beneath (idx_path i) (c (items ! i))) \<circ> map_prod id check) (enumerate 0 cs))"
  proof (rule path_scanner_first)
    fix x assume "x \<in> set (enumerate 0 cs)"
    moreover obtain i c where "x = (i, c)" by (cases x)
    ultimately have x: "x = (i, c)" "i < length cs" "c \<in> set cs"
      by (auto simp: in_set_enumerate_eq)
    then show "path_scanner ((scan_at items \<circ> map_prod id Scan) x)
        (((\<lambda>(i, c). beneath (idx_path i) (c (items ! i))) \<circ> map_prod id check) x)"
      using assms by (simp add: scan_at_def validatorScan_def path_scanner_in_path)
  qed
  then show ?thesis by (simp add: checkEach_def enumerate_map)
qed

lemma path_scanner_items:
  assumes "\<And>d. path_scanner (f d) (c d)"
  shows "path_scanner (scan_first (\<lambda>(i, d). validatorScan f (idx_path i) d) (enumerate n items)) (checkItems c n items)"
  unfolding checkItems_def
  by (rule path_scanner_first) (auto simp: validatorScan_def intro: path_scanner_in_path assms)

lemma path_scanner_rest:
  assumes "\<And>d. path_scanner (f d) (c d)"
  shows "path_scanner (scan_first (scan_at items) (map (\<lambda>i. (i, f)) [n ..< length items]))
    (checkItems c n (drop n items))"
  unfolding checkItems_def enumerate_drop map_scan_first map_first_some
  by (rule path_scanner_first) (auto simp: scan_at_def validatorScan_def intro: path_scanner_in_path assms)

lemma path_scanner_Scan_tuple:
  assumes "\<And>c d. c \<in> set cs \<Longrightarrow> path_scanner (Scan c d) (check c d)"
    and "\<And>a d. additional = Some a \<Longrightarrow> path_scanner (Scan a d) (check a d)"
  shows "path_scanner (Scan (TupleSchema m cs additional) data) (check (TupleSchema m cs additional) data)"
proof (cases "as_list data")
  case None
  then show ?thesis using path_scanner_fail by (simp add: scanTuple_def checkTuple_def fun_eq_iff path_scanner_def)
next
  case (Some items)
  show ?thesis
  proof (cases additional)
    case None
    show ?thesis
    proof (cases "length items = length cs")
      case True
      then have "path_scanner (\<lambda>ps. then_scan (scan_first (scan_at items) (enumerate 0 (map Scan cs)) ps) pass)
          (or_else (checkEach (map check cs) items) None)"
        by (intro path_scanner_then path_scanner_each assms path_scanner_pass) simp_all
      then show ?thesis using Some None True
        by (cases "checkEach (map check cs) items") (simp_all add: scanTuple_def checkTuple_def path_scanner_def or_else_def)
    qed (use Some None path_scanner_fail in \<open>simp add: scanTuple_def checkTuple_def path_scanner_def\<close>)
  next
    case (Some add)
    show ?thesis
    proof (cases "length items < length cs")
      case False
      have "path_scanner (\<lambda>ps. then_scan (scan_first (scan_at items) (enumerate 0 (map Scan cs)) ps)
            (scan_first (\<lambda>(i, d). validatorScan (Scan add) (idx_path i) d)
              (enumerate (length cs) (drop (length cs) items))))
          (or_else (checkEach (map check cs) items) (checkItems (check add) (length cs) (drop (length cs) items)))"
        using False Some by (intro path_scanner_then path_scanner_each path_scanner_items assms) simp_all
      then show ?thesis using Some \<open>as_list data = Some items\<close> False
        by (simp add: scanTuple_def checkTuple_def path_scanner_def)
    qed (use Some \<open>as_list data = Some items\<close> path_scanner_fail in
        \<open>simp add: scanTuple_def checkTuple_def path_scanner_def\<close>)
  qed
qed

lemma path_scanner_params:
  assumes "\<And>c d. c \<in> set cs \<Longrightarrow> path_scanner (Scan c d) (check c d)"
    and "\<And>a d. additional = Some a \<Longrightarrow> path_scanner (Scan a d) (check a d)"
  shows "path_scanner (ScanParams (map Scan cs) (map_option Scan additional) params)
    (checkParams (map check cs) (map_option check additional) params)"
proof -
  let ?rest = "if length params > length cs then
      (case map_option Scan additional of None \<Rightarrow> fail ''length of params mismatch''
       | Some add \<Rightarrow> scan_first (scan_at params) (map (\<lambda>i. (i, add)) [length cs ..< length params]))
      else pass"
  let ?crest = "if length params > length cs then
      (case map_option check additional of None \<Rightarrow> fault ''length of params mismatch''
       | Some add \<Rightarrow> checkItems add (length cs) (drop (length cs) params)) else None"
  have "path_scanner ?rest ?crest"
    by (cases additional) (use assms(2) in \<open>simp_all add: path_scanner_rest del: map_scan_first\<close>)
  then have "path_scanner (\<lambda>ps. then_scan (scan_first (scan_at params) (enumerate 0 (map Scan cs)) ps) ?rest)
      (or_else (checkEach (map check cs) params) ?crest)" if "\<not> length params < length cs"
    using that by (intro path_scanner_then path_scanner_each assms) simp_all
  then have "path_scanner (\<lambda>ps. if length params < length cs then fail ''length of params mismatch'' ps
        else then_scan (scan_first (scan_at params) (enumerate 0 (map Scan cs)) ps) ?rest)
      (if length params < length cs then fault ''length of params mismatch''
       else or_else (checkEach (map check cs) params) ?crest)"
    by (cases "length params < length cs") (simp_all only: if_True if_False path_scanner_fail not_False_eq_True)
  from path_scanner_in_path [OF this, of "''.params''"] show ?thesis
    by (simp only: ScanParams_def checkParams_def length_map)
qed

lemma path_scanner_Scan_method:
  assumes "\<And>c d. c \<in> set cs \<Longrightarrow> path_scanner (Scan c d) (check c d)"
    and "\<And>a d. additional = Some a \<Longrightarrow> path_scanner (Scan a d) (check a d)"
    and "\<And>r d. returns = Some r \<Longrightarrow> path_scanner (Scan r d) (check r d)"
  shows "path_scanner (Scan (MethodSchema m cs returns additional) data)
    (check (MethodSchema m cs returns additional) data)"
proof -
  have ret: "path_scanner (ScanResult (map_option Scan returns) v)
      (case map_option check returns of None \<Rightarrow> None | Some r \<Rightarrow> beneath ''.result'' (r v))" for v
    using assms(3) path_scanner_in_path [of "Scan (the returns) v" "check (the returns) v" "''.result''"]
    by (cases returns) (auto simp: ScanResult_def validatorScan_def path_scanner_def pass_def)
  show ?thesis
    using path_scanner_params [of cs additional, OF assms(1,2)] ret path_scanner_fail
    by (auto simp: scanMethod_def checkMethod_def path_scanner_def split: option.splits)
qed

lemma keys_map_snd: "map fst (map (map_prod id f) m) = map fst m"
  by simp

lemma path_scanner_Scan_object:
  assumes "\<And>k c d. (k, c) \<in> set props \<Longrightarrow> path_scanner (Scan c d) (check c d)"
    and "\<And>a d. additional = Some a \<Longrightarrow> path_scanner (Scan a d) (check a d)"
  shows "path_scanner (Scan (ObjectSchema m props requires additional) data)
    (check (ObjectSchema m props requires additional) data)"
proof (cases "as_map data")
  case None
  then show ?thesis using path_scanner_fail by (simp add: scanObject_def checkObject_def path_scanner_def)
next
  case (Some obj)
  have pr: "path_scanner ((scan_prop obj requires \<circ> map_prod id Scan) x) ((check_prop obj requires \<circ> map_prod id check) x)"
    if "x \<in> set props" for x
  proof -
    obtain k c where x: "x = (k, c)" by (cases x)
    with that have "path_scanner (Scan c d) (check c d)" for d using assms(1) by blast
    then show ?thesis
      by (cases "map_of obj k"; cases "map_of requires k")
         (simp_all add: x scan_prop_def check_prop_def validatorScan_def path_scanner_in_path)
  qed
  let ?extra = "filter (\<lambda>(prop, v). prop \<notin> set (map fst props)) obj"
  have rest: "path_scanner (case map_option Scan additional of None \<Rightarrow> pass
        | Some add \<Rightarrow> scan_first (\<lambda>(prop, v). validatorScan add (CHR ''.'' # prop) v) ?extra)
      (case map_option check additional of None \<Rightarrow> None
        | Some add \<Rightarrow> first_some (\<lambda>(prop, v). beneath (CHR ''.'' # prop) (add v)) ?extra)"
    using assms(2)
    by (cases additional) (auto simp: validatorScan_def intro!: path_scanner_first path_scanner_in_path)
  have sc: "path_scanner (scan_first (scan_prop obj requires \<circ> map_prod id Scan) props)
      (first_some (check_prop obj requires \<circ> map_prod id check) props)"
    by (rule path_scanner_first) (rule pr)
  show ?thesis
    using path_scanner_then [OF sc rest]
    by (cases additional)
       (simp_all add: Some scanObject_def checkObject_def keys_map_snd path_scanner_def del: map_map set_map)
qed

lemma Scan_check: "path_scanner (Scan s data) (check s data)"
proof (induction s arbitrary: data)
  case (AnyOfSchema m cs)
  then have "path_scanner (scan_any ''data is not any of the types'' (\<lambda>c. validatorScan (Scan c) [] data) cs)
      (if list_ex (\<lambda>c. check c data = None) cs then None else fault ''data is not any of the types'')"
    using path_scanner_in_path [of "Scan c data" "check c data" "[]" for c]
    by (intro path_scanner_any) (force simp: validatorScan_def beneath_def pushPath_def map_option_idI split: prod.splits)
  then show ?case by (simp add: comp_def list_ex_iff)
next
  case (AllOfSchema m cs)
  then have "path_scanner (scan_first (\<lambda>c. validatorScan (Scan c) [] data) cs) (first_some (\<lambda>c. check c data) cs)"
    using path_scanner_in_path [of "Scan c data" "check c data" "[]" for c]
    by (intro path_scanner_first) (force simp: validatorScan_def beneath_def pushPath_def map_option_idI split: prod.splits)
  then show ?case by (simp add: comp_def)
next
  case (NotSchema m c)
  then show ?case by (cases "check c data") (simp_all add: scanNot_def path_scanner_def fail_def pass_def fault_def place_def NewErrorPos_def)
next
  case (ListSchema m item mini maxi)
  then show ?case
    using path_scanner_items [of "Scan item" "check item" 0] path_scanner_fail
    by (auto simp: scanList_def length_error_def or_else_def fault_def path_scanner_def split: option.split)
next
  case (TupleSchema m cs additional)
  then show ?case by (intro path_scanner_Scan_tuple) auto
next
  case (ObjectSchema m props requires additional)
  then show ?case by (intro path_scanner_Scan_object) (auto simp: snds.simps)
next
  case (MethodSchema m ps returns additional)
  then show ?case by (intro path_scanner_Scan_method) auto
next
  case (NumberSchema m r)
  then show ?case using path_scanner_fail path_scanner_hinted
    by (auto simp: scanNumber_def path_scanner_def split: option.split)
next
  case (IntegerSchema m r)
  then show ?case using path_scanner_fail path_scanner_hinted
    by (auto simp: scanInteger_def path_scanner_def split: option.split)
next
  case (StringSchema m a b)
  then show ?case using path_scanner_fail path_scanner_pass
    by (auto simp: scanString_def length_error_def path_scanner_def split: option.split)
qed simp_all

interpretation sc: path_scanner "Scan s data" "check s data" for s data
  by (rule Scan_check)

section \<open>The meaning of a schema\<close>

definition in_range :: "('a :: ord) range \<Rightarrow> 'a \<Rightarrow> bool" where
  "in_range r v \<longleftrightarrow>
     (case Maximum r of None \<Rightarrow> True | Some m \<Rightarrow> if flag (ExclusiveMaximum r) then \<not> m \<le> v else \<not> m < v) \<and>
     (case Minimum r of None \<Rightarrow> True | Some m \<Rightarrow> if flag (ExclusiveMinimum r) then \<not> v \<le> m else \<not> v < m)"

definition in_length :: "int option \<Rightarrow> int option \<Rightarrow> nat \<Rightarrow> bool" where
  "in_length maxi mini n \<longleftrightarrow> (\<forall>b \<in> set_option maxi. int n \<le> b) \<and> (\<forall>b \<in> set_option mini. b \<le> int n)"

definition valid_each :: "(gval \<Rightarrow> bool) list \<Rightarrow> gval list \<Rightarrow> bool" where
  "valid_each vs items \<longleftrightarrow> list_all2 (\<lambda>v d. v d) vs (take (length vs) items)"

text \<open>A positional list: one value per schema, then the additional ones if the schema allows any.\<close>

definition valid_positional :: "(gval \<Rightarrow> bool) list \<Rightarrow> (gval \<Rightarrow> bool) option \<Rightarrow> gval list \<Rightarrow> bool" where
  "valid_positional vs additional items \<longleftrightarrow> valid_each vs items \<and>
     (case additional of None \<Rightarrow> length items = length vs | Some a \<Rightarrow> list_all a (drop (length vs) items))"

definition valid_method ::
  "(gval \<Rightarrow> bool) list \<Rightarrow> (gval \<Rightarrow> bool) option \<Rightarrow> (gval \<Rightarrow> bool) option \<Rightarrow> gmap \<Rightarrow> bool" where
  "valid_method vs returns additional msg \<longleftrightarrow>
     (case convertAttrList msg ''params'' False of
        Some params \<Rightarrow> valid_positional vs additional params
      | None \<Rightarrow> (case map_of msg ''result'' of None \<Rightarrow> False
          | Some v \<Rightarrow> (case returns of None \<Rightarrow> True | Some r \<Rightarrow> r v)))"

definition valid_object ::
  "(string \<times> (gval \<Rightarrow> bool)) list \<Rightarrow> (string \<times> bool) list \<Rightarrow> (gval \<Rightarrow> bool) option \<Rightarrow> gmap \<Rightarrow> bool" where
  "valid_object props requires additional obj \<longleftrightarrow>
     (\<forall>(k, v) \<in> set props. case map_of obj k of Some d \<Rightarrow> v d | None \<Rightarrow> map_of requires k = None) \<and>
     (case additional of None \<Rightarrow> True
      | Some a \<Rightarrow> (\<forall>(k, d) \<in> set obj. k \<notin> fst ` set props \<longrightarrow> a d))"

primrec valid :: "schema \<Rightarrow> gval \<Rightarrow> bool" where
  "valid (AnySchema m) = (\<lambda>d. True)"
| "valid (NullSchema m) = (\<lambda>d. d = GNil)"
| "valid (BoolSchema m) = (\<lambda>d. as_bool d \<noteq> None)"
| "valid (NumberSchema m r) = (\<lambda>d. case number_of d of None \<Rightarrow> False | Some f \<Rightarrow> in_range r f)"
| "valid (IntegerSchema m r) = (\<lambda>d. case integer_of d of None \<Rightarrow> False | Some n \<Rightarrow> in_range r n)"
| "valid (StringSchema m maxi mini) =
     (\<lambda>d. case as_string d of None \<Rightarrow> False | Some s \<Rightarrow> in_length maxi mini (length s))"
| "valid (AnyOfSchema m cs) = (\<lambda>d. list_ex (\<lambda>v. v d) (map valid cs))"
| "valid (AllOfSchema m cs) = (\<lambda>d. list_all (\<lambda>v. v d) (map valid cs))"
| "valid (NotSchema m c) = (\<lambda>d. \<not> valid c d)"
| "valid (ListSchema m item mini maxi) =
     (\<lambda>d. case as_list d of None \<Rightarrow> False
          | Some items \<Rightarrow> in_length maxi mini (length items) \<and> list_all (valid item) items)"
| "valid (TupleSchema m cs additional) =
     (\<lambda>d. case as_list d of None \<Rightarrow> False
          | Some items \<Rightarrow> valid_positional (map valid cs) (map_option valid additional) items)"
| "valid (ObjectSchema m props requires additional) =
     (\<lambda>d. case as_map d of None \<Rightarrow> False
          | Some obj \<Rightarrow> valid_object (map (map_prod id valid) props) requires (map_option valid additional) obj)"
| "valid (MethodSchema m params returns additional) =
     (\<lambda>d. case as_map d of None \<Rightarrow> False
          | Some msg \<Rightarrow> valid_method (map valid params) (map_option valid returns) (map_option valid additional) msg)"

lemma fault_not_None [simp]: "fault h \<noteq> None"
  by (simp add: fault_def)

lemma beneath_None [simp]: "beneath p c = None \<longleftrightarrow> c = None"
  by (simp add: beneath_def)

lemma or_else_None [simp]: "or_else a b = None \<longleftrightarrow> a = None \<and> b = None"
  by (cases a) (simp_all add: or_else_def)

lemma first_some_None [simp]: "first_some f xs = None \<longleftrightarrow> (\<forall>x \<in> set xs. f x = None)"
  by (induction xs) (auto split: option.splits)

lemma length_error_None [simp]: "length_error a b maxi mini n = None \<longleftrightarrow> in_length maxi mini n"
  by (auto simp: length_error_def in_length_def above_def below_def split: option.splits)

lemma checkRange_None [simp]: "checkRange r v = None \<longleftrightarrow> in_range r v"
  by (cases "Maximum r"; cases "Minimum r"; cases "flag (ExclusiveMaximum r)"; cases "flag (ExclusiveMinimum r)")
     (auto simp: checkRange_def in_range_def)

lemma checkItems_None [simp]: "checkItems c n items = None \<longleftrightarrow> (\<forall>d \<in> set items. c d = None)"
proof -
  have "snd ` set (enumerate n items) = set items"
    by (metis map_snd_enumerate set_map)
  then show ?thesis unfolding checkItems_def first_some_None by (force split: prod.splits)
qed

lemma checkEach_None:
  assumes "length cs \<le> length items"
  shows "checkEach (map f cs) items = None \<longleftrightarrow> (\<forall>i < length cs. f (cs ! i) (items ! i) = None)"
  using enumerate_drop [of 0 cs] by (auto simp: checkEach_def enumerate_map)

lemma valid_each_iff:
  "valid_each (map valid cs) items \<longleftrightarrow> length cs \<le> length items \<and> (\<forall>i < length cs. valid (cs ! i) (items ! i))"
  by (auto simp: valid_each_def list_all2_conv_all_nth)

lemma list_all_set: "list_all P xs \<longleftrightarrow> (\<forall>x \<in> set xs. P x)"
  by (simp add: list_all_iff)

lemma checkTuple_None:
  assumes "\<And>c d. c \<in> set cs \<Longrightarrow> check c d = None \<longleftrightarrow> valid c d"
    and "\<And>a d. additional = Some a \<Longrightarrow> check a d = None \<longleftrightarrow> valid a d"
  shows "check (TupleSchema m cs additional) d = None \<longleftrightarrow> valid (TupleSchema m cs additional) d"
proof -
  have "checkEach (map check cs) items = None \<longleftrightarrow> valid_each (map valid cs) items" if "length cs \<le> length items" for items
    using that assms(1) by (simp add: checkEach_None valid_each_iff)
  then show ?thesis
    using assms(2)
    by (cases "as_list d"; cases additional)
       (auto simp: checkTuple_def valid_positional_def list_all_set valid_each_iff)
qed

lemma checkParams_None:
  assumes "\<And>c d. c \<in> set cs \<Longrightarrow> check c d = None \<longleftrightarrow> valid c d"
    and "\<And>a d. additional = Some a \<Longrightarrow> check a d = None \<longleftrightarrow> valid a d"
  shows "checkParams (map check cs) (map_option check additional) ps = None \<longleftrightarrow>
    valid_positional (map valid cs) (map_option valid additional) ps"
proof -
  have "checkEach (map check cs) ps = None \<longleftrightarrow> valid_each (map valid cs) ps" if "length cs \<le> length ps"
    using that assms(1) by (simp add: checkEach_None valid_each_iff)
  then show ?thesis
    using assms(2)
    by (cases additional) (auto simp: checkParams_def valid_positional_def list_all_set valid_each_iff)
qed

lemma checkObject_None:
  assumes "\<And>k c d. (k, c) \<in> set props \<Longrightarrow> check c d = None \<longleftrightarrow> valid c d"
    and "\<And>a d. additional = Some a \<Longrightarrow> check a d = None \<longleftrightarrow> valid a d"
  shows "check (ObjectSchema m props requires additional) d = None \<longleftrightarrow> valid (ObjectSchema m props requires additional) d"
proof (cases "as_map d")
  case (Some obj)
  have "(\<forall>x \<in> set props. check_prop obj requires (map_prod id check x) = None) \<longleftrightarrow>
      (\<forall>(k, c) \<in> set props. case map_of obj k of Some d \<Rightarrow> valid c d | None \<Rightarrow> map_of requires k = None)"
  proof (intro ball_cong refl)
    fix x assume x: "x \<in> set props"
    obtain k c where kc: "x = (k, c)" by (cases x)
    with x assms(1) have "check c d = None \<longleftrightarrow> valid c d" for d by blast
    then show "check_prop obj requires (map_prod id check x) = None \<longleftrightarrow>
        (case x of (k, c) \<Rightarrow> case map_of obj k of Some d \<Rightarrow> valid c d | None \<Rightarrow> map_of requires k = None)"
      by (cases "map_of obj k") (simp_all add: kc check_prop_def)
  qed
  then show ?thesis
    using assms(2) Some
    by (cases additional) (auto simp: checkObject_def valid_object_def image_image)
qed (simp add: checkObject_def)

text \<open>The checker accepts exactly the values of the schema.\<close>

lemma check_valid: "check s d = None \<longleftrightarrow> valid s d"
proof (induction s arbitrary: d)
  case (TupleSchema m cs additional)
  then show ?case by (intro checkTuple_None) auto
next
  case (ObjectSchema m props requires additional)
  then show ?case by (intro checkObject_None) (auto simp: snds.simps)
next
  case (MethodSchema m ps returns additional)
  have "checkParams (map check ps) (map_option check additional) params = None \<longleftrightarrow>
      valid_positional (map valid ps) (map_option valid additional) params" for params
    using MethodSchema by (intro checkParams_None) auto
  then show ?case
    using MethodSchema(2) by (auto simp: checkMethod_def valid_method_def split: option.splits)
qed (auto simp: list_ex_iff list_all_iff split: option.splits)

section \<open>Properties\<close>

lemma Validate_check: "Validate ps s d = Inr (map_option (place ps) (check s d), ps)"
  using path_scanner_in_path [OF Scan_check, of "[]" s d]
  by (cases "check s d") (auto simp: path_scanner_def Validate_def validatorScan_def beneath_def pushPath_def)

lemma validate_iff: "\<exists>r. Validate ps s d = Inr (r, ps) \<and> (r = None \<longleftrightarrow> valid s d)"
  by (simp add: Validate_check check_valid)

text \<open>
  \<^bold>\<open>C4.\<close> \<^verbatim>\<open>Validate\<close> does not panic, leaves the validator's path stack as it found it, reports no error
  exactly on the values of the schema, and places the error it reports under the current path.
\<close>

theorem validate_correct:
  "\<exists>r. Validate ps s d = Inr (r, ps) \<and> (r = None \<longleftrightarrow> valid s d) \<and>
     (\<forall>e \<in> set_option r. \<exists>q. pos_paths e = ps @ q)"
proof -
  have "\<forall>e \<in> set_option (map_option (place ps) (check s d)). \<exists>q. pos_paths e = ps @ q"
    by (cases "check s d") (auto simp: place_def split: prod.splits)
  then show ?thesis by (simp add: Validate_check check_valid)
qed

theorem validate_correct_witness:
  "\<exists>r. Validate [] (NotSchema no_mixin (NullSchema no_mixin)) GNil = Inr (r, []) \<and> r \<noteq> None"
  using validate_correct [of "[]" "NotSchema no_mixin (NullSchema no_mixin)" GNil] by auto

text \<open>
  An integer schema accepts a JSON integer literal exactly when it fits 64 bits and lies within
  the bounds, each of them excluded when its exclusive flag is set.
\<close>

theorem integer_schema_bounds:
  "valid (IntegerSchema m r) (GNum (show_int n)) \<longleftrightarrow> in_int64 n \<and>
     (\<forall>b. Maximum r = Some b \<longrightarrow> (if flag (ExclusiveMaximum r) then n < b else n \<le> b)) \<and>
     (\<forall>b. Minimum r = Some b \<longrightarrow> (if flag (ExclusiveMinimum r) then b < n else b \<le> n))"
  by (cases "Maximum r"; cases "Minimum r") (auto simp: integer_of_def in_range_def)

theorem integer_schema_bounds_witness:
  "valid (IntegerSchema no_mixin (no_range\<lparr>Maximum := Some 5, ExclusiveMaximum := Some False\<rparr>)) (GNum (show_int 5))"
  unfolding integer_schema_bounds
  by (simp add: no_range_def flag_def in_int64_def int64_min_def int64_max_def)

text \<open>
  Map iteration order does not matter: an object schema gives the same verdict for every order of
  its properties, of its required names and of the object's members.
\<close>

theorem object_verdict_order_independent:
  assumes "go_map_ok props" "mset props = mset props'" "go_map_ok reqs" "mset reqs = mset reqs'"
    and "go_map_ok obj" "mset obj = mset obj'"
  shows "valid (ObjectSchema m props reqs add) (GMap obj) = valid (ObjectSchema m props' reqs' add) (GMap obj')"
proof -
  have "set props = set props'" "set obj = set obj'"
    using assms(2,6) mset_eq_setD by blast+
  moreover have "map_of reqs' = map_of reqs" "map_of obj' = map_of obj"
    using assms map_of_perm by blast+
  ultimately show ?thesis by (simp only: valid.simps as_map_simps option.case valid_object_def set_map)
qed

theorem object_verdict_order_witness:
  "valid (ObjectSchema no_mixin [(''a'', NullSchema no_mixin), (''b'', BoolSchema no_mixin)] [(''a'', True)] None)
      (GMap [(''a'', GNil), (''b'', GBool True)]) =
   valid (ObjectSchema no_mixin [(''b'', BoolSchema no_mixin), (''a'', NullSchema no_mixin)] [(''a'', True)] None)
      (GMap [(''b'', GBool True), (''a'', GNil)])"
  by (rule object_verdict_order_independent) simp_all

text \<open>
  A method schema never accepts a request with by-name parameters: unless the message also has a
  result, validation reports that it is not a JSON-RPC message.
\<close>

theorem method_schema_rejects_by_name:
  assumes "map_of msg ''params'' = Some (GMap byName)" "map_of msg ''result'' = None"
  shows "Validate ps (MethodSchema m params returns additional) (GMap msg) =
    Inr (Some \<lparr>pos_paths = ps, pos_hint = ''data is not a JSONRPC message''\<rparr>, ps)"
  using assms
  by (simp add: Validate_def validatorScan_def in_path_def pushPath_def popPath_def scanMethod_def
      convertAttrList_def fail_def NewErrorPos_def)

theorem method_schema_rejects_by_name_witness:
  "Validate [] (MethodSchema no_mixin [] None None) (GMap [(''params'', GMap [])]) =
    Inr (Some \<lparr>pos_paths = [], pos_hint = ''data is not a JSONRPC message''\<rparr>, [])"
  by (rule method_schema_rejects_by_name) simp_all

end
