(* ===== verification/Schema_Equal.thy ===== *)
theory Schema_Equal
  imports Schema
begin

text \<open>
  \<^verbatim>\<open>Equal\<close> and \<^verbatim>\<open>Map\<close> of \<^verbatim>\<open>schema/schema.go\<close> with the helpers they use. Equal schemas accept the same values.
\<close>

section \<open>Equality and the generated description\<close>

definition PointerEqual :: "('a \<Rightarrow> 'a \<Rightarrow> bool) \<Rightarrow> 'a option \<Rightarrow> 'a option \<Rightarrow> bool" where
  "PointerEqual eq p1 p2 =
     (case (p1, p2) of (Some x, Some y) \<Rightarrow> eq x y | (None, None) \<Rightarrow> True | _ \<Rightarrow> False)"

definition rangeEqual :: "('a \<Rightarrow> 'a \<Rightarrow> bool) \<Rightarrow> 'a range \<Rightarrow> 'a range \<Rightarrow> bool" where
  "rangeEqual eq r t \<longleftrightarrow>
     PointerEqual eq (Maximum r) (Maximum t) \<and> PointerEqual eq (Minimum r) (Minimum t) \<and>
     PointerEqual (=) (ExclusiveMaximum r) (ExclusiveMaximum t) \<and>
     PointerEqual (=) (ExclusiveMinimum r) (ExclusiveMinimum t)"

text \<open>The comparisons of sub-schemas take the \<^verbatim>\<open>Equal\<close> methods of the left-hand side.\<close>

definition SubSchemaEqual :: "('s \<Rightarrow> bool) option \<Rightarrow> 's option \<Rightarrow> bool" where
  "SubSchemaEqual s1 s2 =
     (case (s1, s2) of (Some eq, Some s) \<Rightarrow> eq s | (None, None) \<Rightarrow> True | _ \<Rightarrow> False)"

definition SchemaListEqual :: "('s \<Rightarrow> bool) list \<Rightarrow> 's list \<Rightarrow> bool" where
  "SchemaListEqual l1 l2 \<longleftrightarrow> list_all2 (\<lambda>eq s. eq s) l1 l2"

definition SchemaMapEqual :: "(string \<times> ('s \<Rightarrow> bool)) list \<Rightarrow> (string \<times> 's) list \<Rightarrow> bool" where
  "SchemaMapEqual m1 m2 \<longleftrightarrow> length m1 = length m2 \<and>
     list_all (\<lambda>(key, eq). case map_of m2 key of None \<Rightarrow> False | Some s \<Rightarrow> eq s) m1"

definition SchemaMapValueEqual :: "(string \<times> 'v) list \<Rightarrow> (string \<times> 'v) list \<Rightarrow> bool" where
  "SchemaMapValueEqual m1 m2 \<longleftrightarrow> length m1 = length m2 \<and>
     list_all (\<lambda>(key, elem1). case map_of m2 key of None \<Rightarrow> False | Some elem2 \<Rightarrow> elem1 = elem2) m1"

text \<open>One definition per \<^verbatim>\<open>Equal\<close> method: the receiver's fields, its sub-schemas as their \<^verbatim>\<open>Equal\<close> methods.\<close>

definition anyEqual :: "schema_mixin \<Rightarrow> schema \<Rightarrow> bool" where
  [simp]: "anyEqual m s = (case s of AnySchema n \<Rightarrow> m = n | _ \<Rightarrow> False)"

definition nullEqual :: "schema_mixin \<Rightarrow> schema \<Rightarrow> bool" where
  [simp]: "nullEqual m s = (case s of NullSchema n \<Rightarrow> m = n | _ \<Rightarrow> False)"

definition boolEqual :: "schema_mixin \<Rightarrow> schema \<Rightarrow> bool" where
  [simp]: "boolEqual m s = (case s of BoolSchema n \<Rightarrow> m = n | _ \<Rightarrow> False)"

definition numberEqual :: "schema_mixin \<Rightarrow> float64 range \<Rightarrow> schema \<Rightarrow> bool" where
  [simp]: "numberEqual m r s = (case s of NumberSchema n t \<Rightarrow> m = n \<and> rangeEqual f64_eq r t | _ \<Rightarrow> False)"

definition integerEqual :: "schema_mixin \<Rightarrow> int range \<Rightarrow> schema \<Rightarrow> bool" where
  [simp]: "integerEqual m r s = (case s of IntegerSchema n t \<Rightarrow> m = n \<and> rangeEqual (=) r t | _ \<Rightarrow> False)"

definition stringEqual :: "schema_mixin \<Rightarrow> int option \<Rightarrow> int option \<Rightarrow> schema \<Rightarrow> bool" where
  [simp]: "stringEqual m maxi mini s = (case s of StringSchema n maxi' mini' \<Rightarrow>
     m = n \<and> PointerEqual (=) maxi maxi' \<and> PointerEqual (=) mini mini' | _ \<Rightarrow> False)"

definition anyOfEqual :: "schema_mixin \<Rightarrow> (schema \<Rightarrow> bool) list \<Rightarrow> schema \<Rightarrow> bool" where
  [simp]: "anyOfEqual m cs s = (case s of AnyOfSchema n ds \<Rightarrow> m = n \<and> SchemaListEqual cs ds | _ \<Rightarrow> False)"

definition allOfEqual :: "schema_mixin \<Rightarrow> (schema \<Rightarrow> bool) list \<Rightarrow> schema \<Rightarrow> bool" where
  [simp]: "allOfEqual m cs s = (case s of AllOfSchema n ds \<Rightarrow> m = n \<and> SchemaListEqual cs ds | _ \<Rightarrow> False)"

definition notEqual :: "schema_mixin \<Rightarrow> (schema \<Rightarrow> bool) \<Rightarrow> schema \<Rightarrow> bool" where
  [simp]: "notEqual m c s = (case s of NotSchema n d \<Rightarrow> m = n \<and> SubSchemaEqual (Some c) (Some d) | _ \<Rightarrow> False)"

definition listEqual :: "schema_mixin \<Rightarrow> (schema \<Rightarrow> bool) \<Rightarrow> int option \<Rightarrow> int option \<Rightarrow> schema \<Rightarrow> bool" where
  [simp]: "listEqual m c mini maxi s = (case s of ListSchema n d mini' maxi' \<Rightarrow>
     m = n \<and> PointerEqual (=) maxi maxi' \<and> PointerEqual (=) mini mini' \<and>
     SubSchemaEqual (Some c) (Some d) | _ \<Rightarrow> False)"

definition tupleEqual ::
  "schema_mixin \<Rightarrow> (schema \<Rightarrow> bool) list \<Rightarrow> (schema \<Rightarrow> bool) option \<Rightarrow> schema \<Rightarrow> bool" where
  [simp]: "tupleEqual m cs add s = (case s of TupleSchema n ds add' \<Rightarrow>
     m = n \<and> SubSchemaEqual add add' \<and> SchemaListEqual cs ds | _ \<Rightarrow> False)"

definition objectEqual ::
  "schema_mixin \<Rightarrow> (string \<times> (schema \<Rightarrow> bool)) list \<Rightarrow> (string \<times> bool) list \<Rightarrow> (schema \<Rightarrow> bool) option \<Rightarrow>
     schema \<Rightarrow> bool" where
  [simp]: "objectEqual m props reqs add s = (case s of ObjectSchema n props' reqs' add' \<Rightarrow>
     m = n \<and> SchemaMapEqual props props' \<and> SchemaMapValueEqual reqs reqs' \<and> SubSchemaEqual add add' | _ \<Rightarrow> False)"

definition methodEqual ::
  "schema_mixin \<Rightarrow> (schema \<Rightarrow> bool) list \<Rightarrow> (schema \<Rightarrow> bool) option \<Rightarrow> (schema \<Rightarrow> bool) option \<Rightarrow>
     schema \<Rightarrow> bool" where
  [simp]: "methodEqual m ps ret add s = (case s of MethodSchema n ps' ret' add' \<Rightarrow>
     m = n \<and> SubSchemaEqual add add' \<and> SchemaListEqual ps ps' \<and> SubSchemaEqual ret ret' | _ \<Rightarrow> False)"

primrec Equal :: "schema \<Rightarrow> schema \<Rightarrow> bool" where
  "Equal (AnySchema m) = anyEqual m"
| "Equal (NullSchema m) = nullEqual m"
| "Equal (BoolSchema m) = boolEqual m"
| "Equal (NumberSchema m r) = numberEqual m r"
| "Equal (IntegerSchema m r) = integerEqual m r"
| "Equal (StringSchema m maxi mini) = stringEqual m maxi mini"
| "Equal (AnyOfSchema m cs) = anyOfEqual m (map Equal cs)"
| "Equal (AllOfSchema m cs) = allOfEqual m (map Equal cs)"
| "Equal (NotSchema m c) = notEqual m (Equal c)"
| "Equal (ListSchema m c mini maxi) = listEqual m (Equal c) mini maxi"
| "Equal (TupleSchema m cs add) = tupleEqual m (map Equal cs) (map_option Equal add)"
| "Equal (ObjectSchema m props reqs add) =
     objectEqual m (map (map_prod id Equal) props) reqs (map_option Equal add)"
| "Equal (MethodSchema m ps ret add) =
     methodEqual m (map Equal ps) (map_option Equal ret) (map_option Equal add)"

definition rebuildType :: "schema_mixin \<Rightarrow> string \<Rightarrow> gmap" where
  "rebuildType m nType =
     [(''type'', GStr nType)] @
     (if sname m \<noteq> [] then [(''name'', GStr (sname m))] else []) @
     (if sdescription m \<noteq> [] then [(''description'', GStr (sdescription m))] else [])"

definition range_map :: "('a \<Rightarrow> gval) \<Rightarrow> 'a range \<Rightarrow> gmap" where
  "range_map f r =
     (case Maximum r of None \<Rightarrow> []
      | Some v \<Rightarrow> (''maximum'', f v) # (case ExclusiveMaximum r of None \<Rightarrow> [] | Some b \<Rightarrow> [(''exclusiveMaximum'', GBool b)])) @
     (case Minimum r of None \<Rightarrow> []
      | Some v \<Rightarrow> (''minimum'', f v) # (case ExclusiveMinimum r of None \<Rightarrow> [] | Some b \<Rightarrow> [(''exclusiveMinimum'', GBool b)]))"

definition opt_member :: "string \<Rightarrow> gmap option \<Rightarrow> gmap" where
  "opt_member k v = (case v of None \<Rightarrow> [] | Some m \<Rightarrow> [(k, GMap m)])"

text \<open>One definition per \<^verbatim>\<open>Map\<close> method; the keys set after \<^verbatim>\<open>rebuildType\<close> are new, so each store appends.\<close>

definition numberMap :: "schema_mixin \<Rightarrow> float64 range \<Rightarrow> gmap" where
  [simp]: "numberMap m r = rebuildType m ''number'' @ range_map GFloat r"

definition integerMap :: "schema_mixin \<Rightarrow> int range \<Rightarrow> gmap" where
  [simp]: "integerMap m r = rebuildType m ''integer'' @ range_map GInt64 r"

definition anyOfMap :: "schema_mixin \<Rightarrow> gmap list \<Rightarrow> gmap" where
  [simp]: "anyOfMap m cs = rebuildType m ''anyOf'' @ [(''anyOf'', GMapList (map GMap cs))]"

definition allOfMap :: "schema_mixin \<Rightarrow> gmap list \<Rightarrow> gmap" where
  [simp]: "allOfMap m cs = rebuildType m ''allOf'' @ [(''allOf'', GMapList (map GMap cs))]"

definition notMap :: "schema_mixin \<Rightarrow> gmap \<Rightarrow> gmap" where
  [simp]: "notMap m c = rebuildType m ''not'' @ [(''not'', GMap c)]"

definition listMap :: "schema_mixin \<Rightarrow> gmap \<Rightarrow> gmap" where
  [simp]: "listMap m item = rebuildType m ''list'' @ [(''items'', GMap item)]"

definition tupleMap :: "schema_mixin \<Rightarrow> gmap list \<Rightarrow> gmap" where
  [simp]: "tupleMap m cs = rebuildType m ''list'' @ [(''items'', GMapList (map GMap cs))]"

definition objectMap :: "schema_mixin \<Rightarrow> (string \<times> gmap) list \<Rightarrow> (string \<times> bool) list \<Rightarrow> gmap option \<Rightarrow> gmap" where
  [simp]: "objectMap m props requires additional =
     rebuildType m ''object'' @
     [(''properties'', GMap (map (map_prod id GMap) props)), (''requires'', GStrs (map fst requires))] @
     opt_member ''additionalProperties'' additional"

definition methodMap :: "schema_mixin \<Rightarrow> gmap list \<Rightarrow> gmap option \<Rightarrow> gmap option \<Rightarrow> gmap" where
  [simp]: "methodMap m params returns additional =
     rebuildType m ''method'' @ [(''params'', GMapList (map GMap params))] @
     opt_member ''returns'' returns @ opt_member ''additionalParams'' additional"

primrec Map :: "schema \<Rightarrow> gmap" where
  "Map (AnySchema m) = rebuildType m ''any''"
| "Map (NullSchema m) = rebuildType m ''null''"
| "Map (BoolSchema m) = rebuildType m ''bool''"
| "Map (NumberSchema m r) = numberMap m r"
| "Map (IntegerSchema m r) = integerMap m r"
| "Map (StringSchema m maxi mini) = rebuildType m ''string''"
| "Map (AnyOfSchema m cs) = anyOfMap m (map Map cs)"
| "Map (AllOfSchema m cs) = allOfMap m (map Map cs)"
| "Map (NotSchema m c) = notMap m (Map c)"
| "Map (ListSchema m item mini maxi) = listMap m (Map item)"
| "Map (TupleSchema m cs additional) = tupleMap m (map Map cs)"
| "Map (ObjectSchema m props requires additional) =
     objectMap m (map (map_prod id Map) props) requires (map_option Map additional)"
| "Map (MethodSchema m params returns additional) =
     methodMap m (map Map params) (map_option Map returns) (map_option Map additional)"

definition SchemaToString :: "schema \<Rightarrow> go_panic + string" where
  "SchemaToString s = map_sum PanicMarshal enc_json (marshal (GMap (Map s)))"

section \<open>Properties of equality\<close>

text \<open>Maps list each key once, in every sub-schema.\<close>

primrec schema_ok :: "schema \<Rightarrow> bool" where
  "schema_ok (AnySchema m) = True"
| "schema_ok (NullSchema m) = True"
| "schema_ok (BoolSchema m) = True"
| "schema_ok (NumberSchema m r) \<longleftrightarrow> Maximum r \<noteq> Some NaN \<and> Minimum r \<noteq> Some NaN"
| "schema_ok (IntegerSchema m r) = True"
| "schema_ok (StringSchema m a b) = True"
| "schema_ok (AnyOfSchema m cs) = list_all schema_ok cs"
| "schema_ok (AllOfSchema m cs) = list_all schema_ok cs"
| "schema_ok (NotSchema m c) = schema_ok c"
| "schema_ok (ListSchema m c a b) = schema_ok c"
| "schema_ok (TupleSchema m cs add) \<longleftrightarrow> list_all schema_ok cs \<and> pred_option schema_ok add"
| "schema_ok (ObjectSchema m props reqs add) \<longleftrightarrow> go_map_ok props \<and> go_map_ok reqs \<and>
     list_all (pred_prod (\<lambda>_. True) schema_ok) props \<and> pred_option schema_ok add"
| "schema_ok (MethodSchema m ps ret add) \<longleftrightarrow>
     list_all schema_ok ps \<and> pred_option schema_ok ret \<and> pred_option schema_ok add"

lemma PointerEqual_eq [simp]: "PointerEqual (=) p q \<longleftrightarrow> p = q"
  by (auto simp: PointerEqual_def split: option.splits)

lemma f64_eq_iff: "f64_eq x y \<longleftrightarrow> x = y \<and> x \<noteq> NaN"
  by (cases x; cases y) auto

lemma PointerEqual_f64: "PointerEqual f64_eq p q \<longleftrightarrow> p = q \<and> p \<noteq> Some NaN"
  by (auto simp: PointerEqual_def f64_eq_iff split: option.splits)

lemma rangeEqual_eq: "rangeEqual (=) r t \<longleftrightarrow> r = t"
  by (cases r; cases t) (auto simp: rangeEqual_def)

lemma rangeEqual_f64: "rangeEqual f64_eq r t \<longleftrightarrow> r = t \<and> Maximum r \<noteq> Some NaN \<and> Minimum r \<noteq> Some NaN"
  by (cases r; cases t) (auto simp: rangeEqual_def PointerEqual_f64)

lemma SubSchemaEqual_Some [simp]: "SubSchemaEqual (Some eq) s \<longleftrightarrow> (\<exists>x. s = Some x \<and> eq x)"
  "SubSchemaEqual None s \<longleftrightarrow> s = None"
  by (auto simp: SubSchemaEqual_def split: option.splits)

lemma SchemaListEqual_map: "SchemaListEqual (map f cs) ds \<longleftrightarrow> list_all2 f cs ds"
  by (simp add: SchemaListEqual_def list_all2_map1)

lemma go_map_lookup: "go_map_ok m \<Longrightarrow> (k, v) \<in> set m \<Longrightarrow> map_of m k = Some v"
  by (simp add: map_of_ok_iff)

lemma SchemaMapEqual_refl:
  assumes "go_map_ok m" "\<And>k c. (k, c) \<in> set m \<Longrightarrow> f c c"
  shows "SchemaMapEqual (map (map_prod id f) m) m"
  using assms by (auto simp: SchemaMapEqual_def list_all_iff go_map_lookup)

lemma SchemaMapValueEqual_refl: "go_map_ok m \<Longrightarrow> SchemaMapValueEqual m m"
  by (auto simp: SchemaMapValueEqual_def list_all_iff go_map_lookup)

lemma Equal_refl: "schema_ok s \<Longrightarrow> Equal s s"
proof (induction s)
  case (ObjectSchema m props reqs add)
  then have "SchemaMapEqual (map (map_prod id Equal) props) props"
    by (intro SchemaMapEqual_refl) (auto simp: list_all_pred_snd snds.simps)
  with ObjectSchema show ?case by (cases add) (auto simp: SchemaMapValueEqual_refl)
next
  case (TupleSchema m cs add)
  then show ?case by (cases add) (auto simp: SchemaListEqual_map list_all_iff intro: list_all2_all_nthI)
next
  case (MethodSchema m ps ret add)
  then show ?case
    by (cases add; cases ret) (auto simp: SchemaListEqual_map list_all_iff intro: list_all2_all_nthI)
qed (auto simp: SchemaListEqual_map list_all_iff rangeEqual_eq rangeEqual_f64 intro: list_all2_all_nthI)

text \<open>Equal maps agree at every key: the sizes rule out a key of the second map the first does not have.\<close>

lemma map_equal_rel:
  assumes "go_map_ok m1" "go_map_ok m2" "length m1 = length m2"
    and "\<And>k c. (k, c) \<in> set m1 \<Longrightarrow> \<exists>d. map_of m2 k = Some d \<and> R c d"
  shows "rel_option R (map_of m1 k) (map_of m2 k)"
proof -
  have "fst ` set m1 \<subseteq> fst ` set m2"
    using assms(4) by (force simp: dom_map_of_conv_image_fst [symmetric])
  moreover have "card (fst ` set m1) = card (fst ` set m2)"
    using assms(1-3) by (metis distinct_card go_map_ok_def length_map set_map)
  ultimately have keys: "fst ` set m1 = fst ` set m2"
    by (simp add: card_subset_eq)
  show ?thesis
  proof (cases "map_of m1 k")
    case None
    then have "map_of m2 k = None" by (simp add: map_of_eq_None_iff keys)
    with None show ?thesis by simp
  next
    case (Some c)
    then have "(k, c) \<in> set m1" by (rule map_of_SomeD)
    with assms(4) Some show ?thesis by fastforce
  qed
qed

lemma SchemaMapEqual_rel:
  assumes "SchemaMapEqual (map (map_prod id f) m1) m2" "go_map_ok m1" "go_map_ok m2"
  shows "rel_option f (map_of m1 k) (map_of m2 k)"
  using assms
  by (intro map_equal_rel) (auto simp: SchemaMapEqual_def list_all_iff split: option.splits)

lemma SchemaMapValueEqual_rel:
  assumes "SchemaMapValueEqual m1 m2" "go_map_ok m1" "go_map_ok m2"
  shows "map_of m1 k = map_of m2 k"
proof -
  have "rel_option (=) (map_of m1 k) (map_of m2 k)"
    using assms
    by (intro map_equal_rel) (auto simp: SchemaMapValueEqual_def list_all_iff split: option.splits)
  then show ?thesis by (simp add: option.rel_eq)
qed

lemma valid_object_map_of:
  assumes "go_map_ok props"
  shows "valid_object (map (map_prod id valid) props) requires additional obj \<longleftrightarrow>
    (\<forall>k c. map_of props k = Some c \<longrightarrow>
       (case map_of obj k of Some d \<Rightarrow> valid c d | None \<Rightarrow> map_of requires k = None)) \<and>
    (case additional of None \<Rightarrow> True | Some a \<Rightarrow> (\<forall>(k, d) \<in> set obj. map_of props k = None \<longrightarrow> a d))"
proof -
  have keys: "fst ` set (map (map_prod id valid) props) = fst ` set props"
    by (simp add: image_image)
  have "(\<forall>(k, v) \<in> set (map (map_prod id valid) props). Q k v) \<longleftrightarrow>
      (\<forall>k c. map_of props k = Some c \<longrightarrow> Q k (valid c))" for Q
    using assms by (auto simp: map_of_ok_iff)
  then show ?thesis
    unfolding valid_object_def keys by (cases additional) (simp_all add: map_of_eq_None_iff del: set_map)
qed

lemma list_all2_valid_eq:
  "list_all2 (\<lambda>c d. \<forall>x. valid c x = valid d x) cs ds \<Longrightarrow> map valid cs = map valid ds"
  by (induction rule: list_all2_induct) auto

lemma Equal_valid_object:
  assumes "Equal (ObjectSchema m props reqs add) t" "schema_ok (ObjectSchema m props reqs add)" "schema_ok t"
    and IH: "\<And>k c d t. (k, c) \<in> set props \<Longrightarrow> Equal c t \<Longrightarrow> schema_ok c \<Longrightarrow> schema_ok t \<Longrightarrow> valid c d = valid t d"
    and IHa: "\<And>a d t. add = Some a \<Longrightarrow> Equal a t \<Longrightarrow> schema_ok a \<Longrightarrow> schema_ok t \<Longrightarrow> valid a d = valid t d"
  shows "valid (ObjectSchema m props reqs add) d = valid t d"
proof -
  from assms(1) obtain props' reqs' add' where t: "t = ObjectSchema m props' reqs' add'"
      and p: "SchemaMapEqual (map (map_prod id Equal) props) props'" and r: "SchemaMapValueEqual reqs reqs'"
      and a: "SubSchemaEqual (map_option Equal add) add'"
    by (auto split: schema.splits)
  have ok: "go_map_ok props" "go_map_ok props'" "go_map_ok reqs" "go_map_ok reqs'"
    using assms(2,3) by (simp_all add: t)
  have "map_option valid add = map_option valid add'"
    using a IHa assms(2,3) by (cases add; cases add') (auto simp: t fun_eq_iff)
  have rel: "rel_option (\<lambda>c e. \<forall>d. valid c d = valid e d) (map_of props k) (map_of props' k)" for k
  proof (cases "map_of props k")
    case (Some c)
    then obtain e where e: "map_of props' k = Some e" "Equal c e"
      using SchemaMapEqual_rel [OF p ok(1,2), of k] by (auto simp: option_rel_Some1)
    moreover from e Some have "schema_ok c" "schema_ok e"
      using assms(2,3) by (auto simp: t list_all_pred_snd dest!: map_of_SomeD)
    ultimately show ?thesis using Some IH [of k c e] by (auto dest: map_of_SomeD)
  qed (use SchemaMapEqual_rel [OF p ok(1,2), of k] in simp)
  have none: "map_of props k = None \<longleftrightarrow> map_of props' k = None" for k
    using rel [of k] by (cases "map_of props k"; cases "map_of props' k") auto
  have some: "(\<forall>c. map_of props k = Some c \<longrightarrow> F (valid c)) \<longleftrightarrow> (\<forall>c. map_of props' k = Some c \<longrightarrow> F (valid c))" for k F
  proof (cases "map_of props k"; cases "map_of props' k")
    fix c e assume "map_of props k = Some c" "map_of props' k = Some e"
    moreover from this have "valid c = valid e" using rel [of k] by (simp add: fun_eq_iff)
    ultimately show ?thesis by simp
  qed (use none [of k] in auto)
  have "valid_object (map (map_prod id valid) props) reqs (map_option valid add) obj =
      valid_object (map (map_prod id valid) props') reqs' (map_option valid add') obj" for obj
    unfolding valid_object_map_of [OF ok(1)] valid_object_map_of [OF ok(2)] \<open>map_option valid add = _\<close>
      SchemaMapValueEqual_rel [OF r ok(3,4)] none
    using some [of _ "\<lambda>v. case map_of obj k of Some d \<Rightarrow> v d | None \<Rightarrow> map_of reqs' k = None" for k]
    by simp
  then show ?thesis by (simp only: t valid.simps)
qed

lemma valid_Equal: "Equal s t \<Longrightarrow> schema_ok s \<Longrightarrow> schema_ok t \<Longrightarrow> valid s d = valid t d"
proof (induction s arbitrary: t d)
  case (ObjectSchema m props reqs add)
  show ?case
    by (rule Equal_valid_object [OF ObjectSchema.prems]) (use ObjectSchema.IH in \<open>auto simp: snds.simps\<close>)
next
  case (AnyOfSchema m cs)
  then obtain ds where "t = AnyOfSchema m ds" "list_all2 Equal cs ds"
    by (auto simp: SchemaListEqual_map split: schema.splits)
  moreover from this AnyOfSchema have "map valid cs = map valid ds"
    by (intro list_all2_valid_eq) (auto simp: list_all2_conv_all_nth list_all_length)
  ultimately show ?case by (simp del: map_map)
next
  case (AllOfSchema m cs)
  then obtain ds where "t = AllOfSchema m ds" "list_all2 Equal cs ds"
    by (auto simp: SchemaListEqual_map split: schema.splits)
  moreover from this AllOfSchema have "map valid cs = map valid ds"
    by (intro list_all2_valid_eq) (auto simp: list_all2_conv_all_nth list_all_length)
  ultimately show ?case by (simp del: map_map)
next
  case (TupleSchema m cs add)
  then obtain ds add' where t: "t = TupleSchema m ds add'" "list_all2 Equal cs ds"
      "SubSchemaEqual (map_option Equal add) add'"
    by (auto simp: SchemaListEqual_map split: schema.splits)
  moreover from this TupleSchema have "map valid cs = map valid ds"
    by (intro list_all2_valid_eq) (auto simp: list_all2_conv_all_nth list_all_length)
  moreover from t TupleSchema have "map_option valid add = map_option valid add'"
    by (cases add; cases add') (auto simp: fun_eq_iff)
  ultimately show ?case by (simp only: valid.simps)
next
  case (MethodSchema m ps ret add)
  then obtain qs ret' add' where t: "t = MethodSchema m qs ret' add'" "list_all2 Equal ps qs"
      "SubSchemaEqual (map_option Equal add) add'" "SubSchemaEqual (map_option Equal ret) ret'"
    by (auto simp: SchemaListEqual_map split: schema.splits)
  moreover from this MethodSchema have "map valid ps = map valid qs"
    by (intro list_all2_valid_eq) (auto simp: list_all2_conv_all_nth list_all_length)
  moreover from t MethodSchema have "map_option valid add = map_option valid add'"
    by (cases add; cases add') (auto simp: fun_eq_iff)
  moreover from t MethodSchema have "map_option valid ret = map_option valid ret'"
    by (cases ret; cases ret') (auto simp: fun_eq_iff)
  ultimately show ?case by (simp only: valid.simps)
next
  case (NotSchema m c)
  then show ?case by (auto split: schema.splits)
next
  case (ListSchema m c a b)
  then obtain c' where "t = ListSchema m c' a b" "Equal c c'" by (auto split: schema.splits)
  moreover from this ListSchema have "valid c = valid c'" by (auto simp: fun_eq_iff)
  ultimately show ?case by (simp only: valid.simps)
qed (auto simp: rangeEqual_eq rangeEqual_f64 split: schema.splits)

text \<open>
  \<^bold>\<open>C31.\<close> Equal schemas accept the same values, whatever order their maps enumerate their keys in, and
  every schema without a NaN bound is equal to itself.
\<close>

theorem equal_schemas_agree:
  assumes "schema_ok s" "schema_ok t"
  shows "(Equal s t \<longrightarrow> (\<forall>d. valid s d = valid t d)) \<and> Equal s s"
  using assms valid_Equal Equal_refl by blast

theorem equal_schemas_agree_witness:
  "Equal (ObjectSchema no_mixin [(''a'', BoolSchema no_mixin), (''b'', NullSchema no_mixin)] [] None)
     (ObjectSchema no_mixin [(''b'', NullSchema no_mixin), (''a'', BoolSchema no_mixin)] [] None) \<and>
   valid (ObjectSchema no_mixin [(''a'', BoolSchema no_mixin), (''b'', NullSchema no_mixin)] [] None) (GMap [(''a'', GBool True)]) =
   valid (ObjectSchema no_mixin [(''b'', NullSchema no_mixin), (''a'', BoolSchema no_mixin)] [] None) (GMap [(''a'', GBool True)])"
  using equal_schemas_agree [of "ObjectSchema no_mixin [(''a'', BoolSchema no_mixin), (''b'', NullSchema no_mixin)] [] None"
    "ObjectSchema no_mixin [(''b'', NullSchema no_mixin), (''a'', BoolSchema no_mixin)] [] None"]
  by (simp add: SchemaMapEqual_def SchemaMapValueEqual_def)

end
