(* ===== verification/Schema_Build.thy ===== *)
theory Schema_Build
  imports Schema_Equal
begin

text \<open>
  Building a schema from its description: \<^verbatim>\<open>schema/convert.go\<close> and \<^verbatim>\<open>schema/builder.go\<close>. The recursion
  follows the nesting of the description (\<open>nrank\<close>); the variadic \<^verbatim>\<open>paths\<close> are an argument. The functions of
  \<^verbatim>\<open>convert.go\<close> that fill in a missing type return the map they changed.
\<close>

section \<open>Conversions\<close>

definition simple_types :: "string list" where
  "simple_types = [''string'', ''number'', ''integer'', ''bool'', ''null'']"

definition stringInList :: "string \<Rightarrow> string list \<Rightarrow> bool" where
  "stringInList a candidates \<longleftrightarrow> list_ex (\<lambda>ca. ca = a) candidates"

definition has_key :: "gmap \<Rightarrow> string \<Rightarrow> bool" where
  "has_key m k \<longleftrightarrow> map_of m k \<noteq> None"

definition guess_type :: "gmap \<Rightarrow> gmap" where
  "guess_type typeMap =
     (if has_key typeMap ''type'' then typeMap
      else if has_key typeMap ''params'' then AList.update ''type'' (GStr ''method'') typeMap
      else if has_key typeMap ''properties'' then AList.update ''type'' (GStr ''object'') typeMap
      else case find (has_key typeMap) [''anyOf'', ''allOf'', ''not''] of
        Some tp \<Rightarrow> AList.update ''type'' (GStr tp) typeMap
      | None \<Rightarrow> typeMap)"

definition convertTypeMap :: "gval \<Rightarrow> gmap option" where
  "convertTypeMap maybeType =
     (case as_string maybeType of
        Some typeStr \<Rightarrow> if stringInList typeStr simple_types then Some [(''type'', GStr typeStr)] else None
      | None \<Rightarrow> map_option guess_type (as_map maybeType))"

definition convertAttrMap :: "gmap \<Rightarrow> string \<Rightarrow> bool \<Rightarrow> gmap option" where
  "convertAttrMap node attrName optional =
     (case map_of node attrName of
        Some v \<Rightarrow> convertTypeMap v
      | None \<Rightarrow> if optional then Some [] else None)"

definition convertAttrBool :: "gmap \<Rightarrow> string \<Rightarrow> bool \<Rightarrow> bool option" where
  "convertAttrBool node attrName optional =
     (case map_of node attrName of
        Some v \<Rightarrow> as_bool v
      | None \<Rightarrow> if optional then Some False else None)"

definition convertAttrInt :: "gmap \<Rightarrow> string \<Rightarrow> bool \<Rightarrow> int option" where
  "convertAttrInt node attrName optional =
     (case map_of node attrName of
        Some v \<Rightarrow> (case v of GInt intv \<Rightarrow> Some intv | GNum n \<Rightarrow> ParseInt n | _ \<Rightarrow> None)
      | None \<Rightarrow> if optional then Some 0 else None)"

definition convertAttrFloat :: "gmap \<Rightarrow> string \<Rightarrow> bool \<Rightarrow> float64 option" where
  "convertAttrFloat node attrName optional =
     (case map_of node attrName of
        Some v \<Rightarrow>
          (case v of
             GInt n \<Rightarrow> Some (f64_of_rat (of_int n))
           | GFloat f \<Rightarrow> Some f
           | GNum n \<Rightarrow> (let (fv, noerr) = ParseFloat n in if noerr then Some fv else None)
           | _ \<Rightarrow> None)
      | None \<Rightarrow> if optional then Some (Fin 0) else None)"

fun map_opt :: "('a \<Rightarrow> 'b option) \<Rightarrow> 'a list \<Rightarrow> 'b list option" where
  "map_opt f [] = Some []"
| "map_opt f (x # xs) =
     (case f x of None \<Rightarrow> None | Some y \<Rightarrow> (case map_opt f xs of None \<Rightarrow> None | Some ys \<Rightarrow> Some (y # ys)))"

definition convertAttrMapOfMap :: "gmap \<Rightarrow> string \<Rightarrow> bool \<Rightarrow> (string \<times> gmap) list option" where
  "convertAttrMapOfMap node attrName optional =
     (case convertAttrMap node attrName False of
        Some mm \<Rightarrow> map_opt (\<lambda>(name, value). map_option (Pair name) (convertTypeMap value)) mm
      | None \<Rightarrow> if optional then Some [] else None)"

definition convertAttrListOfMap :: "gmap \<Rightarrow> string \<Rightarrow> bool \<Rightarrow> gmap list option" where
  "convertAttrListOfMap node attrName optional =
     (case map_of node attrName of
        Some v \<Rightarrow> (case as_list v of Some aList \<Rightarrow> map_opt convertTypeMap aList | None \<Rightarrow> None)
      | None \<Rightarrow> if optional then Some [] else None)"

definition convertAttrListOfString :: "gmap \<Rightarrow> string \<Rightarrow> bool \<Rightarrow> string list option" where
  "convertAttrListOfString node attrName optional =
     (case map_of node attrName of
        Some v \<Rightarrow> (case as_list v of Some aList \<Rightarrow> map_opt as_string aList | None \<Rightarrow> None)
      | None \<Rightarrow> if optional then Some [] else None)"

section \<open>Termination of the builder\<close>

primrec grank :: "gval \<Rightarrow> nat" where
  "grank GNil = 0"
| "grank (GBool b) = 0"
| "grank (GInt i) = 0"
| "grank (GInt64 i) = 0"
| "grank (GFloat f) = 0"
| "grank (GNum s) = 0"
| "grank (GStr s) = 1"
| "grank GNilList = 1"
| "grank (GList xs) = Suc (max_list (map grank xs))"
| "grank (GStrs ss) = 0"
| "grank (GMapList xs) = 0"
| "grank (GMap m) = Suc (max_list (map snd (map (map_prod id grank) m)))"
| "grank (GAnyMap m) = 0"

text \<open>The rank of a node: its type name does not count.\<close>

definition nrank :: "gmap \<Rightarrow> nat" where
  "nrank m = max_list (map (\<lambda>(k, v). if k = ''type'' then 0 else grank v) m)"

lemma nrank_le: "nrank m \<le> n \<longleftrightarrow> (\<forall>(k, v) \<in> set m. k \<noteq> ''type'' \<longrightarrow> grank v \<le> n)"
  by (auto simp: nrank_def max_list_le)

lemma grank_GMap_le: "grank (GMap m) \<le> Suc n \<longleftrightarrow> (\<forall>(k, v) \<in> set m. grank v \<le> n)"
  by (auto simp: max_list_le)

lemma grank_member: "(k, v) \<in> set m \<Longrightarrow> grank v < grank (GMap m)"
  by (auto simp: less_Suc_eq_le intro!: max_list_ge rev_image_eqI)

lemma grank_element: "x \<in> set xs \<Longrightarrow> grank x < grank (GList xs)"
  by (auto simp: less_Suc_eq_le intro!: max_list_ge)

lemma nrank_attr: "map_of node k = Some v \<Longrightarrow> k \<noteq> ''type'' \<Longrightarrow> grank v \<le> nrank node"
  using nrank_le [of node "nrank node"] by (auto dest!: map_of_SomeD)

lemma nrank_update_type [simp]: "nrank (AList.update ''type'' v m) = nrank m"
  by (induction m) (auto simp: nrank_def max_list_def)

lemma nrank_guess [simp]: "nrank (guess_type m) = nrank m"
  by (auto simp: guess_type_def split: option.split)

lemma nrank_less_GMap: "nrank m < grank (GMap m)"
  using nrank_le [of m "max_list (map snd (map (map_prod id grank) m))"] grank_member [of _ _ m]
  by (fastforce simp: less_Suc_eq_le)

lemma convertTypeMap_Some:
  "convertTypeMap v = Some m \<longleftrightarrow>
     (\<exists>s. v = GStr s \<and> stringInList s simple_types \<and> m = [(''type'', GStr s)]) \<or>
     (\<exists>tm. v = GMap tm \<and> m = guess_type tm)"
  by (cases v) (auto simp: convertTypeMap_def as_string_def as_map_def)

lemma nrank_convert: "convertTypeMap v = Some m \<Longrightarrow> nrank m < grank v"
  using nrank_less_GMap by (auto simp: convertTypeMap_Some simp del: grank.simps(12)) (simp add: nrank_def max_list_def)

lemma map_opt_Some: "map_opt f xs = Some ys \<longleftrightarrow> list_all2 (\<lambda>x y. f x = Some y) xs ys"
proof (induction xs arbitrary: ys)
  case (Cons x xs)
  show ?case
    by (cases "f x"; cases "map_opt f xs"; cases ys) (auto simp: Cons.IH [symmetric])
qed auto

lemma list_all2_in_set: "list_all2 P xs ys \<Longrightarrow> y \<in> set ys \<Longrightarrow> \<exists>x \<in> set xs. P x y"
  by (induction rule: list_all2_induct) auto

lemma nrank_ListOfMap:
  assumes "convertAttrListOfMap node k False = Some ms" "m \<in> set ms" "k \<noteq> ''type''"
  shows "nrank m < nrank node"
proof -
  from assms(1) obtain v xs where v: "map_of node k = Some v" "as_list v = Some xs" "map_opt convertTypeMap xs = Some ms"
    by (auto simp: convertAttrListOfMap_def split: option.splits)
  from v(3) assms(2) obtain x where x: "x \<in> set xs" "convertTypeMap x = Some m"
    unfolding map_opt_Some by (blast dest: list_all2_in_set)
  have "grank x < grank v" using v(2) x(1) by (auto simp: as_list_Some_iff grank_element simp del: grank.simps)
  with nrank_convert [OF x(2)] nrank_attr [OF v(1) assms(3)] show ?thesis by simp
qed

lemma nrank_attr_convert:
  "map_of node k = Some v \<Longrightarrow> convertTypeMap v = Some m \<Longrightarrow> k \<noteq> ''type'' \<Longrightarrow> nrank m < nrank node"
  using nrank_convert [of v m] nrank_attr [of node k v] by simp

lemma nrank_attrMap:
  "convertAttrMap node k False = Some m \<Longrightarrow> k \<noteq> ''type'' \<Longrightarrow> nrank m < nrank node"
  by (auto simp: convertAttrMap_def intro: nrank_attr_convert split: option.splits)

lemma nrank_item:
  "map_of node k = Some v \<Longrightarrow> as_list v = Some xs \<Longrightarrow> x \<in> set xs \<Longrightarrow> convertTypeMap x = Some m \<Longrightarrow>
   k \<noteq> ''type'' \<Longrightarrow> nrank m < nrank node"
  using nrank_convert [of x m] nrank_attr [of node k v] grank_element [of x xs]
  by (auto simp: as_list_Some_iff simp del: grank.simps)

lemma set_update_subset: "set (AList.update k v m) \<subseteq> insert (k, v) (set m)"
  by (induction m) auto

lemma convertTypeMap_members:
  assumes "convertTypeMap v = Some mm" "(name, w) \<in> set mm" "convertTypeMap w = Some m"
  shows "nrank m < grank v"
proof (cases v)
  case (GStr s)
  with assms(1,2) have "w = GStr s" by (auto simp: convertTypeMap_Some)
  with assms(3) have "m = [(''type'', GStr s)]" by (auto simp: convertTypeMap_Some)
  then show ?thesis by (simp add: nrank_def max_list_def GStr)
next
  case (GMap pm)
  with assms(1) have mm: "mm = guess_type pm" by (simp add: convertTypeMap_Some)
  have w: "w \<noteq> GStr tp" if "tp \<in> {''method'', ''object'', ''anyOf'', ''allOf'', ''not''}" for tp
    using assms(3) that by (auto simp: convertTypeMap_Some simple_types_def stringInList_def)
  have "set (guess_type pm) \<subseteq> {(''type'', GStr tp) | tp. tp \<in> {''method'', ''object'', ''anyOf'', ''allOf'', ''not''}} \<union> set pm"
    using set_update_subset [of "''type''" _ pm]
    by (fastforce simp: guess_type_def split: option.splits if_splits)
  with assms(2) w have "(name, w) \<in> set pm" unfolding mm by blast
  with grank_member nrank_convert [OF assms(3)] GMap show ?thesis by (metis less_trans)
qed (use assms in \<open>auto simp: convertTypeMap_Some\<close>)

lemma nrank_MapOfMap:
  assumes "convertAttrMapOfMap node k True = Some pms" "(name, m) \<in> set pms" "k \<noteq> ''type''"
  shows "nrank m < nrank node"
proof -
  from assms(1,2) obtain mm where mm: "convertAttrMap node k False = Some mm"
      "map_opt (\<lambda>(name, value). map_option (Pair name) (convertTypeMap value)) mm = Some pms"
    by (auto simp: convertAttrMapOfMap_def split: option.splits)
  from list_all2_in_set [OF mm(2) [unfolded map_opt_Some] assms(2)]
  obtain w where w: "(name, w) \<in> set mm" "convertTypeMap w = Some m"
    by auto
  from mm(1) obtain v where v: "map_of node k = Some v" "convertTypeMap v = Some mm"
    by (auto simp: convertAttrMap_def split: option.splits)
  from convertTypeMap_members [OF v(2) w] nrank_attr [OF v(1) assms(3)] show ?thesis by simp
qed

section \<open>The builder\<close>

datatype build_error =
    BuildError string paths
  | NonStringMap paths gval      \<comment> \<open>the paths and the offending key, printed with \<^verbatim>\<open>%v\<close>\<close>
  | BuildDecode decode_error
  | YamlError

type_synonym built = "build_error + schema"
type_synonym node_builder = "gmap \<Rightarrow> paths \<Rightarrow> built"

text \<open>
  The functions of the builder call each other; here each takes the recursive call, \<^verbatim>\<open>buildNodeMap\<close>, as
  an argument.
\<close>

definition buildNode :: "node_builder \<Rightarrow> gval \<Rightarrow> paths \<Rightarrow> built" where
  "buildNode rec data ps =
     (case convertTypeMap data of
        Some typeMap \<Rightarrow> rec typeMap ps
      | None \<Rightarrow> Inl (BuildError ''data is not an object'' ps))"

definition build_opt :: "node_builder \<Rightarrow> gmap \<Rightarrow> string \<Rightarrow> paths \<Rightarrow> build_error + schema option" where
  "build_opt rec node k ps =
     (case map_of node k of
        None \<Rightarrow> Inr None
      | Some v \<Rightarrow> map_sum id Some (buildNode rec v (ps @ [CHR ''.'' # k])))"

definition build_each :: "node_builder \<Rightarrow> gmap list \<Rightarrow> paths \<Rightarrow> build_error + schema list" where
  "build_each rec nodes ps = mapR (\<lambda>(i, n). rec n (ps @ [idx_path i])) (enumerate 0 nodes)"

definition non_negative :: "int option \<Rightarrow> int option" where
  "non_negative n = (case n of None \<Rightarrow> None | Some i \<Rightarrow> if 0 \<le> i then Some i else None)"

definition buildListSchema :: "node_builder \<Rightarrow> node_builder" where
  "buildListSchema rec node ps =
     (case map_of node ''items'' of
        None \<Rightarrow> Inl (BuildError ''no items'' ps)
      | Some items \<Rightarrow>
          (case as_list items of
             Some itemsTuple \<Rightarrow>
               (case mapR (\<lambda>(i, item). buildNode rec item (ps @ [idx_path i])) (enumerate 0 itemsTuple) of
                  Inl e \<Rightarrow> Inl e
                | Inr children \<Rightarrow>
                    map_sum id (TupleSchema no_mixin children) (build_opt rec node ''additionalItems'' ps))
           | None \<Rightarrow>
               (case buildNode rec items ps of
                  Inl e \<Rightarrow> Inl e
                | Inr itemSchema \<Rightarrow>
                    Inr (ListSchema no_mixin itemSchema (non_negative (convertAttrInt node ''minItems'' False))
                           (non_negative (convertAttrInt node ''maxItems'' False))))))"

definition buildAnyOfSchema :: "node_builder \<Rightarrow> node_builder" where
  "buildAnyOfSchema rec node ps =
     (case convertAttrListOfMap node ''anyOf'' False of
        Some choices \<Rightarrow> map_sum id (AnyOfSchema no_mixin) (build_each rec choices (ps @ [''.anyOf'']))
      | None \<Rightarrow> Inl (BuildError ''no valid anyOf attribute'' ps))"

definition buildAllOfSchema :: "node_builder \<Rightarrow> node_builder" where
  "buildAllOfSchema rec node ps =
     (case convertAttrListOfMap node ''allOf'' False of
        Some choices \<Rightarrow> map_sum id (AllOfSchema no_mixin) (build_each rec choices (ps @ [''.allOf'']))
      | None \<Rightarrow> Inl (BuildError ''no valid allOf attribute'' ps))"

definition buildNotSchema :: "node_builder \<Rightarrow> node_builder" where
  "buildNotSchema rec node ps =
     (case convertAttrMap node ''not'' False of
        Some childMap \<Rightarrow> map_sum id (NotSchema no_mixin) (rec childMap (ps @ [''.not'']))
      | None \<Rightarrow> Inl (BuildError ''no valid not attribute'' ps))"

definition build_returns :: "node_builder \<Rightarrow> gmap \<Rightarrow> paths \<Rightarrow> build_error + schema option" where
  "build_returns rec node ps =
     (case convertAttrMap node ''returns'' True of
        Some resultNode \<Rightarrow>
          map_sum id Some
            (rec (if has_key resultNode ''type'' then resultNode
                  else AList.update ''type'' (GStr ''any'') resultNode) (ps @ [''.returns'']))
      | None \<Rightarrow> Inr None)"

definition buildMethodSchema :: "node_builder \<Rightarrow> node_builder" where
  "buildMethodSchema rec node ps =
     (case convertAttrListOfMap node ''params'' False of
        None \<Rightarrow> Inl (BuildError ''params is not a list of objects'' ps)
      | Some paramsNodes \<Rightarrow>
          (case build_each rec paramsNodes (ps @ [''.params'']) of
             Inl e \<Rightarrow> Inl e
           | Inr params \<Rightarrow>
               (case build_opt rec node ''additionalParams'' ps of
                  Inl e \<Rightarrow> Inl e
                | Inr addSchema \<Rightarrow>
                    map_sum id (\<lambda>returns. MethodSchema no_mixin params returns addSchema)
                      (build_returns rec node ps))))"

definition buildNumberSchema :: node_builder where
  "buildNumberSchema node ps =
     Inr (NumberSchema no_mixin
       \<lparr>Minimum = convertAttrFloat node ''minimum'' False, Maximum = convertAttrFloat node ''maximum'' False,
        ExclusiveMinimum = convertAttrBool node ''exclusiveMinimum'' False,
        ExclusiveMaximum = convertAttrBool node ''exclusiveMaximum'' False\<rparr>)"

definition buildIntegerSchema :: node_builder where
  "buildIntegerSchema node ps =
     Inr (IntegerSchema no_mixin
       \<lparr>Minimum = convertAttrInt node ''minimum'' False, Maximum = convertAttrInt node ''maximum'' False,
        ExclusiveMinimum = convertAttrBool node ''exclusiveMinimum'' False,
        ExclusiveMaximum = convertAttrBool node ''exclusiveMaximum'' False\<rparr>)"

definition buildStringSchema :: node_builder where
  "buildStringSchema node ps =
     Inr (StringSchema no_mixin (non_negative (convertAttrInt node ''maxLength'' False))
       (non_negative (convertAttrInt node ''minLength'' False)))"

definition build_requires ::
  "(string \<times> schema) list \<Rightarrow> gmap \<Rightarrow> paths \<Rightarrow> build_error + (string \<times> bool) list" where
  "build_requires props node ps =
     (case convertAttrListOfString node ''requires'' True of
        Some requireList \<Rightarrow>
          foldR (\<lambda>reqProp reqs.
             if map_of props reqProp = None
             then Inl (BuildError ''cannot find required prop'' (ps @ [''.requires'', CHR ''.'' # reqProp]))
             else Inr (AList.update reqProp True reqs)) requireList []
      | None \<Rightarrow> Inl (BuildError ''requires is not a list of strings'' (ps @ [''.requires''])))"

definition build_props ::
  "node_builder \<Rightarrow> (string \<times> gmap) list \<Rightarrow> paths \<Rightarrow> build_error + (string \<times> schema) list" where
  "build_props rec propNodes ps =
     mapR (\<lambda>(propName, propNode).
       map_sum id (Pair propName) (rec propNode (ps @ [''.properties'', CHR ''.'' # propName]))) propNodes"

definition buildObjectSchema :: "node_builder \<Rightarrow> node_builder" where
  "buildObjectSchema rec node ps =
     (case convertAttrMapOfMap node ''properties'' True of
        None \<Rightarrow> Inl (BuildError ''properties is not a map of objects'' ps)
      | Some propNodes \<Rightarrow>
          (case build_props rec propNodes ps of
             Inl e \<Rightarrow> Inl e
           | Inr props \<Rightarrow>
               (case build_requires props node ps of
                  Inl e \<Rightarrow> Inl e
                | Inr requires \<Rightarrow>
                    map_sum id (ObjectSchema no_mixin props requires)
                      (build_opt rec node ''additionalProperties'' ps))))"

definition buildMixin :: "schema \<Rightarrow> gmap \<Rightarrow> paths \<Rightarrow> built" where
  "buildMixin s node ps =
     (case (case map_of node ''name'' of
              None \<Rightarrow> Inr s
            | Some name \<Rightarrow> (case as_string name of
                Some strName \<Rightarrow> Inr (SetName strName s)
              | None \<Rightarrow> Inl (BuildError ''name must be string'' (ps @ [''.name''])))) of
        Inl e \<Rightarrow> Inl e
      | Inr s' \<Rightarrow>
          (case map_of node ''description'' of
             None \<Rightarrow> Inr s'
           | Some desc \<Rightarrow> (case as_string desc of
               Some strDesc \<Rightarrow> Inr (SetDescription strDesc s')
             | None \<Rightarrow> Inl (BuildError ''decsription must be string'' (ps @ [''.description''])))))"

text \<open>The \<^verbatim>\<open>switch\<close> on the node's type.\<close>

definition build_type :: "node_builder \<Rightarrow> gval \<Rightarrow> node_builder" where
  "build_type rec nodeType node ps =
     (if nodeType = GStr ''number'' then buildNumberSchema node ps
      else if nodeType = GStr ''integer'' then buildIntegerSchema node ps
      else if nodeType = GStr ''bool'' then Inr (BoolSchema no_mixin)
      else if nodeType = GStr ''any'' then Inr (AnySchema no_mixin)
      else if nodeType = GStr ''null'' then Inr (NullSchema no_mixin)
      else if nodeType = GStr ''string'' then buildStringSchema node ps
      else if nodeType = GStr ''anyOf'' then buildAnyOfSchema rec node ps
      else if nodeType = GStr ''allOf'' then buildAllOfSchema rec node ps
      else if nodeType = GStr ''not'' then buildNotSchema rec node ps
      else if nodeType = GStr ''list'' then buildListSchema rec node ps
      else if nodeType = GStr ''object'' then buildObjectSchema rec node ps
      else if nodeType = GStr ''method'' then buildMethodSchema rec node ps
      else Inl (BuildError ''unknown type'' ps))"

lemma buildNode_cong:
  assumes "\<And>m ps. nrank m < grank v \<Longrightarrow> f m ps = g m ps"
  shows "buildNode f v ps = buildNode g v ps"
  using assms nrank_convert by (auto simp: buildNode_def split: option.split)

lemma build_opt_cong:
  assumes "\<And>m ps. nrank m < nrank node \<Longrightarrow> f m ps = g m ps" "k \<noteq> ''type''"
  shows "build_opt f node k ps = build_opt g node k ps"
proof (cases "map_of node k")
  case (Some v)
  from nrank_attr [OF this assms(2)] assms(1) have "buildNode f v qs = buildNode g v qs" for qs
    by (intro buildNode_cong) simp
  with Some show ?thesis by (simp add: build_opt_def)
qed (simp add: build_opt_def)

lemma build_each_cong:
  assumes "\<And>m ps. nrank m < nrank node \<Longrightarrow> f m ps = g m ps"
    and "convertAttrListOfMap node k False = Some ms" "k \<noteq> ''type''"
  shows "build_each f ms ps = build_each g ms ps"
  unfolding build_each_def
  by (rule mapR_cong) (auto simp: in_set_enumerate_eq intro!: assms(1) nrank_ListOfMap [OF assms(2) _ assms(3)])

lemma build_returns_cong:
  assumes "\<And>m ps. nrank m < nrank node \<Longrightarrow> f m ps = g m ps"
    and "convertAttrListOfMap node ''params'' False = Some ms"
  shows "build_returns f node ps = build_returns g node ps"
proof (cases "map_of node ''returns''")
  case None
  obtain v xs where v: "map_of node ''params'' = Some v" "as_list v = Some xs"
    using assms(2) by (auto simp: convertAttrListOfMap_def split: option.splits)
  have "0 < grank v" using v(2) by (auto simp: as_list_Some_iff)
  with nrank_attr [OF v(1)] have "0 < nrank node" by simp
  moreover have "nrank [(''type'', GStr ''any'')] = 0" by (simp add: nrank_def max_list_def)
  ultimately show ?thesis
    using None assms(1) by (simp add: build_returns_def convertAttrMap_def has_key_def)
next
  case (Some v)
  show ?thesis
  proof (cases "convertTypeMap v")
    case m: (Some m)
    from nrank_attr_convert [OF Some m] assms(1) show ?thesis
      by (simp add: build_returns_def convertAttrMap_def Some m)
  qed (simp add: build_returns_def convertAttrMap_def Some)
qed

lemma buildListSchema_cong:
  assumes "\<And>m ps. nrank m < nrank node \<Longrightarrow> f m ps = g m ps"
  shows "buildListSchema f node ps = buildListSchema g node ps"
proof (cases "map_of node ''items''")
  case (Some items)
  note rank = nrank_attr [OF this]
  have opt: "build_opt f node ''additionalItems'' ps = build_opt g node ''additionalItems'' ps"
    by (rule build_opt_cong [OF assms]) simp_all
  have single: "buildNode f items ps = buildNode g items ps"
    using rank by (intro buildNode_cong assms) simp
  have each: "mapR (\<lambda>(i, item). buildNode f item (ps @ [idx_path i])) (enumerate 0 xs) =
      mapR (\<lambda>(i, item). buildNode g item (ps @ [idx_path i])) (enumerate 0 xs)" if "as_list items = Some xs" for xs
  proof (rule mapR_cong)
    fix x assume "x \<in> set (enumerate 0 xs)"
    then have "grank (snd x) < grank items"
      using that grank_element [of "snd x" xs] nth_mem [of "fst x" xs]
      by (auto simp: as_list_Some_iff in_set_enumerate_eq simp del: grank.simps)
    with rank show "(\<lambda>(i, item). buildNode f item (ps @ [idx_path i])) x = (\<lambda>(i, item). buildNode g item (ps @ [idx_path i])) x"
      by (auto split: prod.splits intro!: buildNode_cong assms)
  qed simp
  show ?thesis
    by (simp add: buildListSchema_def Some opt single each split: option.split cong: option.case_cong sum.case_cong)
qed (simp add: buildListSchema_def)

lemma buildObjectSchema_cong:
  assumes "\<And>m ps. nrank m < nrank node \<Longrightarrow> f m ps = g m ps"
  shows "buildObjectSchema f node ps = buildObjectSchema g node ps"
proof (cases "convertAttrMapOfMap node ''properties'' True")
  case (Some pms)
  have "build_props f pms ps = build_props g pms ps"
    unfolding build_props_def
    by (rule mapR_cong) (auto intro!: arg_cong [where f = "map_sum id _"] assms nrank_MapOfMap [OF Some])
  moreover have "build_opt f node ''additionalProperties'' ps = build_opt g node ''additionalProperties'' ps"
    by (rule build_opt_cong [OF assms]) simp_all
  ultimately show ?thesis by (simp add: buildObjectSchema_def Some cong: sum.case_cong)
qed (simp add: buildObjectSchema_def)

lemma buildMethodSchema_cong:
  assumes "\<And>m ps. nrank m < nrank node \<Longrightarrow> f m ps = g m ps"
  shows "buildMethodSchema f node ps = buildMethodSchema g node ps"
proof (cases "convertAttrListOfMap node ''params'' False")
  case (Some ms)
  then show ?thesis
    using build_each_cong [of node f g, OF assms Some] build_returns_cong [of node f g, OF assms Some]
      build_opt_cong [of node f g "''additionalParams''", OF assms]
    by (simp add: buildMethodSchema_def cong: sum.case_cong)
qed (simp add: buildMethodSchema_def)

lemma build_type_cong [fundef_cong]:
  assumes "t = t'" "node = node'" "ps = ps'"
    and "\<And>m ps. nrank m < nrank node' \<Longrightarrow> f m ps = g m ps"
  shows "build_type f t node ps = build_type g t' node' ps'"
proof -
  have any: "buildAnyOfSchema f node' ps' = buildAnyOfSchema g node' ps'"
    using build_each_cong [of node' f g "''anyOf''", OF assms(4)]
    by (simp add: buildAnyOfSchema_def split: option.split)
  have all: "buildAllOfSchema f node' ps' = buildAllOfSchema g node' ps'"
    using build_each_cong [of node' f g "''allOf''", OF assms(4)]
    by (simp add: buildAllOfSchema_def split: option.split)
  have nt: "buildNotSchema f node' ps' = buildNotSchema g node' ps'"
    using nrank_attrMap [of node' "''not''"] assms(4) by (simp add: buildNotSchema_def split: option.split)
  have "buildListSchema f node' ps' = buildListSchema g node' ps'"
    "buildObjectSchema f node' ps' = buildObjectSchema g node' ps'"
    "buildMethodSchema f node' ps' = buildMethodSchema g node' ps'"
    by (intro buildListSchema_cong buildObjectSchema_cong buildMethodSchema_cong assms(4); assumption)+
  with any all nt show ?thesis
    by (simp only: assms(1-3) build_type_def)
qed

function buildNodeMap :: node_builder where
  "buildNodeMap node ps =
     (case map_of node ''type'' of
        None \<Rightarrow> Inl (BuildError ''no type presented'' ps)
      | Some nodeType \<Rightarrow>
          (case build_type buildNodeMap nodeType node ps of
             Inl e \<Rightarrow> Inl e
           | Inr s \<Rightarrow> buildMixin s node ps))"
  by pat_completeness auto
termination
  by (relation "measure (\<lambda>(node, ps). nrank node)") auto

declare buildNodeMap.simps [simp del]

definition Build :: "gval \<Rightarrow> built" where
  "Build data = buildNode buildNodeMap data []"

definition BuildBytes :: "string \<Rightarrow> built" where
  "BuildBytes data =
     (case fst (decode_into (\<lambda>v. Inr (to_any v)) data) of Inl e \<Rightarrow> Inl (BuildDecode e) | Inr v \<Rightarrow> Build v)"

section \<open>YAML\<close>

primrec FixYamlMaps :: "gval \<Rightarrow> paths \<Rightarrow> build_error + gval" where
  "FixYamlMaps (GAnyMap m) = (\<lambda>ps.
     map_sum id (\<lambda>kvs. GMap (map_of_members kvs))
       (mapR (\<lambda>(k, fix_v). case as_string k of
            Some sk \<Rightarrow> map_sum id (Pair sk) (fix_v (ps @ [CHR ''.'' # sk]))
          | None \<Rightarrow> Inl (NonStringMap ps k)) (map (map_prod id FixYamlMaps) m)))"
| "FixYamlMaps (GList xs) = (\<lambda>ps.
     map_sum id GList (mapR (\<lambda>(i, fix_v). fix_v (ps @ [idx_path i])) (enumerate 0 (map FixYamlMaps xs))))"
| "FixYamlMaps GNilList = (\<lambda>ps. Inr (GList []))"
| "FixYamlMaps GNil = (\<lambda>ps. Inr GNil)"
| "FixYamlMaps (GBool b) = (\<lambda>ps. Inr (GBool b))"
| "FixYamlMaps (GInt i) = (\<lambda>ps. Inr (GInt i))"
| "FixYamlMaps (GInt64 i) = (\<lambda>ps. Inr (GInt64 i))"
| "FixYamlMaps (GFloat f) = (\<lambda>ps. Inr (GFloat f))"
| "FixYamlMaps (GNum s) = (\<lambda>ps. Inr (GNum s))"
| "FixYamlMaps (GStr s) = (\<lambda>ps. Inr (GStr s))"
| "FixYamlMaps (GStrs ss) = (\<lambda>ps. Inr (GStrs ss))"
| "FixYamlMaps (GMapList xs) = (\<lambda>ps. Inr (GMapList xs))"
| "FixYamlMaps (GMap m) = (\<lambda>ps. Inr (GMap m))"

definition BuildYamlInterface :: "gval \<Rightarrow> built" where
  "BuildYamlInterface data = (case FixYamlMaps data [] of Inl e \<Rightarrow> Inl e | Inr jsonData \<Rightarrow> Build jsonData)"

text \<open>\<open>yaml\<close> is \<^verbatim>\<open>yaml.Unmarshal\<close> into a map.\<close>

definition BuildYamlBytes :: "(string \<Rightarrow> (gval \<times> gval) list option) \<Rightarrow> string \<Rightarrow> built" where
  "BuildYamlBytes yaml bytes =
     (case yaml bytes of None \<Rightarrow> Inl YamlError | Some data \<Rightarrow> BuildYamlInterface (GAnyMap data))"

section \<open>What the builder guarantees\<close>

text \<open>
  Built schemas: every map lists a key once, every required name is a property, and the length bounds
  are not negative.
\<close>

definition nonneg_opt :: "int option \<Rightarrow> bool" where
  "nonneg_opt b \<longleftrightarrow> (case b of None \<Rightarrow> True | Some i \<Rightarrow> 0 \<le> i)"

primrec built_ok :: "schema \<Rightarrow> bool" where
  "built_ok (AnySchema m) = True"
| "built_ok (NullSchema m) = True"
| "built_ok (BoolSchema m) = True"
| "built_ok (NumberSchema m r) = True"
| "built_ok (IntegerSchema m r) = True"
| "built_ok (StringSchema m a b) \<longleftrightarrow> nonneg_opt a \<and> nonneg_opt b"
| "built_ok (AnyOfSchema m cs) = list_all built_ok cs"
| "built_ok (AllOfSchema m cs) = list_all built_ok cs"
| "built_ok (NotSchema m c) = built_ok c"
| "built_ok (ListSchema m c a b) \<longleftrightarrow> built_ok c \<and> nonneg_opt a \<and> nonneg_opt b"
| "built_ok (TupleSchema m cs add) \<longleftrightarrow> list_all built_ok cs \<and> pred_option built_ok add"
| "built_ok (ObjectSchema m props reqs add) \<longleftrightarrow> go_map_ok props \<and> go_map_ok reqs \<and>
     list_all (pred_prod (\<lambda>_. True) built_ok) props \<and> pred_option built_ok add \<and>
     (\<forall>k. map_of reqs k \<noteq> None \<longrightarrow> map_of props k \<noteq> None)"
| "built_ok (MethodSchema m ps ret add) \<longleftrightarrow>
     list_all built_ok ps \<and> pred_option built_ok ret \<and> pred_option built_ok add"

lemma built_ok_set_mixin [simp]: "built_ok (set_mixin n s) = built_ok s"
  by (cases s) simp_all

lemma buildMixin_ok: "buildMixin s node ps = Inr s' \<Longrightarrow> built_ok s \<Longrightarrow> built_ok s'"
  by (auto simp: buildMixin_def SetName_def SetDescription_def split: option.splits sum.splits)

abbreviation node_ok :: "gmap \<Rightarrow> bool" where
  "node_ok m \<equiv> gval_ok (GMap m)"

lemma set_update_type: "(k, w) \<in> set (AList.update ''type'' (GStr t) m) \<Longrightarrow> (k, w) \<in> set m \<or> w = GStr t"
  using set_update_subset [of "''type''" "GStr t" m] by auto

lemma node_ok_update_type: "node_ok m \<Longrightarrow> node_ok (AList.update ''type'' (GStr t) m)"
  by (auto simp: list_all_pred_snd dest!: set_update_type)

lemma node_ok_guess: "node_ok m \<Longrightarrow> node_ok (guess_type m)"
  by (auto simp: guess_type_def simp del: gval_ok.simps intro: node_ok_update_type split: option.split)

lemma node_ok_convert: "convertTypeMap v = Some m \<Longrightarrow> gval_ok v \<Longrightarrow> node_ok m"
  by (auto simp: convertTypeMap_Some simp del: gval_ok.simps(12) intro: node_ok_guess) simp

lemma node_ok_attr: "map_of node k = Some v \<Longrightarrow> node_ok node \<Longrightarrow> gval_ok v"
  by (auto simp: list_all_pred_snd dest: map_of_SomeD)

lemma gval_ok_as_list: "as_list v = Some xs \<Longrightarrow> gval_ok v \<Longrightarrow> x \<in> set xs \<Longrightarrow> gval_ok x"
  by (auto simp: as_list_Some_iff list_all_iff)

text \<open>The contract of a recursive call, for every smaller well-formed node.\<close>

definition sound_below :: "nat \<Rightarrow> node_builder \<Rightarrow> bool" where
  "sound_below n rec \<longleftrightarrow> (\<forall>m ps s. nrank m < n \<longrightarrow> node_ok m \<longrightarrow> rec m ps = Inr s \<longrightarrow> built_ok s)"

lemma buildNode_sound:
  assumes "sound_below n rec" "grank v \<le> n" "gval_ok v" "buildNode rec v ps = Inr s"
  shows "built_ok s"
proof -
  from assms(4) obtain m where m: "convertTypeMap v = Some m" "rec m ps = Inr s"
    by (auto simp: buildNode_def split: option.splits)
  have "nrank m < n" using nrank_convert [OF m(1)] assms(2) by simp
  with m node_ok_convert [OF m(1) assms(3)] assms(1) show ?thesis
    unfolding sound_below_def by blast
qed

lemma build_opt_sound:
  assumes "sound_below (nrank node) rec" "node_ok node" "k \<noteq> ''type''" "build_opt rec node k ps = Inr r"
  shows "pred_option built_ok r"
  using assms nrank_attr [of node k] node_ok_attr [of node k]
  by (auto simp: build_opt_def simp del: gval_ok.simps split: option.splits intro: buildNode_sound)

lemma build_each_sound:
  assumes "sound_below (nrank node) rec" "node_ok node" "k \<noteq> ''type''"
    and "convertAttrListOfMap node k False = Some ms" "build_each rec ms ps = Inr cs"
  shows "list_all built_ok cs"
proof -
  have "built_ok s" if "s \<in> set cs" for s
  proof -
    from assms(5) have "list_all2 (\<lambda>(i, n) y. rec n (ps @ [idx_path i]) = Inr y) (enumerate 0 ms) cs"
      by (simp add: build_each_def mapR_Inr_iff case_prod_beta')
    from list_all2_in_set [OF this that] obtain m i where m: "m \<in> set ms" "rec m (ps @ [idx_path i]) = Inr s"
      by (auto simp: in_set_enumerate_eq dest: nth_mem) (metis nth_mem)
    from assms(4) obtain v xs where v: "map_of node k = Some v" "as_list v = Some xs"
        "list_all2 (\<lambda>x y. convertTypeMap x = Some y) xs ms"
      by (auto simp: convertAttrListOfMap_def map_opt_Some split: option.splits)
    from list_all2_in_set [OF v(3) m(1)] obtain x where "x \<in> set xs" "convertTypeMap x = Some m" by auto
    with v assms(2) have "node_ok m"
      using node_ok_attr gval_ok_as_list node_ok_convert by blast
    with m nrank_ListOfMap [OF assms(4) m(1) assms(3)] assms(1) show ?thesis
      by (auto simp: sound_below_def simp del: gval_ok.simps)
  qed
  then show ?thesis by (simp add: list_all_iff)
qed

lemma build_returns_sound:
  assumes "sound_below (nrank node) rec" "node_ok node"
    and "convertAttrListOfMap node ''params'' False = Some ms" "build_returns rec node ps = Inr r"
  shows "pred_option built_ok r"
proof -
  show ?thesis
  proof (cases "convertAttrMap node ''returns'' True")
    case (Some rn)
    let ?rn = "if has_key rn ''type'' then rn else AList.update ''type'' (GStr ''any'') rn"
    have "nrank ?rn < nrank node \<and> node_ok ?rn"
    proof (cases "map_of node ''returns''")
      case None
      obtain v xs where v: "map_of node ''params'' = Some v" "as_list v = Some xs"
        using assms(3) by (auto simp: convertAttrListOfMap_def split: option.splits)
      have "0 < grank v" using v(2) by (auto simp: as_list_Some_iff)
      with nrank_attr [OF v(1)] have "0 < nrank node" by simp
      moreover have "rn = []" using None Some by (simp add: convertAttrMap_def)
      ultimately show ?thesis by (simp add: has_key_def nrank_def max_list_def)
    next
      case v: (Some v)
      then have "convertTypeMap v = Some rn" using Some by (simp add: convertAttrMap_def)
      then show ?thesis
        using nrank_attr_convert [OF v] node_ok_convert [of v rn] node_ok_attr [OF v assms(2)] node_ok_update_type [of rn]
        by (simp del: gval_ok.simps)
    qed
    with assms(1,4) Some show ?thesis
      by (auto simp: build_returns_def sound_below_def simp del: gval_ok.simps)
  qed (use assms(4) in \<open>simp add: build_returns_def\<close>)
qed

lemma build_requires_ok:
  assumes "build_requires props node ps = Inr reqs"
  shows "go_map_ok reqs \<and> (\<forall>k. map_of reqs k \<noteq> None \<longrightarrow> map_of props k \<noteq> None)"
proof -
  from assms obtain rl where "foldR (\<lambda>reqProp reqs.
      if map_of props reqProp = None
      then Inl (BuildError ''cannot find required prop'' (ps @ [''.requires'', CHR ''.'' # reqProp]))
      else Inr (AList.update reqProp True reqs)) rl [] = Inr reqs"
    by (auto simp: build_requires_def split: option.splits)
  then show ?thesis
    by (rule foldR_invariant [where P = "\<lambda>reqs. go_map_ok reqs \<and> (\<forall>k. map_of reqs k \<noteq> None \<longrightarrow> map_of props k \<noteq> None)"])
       (auto simp: update_conv' split: if_splits)
qed

lemma map_opt_keys:
  "list_all2 (\<lambda>x y. (\<lambda>(name, value). map_option (Pair name) (convertTypeMap value)) x = Some y) mm pms \<Longrightarrow>
     map fst pms = map fst mm"
  by (induction rule: list_all2_induct) auto

lemma MapOfMap_ok:
  assumes "convertAttrMapOfMap node ''properties'' True = Some pms" "node_ok node"
  shows "go_map_ok pms \<and> (\<forall>(k, m) \<in> set pms. node_ok m)"
proof (cases "convertAttrMap node ''properties'' False")
  case None
  with assms(1) show ?thesis by (simp add: convertAttrMapOfMap_def)
next
  case (Some mm)
  then obtain v where v: "map_of node ''properties'' = Some v" "convertTypeMap v = Some mm"
    by (auto simp: convertAttrMap_def split: option.splits)
  have mm: "node_ok mm" using node_ok_convert [OF v(2)] node_ok_attr [OF v(1) assms(2)] by blast
  have rel: "list_all2 (\<lambda>x y. (\<lambda>(name, value). map_option (Pair name) (convertTypeMap value)) x = Some y) mm pms"
    using assms(1) Some by (simp add: convertAttrMapOfMap_def map_opt_Some)
  have "node_ok m" if km: "(k, m) \<in> set pms" for k m
  proof -
    from list_all2_in_set [OF rel km] obtain w where w: "(k, w) \<in> set mm" "convertTypeMap w = Some m" by auto
    with mm have "gval_ok w" by (auto simp: list_all_pred_snd)
    with w(2) show ?thesis by (rule node_ok_convert)
  qed
  moreover have "go_map_ok pms"
    using mm map_opt_keys [OF rel] by (simp add: go_map_ok_def)
  ultimately show ?thesis by (auto simp del: gval_ok.simps)
qed

lemma build_props_sound:
  assumes "sound_below (nrank node) rec" "node_ok node"
    and "convertAttrMapOfMap node ''properties'' True = Some pms" "build_props rec pms ps = Inr props"
  shows "go_map_ok props \<and> list_all (pred_prod (\<lambda>_. True) built_ok) props"
proof -
  from assms(4) have rel: "list_all2 (\<lambda>x y. (\<lambda>(n, m). map_sum id (Pair n) (rec m (ps @ [''.properties'', CHR ''.'' # n]))) x = Inr y) pms props"
    by (simp add: build_props_def mapR_Inr_iff)
  have keys: "map fst props = map fst pms"
    using rel by (induction rule: list_all2_induct) auto
  have "built_ok c" if "(k, c) \<in> set props" for k c
  proof -
    from list_all2_in_set [OF rel that] obtain m where m: "(k, m) \<in> set pms" "rec m (ps @ [''.properties'', CHR ''.'' # k]) = Inr c"
      by auto
    have "node_ok m" using MapOfMap_ok [OF assms(3,2)] m(1) by blast
    with m nrank_MapOfMap [OF assms(3) m(1)] assms(1) show ?thesis
      unfolding sound_below_def by blast
  qed
  moreover have "go_map_ok props"
    using MapOfMap_ok [OF assms(3,2)] keys by (simp add: go_map_ok_def)
  ultimately show ?thesis by (auto simp: list_all_pred_snd)
qed

lemma buildListSchema_sound:
  assumes "sound_below (nrank node) rec" "node_ok node" "buildListSchema rec node ps = Inr s"
  shows "built_ok s"
proof -
  from assms(3) obtain items where items: "map_of node ''items'' = Some items"
    by (auto simp: buildListSchema_def split: option.splits)
  have rank: "grank items \<le> nrank node" and ok: "gval_ok items"
    using nrank_attr [OF items] node_ok_attr [OF items assms(2)] by simp_all
  show ?thesis
  proof (cases "as_list items")
    case None
    with assms(3) items obtain c where "buildNode rec items ps = Inr c"
        "s = ListSchema no_mixin c (non_negative (convertAttrInt node ''minItems'' False))
          (non_negative (convertAttrInt node ''maxItems'' False))"
      by (auto simp: buildListSchema_def split: sum.splits)
    with buildNode_sound [OF assms(1) rank ok] show ?thesis
      by (auto simp: nonneg_opt_def non_negative_def split: option.splits)
  next
    case (Some xs)
    with assms(3) items obtain cs add where s: "s = TupleSchema no_mixin cs add"
        and cs: "list_all2 (\<lambda>x y. (\<lambda>(i, item). buildNode rec item (ps @ [idx_path i])) x = Inr y) (enumerate 0 xs) cs"
        and add: "build_opt rec node ''additionalItems'' ps = Inr add"
      by (auto simp: buildListSchema_def mapR_Inr_iff [symmetric] split: sum.splits)
    have "built_ok c" if "c \<in> set cs" for c
    proof -
      from list_all2_in_set [OF cs that] obtain i x where x: "(i, x) \<in> set (enumerate 0 xs)"
          "buildNode rec x (ps @ [idx_path i]) = Inr c" by auto
      then have "x \<in> set xs" by (auto simp: in_set_enumerate_eq dest: nth_mem)
      moreover have "grank x \<le> nrank node"
        using Some \<open>x \<in> set xs\<close> rank grank_element [of x xs]
        by (auto simp: as_list_Some_iff simp del: grank.simps)
      ultimately show ?thesis
        using buildNode_sound [OF assms(1) _ _ x(2)] gval_ok_as_list [OF Some ok] by blast
    qed
    then show ?thesis
      using build_opt_sound [OF assms(1,2) _ add] by (simp add: s list_all_iff)
  qed
qed

lemma build_type_sound:
  assumes "sound_below (nrank node) rec" "node_ok node" "build_type rec t node ps = Inr s"
  shows "built_ok s"
proof -
  have any: ?thesis if "buildAnyOfSchema rec node ps = Inr s"
    using that build_each_sound [OF assms(1,2), of "''anyOf''"]
    by (auto simp: buildAnyOfSchema_def split: option.splits)
  have all: ?thesis if "buildAllOfSchema rec node ps = Inr s"
    using that build_each_sound [OF assms(1,2), of "''allOf''"]
    by (auto simp: buildAllOfSchema_def split: option.splits)
  have nt: ?thesis if n: "buildNotSchema rec node ps = Inr s"
  proof -
    from n obtain m v c where m: "map_of node ''not'' = Some v" "convertTypeMap v = Some m"
        "rec m (ps @ [''.not'']) = Inr c" "s = NotSchema no_mixin c"
      by (auto simp: buildNotSchema_def convertAttrMap_def split: option.splits)
    have "nrank m < nrank node" "node_ok m"
      using nrank_attr_convert [OF m(1,2)] node_ok_convert [OF m(2) node_ok_attr [OF m(1) assms(2)]] by simp_all
    with m assms(1) show ?thesis unfolding sound_below_def by fastforce
  qed
  have obj: ?thesis if "buildObjectSchema rec node ps = Inr s"
    using that build_props_sound [OF assms(1,2)] build_requires_ok
      build_opt_sound [OF assms(1,2), of "''additionalProperties''"]
    by (auto simp: buildObjectSchema_def split: option.splits sum.splits)
  have meth: ?thesis if "buildMethodSchema rec node ps = Inr s"
    using that build_each_sound [OF assms(1,2), of "''params''"] build_returns_sound [OF assms(1,2)]
      build_opt_sound [OF assms(1,2), of "''additionalParams''"]
    by (auto simp: buildMethodSchema_def split: option.splits sum.splits)
  show ?thesis
    using assms(3) any all nt obj meth buildListSchema_sound [OF assms(1,2)]
    by (auto simp: build_type_def buildNumberSchema_def buildIntegerSchema_def buildStringSchema_def
        nonneg_opt_def non_negative_def split: if_splits option.splits)
qed

lemma buildNodeMap_sound: "node_ok node \<Longrightarrow> buildNodeMap node ps = Inr s \<Longrightarrow> built_ok s"
proof (induction node ps arbitrary: s rule: buildNodeMap.induct)
  case (1 node ps)
  from 1(3) obtain t s0 where t: "map_of node ''type'' = Some t" "build_type buildNodeMap t node ps = Inr s0"
      "buildMixin s0 node ps = Inr s"
    by (auto simp: buildNodeMap.simps [of node] split: option.splits sum.splits)
  have "sound_below (nrank node) buildNodeMap"
    using 1(1) [OF t(1)] by (auto simp: sound_below_def simp del: gval_ok.simps)
  from build_type_sound [OF this 1(2) t(2)] t(3) show ?case by (rule buildMixin_ok [rotated])
qed

section \<open>Where errors are reported\<close>

definition under_path :: "paths \<Rightarrow> build_error \<Rightarrow> bool" where
  "under_path ps e \<longleftrightarrow> (case e of BuildError info q \<Rightarrow> \<exists>r. q = ps @ r | _ \<Rightarrow> False)"

definition errors_below :: "nat \<Rightarrow> node_builder \<Rightarrow> bool" where
  "errors_below n rec \<longleftrightarrow> (\<forall>m ps e. nrank m < n \<longrightarrow> rec m ps = Inl e \<longrightarrow> under_path ps e)"

lemma under_path_BuildError [simp]: "under_path ps (BuildError info (ps @ q))" "under_path ps (BuildError info ps)"
  by (auto simp: under_path_def)

lemma under_path_append: "under_path (ps @ q) e \<Longrightarrow> under_path ps e"
  by (auto simp: under_path_def split: build_error.splits)

lemma list_all2_in_set_left: "list_all2 P xs ys \<Longrightarrow> x \<in> set xs \<Longrightarrow> \<exists>y \<in> set ys. P x y"
  by (induction rule: list_all2_induct) auto

lemma mapR_Inl: "mapR f xs = Inl e \<Longrightarrow> \<exists>x \<in> set xs. f x = Inl e"
  by (induction xs) (auto split: sum.splits)

lemma buildNode_error:
  assumes "errors_below n rec" "grank v \<le> n" "buildNode rec v ps = Inl e"
  shows "under_path ps e"
proof (cases "convertTypeMap v")
  case (Some m)
  then have "nrank m < n" using nrank_convert assms(2) by fastforce
  with Some assms show ?thesis by (simp add: buildNode_def errors_below_def)
qed (use assms(3) in \<open>auto simp: buildNode_def\<close>)

lemma build_opt_error:
  assumes "errors_below (nrank node) rec" "k \<noteq> ''type''" "build_opt rec node k ps = Inl e"
  shows "under_path ps e"
  using assms nrank_attr [of node k] under_path_append
  by (auto simp: build_opt_def split: option.splits dest!: buildNode_error [rotated 2])

lemma build_each_error:
  assumes "errors_below (nrank node) rec" "k \<noteq> ''type''"
    and "convertAttrListOfMap node k False = Some ms" "build_each rec ms (ps @ q) = Inl e"
  shows "under_path ps e"
proof -
  from mapR_Inl [OF assms(4) [unfolded build_each_def]] obtain i m where "(i, m) \<in> set (enumerate 0 ms)"
      and e: "rec m ((ps @ q) @ [idx_path i]) = Inl e" by auto
  then have "m \<in> set ms" by (auto simp: in_set_enumerate_eq dest: nth_mem)
  from nrank_ListOfMap [OF assms(3) this assms(2)] assms(1) e have "under_path ((ps @ q) @ [idx_path i]) e"
    unfolding errors_below_def by blast
  then show ?thesis by (metis under_path_append)
qed

lemma buildListSchema_error:
  assumes "errors_below (nrank node) rec" "buildListSchema rec node ps = Inl e"
  shows "under_path ps e"
proof (cases "map_of node ''items''")
  case (Some items)
  have rank: "grank items \<le> nrank node" using nrank_attr [OF Some] by simp
  show ?thesis
  proof (cases "as_list items")
    case None
    with assms(2) Some have "buildNode rec items ps = Inl e"
      by (auto simp: buildListSchema_def split: sum.splits)
    then show ?thesis by (rule buildNode_error [OF assms(1) rank])
  next
    case xs: (Some xs)
    show ?thesis
    proof (cases "mapR (\<lambda>(i, item). buildNode rec item (ps @ [idx_path i])) (enumerate 0 xs)")
      case (Inl e')
      with assms(2) Some xs have "e' = e" by (simp add: buildListSchema_def)
      from mapR_Inl [OF Inl] obtain i x where x: "(i, x) \<in> set (enumerate 0 xs)"
          "buildNode rec x (ps @ [idx_path i]) = Inl e'" by auto
      then have "x \<in> set xs" by (auto simp: in_set_enumerate_eq dest: nth_mem)
      then have "grank x \<le> nrank node"
        using xs rank grank_element [of x xs] by (auto simp: as_list_Some_iff simp del: grank.simps)
      from buildNode_error [OF assms(1) this x(2)] show ?thesis
        unfolding \<open>e' = e\<close> by (rule under_path_append)
    next
      case (Inr cs)
      with assms(2) Some xs have "build_opt rec node ''additionalItems'' ps = Inl e"
        by (simp add: buildListSchema_def)
      then show ?thesis by (rule build_opt_error [OF assms(1), rotated]) simp
    qed
  qed
qed (use assms(2) in \<open>auto simp: buildListSchema_def\<close>)

lemma build_props_error:
  assumes "errors_below (nrank node) rec"
    and "convertAttrMapOfMap node ''properties'' True = Some pms" "build_props rec pms ps = Inl e"
  shows "under_path ps e"
proof -
  from mapR_Inl [OF assms(3) [unfolded build_props_def]] obtain k m where m: "(k, m) \<in> set pms"
      "rec m (ps @ [''.properties'', CHR ''.'' # k]) = Inl e" by auto
  with nrank_MapOfMap [OF assms(2) m(1)] assms(1) have "under_path (ps @ [''.properties'', CHR ''.'' # k]) e"
    unfolding errors_below_def by blast
  then show ?thesis by (rule under_path_append)
qed

lemma build_requires_error: "build_requires props node ps = Inl e \<Longrightarrow> under_path ps e"
  by (auto simp: build_requires_def dest!: foldR_error split: option.splits if_splits)

lemma build_returns_error:
  assumes "errors_below (nrank node) rec"
    and "convertAttrListOfMap node ''params'' False = Some ms" "build_returns rec node ps = Inl e"
  shows "under_path ps e"
proof -
  let ?g = "\<lambda>m ps. if nrank m < nrank node then rec m ps else Inl (BuildError [] ps)"
  have "build_returns ?g node ps = build_returns rec node ps"
    by (rule build_returns_cong [OF _ assms(2)]) simp
  with assms(3) have "build_returns ?g node ps = Inl e" by simp
  then obtain m where "?g m (ps @ [''.returns'']) = Inl e"
    by (auto simp: build_returns_def split: option.splits)
  then have "under_path (ps @ [''.returns'']) e"
    using assms(1) by (auto simp: errors_below_def split: if_splits)
  then show ?thesis by (rule under_path_append)
qed

lemma buildMixin_error: "buildMixin s node ps = Inl e \<Longrightarrow> under_path ps e"
  by (auto simp: buildMixin_def split: option.splits sum.splits)

lemma build_type_error:
  assumes "errors_below (nrank node) rec" "build_type rec t node ps = Inl e"
  shows "under_path ps e"
proof -
  have any: ?thesis if "buildAnyOfSchema rec node ps = Inl e"
    using that build_each_error [OF assms(1), of "''anyOf''"]
    by (auto simp: buildAnyOfSchema_def split: option.splits)
  have all: ?thesis if "buildAllOfSchema rec node ps = Inl e"
    using that build_each_error [OF assms(1), of "''allOf''"]
    by (auto simp: buildAllOfSchema_def split: option.splits)
  have nt: ?thesis if "buildNotSchema rec node ps = Inl e"
    using that nrank_attrMap [of node "''not''"] assms(1) under_path_append
    by (auto simp: buildNotSchema_def errors_below_def split: option.splits) blast
  have obj: ?thesis if "buildObjectSchema rec node ps = Inl e"
    using that build_props_error [OF assms(1)] build_requires_error
      build_opt_error [OF assms(1), of "''additionalProperties''"]
    by (auto simp: buildObjectSchema_def split: option.splits sum.splits)
  have meth: ?thesis if "buildMethodSchema rec node ps = Inl e"
    using that build_each_error [OF assms(1), of "''params''"] build_returns_error [OF assms(1)]
      build_opt_error [OF assms(1), of "''additionalParams''"]
    by (auto simp: buildMethodSchema_def split: option.splits sum.splits)
  show ?thesis
    using assms(2) any all nt obj meth buildListSchema_error [OF assms(1)]
    by (auto simp: build_type_def buildNumberSchema_def buildIntegerSchema_def buildStringSchema_def split: if_splits)
qed

lemma buildNodeMap_error: "buildNodeMap node ps = Inl e \<Longrightarrow> under_path ps e"
proof (induction node ps arbitrary: e rule: buildNodeMap.induct)
  case (1 node ps)
  show ?case
  proof (cases "map_of node ''type''")
    case (Some t)
    have "errors_below (nrank node) buildNodeMap"
      using 1(1) [OF Some] by (auto simp: errors_below_def)
    from build_type_error [OF this] 1(2) Some buildMixin_error show ?thesis
      by (auto simp: buildNodeMap.simps [of node] split: sum.splits)
  qed (use 1(2) in \<open>auto simp: buildNodeMap.simps [of node]\<close>)
qed

section \<open>Properties\<close>

text \<open>
  \<^bold>\<open>C9.\<close> Building terminates on every description and gives a well-formed schema (each property and required
  name once, every required name a property, no negative length bound) or a build error, never another failure.
\<close>

theorem build_sound:
  assumes "gval_ok data"
  shows "case Build data of Inr s \<Rightarrow> built_ok s | Inl e \<Rightarrow> \<exists>info q. e = BuildError info q"
proof (cases "convertTypeMap data")
  case (Some m)
  then have "node_ok m" using assms by (rule node_ok_convert)
  then show ?thesis
    using buildNodeMap_sound [of m "[]"] buildNodeMap_error [of m "[]"]
    by (auto simp: Build_def buildNode_def Some under_path_def simp del: gval_ok.simps split: sum.split build_error.splits)
qed (simp add: Build_def buildNode_def)

theorem build_sound_witness:
  "gval_ok (GStr ''bool'') \<and> Build (GStr ''bool'') = Inr (BoolSchema no_mixin) \<and> built_ok (BoolSchema no_mixin)"
  using build_sound [of "GStr ''bool''"]
  by (simp add: Build_def buildNode_def convertTypeMap_def stringInList_def simple_types_def buildNodeMap.simps
      build_type_def buildMixin_def)

text \<open>
  The path in a build error locates the failing node: it extends the path of the node being built.
\<close>

theorem build_error_path:
  assumes "buildNodeMap node ps = Inl e"
  shows "\<exists>info q. e = BuildError info (ps @ q)"
  using buildNodeMap_error [OF assms] by (auto simp: under_path_def split: build_error.splits)

theorem build_error_path_witness:
  "\<exists>info q. buildNodeMap [(''type'', GStr ''list'')] [''.x''] = Inl (BuildError info ([''.x''] @ q))"
  using build_error_path [of "[(''type'', GStr ''list'')]" "[''.x'']"]
  by (simp add: buildNodeMap.simps build_type_def buildListSchema_def)

text \<open>
  The type guess is applied to the map of properties as if it were a schema: an object description
  whose properties include one named \<^verbatim>\<open>params\<close> and none named \<^verbatim>\<open>type\<close> is refused, whatever the properties are.
\<close>

theorem property_named_params_refused:
  assumes "map_of node ''type'' = Some (GStr ''object'')" "map_of node ''properties'' = Some (GMap props)"
    and "map_of props ''params'' = Some v" "map_of props ''type'' = None"
  shows "buildNodeMap node ps = Inl (BuildError ''properties is not a map of objects'' ps)"
proof -
  let ?mm = "AList.update ''type'' (GStr ''method'') props"
  have mm: "convertAttrMap node ''properties'' False = Some ?mm"
    using assms(2-4) by (simp add: convertAttrMap_def convertTypeMap_def guess_type_def has_key_def)
  have "(''type'', GStr ''method'') \<in> set ?mm"
    by (rule map_of_SomeD) (simp add: update_conv')
  moreover have "convertTypeMap (GStr ''method'') = None"
    by (simp add: convertTypeMap_def stringInList_def simple_types_def)
  ultimately have "map_opt (\<lambda>(name, value). map_option (Pair name) (convertTypeMap value)) ?mm = None"
    by (cases "map_opt (\<lambda>(name, value). map_option (Pair name) (convertTypeMap value)) ?mm")
       (auto simp: map_opt_Some dest: list_all2_in_set_left)
  then have "convertAttrMapOfMap node ''properties'' True = None"
    by (simp add: convertAttrMapOfMap_def mm)
  then show ?thesis
    using assms(1) by (simp add: buildNodeMap.simps build_type_def buildObjectSchema_def)
qed

theorem property_named_params_refused_witness:
  "buildNodeMap [(''type'', GStr ''object''), (''properties'', GMap [(''params'', GStr ''string'')])] [] =
     Inl (BuildError ''properties is not a map of objects'' [])"
  by (rule property_named_params_refused [where props = "[(''params'', GStr ''string'')]" and v = "GStr ''string''"])
     simp_all

text \<open>The keys of every \<^verbatim>\<open>map[any]any\<close> that \<^verbatim>\<open>FixYamlMaps\<close> reaches are strings.\<close>

primrec string_keys :: "gval \<Rightarrow> bool" where
  "string_keys (GAnyMap m) = list_all (\<lambda>(k, ok). as_string k \<noteq> None \<and> ok) (map (map_prod id string_keys) m)"
| "string_keys (GList xs) = list_all string_keys xs"
| "string_keys GNilList = True"
| "string_keys GNil = True"
| "string_keys (GBool b) = True"
| "string_keys (GInt i) = True"
| "string_keys (GInt64 i) = True"
| "string_keys (GFloat f) = True"
| "string_keys (GNum s) = True"
| "string_keys (GStr s) = True"
| "string_keys (GStrs ss) = True"
| "string_keys (GMapList xs) = True"
| "string_keys (GMap m) = True"

lemma fix_yaml_error:
  "FixYamlMaps v ps = Inl e \<Longrightarrow> \<not> string_keys v \<and> (\<exists>q k. e = NonStringMap (ps @ q) k \<and> as_string k = None)"
proof (induction v arbitrary: ps e)
  case (GAnyMap m)
  let ?f = "\<lambda>(k, fix_v). case as_string k of
      Some sk \<Rightarrow> map_sum id (Pair sk) (fix_v (ps @ [CHR ''.'' # sk]))
    | None \<Rightarrow> Inl (NonStringMap ps k)"
  from GAnyMap.prems have "mapR ?f (map (map_prod id FixYamlMaps) m) = Inl e" by simp
  from mapR_Inl [OF this] obtain k w where mem: "(k, w) \<in> set m" and x: "?f (k, FixYamlMaps w) = Inl e" by auto
  show ?case
  proof (cases "as_string k")
    case None
    with x mem show ?thesis by (force simp: list_all_iff)
  next
    case (Some sk)
    with x have "FixYamlMaps w (ps @ [CHR ''.'' # sk]) = Inl e" by simp
    with GAnyMap.IH(2) [of "(k, w)" w] mem show ?thesis
      by (force simp: list_all_iff)
  qed
next
  case (GList xs)
  from GList.prems obtain i x where "(i, x) \<in> set (enumerate 0 xs)" "FixYamlMaps x (ps @ [idx_path i]) = Inl e"
    by (auto simp: enumerate_map dest!: mapR_Inl)
  moreover from this have "x \<in> set xs" by (auto simp: in_set_enumerate_eq dest: nth_mem)
  ultimately show ?case using GList.IH [of x] by (force simp: list_all_iff)
qed simp_all

lemma fix_yaml_ok: "FixYamlMaps v ps = Inr w \<Longrightarrow> string_keys v"
proof (induction v arbitrary: ps w)
  case (GAnyMap m)
  then obtain kvs where "list_all2 (\<lambda>x y. (\<lambda>(k, fix_v). case as_string k of
            Some sk \<Rightarrow> map_sum id (Pair sk) (fix_v (ps @ [CHR ''.'' # sk]))
          | None \<Rightarrow> Inl (NonStringMap ps k)) x = Inr y) (map (map_prod id FixYamlMaps) m) kvs"
    by (auto simp: mapR_Inr_iff)
  then have "as_string k \<noteq> None \<and> string_keys u" if "(k, u) \<in> set m" for k u
  proof -
    from that have "(k, FixYamlMaps u) \<in> set (map (map_prod id FixYamlMaps) m)" by force
    from list_all2_in_set_left [OF \<open>list_all2 _ _ kvs\<close> this] GAnyMap.IH(2) [OF that] show ?thesis
      by (auto split: option.splits)
  qed
  then show ?case by (auto simp: list_all_iff)
next
  case (GList xs)
  then obtain ys where "list_all2 (\<lambda>x y. (\<lambda>(i, fix_v). fix_v (ps @ [idx_path i])) x = Inr y) (enumerate 0 (map FixYamlMaps xs)) ys"
    by (auto simp: mapR_Inr_iff)
  then have "string_keys x" if "x \<in> set xs" for x
  proof -
    from that obtain i where "i < length xs" "xs ! i = x" by (auto simp: in_set_conv_nth)
    then have "(i, FixYamlMaps x) \<in> set (enumerate 0 (map FixYamlMaps xs))"
      by (simp add: in_set_enumerate_eq)
    from list_all2_in_set_left [OF \<open>list_all2 _ _ ys\<close> this] GList.IH [OF that] show ?thesis by auto
  qed
  then show ?case by (simp add: list_all_iff)
qed auto

text \<open>
  \<^verbatim>\<open>FixYamlMaps\<close> succeeds exactly when every key of every \<^verbatim>\<open>map[any]any\<close> it reaches is a string;
  otherwise it reports a key that is not one, with a path below the current one.
\<close>

theorem fix_yaml_maps_keys:
  "case FixYamlMaps v ps of
     Inr w \<Rightarrow> string_keys v
   | Inl e \<Rightarrow> \<not> string_keys v \<and> (\<exists>q k. e = NonStringMap (ps @ q) k \<and> as_string k = None)"
  using fix_yaml_error fix_yaml_ok by (auto split: sum.split)

end
