(* ===== verification/Http.thy ===== *)
theory Http
  imports Messages
begin

text \<open>
  What the servers and clients of \<^verbatim>\<open>net/\<close> use of Go's \<^verbatim>\<open>net/http\<close>: headers under canonical keys, requests,
  responses and the response writer with its rules (the header is fixed by the first \<^verbatim>\<open>WriteHeader\<close>, a body is
  dropped where the status has none). The headers \<^verbatim>\<open>net/http\<close> adds itself (\<^verbatim>\<open>Date\<close>, \<^verbatim>\<open>Content-Length\<close>, a
  sniffed \<^verbatim>\<open>Content-Type\<close>) are left out. With them come the two error values that carry a response
  (\<^verbatim>\<open>net/errors.go\<close>) and \<^verbatim>\<open>ErrorResponse\<close> of \<^verbatim>\<open>utils.go\<close>.
\<close>

section \<open>Headers\<close>

definition ascii_upper :: "char \<Rightarrow> char" where
  "ascii_upper c = (if 97 \<le> char_code c \<and> char_code c \<le> 122 then char_of (char_code c - 32) else c)"

definition ascii_lower :: "char \<Rightarrow> char" where
  "ascii_lower c = (if 65 \<le> char_code c \<and> char_code c \<le> 90 then char_of (char_code c + 32) else c)"

definition header_byte :: "char \<Rightarrow> bool" where
  "header_byte c \<longleftrightarrow> is_alnum c \<or> c \<in> set (''!#$%&*+-.^_|~'' @ [CHR 0x27, CHR 0x60])"

fun canon_key :: "bool \<Rightarrow> string \<Rightarrow> string" where
  "canon_key upper [] = []"
| "canon_key upper (c # r) =
     (let c' = (if upper then ascii_upper c else ascii_lower c) in c' # canon_key (c' = CHR ''-'') r)"

definition CanonicalHeaderKey :: "string \<Rightarrow> string" where
  "CanonicalHeaderKey s = (if list_all header_byte s then canon_key True s else s)"

definition headerValues :: "http_header \<Rightarrow> string \<Rightarrow> string list" where
  "headerValues h k = (case map_of h (CanonicalHeaderKey k) of Some vs \<Rightarrow> vs | None \<Rightarrow> [])"

definition headerGet :: "http_header \<Rightarrow> string \<Rightarrow> string" where
  "headerGet h k = (case headerValues h k of v # _ \<Rightarrow> v | [] \<Rightarrow> [])"

definition headerSet :: "string \<Rightarrow> string \<Rightarrow> http_header \<Rightarrow> http_header" where
  "headerSet k v h = AList.update (CanonicalHeaderKey k) [v] h"

definition headerAdd :: "string \<Rightarrow> string \<Rightarrow> http_header \<Rightarrow> http_header" where
  "headerAdd k v h = AList.update (CanonicalHeaderKey k) (headerValues h k @ [v]) h"

text \<open>The nested loops \<^verbatim>\<open>for k, vs := range h { for _, v := range vs { dst.Add(k, v) } }\<close>.\<close>

definition addAll :: "http_header \<Rightarrow> http_header \<Rightarrow> http_header" where
  "addAll src dst = fold (\<lambda>(k, vs). fold (headerAdd k) vs) src dst"

text \<open>
  \<^verbatim>\<open>strings.HasPrefix(strings.ToUpper(header), "X-")\<close>; no character outside ASCII has an \<^verbatim>\<open>X\<close> or a
  hyphen as its upper case.
\<close>

definition hasXPrefix :: "string \<Rightarrow> bool" where
  "hasXPrefix h \<longleftrightarrow> take 2 (map ascii_upper h) = ''X-''"

section \<open>Requests, responses and the response writer\<close>

record auth_info =
  Username :: string
  Settings :: gmap

record http_request =
  verb :: string                       \<comment> \<open>\<^verbatim>\<open>Method\<close>\<close>
  protoMajor :: nat
  reqHeader :: http_header
  reqBody :: "string option"           \<comment> \<open>\<open>None\<close>: reading the body fails\<close>
  ctxAuth :: "auth_info option"        \<comment> \<open>the value of \<^verbatim>\<open>authInfoKey\<close> in the request's context\<close>

definition ProtoAtLeast :: "http_request \<Rightarrow> nat \<Rightarrow> nat \<Rightarrow> bool" where
  "ProtoAtLeast r major minor \<longleftrightarrow> protoMajor r > major \<or> (protoMajor r = major \<and> minor = 0)"

record http_response =
  StatusCode :: int
  respHeader :: http_header
  respBody :: "string option"          \<comment> \<open>\<open>None\<close>: reading the body fails\<close>

record response_writer =
  wHeader :: http_header
  interim :: "(int \<times> http_header) list"          \<comment> \<open>1xx responses sent before the final one\<close>
  wrote :: "(int \<times> http_header) option"           \<comment> \<open>status and header fixed by \<^verbatim>\<open>WriteHeader\<close>\<close>
  wBody :: string

definition new_writer :: response_writer where
  "new_writer = \<lparr>wHeader = [], interim = [], wrote = None, wBody = []\<rparr>"

definition WriteHeader :: "int \<Rightarrow> response_writer \<Rightarrow> go_panic + response_writer" where
  "WriteHeader code w =
     (if wrote w \<noteq> None then Inr w
      else if code < 100 \<or> 999 < code then Inl (PanicText ''invalid WriteHeader code'')
      else if code \<le> 199 \<and> code \<noteq> 101 then Inr (w\<lparr>interim := interim w @ [(code, wHeader w)]\<rparr>)
      else Inr (w\<lparr>wrote := Some (code, wHeader w)\<rparr>))"

definition bodyAllowed :: "int \<Rightarrow> bool" where
  "bodyAllowed code \<longleftrightarrow> \<not> (100 \<le> code \<and> code \<le> 199) \<and> code \<noteq> 204 \<and> code \<noteq> 304"

definition writeBody :: "string \<Rightarrow> response_writer \<Rightarrow> response_writer" where
  "writeBody data w =
     (let w' = (if wrote w = None then w\<lparr>wrote := Some (200, wHeader w)\<rparr> else w)
      in case wrote w' of
           Some (code, h) \<Rightarrow> if bodyAllowed code then w'\<lparr>wBody := wBody w' @ data\<rparr> else w'
         | None \<Rightarrow> w')"

definition setHeader :: "string \<Rightarrow> string \<Rightarrow> response_writer \<Rightarrow> response_writer" where
  "setHeader k v w = w\<lparr>wHeader := headerSet k v (wHeader w)\<rparr>"

definition addHeader :: "string \<Rightarrow> string \<Rightarrow> response_writer \<Rightarrow> response_writer" where
  "addHeader k v w = w\<lparr>wHeader := headerAdd k v (wHeader w)\<rparr>"

text \<open>\<^verbatim>\<open>WriteHeader\<close> followed by one \<^verbatim>\<open>Write\<close>.\<close>

definition respond :: "int \<Rightarrow> string \<Rightarrow> response_writer \<Rightarrow> go_panic + response_writer" where
  "respond code data w = map_sum id (writeBody data) (WriteHeader code w)"

text \<open>What the client gets when the handler has returned.\<close>

definition sent :: "response_writer \<Rightarrow> http_response" where
  "sent w = (case wrote w of
       Some (code, h) \<Rightarrow> \<lparr>StatusCode = code, respHeader = h, respBody = Some (wBody w)\<rparr>
     | None \<Rightarrow> \<lparr>StatusCode = 200, respHeader = wHeader w, respBody = Some []\<rparr>)"

definition ErrorResponse :: "int \<Rightarrow> string \<Rightarrow> response_writer \<Rightarrow> go_panic + response_writer" where
  "ErrorResponse status message w = respond status message w"

section \<open>Errors that carry a response\<close>

record wrapped_response =
  Response :: http_response
  wrBody :: string

record simple_response =
  srCode :: int
  srBody :: string

definition wrappedError :: "wrapped_response \<Rightarrow> string" where
  "wrappedError resp = ''wrapped response '' @ show_int (StatusCode (Response resp))"

definition simpleError :: "simple_response \<Rightarrow> string" where
  "simpleError resp = show_int (srCode resp) @ ''/'' @ srBody resp"

section \<open>Lemmas\<close>

lemma ascii_case [simp]:
  "ascii_upper (ascii_upper c) = ascii_upper c" "ascii_lower (ascii_lower c) = ascii_lower c"
  by (auto simp: ascii_upper_def ascii_lower_def)

lemma canon_key_idem: "canon_key b (canon_key b s) = canon_key b s"
  by (induction b s rule: canon_key.induct) (auto simp: Let_def)

lemma header_byte_case:
  "header_byte c \<Longrightarrow> header_byte (ascii_upper c)" "header_byte c \<Longrightarrow> header_byte (ascii_lower c)"
  by (auto simp: header_byte_def ascii_upper_def ascii_lower_def is_alnum_def is_digit_def)

lemma canon_key_bytes: "list_all header_byte s \<Longrightarrow> list_all header_byte (canon_key b s)"
  by (induction b s rule: canon_key.induct) (auto simp: Let_def header_byte_case)

lemma CanonicalHeaderKey_idem [simp]: "CanonicalHeaderKey (CanonicalHeaderKey s) = CanonicalHeaderKey s"
  by (simp add: CanonicalHeaderKey_def canon_key_idem canon_key_bytes)

lemma headerValues_empty [simp]: "headerValues [] k = []"
  by (simp add: headerValues_def)

lemma headerValues_canon [simp]: "headerValues h (CanonicalHeaderKey k) = headerValues h k"
  by (simp add: headerValues_def)

lemma headerValues_set:
  "headerValues (headerSet k v h) k' = (if CanonicalHeaderKey k' = CanonicalHeaderKey k then [v] else headerValues h k')"
  by (simp add: headerValues_def headerSet_def update_conv')

lemma headerValues_add:
  "headerValues (headerAdd k v h) k' =
     (if CanonicalHeaderKey k' = CanonicalHeaderKey k then headerValues h k' @ [v] else headerValues h k')"
  by (auto simp: headerValues_def headerAdd_def update_conv')

lemma headerValues_add_list:
  "headerValues (fold (headerAdd k) vs h) k' =
     (if CanonicalHeaderKey k' = CanonicalHeaderKey k then headerValues h k' @ vs else headerValues h k')"
  by (induction vs arbitrary: h) (auto simp: headerValues_add)

lemma headerValues_addAll:
  "headerValues (addAll src dst) k =
     headerValues dst k @ concat (map snd (filter (\<lambda>(k', vs). CanonicalHeaderKey k' = CanonicalHeaderKey k) src))"
  unfolding addAll_def by (induction src arbitrary: dst) (auto simp: headerValues_add_list)

text \<open>A header whose keys are canonical and different, as \<^verbatim>\<open>net/http\<close> builds them.\<close>

definition header_ok :: "http_header \<Rightarrow> bool" where
  "header_ok h \<longleftrightarrow> go_map_ok h \<and> list_all (\<lambda>k. CanonicalHeaderKey k = k) (map fst h)"

lemma header_ok_Nil [simp]: "header_ok []"
  by (simp add: header_ok_def)

lemma keys_canon_update:
  "list_all (\<lambda>k. CanonicalHeaderKey k = k) (map fst h) \<Longrightarrow> CanonicalHeaderKey k = k \<Longrightarrow>
     list_all (\<lambda>k. CanonicalHeaderKey k = k) (map fst (AList.update k v h))"
  by (induction h) auto

lemma header_ok_ops [simp]:
  "header_ok h \<Longrightarrow> header_ok (headerSet k v h)" "header_ok h \<Longrightarrow> header_ok (headerAdd k v h)"
  by (simp_all add: header_ok_def headerSet_def headerAdd_def keys_canon_update)

lemma header_ok_addAll: "header_ok dst \<Longrightarrow> header_ok (addAll src dst)"
proof -
  have "header_ok h \<Longrightarrow> header_ok (fold (headerAdd k) vs h)" for k vs h
    by (induction vs arbitrary: h) simp_all
  then show "header_ok dst \<Longrightarrow> header_ok (addAll src dst)"
    unfolding addAll_def by (induction src arbitrary: dst) auto
qed

lemma concat_values:
  "header_ok h \<Longrightarrow>
     concat (map snd (filter (\<lambda>(k', vs). CanonicalHeaderKey k' = CanonicalHeaderKey k) h)) = headerValues h k"
proof (induction h)
  case (Cons p h)
  obtain k' vs where p: "p = (k', vs)" by force
  with Cons.prems have k': "CanonicalHeaderKey k' = k'" and ok: "header_ok h" and new: "k' \<notin> fst ` set h"
    by (auto simp: header_ok_def go_map_ok_def)
  have "headerValues h k = []" if "k' = CanonicalHeaderKey k"
    using new that by (auto simp: headerValues_def image_iff split: option.splits dest!: map_of_SomeD)
  with Cons.IH [OF ok] k' show ?case by (auto simp: p headerValues_def)
qed (simp add: headerValues_def)

lemma addAll_values:
  "header_ok src \<Longrightarrow> headerValues (addAll src dst) k = headerValues dst k @ headerValues src k"
  by (simp add: headerValues_addAll concat_values)

lemma header_ok_filter: "header_ok h \<Longrightarrow> header_ok (filter P h)"
  by (auto simp: header_ok_def go_map_ok_def list_all_iff distinct_map_filter)

text \<open>Once the status line is out, neither it nor the header nor the body already written can change.\<close>

definition kept :: "response_writer \<Rightarrow> response_writer \<Rightarrow> bool" where
  "kept w w' \<longleftrightarrow> (wrote w \<noteq> None \<longrightarrow> wrote w' = wrote w) \<and> (\<exists>d. wBody w' = wBody w @ d)"

lemma kept_refl [simp, intro]: "kept w w"
  by (simp add: kept_def)

lemma kept_trans: "kept w w' \<Longrightarrow> kept w' w'' \<Longrightarrow> kept w w''"
  by (auto simp: kept_def)

lemma kept_ops [intro]:
  "kept w (setHeader k v w)" "kept w (addHeader k v w)" "kept w (writeBody d w)"
  "WriteHeader c w = Inr w' \<Longrightarrow> kept w w'"
  by (auto simp: kept_def setHeader_def addHeader_def writeBody_def WriteHeader_def Let_def
      split: option.splits if_splits)

lemma respond_kept: "respond c d w = Inr w' \<Longrightarrow> kept w w'"
  by (auto simp: respond_def intro: kept_trans)

lemma respond_sent:
  assumes "wrote w = None" "200 \<le> c" "c \<le> 999" "bodyAllowed c"
  shows "\<exists>w'. respond c d w = Inr w' \<and>
    sent w' = \<lparr>StatusCode = c, respHeader = wHeader w, respBody = Some (wBody w @ d)\<rparr>"
  using assms by (simp add: respond_def WriteHeader_def writeBody_def sent_def)

end
