(* ===== verification/Actor.thy ===== *)
theory Actor
  imports Schema_Build Http
begin

text \<open>
  The actor of \<^verbatim>\<open>net/request.go\<close>: a tree of tables of method handlers, the registration operations and
  the dispatch of a message. Handlers are code of the program's users: a handler is a function of the request, the
  parameters and a world \<open>'w\<close> it may change. \<^verbatim>\<open>mapstructure\<close>, which turns a message into the map that schemas
  validate, is the argument \<open>ms\<close>.
\<close>

section \<open>Data\<close>

datatype go_error =
    ErrRPC rpc_error
  | ErrWrappedResponse wrapped_response
  | ErrSimpleResponse simple_response
  | ErrPos error_pos
  | ErrText string
  | ErrWrap string go_error          \<comment> \<open>\<^verbatim>\<open>errors.Wrap\<close>\<close>

datatype panic_value = PanicError go_error | PanicOther

text \<open>What a callback returns, \<^verbatim>\<open>(any, error)\<close>, where the value may itself be a message.\<close>

datatype callback_value = PlainValue gval | MessageValue message

datatype callback_outcome = Returns callback_value "go_error option" | Panics panic_value

record rpc_request =
  msg :: message
  transportType :: string
  httpReq :: "http_request option"     \<comment> \<open>the pointer \<^verbatim>\<open>r\<close>\<close>
  Session :: "string option"           \<comment> \<open>the session, by its \<^verbatim>\<open>SessionID\<close>; nil over HTTP/1.1\<close>

definition TransportHTTP :: string where "TransportHTTP = ''http''"

definition NewRPCRequest :: "message \<Rightarrow> string \<Rightarrow> rpc_request" where
  "NewRPCRequest m tt = \<lparr>msg = m, transportType = tt, httpReq = None, Session = None\<rparr>"

definition WithHTTPRequest :: "rpc_request \<Rightarrow> http_request \<Rightarrow> rpc_request" where
  "WithHTTPRequest req r = req\<lparr>httpReq := Some r\<rparr>"

definition WithSession :: "rpc_request \<Rightarrow> string \<Rightarrow> rpc_request" where
  "WithSession req sid = req\<lparr>Session := Some sid\<rparr>"

definition HttpRequest :: "rpc_request \<Rightarrow> go_panic + http_request" where
  "HttpRequest req = (case httpReq req of None \<Rightarrow> Inl (PanicText ''Http Request is nil'') | Some r \<Rightarrow> Inr r)"

type_synonym 'w request_callback = "rpc_request \<Rightarrow> gval list \<Rightarrow> 'w \<Rightarrow> callback_outcome \<times> 'w"
type_synonym 'w missing_callback = "rpc_request \<Rightarrow> 'w \<Rightarrow> callback_outcome \<times> 'w"

record 'w method_handler =
  callback :: "'w request_callback"
  hschema :: "schema option"

text \<open>The fields in the order of the source: \<^verbatim>\<open>ValidateSchema\<close>, \<^verbatim>\<open>RecoverFromPanic\<close>, \<^verbatim>\<open>methodHandlers\<close>,
  \<^verbatim>\<open>missingHandler\<close>, \<^verbatim>\<open>closeHandler\<close>, \<^verbatim>\<open>children\<close>.\<close>

datatype 'w actor =
  Actor (ValidateSchema: bool) (RecoverFromPanic: bool)
    (methodHandlers: "(string \<times> 'w method_handler) list")
    (missingHandler: "'w missing_callback option")
    (closeHandler: "(string \<Rightarrow> 'w \<Rightarrow> 'w) option")
    (children: "'w actor list")

datatype feed_result = Fed "message option" "go_error option" | FeedPanic panic_value

section \<open>Registration\<close>

definition NewActor :: "'w actor" where
  "NewActor = Actor True True [] None None []"

definition AddChild :: "'w actor \<Rightarrow> 'w actor \<Rightarrow> 'w actor" where
  "AddChild a child =
     Actor (ValidateSchema a) (RecoverFromPanic a) (methodHandlers a) (missingHandler a) (closeHandler a)
       (children a @ [child])"

definition set_handlers :: "(string \<times> 'w method_handler) list \<Rightarrow> 'w actor \<Rightarrow> 'w actor" where
  "set_handlers hs a =
     Actor (ValidateSchema a) (RecoverFromPanic a) hs (missingHandler a) (closeHandler a) (children a)"

type_synonym 'w handler_setter = "'w method_handler \<Rightarrow> 'w method_handler"

definition WithSchema :: "schema \<Rightarrow> 'w handler_setter" where
  "WithSchema s h = h\<lparr>hschema := Some s\<rparr>"

definition WithSchemaJson :: "string \<Rightarrow> build_error + 'w handler_setter" where
  "WithSchemaJson jsonSchema = map_sum id WithSchema (BuildBytes jsonSchema)"

definition WithSchemaYaml ::
  "(string \<Rightarrow> (gval \<times> gval) list option) \<Rightarrow> string \<Rightarrow> build_error + 'w handler_setter" where
  "WithSchemaYaml yaml yamlSchema = map_sum id WithSchema (BuildYamlBytes yaml yamlSchema)"

definition OnRequest ::
  "string \<Rightarrow> 'w request_callback \<Rightarrow> 'w handler_setter list \<Rightarrow> 'w actor \<Rightarrow> go_error + 'w actor" where
  "OnRequest method cb setters a =
     (if map_of (methodHandlers a) method \<noteq> None then Inl (ErrText ''handler already exist!'')
      else Inr (set_handlers
             (AList.update method (fold (\<lambda>setter h. setter h) setters \<lparr>callback = cb, hschema = None\<rparr>)
               (methodHandlers a)) a))"

definition On ::
  "string \<Rightarrow> (gval list \<Rightarrow> 'w \<Rightarrow> callback_outcome \<times> 'w) \<Rightarrow> 'w handler_setter list \<Rightarrow> 'w actor \<Rightarrow>
     panic_value + 'w actor" where
  "On method cb setters a = map_sum PanicError id (OnRequest method (\<lambda>req. cb) setters a)"

text \<open>The callback of \<^verbatim>\<open>OnContext\<close> gets the context of the request, \<open>context_of\<close>, in place of the request.\<close>

definition OnContext ::
  "(rpc_request \<Rightarrow> 'c) \<Rightarrow> string \<Rightarrow> ('c \<Rightarrow> gval list \<Rightarrow> 'w \<Rightarrow> callback_outcome \<times> 'w) \<Rightarrow> 'w handler_setter list \<Rightarrow> 'w actor \<Rightarrow>
     panic_value + 'w actor" where
  "OnContext context_of method cb setters a =
     map_sum PanicError id (OnRequest method (\<lambda>req. cb (context_of req)) setters a)"

definition Off :: "string \<Rightarrow> 'w actor \<Rightarrow> 'w actor" where
  "Off method a = set_handlers (AList.delete method (methodHandlers a)) a"

definition OnMissing :: "'w missing_callback \<Rightarrow> 'w actor \<Rightarrow> go_error + 'w actor" where
  "OnMissing h a =
     (if missingHandler a \<noteq> None then Inl (ErrText ''missing handler already exist!'')
      else Inr (Actor (ValidateSchema a) (RecoverFromPanic a) (methodHandlers a) (Some h) (closeHandler a) (children a)))"

definition OnClose :: "(string \<Rightarrow> 'w \<Rightarrow> 'w) \<Rightarrow> 'w actor \<Rightarrow> go_error + 'w actor" where
  "OnClose h a =
     (if closeHandler a \<noteq> None then Inl (ErrText ''close handler already exist!'')
      else Inr (Actor (ValidateSchema a) (RecoverFromPanic a) (methodHandlers a) (missingHandler a) (Some h) (children a)))"

section \<open>Queries\<close>

text \<open>The children are told of a closed session before the actor itself.\<close>

primrec HandleClose :: "'w actor \<Rightarrow> string \<Rightarrow> 'w \<Rightarrow> 'w" where
  "HandleClose (Actor v r hs mh ch cs) = (\<lambda>session w.
     let w' = fold (\<lambda>close w. close session w) (map HandleClose cs) w
     in case ch of None \<Rightarrow> w' | Some h \<Rightarrow> h session w')"

primrec Has :: "'w actor \<Rightarrow> string \<Rightarrow> bool" where
  "Has (Actor v r hs mh ch cs) = (\<lambda>method.
     if map_of hs method \<noteq> None then True else list_ex (\<lambda>has. has method) (map Has cs))"

primrec MethodList :: "'w actor \<Rightarrow> string list" where
  "MethodList (Actor v r hs mh ch cs) = map fst hs @ concat (map MethodList cs)"

definition getHandler :: "'w actor \<Rightarrow> string \<Rightarrow> 'w method_handler option" where
  "getHandler a method = map_of (methodHandlers a) method"

primrec GetSchema :: "'w actor \<Rightarrow> string \<Rightarrow> schema option" where
  "GetSchema (Actor v r hs mh ch cs) = (\<lambda>method.
     case (case map_of hs method of Some h \<Rightarrow> hschema h | None \<Rightarrow> None) of
       Some s \<Rightarrow> Some s
     | None \<Rightarrow> first_some (\<lambda>get. get method) (map GetSchema cs))"

definition PublicSchemas :: "'w actor \<Rightarrow> gmap list" where
  "PublicSchemas a =
     map (\<lambda>mname.
        case GetSchema a mname of
          Some s \<Rightarrow> AList.update ''name'' (GStr mname) (Map s)
        | None \<Rightarrow> [(''name'', GStr mname), (''description'', GStr []), (''params'', GList []),
                  (''returns'', GMap [(''type'', GStr ''any'')])])
       (filter IsPublicMethod (MethodList a))"

section \<open>Feeding a message\<close>

text \<open>\<^verbatim>\<open>errors.As\<close> with a target of type \<^verbatim>\<open>*RPCError\<close>, and of type \<^verbatim>\<open>*WrappedResponse\<close>.\<close>

primrec as_rpc_error :: "go_error \<Rightarrow> rpc_error option" where
  "as_rpc_error (ErrRPC e) = Some e"
| "as_rpc_error (ErrWrappedResponse r) = None"
| "as_rpc_error (ErrSimpleResponse r) = None"
| "as_rpc_error (ErrPos p) = None"
| "as_rpc_error (ErrText t) = None"
| "as_rpc_error (ErrWrap t e) = as_rpc_error e"

primrec as_wrapped_response :: "go_error \<Rightarrow> wrapped_response option" where
  "as_wrapped_response (ErrRPC e) = None"
| "as_wrapped_response (ErrWrappedResponse r) = Some r"
| "as_wrapped_response (ErrSimpleResponse r) = None"
| "as_wrapped_response (ErrPos p) = None"
| "as_wrapped_response (ErrText t) = None"
| "as_wrapped_response (ErrWrap t e) = as_wrapped_response e"

text \<open>A panic of the library's own code, as a recovering function sees it: most carry an error value.\<close>

primrec panic_of :: "go_panic \<Rightarrow> panic_value" where
  "panic_of (PanicRPC e) = PanicError (ErrRPC e)"
| "panic_of (PanicText t) = PanicOther"
| "panic_of (PanicMarshal e) = PanicError (ErrText ''json'')"
| "panic_of (PanicErr t) = PanicError (ErrText t)"
| "panic_of PanicDecode = PanicError (ErrText ''json'')"
| "panic_of IndexOutOfRange = PanicError (ErrText ''runtime error'')"
| "panic_of NilDereference = PanicError (ErrText ''runtime error'')"

definition reply :: "go_panic + error_message \<Rightarrow> feed_result" where
  "reply r = (case r of Inl p \<Rightarrow> FeedPanic (panic_of p) | Inr m \<Rightarrow> Fed (Some (MErr m)) None)"

definition wrapResult :: "callback_value \<Rightarrow> go_error option \<Rightarrow> message \<Rightarrow> feed_result" where
  "wrapResult res err m =
     (if \<not> IsRequest m then Fed None err
      else case m of
        MReq reqmsg \<Rightarrow>
          (case err of
             Some e \<Rightarrow>
               (case as_rpc_error e of
                  Some rpcErr \<Rightarrow> reply (ToMessage rpcErr reqmsg)
                | None \<Rightarrow>
                    (case as_wrapped_response e of
                       Some wrapErr \<Rightarrow> Fed None (Some (ErrWrappedResponse wrapErr))
                     | None \<Rightarrow> reply (ToMessage ErrInternalError reqmsg)))
           | None \<Rightarrow>
               (case res of
                  MessageValue resmsg1 \<Rightarrow> Fed (Some resmsg1) None
                | PlainValue v \<Rightarrow>
                    (case NewResultMessage (Some (MReq reqmsg)) v of
                       Inl p \<Rightarrow> FeedPanic (panic_of p)
                     | Inr resmsg \<Rightarrow> Fed (Some (MRes resmsg)) None)))
      | _ \<Rightarrow> FeedPanic PanicOther)"

text \<open>\<^verbatim>\<open>recoverCallHandler\<close> and \<^verbatim>\<open>recoverCallMissingHandler\<close>, after the callback has run.\<close>

definition recoverCall :: "bool \<Rightarrow> message \<Rightarrow> callback_outcome \<times> 'w \<Rightarrow> feed_result \<times> 'w" where
  "recoverCall recover m = (\<lambda>(r, w).
     (case r of
        Returns res err \<Rightarrow> wrapResult res err m
      | Panics p \<Rightarrow>
          if recover then
            (case p of PanicError err \<Rightarrow> wrapResult (PlainValue GNil) (Some err) m | PanicOther \<Rightarrow> FeedPanic p)
          else FeedPanic p, w))"

definition recoverCallHandler ::
  "'w actor \<Rightarrow> 'w method_handler \<Rightarrow> rpc_request \<Rightarrow> gval list \<Rightarrow> 'w \<Rightarrow> feed_result \<times> 'w" where
  "recoverCallHandler a handler req params w =
     recoverCall (RecoverFromPanic a) (msg req) (callback handler req params w)"

definition recoverCallMissingHandler ::
  "'w actor \<Rightarrow> 'w missing_callback \<Rightarrow> rpc_request \<Rightarrow> 'w \<Rightarrow> feed_result \<times> 'w" where
  "recoverCallMissingHandler a h req w = recoverCall (RecoverFromPanic a) (msg req) (h req w)"

text \<open>
  \<^verbatim>\<open>MessageMap\<close>: \<open>ms\<close> decodes the template into a map; an id that came out as a map is replaced by its
  \<^verbatim>\<open>Value\<close>.
\<close>

definition MessageMap :: "(template \<Rightarrow> go_error + gmap) \<Rightarrow> message \<Rightarrow> go_error + gmap" where
  "MessageMap ms m =
     (case ms (Interface m) of
        Inl err \<Rightarrow> Inl err
      | Inr mp \<Rightarrow>
          Inr (case map_of mp ''id'' of
                 Some (GMap vObj) \<Rightarrow>
                   (case map_of vObj ''Value'' of Some msgId \<Rightarrow> AList.update ''id'' msgId mp | None \<Rightarrow> mp)
               | _ \<Rightarrow> mp))"

text \<open>The validation of a request against the handler's schema: \<open>None\<close> lets the call go on.\<close>

definition validateRequest ::
  "(template \<Rightarrow> go_error + gmap) \<Rightarrow> bool \<Rightarrow> schema option \<Rightarrow> message \<Rightarrow> feed_result option" where
  "validateRequest ms validate sch m =
     (case sch of
        Some s \<Rightarrow>
          if validate then
            (case MessageMap ms m of
               Inl err \<Rightarrow> Some (Fed None (Some err))
             | Inr mp \<Rightarrow>
                 (case Validate [] s (GMap mp) of
                    Inl p \<Rightarrow> Some (FeedPanic (panic_of p))
                  | Inr (None, _) \<Rightarrow> None
                  | Inr (Some errPos, _) \<Rightarrow>
                      (case m of
                         MReq reqmsg \<Rightarrow> Some (reply (posToMessage errPos reqmsg))
                       | _ \<Rightarrow> Some (Fed None (Some (ErrPos errPos))))))
          else None
      | None \<Rightarrow> None)"

definition callHandler ::
  "(template \<Rightarrow> go_error + gmap) \<Rightarrow> 'w actor \<Rightarrow> 'w method_handler \<Rightarrow> rpc_request \<Rightarrow> gval list \<Rightarrow> 'w \<Rightarrow>
     feed_result \<times> 'w" where
  "callHandler ms a handler req params w =
     (case validateRequest ms (ValidateSchema a) (hschema handler) (msg req) of
        Some r \<Rightarrow> (r, w)
      | None \<Rightarrow> recoverCallHandler a handler req params w)"

text \<open>No handler, here or in a child.\<close>

definition feedMissing :: "'w actor \<Rightarrow> rpc_request \<Rightarrow> 'w \<Rightarrow> feed_result \<times> 'w" where
  "feedMissing a req w =
     (case missingHandler a of
        Some h \<Rightarrow> recoverCallMissingHandler a h req w
      | None \<Rightarrow>
          (if IsRequest (msg req) then
             (case MustId (msg req) of
                Inl p \<Rightarrow> FeedPanic (panic_of p)
              | Inr i \<Rightarrow> Fed (Some (MErr (ToMessageFromId ErrMethodNotFound i (TraceId (msg req))))) None)
           else Fed None None, w))"

text \<open>A result or an error, which is not for a method handler.\<close>

definition feedResponse :: "'w actor \<Rightarrow> rpc_request \<Rightarrow> 'w \<Rightarrow> feed_result \<times> 'w" where
  "feedResponse a req w =
     (case missingHandler a of
        Some h \<Rightarrow> (case h req w of
            (Returns res err, w') \<Rightarrow> (wrapResult res err (msg req), w')
          | (Panics p, w') \<Rightarrow> (FeedPanic p, w'))
      | None \<Rightarrow> (Fed None None, w))"

primrec Feed ::
  "'w actor \<Rightarrow> (template \<Rightarrow> go_error + gmap) \<Rightarrow> rpc_request \<Rightarrow> 'w \<Rightarrow> feed_result \<times> 'w" where
  "Feed (Actor v r hs mh ch cs) = (\<lambda>ms req w.
     let a = Actor v r hs mh ch cs in
     if \<not> IsResponse (msg req) then feedResponse a req w
     else case MustMethod (msg req) of
       Inl p \<Rightarrow> (FeedPanic (panic_of p), w)
     | Inr method \<Rightarrow>
         (case map_of hs method of
            Some handler \<Rightarrow>
              (case MustParams (msg req) of
                 Inl p \<Rightarrow> (FeedPanic (panic_of p), w)
               | Inr params \<Rightarrow> callHandler ms a handler req params w)
          | None \<Rightarrow>
              (case find (\<lambda>(has, feed). has) (zip (map (\<lambda>c. Has c method) cs) (map Feed cs)) of
                 Some (has, feed) \<Rightarrow> feed ms req w
               | None \<Rightarrow> feedMissing a req w)))"

section \<open>Routing\<close>

text \<open>
  The specification of dispatch: the first actor of the tree, in depth-first order, that has a handler
  of its own for the method.
\<close>

primrec route :: "'w actor \<Rightarrow> string \<Rightarrow> ('w actor \<times> 'w method_handler) option" where
  "route (Actor v r hs mh ch cs) = (\<lambda>method.
     case map_of hs method of
       Some h \<Rightarrow> Some (Actor v r hs mh ch cs, h)
     | None \<Rightarrow> first_some (\<lambda>f. f method) (map route cs))"

lemma route_None: "route a m = None \<longleftrightarrow> \<not> Has a m"
proof (induction a)
  case (Actor v r hs mh ch cs)
  then show ?case by (cases "map_of hs m") (auto simp: list_ex_iff)
qed

lemma Has_route: "Has a m \<longleftrightarrow> route a m \<noteq> None"
  by (simp only: route_None not_not)

lemma Has_MethodList: "Has a m \<longleftrightarrow> m \<in> set (MethodList a)"
proof (induction a)
  case (Actor v r hs mh ch cs)
  have "map_of hs m = None \<longleftrightarrow> m \<notin> fst ` set hs" by (simp add: map_of_eq_None_iff)
  with Actor show ?case by (auto simp: list_ex_iff)
qed

lemma find_zip_map:
  "find (\<lambda>(p, y). p) (zip (map p xs) (map f xs)) = map_option (\<lambda>x. (True, f x)) (find p xs)"
  by (induction xs) auto

lemma first_some_find:
  "first_some f xs = (case find (\<lambda>x. f x \<noteq> None) xs of None \<Rightarrow> None | Some x \<Rightarrow> f x)"
  by (induction xs) (auto split: option.splits)

lemma route_children: "first_some (\<lambda>c. route c m) cs = (case find (\<lambda>c. Has c m) cs of None \<Rightarrow> None | Some c \<Rightarrow> route c m)"
  unfolding Has_route by (rule first_some_find)

lemma find_Some_mem: "find P xs = Some x \<Longrightarrow> x \<in> set xs \<and> P x"
  by (induction xs) (auto split: if_splits)

text \<open>Feeding a call runs the handler the route leads to, or the root's code for missing methods.\<close>

lemma Feed_route:
  assumes "IsResponse (msg req)" "MustMethod (msg req) = Inr m" "MustParams (msg req) = Inr ps"
  shows "Feed a ms req w =
    (case route a m of Some (a', h) \<Rightarrow> callHandler ms a' h req ps w | None \<Rightarrow> feedMissing a req w)"
proof (induction a)
  case (Actor v r hs mh ch cs)
  show ?case
  proof (cases "map_of hs m")
    case None
    show ?thesis
    proof (cases "find (\<lambda>c. Has c m) cs")
      case (Some c)
      from find_Some_mem [OF this] obtain x where "c \<in> set cs" "route c m = Some x" by (auto simp: Has_route)
      with Actor [of c] None Some assms show ?thesis
        by (cases x) (simp add: find_zip_map route_children comp_def)
    qed (use None assms in \<open>simp add: find_zip_map route_children comp_def\<close>)
  qed (use assms in simp)
qed

lemma Feed_response: "\<not> IsResponse (msg req) \<Longrightarrow> Feed a ms req w = feedResponse a req w"
  by (cases a) (simp add: Let_def)

lemma call_message:
  assumes "msg_ok m" "IsResponse m"
  obtains mth ps where "MustMethod m = Inr mth" "MustParams m = Inr ps"
  using assms by (cases m) (auto simp: IsResponse_def Is_defs)

section \<open>The contract of a responder\<close>

text \<open>
  What the servers rely on when they feed a message: a reply is given to a request only, and never
  together with an error.
\<close>

locale responder =
  fixes feed :: "rpc_request \<Rightarrow> 'w \<Rightarrow> feed_result \<times> 'w"
  assumes reply_to_request:
    "msg_ok (msg req) \<Longrightarrow> feed req w = (Fed (Some m) e, w') \<Longrightarrow> IsRequest (msg req) \<and> e = None"
begin

lemma notify_not_answered:
  assumes "msg_ok (msg req)" "\<not> IsRequest (msg req)" "feed req w = (Fed m e, w')"
  shows "m = None"
  using assms reply_to_request by (cases m) auto

lemma reply_excludes_error: "msg_ok (msg req) \<Longrightarrow> feed req w = (Fed m e, w') \<Longrightarrow> m = None \<or> e = None"
  using reply_to_request by (cases m) auto

end

lemma reply_simps [simp]: "reply (Inr m) = Fed (Some (MErr m)) None" "reply (Inl p) = FeedPanic (panic_of p)"
  by (simp_all add: reply_def)

lemma reply_Fed: "reply r = Fed m e \<Longrightarrow> e = None"
  by (cases r) simp_all

lemma wrapResult_contract:
  "wrapResult res err m = Fed (Some r) e \<Longrightarrow> IsRequest m \<and> e = None"
  by (auto simp: wrapResult_def dest: reply_Fed split: if_splits message.splits option.splits callback_value.splits sum.splits)

lemma recoverCall_contract:
  "recoverCall b m ow = (Fed (Some r) e, w') \<Longrightarrow> IsRequest m \<and> e = None"
  by (auto simp: recoverCall_def dest: wrapResult_contract
      split: prod.splits callback_outcome.splits if_splits panic_value.splits)

lemma validateRequest_contract:
  "validateRequest ms b sch m = Some (Fed (Some r) e) \<Longrightarrow> msg_ok m \<Longrightarrow> IsRequest m \<and> e = None"
  by (auto simp: validateRequest_def Is_defs dest: reply_Fed
      split: option.splits if_splits sum.splits prod.splits message.splits)

lemma callHandler_contract:
  "callHandler ms a h req ps w = (Fed (Some r) e, w') \<Longrightarrow> msg_ok (msg req) \<Longrightarrow> IsRequest (msg req) \<and> e = None"
  by (auto simp: callHandler_def recoverCallHandler_def
      dest: validateRequest_contract recoverCall_contract split: option.splits)

lemma feedMissing_contract:
  "feedMissing a req w = (Fed (Some r) e, w') \<Longrightarrow> IsRequest (msg req) \<and> e = None"
  by (auto simp: feedMissing_def recoverCallMissingHandler_def dest: recoverCall_contract
      split: option.splits if_splits sum.splits)

lemma feedResponse_contract:
  "feedResponse a req w = (Fed (Some r) e, w') \<Longrightarrow> IsRequest (msg req) \<and> e = None"
  by (auto simp: feedResponse_def dest: wrapResult_contract
      split: option.splits prod.splits callback_outcome.splits)

interpretation act: responder "Feed a ms" for a ms
proof
  fix req :: rpc_request and w w' :: 'a and m e
  assume ok: "msg_ok (msg req)" and f: "Feed a ms req w = (Fed (Some m) e, w')"
  show "IsRequest (msg req) \<and> e = None"
  proof (cases "IsResponse (msg req)")
    case True
    with ok obtain mth ps where "MustMethod (msg req) = Inr mth" "MustParams (msg req) = Inr ps"
      by (rule call_message)
    from f [unfolded Feed_route [OF True this]] ok show ?thesis
      by (cases "route a mth") (auto dest: callHandler_contract feedMissing_contract split: prod.splits)
  qed (use f in \<open>auto simp: Feed_response dest: feedResponse_contract\<close>)
qed

section \<open>Properties\<close>

lemma Feed_request:
  assumes "msg req = MReq q" "msg_ok (MReq q)"
  shows "Feed a ms req w = (case route a (reqMethod q) of
      Some (a', h) \<Rightarrow> callHandler ms a' h req (reqParams q) w | None \<Rightarrow> feedMissing a req w)"
  by (rule Feed_route) (use assms in \<open>simp_all add: IsResponse_def Is_defs\<close>)

lemma IsRequest_MReq: "msg_ok (MReq q) \<Longrightarrow> IsRequest (MReq q)"
  by (simp add: Is_defs)

lemma Feed_value:
  assumes "msg req = MReq q" "msg_ok (MReq q)" "route a (reqMethod q) = Some (a', h)"
    and "validateRequest ms (ValidateSchema a') (hschema h) (MReq q) = None"
    and "callback h req (reqParams q) w = (Returns (PlainValue v) None, w')"
  shows "\<exists>r. Feed a ms req w = (Fed (Some (MRes r)) None, w') \<and> msg_ok (MRes r) \<and>
    answers (MRes r) (MReq q) \<and> resResult r = v"
proof -
  obtain r where r: "NewResultMessage (Some (MReq q)) v = Inr r"
    by (simp add: NewResultMessage_def)
  have "Feed a ms req w = (Fed (Some (MRes r)) None, w')"
    using assms IsRequest_MReq [OF assms(2)]
    by (simp add: Feed_request callHandler_def recoverCallHandler_def recoverCall_def wrapResult_def r)
  with NewResultMessage_answers [OF r] show ?thesis by auto
qed

text \<open>
  \<^bold>\<open>C5.\<close> A request whose handler returns a value is answered by a result that carries the request's id and
  trace id and the handler's value, whichever actor of the tree has the handler.
\<close>

theorem feed_request_result:
  assumes "msg req = MReq q" "msg_ok (MReq q)" "route a (reqMethod q) = Some (a', h)"
    and "validateRequest ms (ValidateSchema a') (hschema h) (MReq q) = None"
    and "callback h req (reqParams q) w = (Returns (PlainValue v) None, w')"
  shows "\<exists>r. Feed a ms req w = (Fed (Some (MRes r)) None, w') \<and> msg_ok (MRes r) \<and>
    answers (MRes r) (MReq q) \<and> resResult r = v"
  using assms by (rule Feed_value)

theorem feed_request_result_witness:
  "\<exists>r. Feed (Actor True True [(''m'', \<lparr>callback = (\<lambda>req ps w. (Returns (PlainValue (GInt 3)) None, Suc w)), hschema = None\<rparr>)] None None [])
      (\<lambda>t. Inr []) \<lparr>msg = MReq \<lparr>kind = MKRequest, traceId = [], reqId = GInt 1, reqMethod = ''m'', reqParams = [],
        reqParamsAreList = True\<rparr>, transportType = ''http'', httpReq = None, Session = None\<rparr> 0 = (Fed (Some (MRes r)) None, Suc 0) \<and> resResult r = GInt 3"
proof -
  let ?h = "\<lparr>callback = (\<lambda>req ps w. (Returns (PlainValue (GInt 3)) None, Suc w)), hschema = None\<rparr>"
  let ?a = "Actor True True [(''m'', ?h)] None None []"
  let ?q = "\<lparr>kind = MKRequest, traceId = [], reqId = GInt 1, reqMethod = ''m'', reqParams = [], reqParamsAreList = True\<rparr>"
  show ?thesis
    using feed_request_result [of "\<lparr>msg = MReq ?q, transportType = ''http'', httpReq = None, Session = None\<rparr>" ?q ?a ?a ?h "\<lambda>t. Inr []" 0 "GInt 3" "Suc 0"]
    by (auto simp: params_ok_def validateRequest_def)
qed

text \<open>What a failing handler's error becomes: the first RPC error in its chain, a wrapped response, else the internal error.\<close>

definition error_answered :: "request_message \<Rightarrow> go_error \<Rightarrow> feed_result \<Rightarrow> bool" where
  "error_answered q e res \<longleftrightarrow>
     (case (as_rpc_error e, as_wrapped_response e) of
        (None, Some wrapErr) \<Rightarrow> res = Fed None (Some (ErrWrappedResponse wrapErr))
      | (rpcErr, _) \<Rightarrow> (\<exists>r. res = Fed (Some (MErr r)) None \<and> msg_ok (MErr r) \<and> answers (MErr r) (MReq q) \<and>
          errError r = Some (case rpcErr of Some x \<Rightarrow> x | None \<Rightarrow> ErrInternalError)))"

lemma wrapResult_error:
  assumes "msg_ok (MReq q)"
  shows "error_answered q e (wrapResult v (Some e) (MReq q))"
proof -
  obtain r where r: "ToMessage (case as_rpc_error e of Some x \<Rightarrow> x | None \<Rightarrow> ErrInternalError) q = Inr r" "msg_ok (MErr r)"
    "answers (MErr r) (MReq q)" "errError r = Some (case as_rpc_error e of Some x \<Rightarrow> x | None \<Rightarrow> ErrInternalError)"
    using ToMessage_answers by blast
  then show ?thesis
    using IsRequest_MReq [OF assms] by (auto simp: error_answered_def wrapResult_def reply_def split: option.splits)
qed

text \<open>
  \<^bold>\<open>C6.\<close> What becomes of a request whose handler fails. An error it returns, or panics with when the actor recovers, is answered
  under the request's id with the RPC error in its chain, else with the internal error, except a wrapped response without an
  RPC error, which is passed on as the error of \<^verbatim>\<open>Feed\<close>. A panic with a value that is no error is thrown again, and without
  recovery every panic goes through.
\<close>

theorem feed_request_error:
  assumes "msg req = MReq q" "msg_ok (MReq q)" "route a (reqMethod q) = Some (a', h)"
    and "validateRequest ms (ValidateSchema a') (hschema h) (MReq q) = None"
    and "callback h req (reqParams q) w = (out, w')"
  shows "snd (Feed a ms req w) = w' \<and>
    (case out of
       Returns res (Some e) \<Rightarrow> error_answered q e (fst (Feed a ms req w))
     | Returns res None \<Rightarrow> True
     | Panics (PanicError e) \<Rightarrow>
         if RecoverFromPanic a' then error_answered q e (fst (Feed a ms req w)) else fst (Feed a ms req w) = FeedPanic (PanicError e)
     | Panics PanicOther \<Rightarrow> fst (Feed a ms req w) = FeedPanic PanicOther)"
  using assms wrapResult_error [OF assms(2)]
  by (auto simp: Feed_request callHandler_def recoverCallHandler_def recoverCall_def
      split: callback_outcome.split option.split panic_value.split)

theorem feed_request_error_witness:
  "(\<exists>r. Feed (Actor True True [(''m'', \<lparr>callback = (\<lambda>req ps w. (Panics (PanicError (ErrText ''x'')), w)), hschema = None\<rparr>)] None None [])
      (\<lambda>t. Inr []) \<lparr>msg = MReq \<lparr>kind = MKRequest, traceId = [], reqId = GInt 1, reqMethod = ''m'', reqParams = [],
        reqParamsAreList = True\<rparr>, transportType = ''http'', httpReq = None, Session = None\<rparr> (0 :: nat) = (Fed (Some (MErr r)) None, 0) \<and>
      errError r = Some ErrInternalError) \<and>
   fst (Feed (Actor True True [(''m'', \<lparr>callback = (\<lambda>req ps w. (Panics PanicOther, w)), hschema = None\<rparr>)] None None [])
      (\<lambda>t. Inr []) \<lparr>msg = MReq \<lparr>kind = MKRequest, traceId = [], reqId = GInt 1, reqMethod = ''m'', reqParams = [],
        reqParamsAreList = True\<rparr>, transportType = ''http'', httpReq = None, Session = None\<rparr> (0 :: nat)) = FeedPanic PanicOther"
proof -
  let ?h = "\<lambda>p. \<lparr>callback = (\<lambda>req ps (w :: nat). (Panics p, w)), hschema = None\<rparr>"
  let ?a = "\<lambda>p. Actor True True [(''m'', ?h p)] None None []"
  let ?q = "\<lparr>kind = MKRequest, traceId = [], reqId = GInt 1, reqMethod = ''m'', reqParams = [], reqParamsAreList = True\<rparr>"
  let ?r = "\<lparr>msg = MReq ?q, transportType = ''http'', httpReq = None, Session = None\<rparr>"
  have q: "msg_ok (MReq ?q)" by (simp add: params_ok_def)
  have "snd (Feed (?a p) (\<lambda>t. Inr []) ?r 0) = 0 \<and>
    (case p of PanicError e \<Rightarrow> error_answered ?q e (fst (Feed (?a p) (\<lambda>t. Inr []) ?r 0))
     | PanicOther \<Rightarrow> fst (Feed (?a p) (\<lambda>t. Inr []) ?r 0) = FeedPanic PanicOther)" for p
    using feed_request_error [of ?r ?q "?a p" "?a p" "?h p" "\<lambda>t. Inr []" 0 "Panics p" 0] q
    by (simp add: validateRequest_def split: panic_value.split_asm)
  from this [of "PanicError (ErrText ''x'')"] this [of PanicOther] show ?thesis
    by (auto simp: error_answered_def prod_eq_iff simp del: Feed.simps)
qed

text \<open>
  \<^bold>\<open>C7.\<close> A request that its handler's schema does not accept is answered with the invalid-schema error and the
  handler is not called: the world is unchanged.
\<close>

theorem feed_invalid_request_not_called:
  assumes "msg req = MReq q" "msg_ok (MReq q)" "route a (reqMethod q) = Some (a', h)"
    and "hschema h = Some s" "ValidateSchema a'" "MessageMap ms (MReq q) = Inr mp" "\<not> valid s (GMap mp)"
  shows "\<exists>r b. Feed a ms req w = (Fed (Some (MErr r)) None, w) \<and> answers (MErr r) (MReq q) \<and>
    errError r = Some b \<and> Code b = Code ErrInvalidSchema"
proof -
  obtain e where e: "Validate [] s (GMap mp) = Inr (Some e, [])"
    using validate_iff [of "[]" s "GMap mp"] assms(7) by blast
  obtain r where r: "posToMessage e q = Inr r" "answers (MErr r) (MReq q)"
      "errError r = Some (mk_error (Code ErrInvalidSchema) (posError e) GNil)"
    using ToMessage_answers [of "mk_error (Code ErrInvalidSchema) (posError e) GNil" q]
    by (auto simp: posToMessage_def)
  have "validateRequest ms (ValidateSchema a') (hschema h) (MReq q) = Some (Fed (Some (MErr r)) None)"
    using assms r(1) by (simp add: validateRequest_def e)
  with assms r show ?thesis by (auto simp: Feed_request callHandler_def mk_error_def)
qed

theorem feed_invalid_request_witness:
  "\<exists>r b. Feed (Actor True True [(''m'', \<lparr>callback = (\<lambda>req ps w. (Panics PanicOther, Suc w)),
        hschema = Some (MethodSchema no_mixin [] None None)\<rparr>)] None None [])
      (\<lambda>t. Inr [(''params'', GList [GNil])]) \<lparr>msg = MReq \<lparr>kind = MKRequest, traceId = [], reqId = GInt 1, reqMethod = ''m'',
        reqParams = [GNil], reqParamsAreList = True\<rparr>, transportType = ''http'', httpReq = None, Session = None\<rparr> 0 = (Fed (Some (MErr r)) None, 0) \<and>
      errError r = Some b \<and> Code b = -32633"
proof -
  let ?h = "\<lparr>callback = (\<lambda>req ps w. (Panics PanicOther, Suc w)), hschema = Some (MethodSchema no_mixin [] None None)\<rparr>"
  let ?a = "Actor True True [(''m'', ?h)] None None []"
  let ?q = "\<lparr>kind = MKRequest, traceId = [], reqId = GInt 1, reqMethod = ''m'', reqParams = [GNil], reqParamsAreList = True\<rparr>"
  show ?thesis
    using feed_invalid_request_not_called [of "\<lparr>msg = MReq ?q, transportType = ''http'', httpReq = None, Session = None\<rparr>" ?q ?a ?a ?h
        "MethodSchema no_mixin [] None None" "\<lambda>t. Inr [(''params'', GList [GNil])]" "[(''params'', GList [GNil])]" 0]
    by (auto simp: params_ok_def MessageMap_def valid_method_def convertAttrList_def valid_positional_def
        ErrInvalidSchema_def mk_error_def)
qed

text \<open>
  A request for a method that no actor of the tree has is answered, when there is no missing handler, with the
  method-not-found error under the request's id and trace id, and nothing is called.
\<close>

theorem feed_method_not_found:
  assumes "msg req = MReq q" "msg_ok (MReq q)" "reqMethod q \<notin> set (MethodList a)" "missingHandler a = None"
  shows "\<exists>r. Feed a ms req w = (Fed (Some (MErr r)) None, w) \<and> answers (MErr r) (MReq q) \<and>
    errError r = Some ErrMethodNotFound"
proof -
  have "route a (reqMethod q) = None"
    using assms(3) by (simp add: Has_MethodList [symmetric] route_None)
  then show ?thesis
    using assms IsRequest_MReq [OF assms(2)]
    by (simp add: Feed_request feedMissing_def answers_def ToMessageFromId_def RPCErrorMessageFromId_def
        NewErrorMessageFromId_def raw_defs mk_error_def ErrMethodNotFound_def)
qed

theorem feed_method_not_found_witness:
  "\<exists>r. Feed (NewActor :: nat actor) (\<lambda>t. Inr []) \<lparr>msg = MReq \<lparr>kind = MKRequest, traceId = ''t'', reqId = GInt 1, reqMethod = ''m'',
        reqParams = [], reqParamsAreList = True\<rparr>, transportType = ''http'', httpReq = None, Session = None\<rparr> 0 = (Fed (Some (MErr r)) None, 0) \<and>
      errError r = Some ErrMethodNotFound"
  using feed_method_not_found [of "\<lparr>msg = MReq \<lparr>kind = MKRequest, traceId = ''t'', reqId = GInt 1, reqMethod = ''m'',
        reqParams = [], reqParamsAreList = True\<rparr>, transportType = ''http'', httpReq = None, Session = None\<rparr>" "\<lparr>kind = MKRequest, traceId = ''t'',
        reqId = GInt 1, reqMethod = ''m'', reqParams = [], reqParamsAreList = True\<rparr>" "NewActor :: nat actor" "\<lambda>t. Inr []" 0]
  by (auto simp: params_ok_def NewActor_def)

text \<open>
  \<^bold>\<open>C8.\<close> A notify, a result or an error is never answered, whatever the handlers of the tree do.
\<close>

theorem feed_only_requests_answered:
  assumes "msg_ok (msg req)" "\<not> IsRequest (msg req)"
  shows "case Feed a ms req w of (Fed m e, w') \<Rightarrow> m = None | (FeedPanic p, w') \<Rightarrow> True"
  using act.notify_not_answered [OF assms, of a ms w] by (auto split: prod.split feed_result.split)

theorem feed_only_requests_answered_witness:
  "case Feed (NewActor :: nat actor) (\<lambda>t. Inr []) \<lparr>msg = MRes (rawResultMessage GNil GNil None), transportType = [], httpReq = None, Session = None\<rparr> 0 of
     (Fed m e, w') \<Rightarrow> m = None | (FeedPanic p, w') \<Rightarrow> True"
  by (rule feed_only_requests_answered) (simp_all add: raw_defs Is_defs)

section \<open>Registration properties\<close>

lemma methodHandlers_set [simp]: "methodHandlers (set_handlers hs a) = hs" "children (set_handlers hs a) = children a"
  by (simp_all add: set_handlers_def)

lemma Has_iff: "Has a m \<longleftrightarrow> map_of (methodHandlers a) m \<noteq> None \<or> (\<exists>c \<in> set (children a). Has c m)"
  by (cases a) (auto simp: list_ex_iff)

lemma route_own: "map_of (methodHandlers a) m = Some h \<Longrightarrow> route a m = Some (a, h)"
  by (cases a) simp

text \<open>
  Registration: \<^verbatim>\<open>OnRequest\<close> fails exactly when the actor has its own handler for the method; otherwise
  calls of the method go to the new handler and the other methods are as before. \<^verbatim>\<open>Off\<close> removes the actor's own
  handler, after which the method is there exactly if a child has it.
\<close>

theorem register_unregister:
  assumes "go_map_ok (methodHandlers a)"
  shows "case OnRequest m cb setters a of
      Inl e \<Rightarrow> map_of (methodHandlers a) m \<noteq> None
    | Inr a' \<Rightarrow> map_of (methodHandlers a) m = None \<and> go_map_ok (methodHandlers a') \<and>
        route a' m = Some (a', fold (\<lambda>setter h. setter h) setters \<lparr>callback = cb, hschema = None\<rparr>) \<and>
        (\<forall>m'. m' \<noteq> m \<longrightarrow> (Has a' m' \<longleftrightarrow> Has a m')) \<and>
        (\<forall>m'. Has (Off m a') m' \<longleftrightarrow> Has (Off m a) m') \<and> (Has (Off m a') m \<longleftrightarrow> (\<exists>c \<in> set (children a). Has c m))"
proof (cases "map_of (methodHandlers a) m")
  case None
  let ?h = "fold (\<lambda>setter h. setter h) setters \<lparr>callback = cb, hschema = None\<rparr>"
  let ?a = "set_handlers (AList.update m ?h (methodHandlers a)) a"
  have on: "OnRequest m cb setters a = Inr ?a" using None by (simp add: OnRequest_def)
  have get: "map_of (methodHandlers ?a) k = (if k = m then Some ?h else map_of (methodHandlers a) k)" for k
    using gm.get_put [OF assms] by simp
  have off: "map_of (methodHandlers (Off m b)) k = (if k = m then None else map_of (methodHandlers b) k)"
    if "go_map_ok (methodHandlers b)" for b :: "'a actor" and k
    using gm.get_del [OF that] by (simp add: Off_def)
  have ok: "go_map_ok (methodHandlers ?a)" using assms by simp
  have "Has (Off m ?a) k \<longleftrightarrow> Has (Off m a) k" for k
    unfolding Has_iff [of "Off m ?a"] Has_iff [of "Off m a"] off [OF ok] off [OF assms] get by (simp add: Off_def)
  moreover have "Has (Off m ?a) m \<longleftrightarrow> (\<exists>c \<in> set (children a). Has c m)"
    unfolding Has_iff [of "Off m ?a"] off [OF ok] by (simp add: Off_def)
  moreover have "k \<noteq> m \<Longrightarrow> Has ?a k \<longleftrightarrow> Has a k" for k
    unfolding Has_iff [of ?a] Has_iff [of a] get by simp
  moreover have "route ?a m = Some (?a, ?h)"
    by (rule route_own) (simp only: get if_True refl)
  ultimately show ?thesis using on None ok by simp
qed (simp add: OnRequest_def)

theorem register_unregister_witness:
  "\<exists>a'. OnRequest ''m'' (\<lambda>req ps w. (Panics PanicOther, w)) [] (NewActor :: nat actor) = Inr a' \<and> Has a' ''m'' \<and>
     \<not> Has (Off ''m'' a') ''m''"
proof -
  obtain a' where a': "OnRequest ''m'' (\<lambda>req ps w. (Panics PanicOther, w)) [] (NewActor :: nat actor) = Inr a'"
    by (simp add: OnRequest_def NewActor_def)
  then show ?thesis
    using register_unregister [where a = "NewActor :: nat actor" and m = "''m''"
      and cb = "\<lambda>req ps w. (Panics PanicOther, w)" and setters = "[]"]
    by (auto simp: Has_route NewActor_def)
qed

text \<open>
  \<^verbatim>\<open>Has\<close> agrees with the enumeration \<^verbatim>\<open>MethodList\<close>, and \<^verbatim>\<open>PublicSchemas\<close> describes exactly the public
  methods of the tree, each under its own name.
\<close>

theorem public_schemas_names:
  "(Has a m \<longleftrightarrow> m \<in> set (MethodList a)) \<and>
   map (\<lambda>sm. map_of sm ''name'') (PublicSchemas a) = map (Some \<circ> GStr) (filter IsPublicMethod (MethodList a))"
  by (auto simp: Has_MethodList PublicSchemas_def update_conv' split: option.split)

text \<open>
  The schema \<^verbatim>\<open>GetSchema\<close> gives for a method need not be the schema its calls are validated against: for
  a handler without a schema it goes on to a child's handler of the same method, which is never called.
\<close>

theorem get_schema_of_shadowed_handler:
  "GetSchema (Actor True True [(m, \<lparr>callback = cb, hschema = None\<rparr>)] None None
      [Actor True True [(m, \<lparr>callback = cb', hschema = Some s\<rparr>)] None None []]) m = Some s \<and>
   route (Actor True True [(m, \<lparr>callback = cb, hschema = None\<rparr>)] None None
      [Actor True True [(m, \<lparr>callback = cb', hschema = Some s\<rparr>)] None None []]) m =
     Some (Actor True True [(m, \<lparr>callback = cb, hschema = None\<rparr>)] None None
      [Actor True True [(m, \<lparr>callback = cb', hschema = Some s\<rparr>)] None None []], \<lparr>callback = cb, hschema = None\<rparr>)"
  by simp

end
