(* ===== verification/Http1_Server.thy ===== *)
theory Http1_Server
  imports Actor
begin

text \<open>
  The HTTP/1.1 server of \<^verbatim>\<open>net/http1_server.go\<close> and the protocol switch of \<^verbatim>\<open>net/gateway_handler.go\<close>. A
  handler is a function of the request, the response writer and the world; a panic that leaves the
  handler is the left value (\<^verbatim>\<open>net/http\<close> then closes the connection).
\<close>

section \<open>The server\<close>

type_synonym 'w http_handler_fn =
  "http_request \<Rightarrow> response_writer \<Rightarrow> 'w \<Rightarrow> (panic_value + response_writer) \<times> 'w"

definition NewHttp1Handler :: "'w actor option \<Rightarrow> 'w actor" where
  "NewHttp1Handler actor = (case actor of None \<Rightarrow> NewActor | Some a \<Rightarrow> a)"

definition WriteMessage :: "response_writer \<Rightarrow> message \<Rightarrow> int \<Rightarrow> go_panic + response_writer" where
  "WriteMessage w m code =
     (case WriteHeader code (setHeader ''Content-Type'' ''application/json'' w) of
        Inl p \<Rightarrow> Inl p
      | Inr w' \<Rightarrow>
          (case MustMessageBytes m of Inl p \<Rightarrow> Inl p | Inr data \<Rightarrow> Inr (writeBody data w')))"

text \<open>\<^verbatim>\<open>errors.As\<close> with a target of type \<^verbatim>\<open>*SimpleResponse\<close>.\<close>

primrec as_simple_response :: "go_error \<Rightarrow> simple_response option" where
  "as_simple_response (ErrRPC e) = None"
| "as_simple_response (ErrWrappedResponse r) = None"
| "as_simple_response (ErrSimpleResponse r) = Some r"
| "as_simple_response (ErrPos p) = None"
| "as_simple_response (ErrText t) = None"
| "as_simple_response (ErrWrap t e) = as_simple_response e"

text \<open>The branch for an error of \<^verbatim>\<open>Feed\<close>.\<close>

definition serveError :: "go_error \<Rightarrow> response_writer \<Rightarrow> go_panic + response_writer" where
  "serveError err w =
     (case as_simple_response err of
        Some simpleResp \<Rightarrow> respond (srCode simpleResp) (srBody simpleResp) w
      | None \<Rightarrow>
          (case as_wrapped_response err of
             Some upResp \<Rightarrow>
               let origResp = Response upResp in
               respond (StatusCode origResp) (wrBody upResp)
                 (w\<lparr>wHeader := addAll (respHeader origResp) (wHeader w)\<rparr>)
           | None \<Rightarrow> respond 500 ''internal server error'' w))"

text \<open>The bytes of the reply: the internal error takes the place of a reply that cannot be marshalled.\<close>

definition replyBytes :: "message \<Rightarrow> message \<Rightarrow> go_panic + string" where
  "replyBytes m resmsg =
     (case MessageBytes resmsg of
        Inr data \<Rightarrow> Inr data
      | Inl err1 \<Rightarrow>
          (case MustId m of
             Inl p \<Rightarrow> Inl p
           | Inr i \<Rightarrow>
               (case MessageBytes (MErr (ToMessageFromId ErrInternalError i (TraceId m))) of
                  Inr data \<Rightarrow> Inr data
                | Inl _ \<Rightarrow> Inr [])))"

definition responseHeader :: "message \<Rightarrow> http_header option" where
  "responseHeader m = (case m of MRes r \<Rightarrow> resHeader r | MErr r \<Rightarrow> errHeader r | _ \<Rightarrow> None)"

definition serveReply :: "message \<Rightarrow> message \<Rightarrow> response_writer \<Rightarrow> go_panic + response_writer" where
  "serveReply m resmsg0 w =
     (let trace = TraceId resmsg0;
          resmsg = SetTraceId [] resmsg0
      in case replyBytes m resmsg of
           Inl p \<Rightarrow> Inl p
         | Inr data \<Rightarrow>
             let w1 = setHeader ''Content-Type'' ''application/json'' w;
                 w2 = (case responseHeader resmsg of
                         Some h \<Rightarrow> w1\<lparr>wHeader := addAll (filter (\<lambda>(k, vs). hasXPrefix k) h) (wHeader w1)\<rparr>
                       | None \<Rightarrow> w1)
             in case WriteHeader 200 w2 of
                  Inl p \<Rightarrow> Inl p
                | Inr w3 \<Rightarrow>
                    Inr (writeBody data (if trace \<noteq> [] then setHeader ''X-Trace-Id'' trace w3 else w3)))"

text \<open>What the server does with the outcome of \<^verbatim>\<open>Feed\<close>.\<close>

definition serveFed :: "message \<Rightarrow> response_writer \<Rightarrow> feed_result \<Rightarrow> panic_value + response_writer" where
  "serveFed m w fed =
     (case fed of
        FeedPanic p \<Rightarrow> Inl p
      | Fed resmsg (Some err) \<Rightarrow> map_sum panic_of id (serveError err w)
      | Fed (Some resmsg) None \<Rightarrow> map_sum panic_of id (serveReply m resmsg w)
      | Fed None None \<Rightarrow>
          map_sum panic_of id (WriteMessage w (MRes (rawResultMessage GNil (GStr ''ok'') None)) 200))"

definition served :: "go_panic + response_writer \<Rightarrow> 'w \<Rightarrow> (panic_value + response_writer) \<times> 'w" where
  "served r world = (map_sum panic_of id r, world)"

definition ServeHTTP :: "(template \<Rightarrow> go_error + gmap) \<Rightarrow> 'w actor \<Rightarrow> 'w http_handler_fn" where
  "ServeHTTP ms actor r w world =
     (if verb r \<noteq> ''POST'' then served (ErrorResponse 405 ''Method not allowed'' w) world
      else case reqBody r of
        None \<Rightarrow> served (WriteMessage w (MErr (rawErrorMessage GNil (Some ErrInvalidRequest) None)) 400) world
      | Some buffer \<Rightarrow>
          (case ParseBytes [] buffer of
             Inl err \<Rightarrow> served (WriteMessage w (MErr (rawErrorMessage GNil (Some ErrParseMessage) None)) 400) world
           | Inr m \<Rightarrow>
               if (case m of MReq q \<Rightarrow> reqMethod q = ''rpc.discover'' | _ \<Rightarrow> False) then
                 (case NewResultMessage (Some m) (GMap [(''methods'', GMapList (map GMap (PublicSchemas actor)))]) of
                    Inl p \<Rightarrow> served (Inl p) world
                  | Inr res \<Rightarrow> served (WriteMessage w (MRes res) 200) world)
               else
                 map_prod (serveFed m w) id
                   (Feed actor ms (WithHTTPRequest (NewRPCRequest m TransportHTTP) r) world)))"

section \<open>The gateway\<close>

text \<open>The three handlers may answer or go on to stream, so their outcome is a type parameter.\<close>

record ('w, 'o) gateway_handler =
  h1Handler :: "http_request \<Rightarrow> response_writer \<Rightarrow> 'w \<Rightarrow> 'o"
  wsHandler :: "http_request \<Rightarrow> response_writer \<Rightarrow> 'w \<Rightarrow> 'o"
  h2Handler :: "http_request \<Rightarrow> response_writer \<Rightarrow> 'w \<Rightarrow> 'o"

definition gatewayServeHTTP ::
  "('w, 'o) gateway_handler \<Rightarrow> http_request \<Rightarrow> response_writer \<Rightarrow> 'w \<Rightarrow> 'o" where
  "gatewayServeHTTP handler r w world =
     (if ProtoAtLeast r 2 0 then h2Handler handler r w world
      else
        let upgradeHeader = headerGet (reqHeader r) ''Upgrade'' in
        if upgradeHeader = ''websocket'' then wsHandler handler r w world
        else if upgradeHeader = ''h2c'' then h2Handler handler r w world
        else h1Handler handler r w world)"


lemmas feed_eval = callHandler_def validateRequest_def recoverCallHandler_def recoverCall_def wrapResult_def
  IsResponse_def Is_defs

lemma Feed_callback:
  assumes "msg req = MReq q" "msg_ok (MReq q)" "route a (reqMethod q) = Some (a', h)"
    and "validateRequest ms (ValidateSchema a') (hschema h) (MReq q) = None"
  shows "Feed a ms req w = recoverCall (RecoverFromPanic a') (MReq q) (callback h req (reqParams q) w)"
  using assms by (simp add: Feed_request callHandler_def recoverCallHandler_def)

section \<open>Helper lemmas\<close>

lemma ascii_upper_lower: "ascii_upper (ascii_lower c) = ascii_upper c"
  by (auto simp: ascii_upper_def ascii_lower_def)

lemma map_upper_canon: "map ascii_upper (canon_key b s) = map ascii_upper s"
  by (induction b s rule: canon_key.induct) (simp_all add: Let_def ascii_upper_lower)

lemma hasXPrefix_canon: "hasXPrefix (CanonicalHeaderKey k) \<longleftrightarrow> hasXPrefix k"
  by (simp add: hasXPrefix_def CanonicalHeaderKey_def map_upper_canon)

lemma hasXPrefix_canon_eq: "CanonicalHeaderKey k = CanonicalHeaderKey k' \<Longrightarrow> hasXPrefix k \<longleftrightarrow> hasXPrefix k'"
  by (metis hasXPrefix_canon)

lemma filterX_values:
  "concat (map snd (filter (\<lambda>(k', vs). CanonicalHeaderKey k' = CanonicalHeaderKey k) (filter (\<lambda>(k', vs). hasXPrefix k') h))) =
     (if hasXPrefix k then concat (map snd (filter (\<lambda>(k', vs). CanonicalHeaderKey k' = CanonicalHeaderKey k) h)) else [])"
  by (induction h) (auto dest: hasXPrefix_canon_eq)

text \<open>The transfer of the \<^verbatim>\<open>X-\<close> headers.\<close>

lemma transferX_values:
  assumes "header_ok h"
  shows "headerValues (addAll (filter (\<lambda>(k, vs). hasXPrefix k) h) dst) k =
    headerValues dst k @ (if hasXPrefix k then headerValues h k else [])"
  by (simp only: headerValues_addAll filterX_values concat_values [OF assms])

lemma ServeHTTP_parsed:
  assumes "verb r = ''POST''" "reqBody r = Some bs" "ParseBytes [] bs = Inr m"
    and "\<forall>q. m = MReq q \<longrightarrow> reqMethod q \<noteq> ''rpc.discover''"
  shows "ServeHTTP ms a r w world =
    map_prod (serveFed m w) id (Feed a ms (WithHTTPRequest (NewRPCRequest m TransportHTTP) r) world)"
  using assms by (cases m) (simp_all add: ServeHTTP_def)

lemma msg_http [simp]: "msg (WithHTTPRequest (NewRPCRequest m t) r) = m"
  by (simp add: WithHTTPRequest_def NewRPCRequest_def)

abbreviation json_header :: http_header where
  "json_header \<equiv> headerSet ''Content-Type'' ''application/json'' []"

lemma served_Inr [simp]: "served (Inr w) world = (Inr w, world)"
  by (simp add: served_def)

text \<open>A message written with its status, on a writer nothing was written to.\<close>

lemma WriteMessage_sent:
  assumes "msg_ok m" "sendable m" "id_allowed (opts_of []) m" "200 \<le> code" "code \<le> 999" "bodyAllowed code"
  obtains w' bs where "WriteMessage new_writer m code = Inr w'"
    "sent w' = \<lparr>StatusCode = code, respHeader = json_header, respBody = Some bs\<rparr>" "ParseBytes [] bs = Inr (canon_msg m)"
proof -
  obtain bs where "MessageBytes m = Inr bs" "ParseBytes [] bs = Inr (canon_msg m)"
    using ParseBytes_MessageBytes [OF assms(1-3)] by blast
  with that assms show thesis
    by (simp add: WriteMessage_def new_writer_def WriteHeader_def setHeader_def MustMessageBytes_def writeBody_def sent_def)
qed

lemma serveReply_sent:
  assumes "replyBytes m (SetTraceId [] res) = Inr data"
  obtains w' where "serveReply m res new_writer = Inr w'"
    "sent w' = \<lparr>StatusCode = 200, respHeader = (case responseHeader res of Some h \<Rightarrow>
        addAll (filter (\<lambda>(k, vs). hasXPrefix k) h) json_header | None \<Rightarrow> json_header), respBody = Some data\<rparr>"
proof -
  have "responseHeader (SetTraceId [] res) = responseHeader res"
    by (cases res) (simp_all add: responseHeader_def)
  with that assms show thesis
    by (cases "responseHeader res"; cases "TraceId res = []")
       (simp_all add: Let_def serveReply_def new_writer_def WriteHeader_def setHeader_def writeBody_def sent_def bodyAllowed_def)
qed

lemma no_options [simp]: "id_allowed (opts_of []) m"
  by (cases m) (simp_all add: id_allowed_def opts_of_def)

lemma error_from_id_sendable: "id_ok i \<Longrightarrow> in_int64 (Code e) \<Longrightarrow> Data e = GNil \<Longrightarrow>
    msg_ok (MErr (ToMessageFromId e i t)) \<and> sendable (MErr (ToMessageFromId e i t))"
  by (simp add: ToMessageFromId_def RPCErrorMessageFromId_def NewErrorMessageFromId_def raw_defs mk_error_def max_depth_def)

lemma ErrInternalError_simps [simp]: "in_int64 (Code ErrInternalError)" "Data ErrInternalError = GNil"
  by (simp_all add: ErrInternalError_def mk_error_def in_int64_def int64_min_def int64_max_def)

lemma header_ok_json [simp]: "header_ok json_header"
  by simp

text \<open>What becomes of the reply on its way out.\<close>

definition delivered :: "request_message \<Rightarrow> message \<Rightarrow> message" where
  "delivered q res =
     (if (case MessageBytes (SetTraceId [] res) of Inr _ \<Rightarrow> True | Inl _ \<Rightarrow> False)
      then canon_msg (SetTraceId [] res)
      else canon_msg (MErr (ToMessageFromId ErrInternalError (reqId q) (traceId q))))"

lemma replyBytes_delivered:
  assumes "wire_id (reqId q)" "msg_ok res" "sendable res \<or> (\<exists>e. MessageBytes (SetTraceId [] res) = Inl e)"
  obtains data where "replyBytes (MReq q) (SetTraceId [] res) = Inr data" "ParseBytes [] data = Inr (delivered q res)"
proof (cases "MessageBytes (SetTraceId [] res)")
  case (Inl e)
  let ?m = "MErr (ToMessageFromId ErrInternalError (reqId q) (traceId q))"
  from error_from_id_sendable [OF wire_id_ok [OF assms(1)] ErrInternalError_simps]
  obtain bs where "MessageBytes ?m = Inr bs" "ParseBytes [] bs = Inr (canon_msg ?m)"
    using ParseBytes_MessageBytes [of ?m "[]"] by auto
  with Inl that show thesis by (simp add: replyBytes_def delivered_def)
next
  case (Inr bs)
  with assms ParseBytes_MessageBytes [of "SetTraceId [] res" "[]"] that show thesis
    by (auto simp: replyBytes_def delivered_def)
qed

text \<open>A refusal writes a message of its own and does not reach the actor.\<close>

lemma ErrRefusal_simps [simp]:
  "in_int64 (Code ErrParseMessage)" "Data ErrParseMessage = GNil"
  "in_int64 (Code ErrInvalidRequest)" "Data ErrInvalidRequest = GNil"
  by (simp_all add: ErrParseMessage_def ErrInvalidRequest_def mk_error_def in_int64_def int64_min_def int64_max_def)

lemma WriteMessage_error_sent:
  assumes "in_int64 (Code e)" "Data e = GNil" "200 \<le> code" "code \<le> 999" "bodyAllowed code"
  obtains w' bs where "WriteMessage new_writer (MErr (rawErrorMessage GNil (Some e) None)) code = Inr w'"
    "sent w' = \<lparr>StatusCode = code, respHeader = json_header, respBody = Some bs\<rparr>"
    "ParseBytes [] bs = Inr (canon_msg (MErr (rawErrorMessage GNil (Some e) None)))"
proof -
  have "msg_ok (MErr (rawErrorMessage GNil (Some e) None))" "sendable (MErr (rawErrorMessage GNil (Some e) None))"
    using assms by (simp_all add: raw_defs id_ok_def max_depth_def)
  from WriteMessage_sent [OF this _ assms(3-5)] that show thesis by auto
qed

section \<open>The contract of an HTTP handler\<close>

text \<open>
  What a handler in front relies on: a handler adds to a response and never takes back what was sent.
\<close>

locale http_handler =
  fixes serve :: "'w http_handler_fn"
  assumes serve_kept: "serve r w world = (Inr w', world') \<Longrightarrow> kept w w'"
begin

lemma status_stays:
  "wrote w = Some (code, h) \<Longrightarrow> serve r w world = (Inr w', world') \<Longrightarrow>
     StatusCode (sent w') = code \<and> respHeader (sent w') = h \<and> (\<exists>d. respBody (sent w') = Some (wBody w @ d))"
  using serve_kept [of r w world w' world'] by (auto simp: kept_def sent_def)

lemma serves_in_turn:
  "serve r w world = (Inr w', world') \<Longrightarrow> serve r' w' world' = (Inr w'', world'') \<Longrightarrow> kept w w''"
  using serve_kept kept_trans by blast

end

lemma WriteMessage_kept: "WriteMessage w m code = Inr w' \<Longrightarrow> kept w w'"
  by (auto simp: WriteMessage_def split: sum.splits intro: kept_trans [OF kept_trans [OF kept_ops(1) kept_ops(4)] kept_ops(3)])

lemma kept_header [simp]: "kept (w\<lparr>wHeader := h\<rparr>) w' \<longleftrightarrow> kept w w'"
  by (simp add: kept_def)

lemma serveError_kept: "serveError e w = Inr w' \<Longrightarrow> kept w w'"
  by (auto simp: serveError_def Let_def dest: respond_kept split: option.splits)

lemma serveReply_kept:
  assumes "serveReply m res w = Inr w'"
  shows "kept w w'"
proof -
  let ?w1 = "setHeader ''Content-Type'' ''application/json'' w"
  let ?w2 = "case responseHeader (SetTraceId [] res) of None \<Rightarrow> ?w1
    | Some h \<Rightarrow> ?w1\<lparr>wHeader := addAll (filter (\<lambda>(k, vs). hasXPrefix k) h) (wHeader ?w1)\<rparr>"
  have 2: "kept w ?w2" by (auto simp: kept_def setHeader_def split: option.split)
  from assms obtain data w3 where 3: "WriteHeader 200 ?w2 = Inr w3"
    "w' = writeBody data (if TraceId res \<noteq> [] then setHeader ''X-Trace-Id'' (TraceId res) w3 else w3)"
    by (auto simp: serveReply_def Let_def split: sum.splits)
  then have "kept w3 w'" by (auto intro: kept_trans)
  with 2 3 show ?thesis by (blast intro: kept_trans)
qed

lemma serveFed_kept: "serveFed m w fed = Inr w' \<Longrightarrow> kept w w'"
  by (auto simp: serveFed_def dest: serveError_kept serveReply_kept WriteMessage_kept
      split: feed_result.splits option.splits)

interpretation h1: http_handler "ServeHTTP ms a" for ms a
  by unfold_locales
    (auto simp: ServeHTTP_def served_def ErrorResponse_def map_prod_def
      dest: respond_kept WriteMessage_kept serveFed_kept split: if_splits option.splits sum.splits prod.splits)

lemma gateway_handler:
  assumes "http_handler (h1Handler g)" "http_handler (wsHandler g)" "http_handler (h2Handler g)"
  shows "http_handler (gatewayServeHTTP g)"
  using assms by (auto simp: http_handler_def gatewayServeHTTP_def Let_def split: if_splits)

text \<open>A request and its bytes, for the examples.\<close>

abbreviation ping :: request_message where
  "ping \<equiv> \<lparr>kind = MKRequest, traceId = [], reqId = GInt 1, reqMethod = ''m'', reqParams = [], reqParamsAreList = True\<rparr>"

abbreviation post :: "string \<Rightarrow> http_request" where
  "post bs \<equiv> \<lparr>verb = ''POST'', protoMajor = 1, reqHeader = [], reqBody = Some bs, ctxAuth = None\<rparr>"

lemma in_int64_1 [simp]: "in_int64 1"
  by (simp add: in_int64_def int64_min_def int64_max_def)

lemma ping_bytes: obtains bs where "ParseBytes [] bs = Inr (MReq ping)"
proof -
  have "sendable (MReq ping)"
    by (simp add: id_ok_def params_value_def max_depth_def max_list_def)
  then obtain bs where "ParseBytes [] bs = Inr (canon_msg (MReq ping))"
    using ParseBytes_MessageBytes [of "MReq ping" "[]"] by (auto simp: params_ok_def)
  moreover have "canon_msg (MReq ping) = MReq ping"
    by (simp add: params_value_def to_valid_utf8_ascii_only)
  ultimately show thesis using that by simp
qed

abbreviation one_handler :: "'w request_callback \<Rightarrow> 'w actor" where
  "one_handler cb \<equiv> Actor True True [(''m'', \<lparr>callback = cb, hschema = None\<rparr>)] None None []"

lemma delivered_internal:
  "\<exists>e. delivered q (MErr (ToMessageFromId ErrInternalError i t)) = MErr e \<and> errError e = Some (canon_error ErrInternalError)"
  by (simp add: delivered_def ToMessageFromId_def RPCErrorMessageFromId_def NewErrorMessageFromId_def raw_defs mk_error_def
      canon_error_def)

section \<open>Properties\<close>

lemma ServeHTTP_reply:
  assumes "verb r = ''POST''" "reqBody r = Some bs" "ParseBytes [] bs = Inr (MReq q)"
    and "reqMethod q \<noteq> ''rpc.discover''"
    and "Feed a ms (WithHTTPRequest (NewRPCRequest (MReq q) TransportHTTP) r) w = (Fed (Some res) None, w')"
    and "msg_ok res" "sendable res \<or> (\<exists>e. MessageBytes (SetTraceId [] res) = Inl e)"
    and "\<forall>h. responseHeader res = Some h \<longrightarrow> header_ok h"
  shows "\<exists>rw data. ServeHTTP ms a r new_writer w = (Inr rw, w') \<and> StatusCode (sent rw) = 200 \<and>
    respBody (sent rw) = Some data \<and> ParseBytes [] data = Inr (delivered q res) \<and>
    (\<forall>k. headerValues (respHeader (sent rw)) k =
       (if hasXPrefix k then (case responseHeader res of Some h \<Rightarrow> headerValues h k | None \<Rightarrow> [])
        else headerValues json_header k)) \<and>
    (responseHeader res = None \<longrightarrow> respHeader (sent rw) = json_header)"
proof -
  have "wire_id (reqId q)" using ParseBytes_ok [OF assms(3)] by simp
  then obtain data where data: "replyBytes (MReq q) (SetTraceId [] res) = Inr data"
      "ParseBytes [] data = Inr (delivered q res)"
    using replyBytes_delivered assms(6,7) by blast
  obtain rw where rw: "serveReply (MReq q) res new_writer = Inr rw"
      "sent rw = \<lparr>StatusCode = 200, respHeader = (case responseHeader res of Some h \<Rightarrow>
        addAll (filter (\<lambda>(k, vs). hasXPrefix k) h) json_header | None \<Rightarrow> json_header), respBody = Some data\<rparr>"
    using serveReply_sent [OF data(1)] .
  have json: "hasXPrefix k \<Longrightarrow> headerValues json_header k = []" for k
    using hasXPrefix_canon_eq [of k "''Content-Type''"]
    by (auto simp: headerValues_set headerValues_empty hasXPrefix_def ascii_upper_def)
  have "ServeHTTP ms a r new_writer w = (Inr rw, w')"
    using assms rw(1) by (simp add: ServeHTTP_parsed serveFed_def)
  with rw data assms(8) json show ?thesis
    by (intro exI [of _ rw] exI [of _ data]) (auto simp: transferX_values split: option.splits)
qed

text \<open>
  \<^bold>\<open>C24.\<close> A POST that carries a request and for which the actor has a reply is answered with status 200, a JSON
  content type and a body that parses to the reply without its trace id, or to the internal error
  under the request's id when the reply cannot be marshalled; of the reply's headers exactly those with the
  prefix \<^verbatim>\<open>X-\<close> are passed on.
\<close>

theorem serve_http_reply:
  assumes "verb r = ''POST''" "reqBody r = Some bs" "ParseBytes [] bs = Inr (MReq q)"
    and "reqMethod q \<noteq> ''rpc.discover''"
    and "Feed a ms (WithHTTPRequest (NewRPCRequest (MReq q) TransportHTTP) r) w = (Fed (Some res) None, w')"
    and "msg_ok res" "sendable res \<or> (\<exists>e. MessageBytes (SetTraceId [] res) = Inl e)"
    and "\<forall>h. responseHeader res = Some h \<longrightarrow> header_ok h"
  shows "\<exists>rw data. ServeHTTP ms a r new_writer w = (Inr rw, w') \<and> StatusCode (sent rw) = 200 \<and>
    respBody (sent rw) = Some data \<and> ParseBytes [] data = Inr (delivered q res) \<and>
    (\<forall>k. headerValues (respHeader (sent rw)) k =
       (if hasXPrefix k then (case responseHeader res of Some h \<Rightarrow> headerValues h k | None \<Rightarrow> [])
        else headerValues json_header k))"
  using ServeHTTP_reply [OF assms] by blast

theorem serve_http_reply_witness:
  "\<exists>bs rw data. ServeHTTP (\<lambda>t. Inr []) (one_handler (\<lambda>req ps w. (Returns (PlainValue (GStr ''pong'')) None, Suc w)))
      (post bs) new_writer 0 = (Inr rw, Suc 0) \<and> StatusCode (sent rw) = 200 \<and> respBody (sent rw) = Some data \<and>
    ParseBytes [] data = Inr (MRes (rawResultMessage (GInt 1) (GStr ''pong'') None))"
proof -
  let ?a = "one_handler (\<lambda>req ps w. (Returns (PlainValue (GStr ''pong'')) None, Suc w))"
  let ?res = "MRes (rawResultMessage (GInt 1) (GStr ''pong'') None)"
  obtain bs where bs: "ParseBytes [] bs = Inr (MReq ping)" by (rule ping_bytes)
  have fed: "Feed ?a (\<lambda>t. Inr []) (WithHTTPRequest (NewRPCRequest (MReq ping) TransportHTTP) (post bs)) 0 = (Fed (Some ?res) None, Suc 0)"
    by (simp add: feed_eval NewResultMessage_def raw_defs)
  have sendable: "msg_ok ?res" "sendable ?res"
    by (simp_all add: raw_defs id_ok_def max_depth_def)
  then have "delivered ping ?res = ?res"
    using ParseBytes_MessageBytes [of ?res "[]"]
    by (auto simp: delivered_def raw_defs to_valid_utf8_ascii_only)
  with serve_http_reply [OF _ _ bs _ fed] sendable show ?thesis
    by (auto simp: responseHeader_def raw_defs)
qed

text \<open>
  \<^bold>\<open>C25.\<close> Anything but a POST is refused with status 405, a body that cannot be read or is not a message with
  status 400 and a JSON-RPC error with a null id; the actor does not see any of them.
\<close>

theorem serve_http_refusals:
  assumes "verb r \<noteq> ''POST'' \<or> (case reqBody r of None \<Rightarrow> True | Some bs \<Rightarrow> \<forall>m. ParseBytes [] bs \<noteq> Inr m)"
  shows "\<exists>rw. ServeHTTP ms a r new_writer w = (Inr rw, w) \<and>
     (if verb r \<noteq> ''POST'' then sent rw = \<lparr>StatusCode = 405, respHeader = [], respBody = Some ''Method not allowed''\<rparr>
      else \<exists>data m. StatusCode (sent rw) = 400 \<and> respHeader (sent rw) = json_header \<and> respBody (sent rw) = Some data \<and>
        ParseBytes [] data = Inr (MErr m) \<and> errId m = GNil \<and> errError m = Some (canon_error
          (if reqBody r = None then ErrInvalidRequest else ErrParseMessage)))"
proof (cases "verb r = ''POST''")
  case False
  with respond_sent [of new_writer 405 "''Method not allowed''"] show ?thesis
    by (auto simp: ServeHTTP_def ErrorResponse_def new_writer_def bodyAllowed_def)
next
  case True
  let ?e = "if reqBody r = None then ErrInvalidRequest else ErrParseMessage"
  obtain rw bs where rw: "WriteMessage new_writer (MErr (rawErrorMessage GNil (Some ?e) None)) 400 = Inr rw"
    "sent rw = \<lparr>StatusCode = 400, respHeader = json_header, respBody = Some bs\<rparr>"
    "ParseBytes [] bs = Inr (canon_msg (MErr (rawErrorMessage GNil (Some ?e) None)))"
    by (rule WriteMessage_error_sent [of ?e 400]) (auto simp: bodyAllowed_def)
  with True assms have "ServeHTTP ms a r new_writer w = (Inr rw, w)"
    by (auto simp: ServeHTTP_def split: option.splits sum.splits)
  with rw True show ?thesis by (auto simp: raw_defs)
qed

theorem serve_http_refusals_witness:
  "\<exists>rw. ServeHTTP (\<lambda>t. Inr []) (NewActor :: nat actor) ((post [])\<lparr>verb := ''GET''\<rparr>) new_writer 5 = (Inr rw, 5) \<and>
     sent rw = \<lparr>StatusCode = 405, respHeader = [], respBody = Some ''Method not allowed''\<rparr>"
  using serve_http_refusals [of "(post [])\<lparr>verb := ''GET''\<rparr>" "\<lambda>t. Inr []" "NewActor :: nat actor" 5] by auto

text \<open>
  A notify whose handler returns without an error is answered with status 200 and the result \<^verbatim>\<open>"ok"\<close>
  under a null id.
\<close>

theorem serve_http_notify:
  assumes "verb r = ''POST''" "reqBody r = Some bs" "ParseBytes [] bs = Inr (MNtf n)"
    and "Feed a ms (WithHTTPRequest (NewRPCRequest (MNtf n) TransportHTTP) r) w = (Fed res None, w')"
  shows "\<exists>rw data. ServeHTTP ms a r new_writer w = (Inr rw, w') \<and>
    sent rw = \<lparr>StatusCode = 200, respHeader = json_header, respBody = Some data\<rparr> \<and>
    ParseBytes [] data = Inr (MRes (rawResultMessage GNil (GStr ''ok'') None))"
proof -
  have ok: "msg_ok (MNtf n)" using ParseBytes_ok [OF assms(3)] by simp
  then have "res = None"
    using act.notify_not_answered [OF _ _ assms(4)] by (simp add: Is_defs)
  moreover obtain rw data where "WriteMessage new_writer (MRes (rawResultMessage GNil (GStr ''ok'') None)) 200 = Inr rw"
    "sent rw = \<lparr>StatusCode = 200, respHeader = json_header, respBody = Some data\<rparr>"
    "ParseBytes [] data = Inr (canon_msg (MRes (rawResultMessage GNil (GStr ''ok'') None)))"
    by (rule WriteMessage_sent [of "MRes (rawResultMessage GNil (GStr ''ok'') None)" 200])
       (auto simp: raw_defs id_ok_def max_depth_def bodyAllowed_def)
  ultimately show ?thesis
    using assms by (auto simp: ServeHTTP_parsed serveFed_def raw_defs to_valid_utf8_ascii_only)
qed

theorem serve_http_notify_witness:
  "\<exists>bs rw data. ServeHTTP (\<lambda>t. Inr []) (one_handler (\<lambda>req ps w. (Returns (PlainValue (GStr ''pong'')) None, Suc w)))
      (post bs) new_writer 0 = (Inr rw, Suc 0) \<and>
    ParseBytes [] data = Inr (MRes (rawResultMessage GNil (GStr ''ok'') None)) \<and> respBody (sent rw) = Some data"
proof -
  let ?a = "one_handler (\<lambda>req ps w. (Returns (PlainValue (GStr ''pong'')) None, Suc w))"
  let ?n = "\<lparr>kind = MKNotify, traceId = [], ntfMethod = ''m'', ntfParams = [], ntfParamsAreList = True\<rparr>"
  have "sendable (MNtf ?n)" "canon_msg (MNtf ?n) = MNtf ?n"
    by (simp_all add: params_value_def max_depth_def max_list_def to_valid_utf8_ascii_only)
  then obtain bs where bs: "ParseBytes [] bs = Inr (MNtf ?n)"
    using ParseBytes_MessageBytes [of "MNtf ?n" "[]"] by (auto simp: params_ok_def)
  have fed: "Feed ?a (\<lambda>t. Inr []) (WithHTTPRequest (NewRPCRequest (MNtf ?n) TransportHTTP) (post bs)) 0 = (Fed None None, Suc 0)"
    by (simp add: feed_eval)
  from serve_http_notify [OF _ _ bs fed] obtain rw data where
    "ServeHTTP (\<lambda>t. Inr []) ?a (post bs) new_writer 0 = (Inr rw, Suc 0)" "respBody (sent rw) = Some data"
    "ParseBytes [] data = Inr (MRes (rawResultMessage GNil (GStr ''ok'') None))"
    by auto
  then show ?thesis by (intro exI [of _ bs] exI [of _ rw] exI [of _ data]) simp
qed

lemma ServeHTTP_wrapped:
  assumes "verb r = ''POST''" "reqBody r = Some bs" "ParseBytes [] bs = Inr (MReq q)"
    and "reqMethod q \<noteq> ''rpc.discover''"
    and "route a (reqMethod q) = Some (a', h)"
    and "validateRequest ms (ValidateSchema a') (hschema h) (MReq q) = None"
    and "callback h (WithHTTPRequest (NewRPCRequest (MReq q) TransportHTTP) r) (reqParams q) w = (Returns v (Some e), w')"
    and "as_rpc_error e = None" "as_wrapped_response e = Some up"
    and "200 \<le> StatusCode (Response up)" "StatusCode (Response up) \<le> 999" "bodyAllowed (StatusCode (Response up))"
    and "header_ok (respHeader (Response up))"
  shows "\<exists>rw. ServeHTTP ms a r new_writer w = (Inr rw, w') \<and> StatusCode (sent rw) = StatusCode (Response up) \<and>
    respBody (sent rw) = Some (wrBody up) \<and>
    (\<forall>k. headerValues (respHeader (sent rw)) k = headerValues (respHeader (Response up)) k)"
proof -
  let ?req = "WithHTTPRequest (NewRPCRequest (MReq q) TransportHTTP) r"
  have ok: "msg_ok (MReq q)" using ParseBytes_ok [OF assms(3)] by simp
  have fed: "Feed a ms ?req w = (Fed None (Some (ErrWrappedResponse up)), w')"
    using Feed_callback [of ?req q a a' h ms w] assms ok by (simp add: feed_eval)
  let ?w = "new_writer\<lparr>wHeader := addAll (respHeader (Response up)) []\<rparr>"
  obtain rw where rw: "respond (StatusCode (Response up)) (wrBody up) ?w = Inr rw"
    "sent rw = \<lparr>StatusCode = StatusCode (Response up), respHeader = addAll (respHeader (Response up)) [],
      respBody = Some (wrBody up)\<rparr>"
    using respond_sent [of ?w "StatusCode (Response up)" "wrBody up"] assms by (auto simp: new_writer_def)
  have "ServeHTTP ms a r new_writer w = (Inr rw, w')"
    using assms fed rw(1) by (simp add: ServeHTTP_parsed serveFed_def serveError_def new_writer_def)
  with rw(2) assms(13) show ?thesis by (auto simp: addAll_values)
qed

text \<open>
  An HTTP response that a request's handler got from elsewhere and returns as an error, wrapped or
  not, is passed on as it is: the same status, header values and body.
\<close>

theorem serve_http_wrapped_response:
  assumes "verb r = ''POST''" "reqBody r = Some bs" "ParseBytes [] bs = Inr (MReq q)"
    and "reqMethod q \<noteq> ''rpc.discover''"
    and "route a (reqMethod q) = Some (a', h)"
    and "validateRequest ms (ValidateSchema a') (hschema h) (MReq q) = None"
    and "callback h (WithHTTPRequest (NewRPCRequest (MReq q) TransportHTTP) r) (reqParams q) w = (Returns v (Some e), w')"
    and "as_rpc_error e = None" "as_wrapped_response e = Some up"
    and "200 \<le> StatusCode (Response up)" "StatusCode (Response up) \<le> 999" "bodyAllowed (StatusCode (Response up))"
    and "header_ok (respHeader (Response up))"
  shows "\<exists>rw. ServeHTTP ms a r new_writer w = (Inr rw, w') \<and> StatusCode (sent rw) = StatusCode (Response up) \<and>
    respBody (sent rw) = Some (wrBody up) \<and>
    (\<forall>k. headerValues (respHeader (sent rw)) k = headerValues (respHeader (Response up)) k)"
  using assms by (rule ServeHTTP_wrapped)

theorem serve_http_wrapped_response_witness:
  "\<exists>bs rw. ServeHTTP (\<lambda>t. Inr []) (one_handler (\<lambda>req ps w. (Returns (PlainValue GNil) (Some (ErrWrap ''rpc''
        (ErrWrappedResponse \<lparr>Response = \<lparr>StatusCode = 503, respHeader = [(''Retry-After'', [''9''])], respBody = None\<rparr>,
          wrBody = ''busy''\<rparr>))), w))) (post bs) new_writer 0 = (Inr rw, 0 :: nat) \<and> StatusCode (sent rw) = 503 \<and>
     respBody (sent rw) = Some ''busy'' \<and> headerGet (respHeader (sent rw)) ''retry-after'' = ''9''"
proof -
  let ?up = "\<lparr>Response = \<lparr>StatusCode = 503, respHeader = [(''Retry-After'', [''9''])], respBody = None\<rparr>, wrBody = ''busy''\<rparr>"
  let ?cb = "\<lambda>req ps (w :: nat). (Returns (PlainValue GNil) (Some (ErrWrap ''rpc'' (ErrWrappedResponse ?up))), w)"
  have key: "CanonicalHeaderKey ''Retry-After'' = ''Retry-After''" "CanonicalHeaderKey ''retry-after'' = ''Retry-After''"
    by code_simp+
  obtain bs where bs: "ParseBytes [] bs = Inr (MReq ping)" by (rule ping_bytes)
  from serve_http_wrapped_response [OF _ _ bs, of "post bs" "one_handler ?cb" "one_handler ?cb"
      "\<lparr>callback = ?cb, hschema = None\<rparr>" "\<lambda>t. Inr []" 0 "PlainValue GNil" "ErrWrap ''rpc'' (ErrWrappedResponse ?up)" 0 ?up]
  obtain rw where "ServeHTTP (\<lambda>t. Inr []) (one_handler ?cb) (post bs) new_writer 0 = (Inr rw, 0)" "StatusCode (sent rw) = 503"
    "respBody (sent rw) = Some ''busy''" "\<forall>k. headerValues (respHeader (sent rw)) k = headerValues [(''Retry-After'', [''9''])] k"
    by (auto simp: validateRequest_def bodyAllowed_def header_ok_def key)
  moreover from this(4) have "headerGet (respHeader (sent rw)) ''retry-after'' = ''9''"
    by (simp add: headerGet_def) (simp add: headerValues_def key)
  ultimately show ?thesis by (intro exI [of _ bs] exI [of _ rw]) simp
qed

text \<open>
  A \<^verbatim>\<open>SimpleResponse\<close> that the handler returns is written only for a notify. For a request the actor
  turns it into the internal error before the server can see it.
\<close>

theorem serve_http_simple_response:
  assumes "verb r = ''POST''" "reqBody r = Some bs" "ParseBytes [] bs = Inr m" "MustMethod m = Inr ''m''"
    and "\<And>req ps. cb req ps w = (Returns v (Some (ErrSimpleResponse s)), w')"
    and "200 \<le> srCode s" "srCode s \<le> 999" "bodyAllowed (srCode s)"
  shows "\<exists>rw. ServeHTTP ms (one_handler cb) r new_writer w = (Inr rw, w') \<and>
    (if IsNotify m then sent rw = \<lparr>StatusCode = srCode s, respHeader = [], respBody = Some (srBody s)\<rparr>
     else \<exists>data e. StatusCode (sent rw) = 200 \<and> respBody (sent rw) = Some data \<and> ParseBytes [] data = Inr (MErr e) \<and>
       errError e = Some (canon_error ErrInternalError))"
proof -
  let ?req = "WithHTTPRequest (NewRPCRequest m TransportHTTP) r"
  have ok: "msg_ok m" "wire_fields m" using ParseBytes_ok [OF assms(3)] by simp_all
  show ?thesis
  proof (cases m)
    case (MReq q)
    let ?e = "ToMessageFromId ErrInternalError (reqId q) (traceId q)"
    have fed: "Feed (one_handler cb) ms ?req w = (Fed (Some (MErr ?e)) None, w')"
      using MReq ok assms by (simp add: feed_eval ToMessage_def RPCErrorMessage_def NewErrorMessage_def ToMessageFromId_def
          RPCErrorMessageFromId_def NewErrorMessageFromId_def)
    have e: "wire_id (reqId q)" "msg_ok (MErr ?e)" "sendable (MErr ?e)"
      using ok MReq error_from_id_sendable [OF wire_id_ok ErrInternalError_simps, of "reqId q" "traceId q"] by auto
    then obtain data where data: "replyBytes (MReq q) (SetTraceId [] (MErr ?e)) = Inr data"
        "ParseBytes [] data = Inr (delivered q (MErr ?e))"
      using replyBytes_delivered by blast
    obtain rw where "serveReply (MReq q) (MErr ?e) new_writer = Inr rw" "StatusCode (sent rw) = 200" "respBody (sent rw) = Some data"
      by (rule serveReply_sent [OF data(1)]) auto
    moreover from this have "ServeHTTP ms (one_handler cb) r new_writer w = (Inr rw, w')"
      using MReq assms fed ok by (simp add: ServeHTTP_parsed serveFed_def)
    moreover have "\<not> IsNotify m" using MReq ok by (simp add: Is_defs)
    ultimately show ?thesis using data(2) delivered_internal [of q "reqId q" "traceId q"] by auto
  next
    case (MNtf n)
    have "Feed (one_handler cb) ms ?req w = (Fed None (Some (ErrSimpleResponse s)), w')"
      using MNtf ok assms by (simp add: feed_eval)
    with respond_sent [of new_writer "srCode s" "srBody s"] MNtf assms ok show ?thesis
      by (auto simp: ServeHTTP_parsed serveFed_def serveError_def new_writer_def Is_defs)
  qed (use assms in \<open>auto\<close>)
qed

theorem serve_http_simple_response_witness:
  "\<exists>bs rw data e. ServeHTTP (\<lambda>t. Inr []) (one_handler (\<lambda>req ps w. (Returns (PlainValue GNil)
        (Some (ErrSimpleResponse \<lparr>srCode = 403, srBody = ''no''\<rparr>)), w))) (post bs) new_writer 0 = (Inr rw, 0 :: nat) \<and>
     StatusCode (sent rw) = 200 \<and> respBody (sent rw) = Some data \<and> ParseBytes [] data = Inr (MErr e)"
proof -
  let ?cb = "\<lambda>req ps (w :: nat). (Returns (PlainValue GNil) (Some (ErrSimpleResponse \<lparr>srCode = 403, srBody = ''no''\<rparr>)), w)"
  obtain bs where bs: "ParseBytes [] bs = Inr (MReq ping)" by (rule ping_bytes)
  from serve_http_simple_response [OF _ _ bs, of "post bs" ?cb 0 "PlainValue GNil" "\<lparr>srCode = 403, srBody = ''no''\<rparr>" 0 "\<lambda>t. Inr []"]
  show ?thesis by (auto simp: bodyAllowed_def Is_defs)
qed

end
