(* ===== verification/Http1_Client.thy ===== *)
theory Http1_Client
  imports Http1_Server
begin

text \<open>
  The HTTP/1.1 client of \<^verbatim>\<open>net/http1_client.go\<close>. The network is an argument: a function that takes the
  \<^verbatim>\<open>http.Client\<close> and a request to a response or a failure and may change a world. The TLS configuration is
  a value of an arbitrary type. \<^verbatim>\<open>url_ok\<close> is whether \<^verbatim>\<open>http.NewRequestWithContext\<close> accepts the URL's text.
  The texts that \<^verbatim>\<open>errors.Wrapf\<close> formats are kept without the numbers.
\<close>

section \<open>Data\<close>

record url =
  Scheme :: string
  urlText :: string

record client_options =
  Timeout :: int

record 't net_client =
  ncTimeout :: int        \<comment> \<open>in seconds\<close>
  ncTLS :: "'t option"

record 't http1_client =
  serverUrl :: url
  extraHeader :: http_header          \<comment> \<open>the nil map is the empty one\<close>
  httpClient :: "'t net_client option" \<comment> \<open>set once by \<^verbatim>\<open>connectOnce\<close>\<close>
  clientOptions :: client_options
  clientTLS :: "'t option"

record client_request =
  crUrl :: string
  crHeader :: http_header
  crBody :: string

datatype do_error = DoTimeout | DoFailed

type_synonym ('t, 'n) network = "'t net_client \<Rightarrow> client_request \<Rightarrow> 'n \<Rightarrow> (do_error + http_response) \<times> 'n"

section \<open>Operations\<close>

definition NewHttp1Client :: "url \<Rightarrow> client_options list \<Rightarrow> go_panic + 't http1_client" where
  "NewHttp1Client u optlist =
     (if Scheme u \<noteq> ''http'' \<and> Scheme u \<noteq> ''https'' then Inl (PanicText ''server url is not http'')
      else Inr \<lparr>serverUrl = u, extraHeader = [], httpClient = None,
                clientOptions = (case optlist of [] \<Rightarrow> \<lparr>Timeout = 0\<rparr> | opt # _ \<Rightarrow> opt), clientTLS = None\<rparr>)"

text \<open>\<^verbatim>\<open>connect\<close>, with the \<^verbatim>\<open>http.Client\<close> that is there afterwards.\<close>

definition connect :: "'t http1_client \<Rightarrow> 't net_client \<times> 't http1_client" where
  "connect client =
     (case httpClient client of
        Some hc \<Rightarrow> (hc, client)
      | None \<Rightarrow>
          let timeout = Timeout (clientOptions client);
              hc = \<lparr>ncTimeout = (if timeout \<le> 0 then 5 else timeout), ncTLS = clientTLS client\<rparr>
          in (hc, client\<lparr>httpClient := Some hc\<rparr>))"

definition SetExtraHeader :: "http_header \<Rightarrow> 't http1_client \<Rightarrow> 't http1_client" where
  "SetExtraHeader h client = client\<lparr>extraHeader := h\<rparr>"

definition SetClientTLSConfig :: "'t option \<Rightarrow> 't http1_client \<Rightarrow> 't http1_client" where
  "SetClientTLSConfig cfg client = client\<lparr>clientTLS := cfg\<rparr>"

text \<open>The request that \<^verbatim>\<open>request\<close> and \<^verbatim>\<open>Send\<close> build.\<close>

definition request_header :: "string \<Rightarrow> http_header \<Rightarrow> http_header" where
  "request_header trace extra =
     addAll extra
       (headerSet ''Accept'' ''application/json''
         (headerSet ''Content-Type'' ''application/json''
           (if trace \<noteq> [] then headerAdd ''X-Trace-Id'' trace [] else [])))"

definition post_message ::
  "(string \<Rightarrow> bool) \<Rightarrow> 't http1_client \<Rightarrow> message \<Rightarrow> go_error + client_request" where
  "post_message url_ok client m =
     (case MessageBytes (SetTraceId [] m) of
        Inl err \<Rightarrow> Inl (ErrText ''json'')
      | Inr marshaled \<Rightarrow>
          if \<not> url_ok (urlText (serverUrl client)) then Inl (ErrWrap ''http.NewRequestWithContext'' (ErrText ''url''))
          else Inr \<lparr>crUrl = urlText (serverUrl client),
                    crHeader = request_header (TraceId m) (extraHeader client), crBody = marshaled\<rparr>)"

definition addResponseHeader :: "string \<Rightarrow> string \<Rightarrow> message \<Rightarrow> message" where
  "addResponseHeader k v m =
     (case m of
        MRes r \<Rightarrow> let (h, r') = resResponseHeader r in MRes (r'\<lparr>resHeader := Some (headerAdd k v h)\<rparr>)
      | MErr r \<Rightarrow> let (h, r') = errResponseHeader r in MErr (r'\<lparr>errHeader := Some (headerAdd k v h)\<rparr>)
      | _ \<Rightarrow> m)"

definition receiveHeader :: "http_header \<Rightarrow> message \<Rightarrow> message" where
  "receiveHeader h m = fold (\<lambda>(k, vs). fold (addResponseHeader k) vs) (filter (\<lambda>(k, vs). hasXPrefix k) h) m"

text \<open>The part of \<^verbatim>\<open>request\<close> after \<^verbatim>\<open>httpClient.Do\<close>.\<close>

definition receive :: "string \<Rightarrow> do_error + http_response \<Rightarrow> go_error + message" where
  "receive trace done =
     (case done of
        Inl DoTimeout \<Rightarrow>
          Inl (ErrWrap ''request timeout''
            (ErrSimpleResponse \<lparr>srCode = 408, srBody = CHR 0x22 # ''request timeout'' @ [CHR 0x22]\<rparr>))
      | Inl DoFailed \<Rightarrow> Inl (ErrWrap ''http Do'' (ErrText ''net''))
      | Inr resp \<Rightarrow>
          if StatusCode resp \<noteq> 200 then
            (case respBody resp of
               None \<Rightarrow> Inl (ErrWrap ''read from response'' (ErrText ''net''))
             | Some buffer \<Rightarrow> Inl (ErrWrap ''abnormal response'' (ErrWrappedResponse \<lparr>Response = resp, wrBody = buffer\<rparr>)))
          else
            (case respBody resp of
               None \<Rightarrow> Inl (ErrWrap ''ioutil.ReadAll'' (ErrText ''net''))
             | Some data \<Rightarrow>
                 (case ParseBytes [] data of
                    Inl err \<Rightarrow> Inl (ErrText ''json'')
                  | Inr respmsg \<Rightarrow> Inr (SetTraceId trace (receiveHeader (respHeader resp) respmsg)))))"

text \<open>
  \<^verbatim>\<open>request\<close> and \<^verbatim>\<open>Send\<close> take the trace id off the caller's message: the message, the client and the world
  afterwards are part of the result.
\<close>

definition request ::
  "(string \<Rightarrow> bool) \<Rightarrow> ('t, 'n) network \<Rightarrow> 't http1_client \<Rightarrow> request_message \<Rightarrow> 'n \<Rightarrow>
     (go_error + message) \<times> request_message \<times> 't http1_client \<times> 'n" where
  "request url_ok net client0 reqmsg n =
     (let (hc, client) = connect client0;
          reqmsg' = reqmsg\<lparr>traceId := []\<rparr>
      in case post_message url_ok client (MReq reqmsg) of
           Inl err \<Rightarrow> (Inl err, reqmsg', client, n)
         | Inr req \<Rightarrow>
             let (done, n') = net hc req n in (receive (traceId reqmsg) done, reqmsg', client, n'))"

definition rpc_text :: "request_message \<Rightarrow> string" where
  "rpc_text reqmsg = ''RPC('' @ reqMethod reqmsg @ '')''"

definition Call ::
  "(string \<Rightarrow> bool) \<Rightarrow> ('t, 'n) network \<Rightarrow> 't http1_client \<Rightarrow> request_message \<Rightarrow> 'n \<Rightarrow>
     (go_error + message) \<times> request_message \<times> 't http1_client \<times> 'n" where
  "Call url_ok net client reqmsg n =
     (let (res, rest) = request url_ok net client reqmsg n
      in (map_sum (ErrWrap (rpc_text reqmsg)) id res, rest))"

text \<open>
  \<^verbatim>\<open>UnwrapCall\<close>: \<^verbatim>\<open>DecodeInterface\<close> into the caller's output is the argument \<open>into\<close>. The error pointer of an
  error message is returned as it is.
\<close>

definition UnwrapCall ::
  "(gval \<Rightarrow> go_error + 'o) \<Rightarrow> (string \<Rightarrow> bool) \<Rightarrow> ('t, 'n) network \<Rightarrow> 't http1_client \<Rightarrow> request_message \<Rightarrow> 'n \<Rightarrow>
     (go_panic + (go_error option + 'o)) \<times> request_message \<times> 't http1_client \<times> 'n" where
  "UnwrapCall into url_ok net client reqmsg n =
     (let (res, rest) = Call url_ok net client reqmsg n
      in (case res of
            Inl err \<Rightarrow> Inr (Inl (Some err))
          | Inr resmsg \<Rightarrow>
              if IsResult resmsg then
                (case MustResult resmsg of
                   Inl p \<Rightarrow> Inl p
                 | Inr v \<Rightarrow> Inr (map_sum (\<lambda>err. Some (ErrWrap (rpc_text reqmsg) err)) id (into v)))
              else
                (case MustError resmsg of Inl p \<Rightarrow> Inl p | Inr e \<Rightarrow> Inr (Inl (map_option ErrRPC e))), rest))"

definition SendHTTP ::
  "(string \<Rightarrow> bool) \<Rightarrow> ('t, 'n) network \<Rightarrow> 't http1_client \<Rightarrow> message \<Rightarrow> 'n \<Rightarrow>
     go_error option \<times> message \<times> 't http1_client \<times> 'n" where
  "SendHTTP url_ok net client0 m n =
     (let (hc, client) = connect client0;
          m' = SetTraceId [] m
      in case post_message url_ok client m of
           Inl err \<Rightarrow> (Some err, m', client, n)
         | Inr req \<Rightarrow>
             let (done, n') = net hc req n in
             (case done of
                Inl err \<Rightarrow> Some (ErrWrap ''http Do'' (ErrText ''net''))
              | Inr resp \<Rightarrow>
                  if StatusCode resp \<noteq> 200 then
                    Some (ErrWrap ''abnormal response'' (ErrWrappedResponse \<lparr>Response = resp, wrBody = []\<rparr>))
                  else None, m', client, n'))"

section \<open>Lemmas\<close>

definition header_of :: "message \<Rightarrow> http_header" where
  "header_of m = (case responseHeader m of Some h \<Rightarrow> h | None \<Rightarrow> [])"

primrec no_header :: "message \<Rightarrow> message" where
  "no_header (MReq m) = MReq m"
| "no_header (MNtf m) = MNtf m"
| "no_header (MRes m) = MRes (m\<lparr>resHeader := None\<rparr>)"
| "no_header (MErr m) = MErr (m\<lparr>errHeader := None\<rparr>)"

lemma addResponseHeader_keeps [simp]: "no_header (addResponseHeader k v m) = no_header m"
  by (auto simp: addResponseHeader_def resResponseHeader_def errResponseHeader_def split: message.split option.split)

lemma IsResultOrError_addResponseHeader [simp]:
  "IsResultOrError (addResponseHeader k v m) = IsResultOrError m" "msg_ok (addResponseHeader k v m) = msg_ok m"
  by (auto simp: addResponseHeader_def resResponseHeader_def errResponseHeader_def IsResultOrError_def Is_defs
      split: message.split option.split)

lemma header_of_add:
  "msg_ok m \<Longrightarrow> IsResultOrError m \<Longrightarrow> header_of (addResponseHeader k v m) = headerAdd k v (header_of m)"
  by (auto simp: addResponseHeader_def resResponseHeader_def errResponseHeader_def IsResultOrError_def Is_defs
      header_of_def responseHeader_def split: message.split option.split)

lemma add_values:
  "no_header (fold (addResponseHeader k) vs m) = no_header m"
  "msg_ok (fold (addResponseHeader k) vs m) = msg_ok m"
  "IsResultOrError (fold (addResponseHeader k) vs m) = IsResultOrError m"
  "msg_ok m \<Longrightarrow> IsResultOrError m \<Longrightarrow>
     header_of (fold (addResponseHeader k) vs m) = fold (headerAdd k) vs (header_of m)"
  by (induction vs arbitrary: m) (simp_all add: header_of_add)

lemma receiveHeader_spec:
  "no_header (receiveHeader h m) = no_header m"
  "msg_ok m \<Longrightarrow> IsResultOrError m \<Longrightarrow>
     header_of (receiveHeader h m) = addAll (filter (\<lambda>(k, vs). hasXPrefix k) h) (header_of m)"
proof -
  have "no_header (fold (\<lambda>(k, vs). fold (addResponseHeader k) vs) g m) = no_header m \<and>
    (msg_ok m \<longrightarrow> IsResultOrError m \<longrightarrow>
      header_of (fold (\<lambda>(k, vs). fold (addResponseHeader k) vs) g m) = addAll g (header_of m))" for g m
    by (induction g arbitrary: m) (auto simp: addAll_def add_values)
  then show "no_header (receiveHeader h m) = no_header m"
    "msg_ok m \<Longrightarrow> IsResultOrError m \<Longrightarrow>
     header_of (receiveHeader h m) = addAll (filter (\<lambda>(k, vs). hasXPrefix k) h) (header_of m)"
    by (simp_all add: receiveHeader_def)
qed

lemma canon_id_idem: "id_ok i \<Longrightarrow> canon_id (canon_id i) = canon_id i"
  by (auto simp: id_ok_def split: gval.splits)

text \<open>
  A network with an HTTP handler at its other end, and with the server of \<^verbatim>\<open>http1_server.go\<close>; a panic of the handler closes the
  connection.
\<close>

definition arriving :: "client_request \<Rightarrow> http_request" where
  "arriving cr =
     \<lparr>verb = ''POST'', protoMajor = 1, reqHeader = crHeader cr, reqBody = Some (crBody cr), ctxAuth = None\<rparr>"

definition httpNetwork :: "'w http_handler_fn \<Rightarrow> ('t, 'w) network" where
  "httpNetwork handler hc cr w =
     (case handler (arriving cr) new_writer w of
        (Inl p, w') \<Rightarrow> (Inl DoFailed, w')
      | (Inr rw, w') \<Rightarrow> (Inr (sent rw), w'))"

definition httpServer :: "(template \<Rightarrow> go_error + gmap) \<Rightarrow> 'w actor \<Rightarrow> ('t, 'w) network" where
  "httpServer ms a = httpNetwork (ServeHTTP ms a)"

lemma post_message_sent:
  assumes "msg_ok m" "sendable m" "url_ok (urlText (serverUrl client))"
  obtains cr where "post_message url_ok client m = Inr cr" "ParseBytes [] (crBody cr) = Inr (canon_msg (SetTraceId [] m))"
    "crHeader cr = request_header (TraceId m) (extraHeader client)"
  using ParseBytes_MessageBytes [of "SetTraceId [] m" "[]"] assms that by (auto simp: post_message_def)

lemma connect_kept [simp]:
  "serverUrl (snd (connect client)) = serverUrl client" "extraHeader (snd (connect client)) = extraHeader client"
  by (simp_all add: connect_def Let_def split: option.split)

lemma request_sent:
  assumes "msg_ok (MReq q)" "sendable (MReq q)" "url_ok (urlText (serverUrl client))" "connect client = (hc, cl)"
  shows "\<exists>cr. ParseBytes [] (crBody cr) = Inr (canon_msg (SetTraceId [] (MReq q))) \<and>
    crHeader cr = request_header (traceId q) (extraHeader client) \<and>
    (\<forall>net n done n'. net hc cr n = (done, n') \<longrightarrow>
       request url_ok net client q n = (receive (traceId q) done, q\<lparr>traceId := []\<rparr>, cl, n'))"
proof -
  have u: "url_ok (urlText (serverUrl cl))" "extraHeader cl = extraHeader client"
    using connect_kept [of client] assms(3,4) by simp_all
  obtain cr where "post_message url_ok cl (MReq q) = Inr cr"
    "ParseBytes [] (crBody cr) = Inr (canon_msg (SetTraceId [] (MReq q)))"
    "crHeader cr = request_header (TraceId (MReq q)) (extraHeader cl)"
    by (rule post_message_sent [OF assms(1,2), of url_ok cl, OF u(1)])
  with assms(4) u(2) show ?thesis by (intro exI [of _ cr]) (simp add: request_def)
qed

lemma receive_reply:
  assumes "StatusCode resp = 200" "respBody resp = Some data" "ParseBytes [] data = Inr m"
  shows "receive t (Inr resp) = Inr (SetTraceId t (receiveHeader (respHeader resp) m))"
  using assms by (simp add: receive_def)

lemma header_of_SetTraceId [simp]: "header_of (SetTraceId t m) = header_of m"
  by (cases m) (simp_all add: header_of_def responseHeader_def)

lemma no_header_SetTraceId: "no_header (SetTraceId t m) = SetTraceId t (no_header m)"
  by (cases m) simp_all

lemma receiveHeader_json: "receiveHeader json_header m = m"
  by (simp add: receiveHeader_def headerSet_def CanonicalHeaderKey_def hasXPrefix_def ascii_upper_def)

text \<open>
  A call over a network whose handler serves the request, or a variant of it with the same body, on the world \<open>w\<close> that
  is part of its own.
\<close>

lemma served_call:
  assumes "msg_ok (MReq q)" "sendable (MReq q)" "url_ok (urlText (serverUrl client))"
    and "canon_msg (SetTraceId [] (MReq q)) = MReq q'" "reqMethod q' \<noteq> ''rpc.discover''"
    and "route a (reqMethod q') = Some (a', h)"
    and "validateRequest ms (ValidateSchema a') (hschema h) (MReq q') = None"
    and "\<And>r. P r \<Longrightarrow> callback h (WithHTTPRequest (NewRPCRequest (MReq q') TransportHTTP) r) (reqParams q') w =
           (Returns (PlainValue v) None, w')"
    and "marshal_ok v" "gdepth v < max_depth"
    and handler: "\<And>cr. crHeader cr = request_header (traceId q) (extraHeader client) \<Longrightarrow>
      \<exists>r. verb r = ''POST'' \<and> reqBody r = Some (crBody cr) \<and> P r \<and>
        handler (arriving cr) new_writer W = (let (res, w'') = ServeHTTP ms a r new_writer w in (res, F w''))"
  shows "Call url_ok (httpNetwork handler) client q W =
    (Inr (MRes \<lparr>kind = MKResult, traceId = traceId q, resId = canon_id (reqId q), resResult = canon v, resHeader = None\<rparr>),
     q\<lparr>traceId := []\<rparr>, snd (connect client), F w')"
proof -
  obtain hc cl where conn: "connect client = (hc, cl)" by force
  obtain cr where cr: "ParseBytes [] (crBody cr) = Inr (MReq q')" "crHeader cr = request_header (traceId q) (extraHeader client)"
    "\<And>done n'. httpNetwork handler hc cr W = (done, n') \<Longrightarrow>
       request url_ok (httpNetwork handler) client q W = (receive (traceId q) done, q\<lparr>traceId := []\<rparr>, cl, n')"
    using request_sent [of q url_ok client hc cl] assms(1-4) conn by metis
  obtain r where r: "verb r = ''POST''" "reqBody r = Some (crBody cr)" "P r"
    "handler (arriving cr) new_writer W = (let (res, w'') = ServeHTTP ms a r new_writer w in (res, F w''))"
    using handler [OF cr(2)] by blast
  let ?req = "WithHTTPRequest (NewRPCRequest (MReq q') TransportHTTP) r"
  let ?res = "MRes ((rawResultMessage (reqId q') v None)\<lparr>traceId := traceId q'\<rparr>)"
  have q': "msg_ok (MReq q')" "reqId q' = canon_id (reqId q)" "id_ok (reqId q)" "id_ok (reqId q')"
    using ParseBytes_ok [OF cr(1)] assms(2,4) wire_id_ok by (auto split: prod.splits)
  have fed: "Feed a ms ?req w = (Fed (Some ?res) None, w')"
    using Feed_callback [of ?req q' a a' h ms w] assms(5-8) q'(1) r(3)
    by (simp add: recoverCall_def wrapResult_def IsRequest_MReq NewResultMessage_def)
  have res: "msg_ok ?res" "sendable ?res" using assms q' by (simp_all add: raw_defs)
  obtain rw data where rw: "ServeHTTP ms a r new_writer w = (Inr rw, w')" "StatusCode (sent rw) = 200"
    "respBody (sent rw) = Some data" "ParseBytes [] data = Inr (delivered q' ?res)"
    "respHeader (sent rw) = json_header"
    using ServeHTTP_reply [OF r(1,2) cr(1) assms(5) fed res(1)] res(2) by (auto simp: responseHeader_def raw_defs)
  have "delivered q' ?res = canon_msg (SetTraceId [] ?res)"
    using ParseBytes_MessageBytes [of "SetTraceId [] ?res" "[]"] res by (auto simp: delivered_def simp del: SetTraceId.simps)
  then have "receive (traceId q) (Inr (sent rw)) = Inr (MRes \<lparr>kind = MKResult, traceId = traceId q,
      resId = canon_id (reqId q), resResult = canon v, resHeader = None\<rparr>)"
    using rw q' by (simp add: receive_reply receiveHeader_json raw_defs canon_id_idem)
  moreover have "httpNetwork handler hc cr W = (Inr (sent rw), F w')"
    using rw(1) r(4) by (simp add: httpNetwork_def)
  ultimately show ?thesis using cr(3) conn by (simp add: Call_def)
qed

section \<open>Properties\<close>

text \<open>
  \<^bold>\<open>C22.\<close> End to end over HTTP/1.1: a call of a method whose handler returns \<open>v\<close> gives the caller a result with the
  call's id, the value \<open>v\<close> in the decoder's form and the call's own trace id; the handler runs once, on the
  parameters of the call in the decoder's form. The caller's message loses its trace id.
\<close>

theorem http_call_end_to_end:
  assumes "msg_ok (MReq q)" "sendable (MReq q)" "url_ok (urlText (serverUrl client))"
    and "canon_msg (SetTraceId [] (MReq q)) = MReq q'" "reqMethod q' \<noteq> ''rpc.discover''"
    and "route a (reqMethod q') = Some (a', h)"
    and "validateRequest ms (ValidateSchema a') (hschema h) (MReq q') = None"
    and "\<And>r. callback h (WithHTTPRequest (NewRPCRequest (MReq q') TransportHTTP) r) (reqParams q') w =
           (Returns (PlainValue v) None, w')"
    and "marshal_ok v" "gdepth v < max_depth"
  shows "Call url_ok (httpServer ms a) client q w =
    (Inr (MRes \<lparr>kind = MKResult, traceId = traceId q, resId = canon_id (reqId q), resResult = canon v, resHeader = None\<rparr>),
     q\<lparr>traceId := []\<rparr>, snd (connect client), w')"
  unfolding httpServer_def
proof (rule served_call [where P = "\<lambda>r. True" and F = id and w = w, simplified id_apply])
  fix cr
  show "\<exists>r. verb r = ''POST'' \<and> reqBody r = Some (crBody cr) \<and> True \<and>
      ServeHTTP ms a (arriving cr) new_writer w = (let (res, w'') = ServeHTTP ms a r new_writer w in (res, w''))"
    by (intro exI [of _ "arriving cr"]) (simp add: arriving_def)
qed (use assms in auto)

theorem http_call_end_to_end_witness:
  "\<exists>client. NewHttp1Client \<lparr>Scheme = ''http'', urlText = ''http://h''\<rparr> [] = Inr (client :: nat http1_client) \<and>
    fst (Call (\<lambda>u. True) (httpServer (\<lambda>t. Inr []) (one_handler (\<lambda>req ps w. (Returns (PlainValue (GBool True)) None, Suc w))))
      client (ping\<lparr>traceId := ''t''\<rparr>) 0) =
    Inr (MRes \<lparr>kind = MKResult, traceId = ''t'', resId = GInt 1, resResult = GBool True, resHeader = None\<rparr>)"
proof -
  let ?h = "\<lparr>callback = (\<lambda>req ps w. (Returns (PlainValue (GBool True)) None, Suc w)), hschema = None\<rparr>"
  let ?a = "Actor True True [(''m'', ?h)] None None []"
  obtain client where c: "NewHttp1Client \<lparr>Scheme = ''http'', urlText = ''http://h''\<rparr> [] = Inr (client :: nat http1_client)"
    by (simp add: NewHttp1Client_def)
  have "canon_msg (SetTraceId [] (MReq (ping\<lparr>traceId := ''t''\<rparr>))) = MReq ping"
    "sendable (MReq (ping\<lparr>traceId := ''t''\<rparr>))"
    by (simp_all add: params_value_def to_valid_utf8_ascii_only id_ok_def max_depth_def max_list_def)
  with http_call_end_to_end [of "ping\<lparr>traceId := ''t''\<rparr>" "\<lambda>u. True" client ping ?a ?a ?h "\<lambda>t. Inr []" 0 "GBool True" "Suc 0"] c
  show ?thesis by (auto simp: validateRequest_def max_depth_def params_ok_def)
qed

text \<open>
  Of a successful response the caller gets the message of the body, under the trace id of the call,
  with the response's \<^verbatim>\<open>X-\<close> header values and no others.
\<close>

theorem http_response_headers:
  assumes "StatusCode resp = 200" "respBody resp = Some data" "ParseBytes [] data = Inr m" "IsResultOrError m"
    and "header_ok (respHeader resp)"
  shows "\<exists>m'. receive t (Inr resp) = Inr m' \<and> no_header m' = SetTraceId t m \<and>
    (\<forall>k. headerValues (header_of m') k = (if hasXPrefix k then headerValues (respHeader resp) k else []))"
proof -
  have ok: "msg_ok m" "wire_fields m" using ParseBytes_ok [OF assms(3)] by simp_all
  then have m: "no_header m = m" "header_of m = []"
    by (cases m; simp add: header_of_def responseHeader_def)+
  show ?thesis
    using receive_reply [OF assms(1-3)] receiveHeader_spec(1) [of "respHeader resp" m]
      receiveHeader_spec(2) [OF ok(1) assms(4)] transferX_values [OF assms(5)]
    by (simp add: no_header_SetTraceId m)
qed

theorem http_response_headers_witness:
  "\<exists>data m'. receive ''t'' (Inr \<lparr>StatusCode = 200, respHeader = [(''X-A'', [''1''])], respBody = Some data\<rparr>) = Inr m' \<and>
     no_header m' = MRes ((rawResultMessage (GInt 1) (GBool True) None)\<lparr>traceId := ''t''\<rparr>) \<and> headerValues (header_of m') ''x-a'' = [''1'']"
proof -
  let ?m = "MRes (rawResultMessage (GInt 1) (GBool True) None)"
  have "sendable ?m" "msg_ok ?m" "canon_msg ?m = ?m" by (simp_all add: raw_defs id_ok_def max_depth_def)
  then obtain data where data: "ParseBytes [] data = Inr ?m" using ParseBytes_MessageBytes [of ?m "[]"] by auto
  have key: "CanonicalHeaderKey ''X-A'' = ''X-A''" "CanonicalHeaderKey ''x-a'' = ''X-A''" "hasXPrefix ''x-a''" by code_simp+
  obtain m' where m': "receive ''t'' (Inr \<lparr>StatusCode = 200, respHeader = [(''X-A'', [''1''])], respBody = Some data\<rparr>) = Inr m'"
    "no_header m' = SetTraceId ''t'' ?m" "headerValues (header_of m') ''x-a'' = headerValues [(''X-A'', [''1''])] ''x-a''"
    using http_response_headers [of "\<lparr>StatusCode = 200, respHeader = [(''X-A'', [''1''])], respBody = Some data\<rparr>" data ?m "''t''"]
      data key by (auto simp: raw_defs IsResultOrError_def Is_defs header_ok_def)
  then show ?thesis
    by (intro exI [of _ data] exI [of _ m'])
      (simp add: key raw_defs headerValues_def [of "[(''X-A'', [''1''])]"])
qed

text \<open>A handler that passes every call on to another server.\<close>

definition forward ::
  "(string \<Rightarrow> bool) \<Rightarrow> ('t, 'n) network \<Rightarrow> 't http1_client \<Rightarrow> request_message \<Rightarrow> 'n request_callback" where
  "forward url_ok net client q req params n =
     (let (res, _, _, n') = Call url_ok net client q n
      in (case res of Inl err \<Rightarrow> Returns (PlainValue GNil) (Some err) | Inr m \<Rightarrow> Returns (MessageValue m) None, n'))"

text \<open>
  \<^bold>\<open>C26.\<close> A proxy is transparent for abnormal responses: a handler that calls another server and returns the
  call's error makes its own server answer with that server's status, header values and body.
\<close>

theorem http_proxy_transparent:
  assumes "verb r = ''POST''" "reqBody r = Some bs" "ParseBytes [] bs = Inr (MReq q)" "reqMethod q = ''m''"
    and "msg_ok (MReq p)" "sendable (MReq p)" "url_ok (urlText (serverUrl client))"
    and "\<And>hc cr. net hc cr n = (Inr resp, n')"
    and "StatusCode resp \<noteq> 200" "200 \<le> StatusCode resp" "StatusCode resp \<le> 999" "bodyAllowed (StatusCode resp)"
    and "respBody resp = Some body" "header_ok (respHeader resp)"
  shows "\<exists>rw. ServeHTTP ms (one_handler (forward url_ok net client p)) r new_writer n = (Inr rw, n') \<and>
    StatusCode (sent rw) = StatusCode resp \<and> respBody (sent rw) = Some body \<and>
    (\<forall>k. headerValues (respHeader (sent rw)) k = headerValues (respHeader resp) k)"
proof -
  obtain hc cl where conn: "connect client = (hc, cl)" by force
  have "request url_ok net client p n = (receive (traceId p) (Inr resp), p\<lparr>traceId := []\<rparr>, cl, n')"
    using request_sent [OF assms(5,6), of url_ok client hc cl] assms(7,8) conn by metis
  then have fw: "forward url_ok net client p req ps n = (Returns (PlainValue GNil) (Some (ErrWrap (rpc_text p)
      (ErrWrap ''abnormal response'' (ErrWrappedResponse \<lparr>Response = resp, wrBody = body\<rparr>)))), n')" for req ps
    using assms by (simp add: forward_def Call_def receive_def)
  show ?thesis
    by (rule ServeHTTP_wrapped [OF assms(1-3), where up = "\<lparr>Response = resp, wrBody = body\<rparr>", simplified])
       (use assms fw in \<open>auto simp: validateRequest_def\<close>)
qed

theorem http_proxy_transparent_witness:
  "\<exists>bs rw. ServeHTTP (\<lambda>t. Inr []) (one_handler (forward (\<lambda>u. True)
        (\<lambda>hc cr n. (Inr \<lparr>StatusCode = 503, respHeader = [], respBody = Some ''busy''\<rparr>, Suc n))
        \<lparr>serverUrl = \<lparr>Scheme = ''http'', urlText = ''u''\<rparr>, extraHeader = [], httpClient = None, clientOptions = \<lparr>Timeout = 0\<rparr>,
          clientTLS = None :: nat option\<rparr> ping))
      (post bs) new_writer 0 = (Inr rw, Suc 0) \<and> StatusCode (sent rw) = 503 \<and> respBody (sent rw) = Some ''busy''"
proof -
  let ?c = "\<lparr>serverUrl = \<lparr>Scheme = ''http'', urlText = ''u''\<rparr>, extraHeader = [], httpClient = None,
    clientOptions = \<lparr>Timeout = 0\<rparr>, clientTLS = None :: nat option\<rparr>"
  obtain bs where bs: "ParseBytes [] bs = Inr (MReq ping)" by (rule ping_bytes)
  have "sendable (MReq ping)" by (simp add: params_value_def id_ok_def max_depth_def max_list_def)
  with http_proxy_transparent [OF _ _ bs, of "post bs" ping "\<lambda>u. True" ?c
      "\<lambda>hc cr n. (Inr \<lparr>StatusCode = 503, respHeader = [], respBody = Some ''busy''\<rparr>, Suc n)" 0 _ "Suc 0" "''busy''" "\<lambda>t. Inr []"]
  show ?thesis by (fastforce simp: bodyAllowed_def params_ok_def)
qed

text \<open>
  \<^verbatim>\<open>UnwrapCall\<close> returns the decoded value of a result and the error of an error message, but panics when
  the server's answer is itself a request or a notify.
\<close>

theorem unwrap_call_outcome:
  assumes "Call url_ok net client q n = (Inr m, rest)" "msg_ok m"
  shows "case m of
      MRes r \<Rightarrow> UnwrapCall into url_ok net client q n =
        (Inr (map_sum (\<lambda>err. Some (ErrWrap (rpc_text q) err)) id (into (resResult r))), rest)
    | MErr e \<Rightarrow> UnwrapCall into url_ok net client q n = (Inr (Inl (map_option ErrRPC (errError e))), rest)
    | _ \<Rightarrow> (\<exists>p. UnwrapCall into url_ok net client q n = (Inl p, rest))"
  using assms by (cases m) (simp_all add: UnwrapCall_def Is_defs panicType_def)

theorem unwrap_call_outcome_witness:
  "\<exists>bs p rest. UnwrapCall Inr (\<lambda>u. True) (\<lambda>hc cr n. (Inr \<lparr>StatusCode = 200, respHeader = [], respBody = Some bs\<rparr>, n))
     \<lparr>serverUrl = \<lparr>Scheme = ''http'', urlText = ''u''\<rparr>, extraHeader = [], httpClient = None, clientOptions = \<lparr>Timeout = 0\<rparr>,
        clientTLS = None :: nat option\<rparr> ping (0 :: nat) = (Inl p :: go_panic + (go_error option + gval), rest)"
proof -
  let ?c = "\<lparr>serverUrl = \<lparr>Scheme = ''http'', urlText = ''u''\<rparr>, extraHeader = [], httpClient = None,
    clientOptions = \<lparr>Timeout = 0\<rparr>, clientTLS = None :: nat option\<rparr>"
  obtain bs where bs: "ParseBytes [] bs = Inr (MReq ping)" by (rule ping_bytes)
  let ?net = "\<lambda>hc :: nat net_client. \<lambda>cr. \<lambda>n :: nat. (Inr \<lparr>StatusCode = 200, respHeader = [], respBody = Some bs\<rparr>, n)"
  obtain hc cl where conn: "connect ?c = (hc, cl)" by force
  have "sendable (MReq ping)" "msg_ok (MReq ping)"
    by (simp_all add: params_value_def id_ok_def max_depth_def max_list_def params_ok_def)
  with request_sent [of ping "\<lambda>u. True" ?c hc cl] conn
  have "request (\<lambda>u. True) ?net ?c ping 0 = (receive [] (Inr \<lparr>StatusCode = 200, respHeader = [], respBody = Some bs\<rparr>), ping, cl, 0)"
    by fastforce
  then have "Call (\<lambda>u. True) ?net ?c ping 0 = (Inr (MReq ping), ping, cl, 0)"
    using bs by (simp add: Call_def receive_def receiveHeader_def)
  from unwrap_call_outcome [OF this, of "Inr :: gval \<Rightarrow> go_error + gval"]
  obtain p where "UnwrapCall (Inr :: gval \<Rightarrow> go_error + gval) (\<lambda>u. True) ?net ?c ping 0 = (Inl p, ping, cl, 0)"
    by (auto simp: params_ok_def)
  then show ?thesis by (intro exI [of _ bs] exI [of _ p] exI [of _ "(ping, cl, 0)"])
qed

end
