(* ===== verification/Auth.thy ===== *)
theory Auth
  imports Http1_Server
begin

text \<open>
  The authentication handler of \<^verbatim>\<open>net/auth_handler.go\<close>, which stands in front of another HTTP handler.
  The JWT library (\<^verbatim>\<open>jwt.ParseWithClaims\<close>) and the LRU cache (\<^verbatim>\<open>golang-lru\<close>) are arguments: a function
  from secret, token and time to claims, and a record of the cache's operations. What is relied on of the
  cache is \<open>lru_laws\<close>: it never holds an entry that was not added, and drops what is removed.
\<close>

section \<open>Configuration\<close>

record basic_auth_config =
  baUsername :: string
  baPassword :: string
  baSettings :: gmap

record bearer_auth_config =
  brToken :: string
  brUsername :: string
  brSettings :: gmap

record jwt_auth_config =
  Secret :: string

record auth_config =
  Basic :: "basic_auth_config list"
  Bearer :: "bearer_auth_config list"
  Jwt :: "jwt_auth_config option"

record jwt_claims =
  jcUsername :: string
  jcSettings :: gmap
  ExpiresAt :: int

definition ValidateValues :: "auth_config option \<Rightarrow> string option" where
  "ValidateValues handler =
     (case handler of
        None \<Rightarrow> None
      | Some cfg \<Rightarrow>
          if list_ex (\<lambda>b. brToken b = []) (Bearer cfg) then Some ''bearer token is empty''
          else if list_ex (\<lambda>b. baUsername b = [] \<or> baPassword b = []) (Basic cfg)
            then Some ''basic username or password are empty''
          else if (case Jwt cfg of Some j \<Rightarrow> Secret j = [] | None \<Rightarrow> False) then Some ''jwt has no secret''
          else None)"

section \<open>Credentials in the request\<close>

text \<open>\<^verbatim>\<open>base64.StdEncoding\<close>, the decoder skipping line breaks.\<close>

definition b64_chars :: string where
  "b64_chars = ''ABCDEFGHIJKLMNOPQRSTUVWXYZabcdefghijklmnopqrstuvwxyz0123456789+/''"

definition b64_char :: "nat \<Rightarrow> char" where
  "b64_char n = b64_chars ! (n mod 64)"

definition b64_val :: "char \<Rightarrow> nat option" where
  "b64_val c = map_of (zip b64_chars [0..<64]) c"

fun b64_groups :: "string \<Rightarrow> string option" where
  "b64_groups [] = Some []"
| "b64_groups (a # b # c # d # r) =
     (case (b64_val a, b64_val b) of
        (Some x, Some y) \<Rightarrow>
          if c = CHR ''='' then
            (if d = CHR ''='' \<and> r = [] then Some [char_of (x * 4 + y div 16)] else None)
          else (case b64_val c of
                  None \<Rightarrow> None
                | Some z \<Rightarrow>
                    let bytes = [char_of (x * 4 + y div 16), char_of (y mod 16 * 16 + z div 4)] in
                    if d = CHR ''='' then (if r = [] then Some bytes else None)
                    else (case (b64_val d, b64_groups r) of
                            (Some w, Some bs) \<Rightarrow> Some (bytes @ char_of (z mod 4 * 64 + w) # bs)
                          | _ \<Rightarrow> None))
      | _ \<Rightarrow> None)"
| "b64_groups _ = None"

definition DecodeString :: "string \<Rightarrow> string option" where
  "DecodeString s = b64_groups (filter (\<lambda>c. c \<noteq> CHR 0x0D \<and> c \<noteq> CHR 0x0A) s)"

fun EncodeToString :: "string \<Rightarrow> string" where
  "EncodeToString [] = []"
| "EncodeToString [a] =
     (let x = char_code a in [b64_char (x div 4), b64_char (x mod 4 * 16), CHR ''='', CHR ''=''])"
| "EncodeToString [a, b] =
     (let x = char_code a; y = char_code b in
      [b64_char (x div 4), b64_char (x mod 4 * 16 + y div 16), b64_char (y mod 16 * 4), CHR ''=''])"
| "EncodeToString (a # b # c # r) =
     (let x = char_code a; y = char_code b; z = char_code c in
      b64_char (x div 4) # b64_char (x mod 4 * 16 + y div 16) # b64_char (y mod 16 * 4 + z div 64) # b64_char (z mod 64) #
      EncodeToString r)"

text \<open>\<^verbatim>\<open>strings.Cut(s, ":")\<close>.\<close>

definition cut_colon :: "string \<Rightarrow> (string \<times> string) option" where
  "cut_colon s =
     (if CHR '':'' \<in> set s
      then Some (takeWhile (\<lambda>c. c \<noteq> CHR '':'') s, tl (dropWhile (\<lambda>c. c \<noteq> CHR '':'') s)) else None)"

definition BasicAuth :: "http_request \<Rightarrow> (string \<times> string) option" where
  "BasicAuth r =
     (let auth = headerGet (reqHeader r) ''Authorization'' in
      if auth = [] \<or> length auth < 6 \<or> map ascii_lower (take 6 auth) \<noteq> ''basic '' then None
      else case DecodeString (drop 6 auth) of None \<Rightarrow> None | Some c \<Rightarrow> cut_colon c)"

section \<open>The cache\<close>

record 'c lru_api =
  lruGet :: "'c \<Rightarrow> string \<Rightarrow> jwt_claims option \<times> 'c"
  lruAdd :: "'c \<Rightarrow> string \<Rightarrow> jwt_claims \<Rightarrow> 'c"
  lruRemove :: "'c \<Rightarrow> string \<Rightarrow> 'c"

definition lru_laws :: "'c lru_api \<Rightarrow> ('c \<Rightarrow> string \<Rightarrow> jwt_claims option) \<Rightarrow> bool" where
  "lru_laws api entry \<longleftrightarrow>
     (\<forall>c k. fst (lruGet api c k) = entry c k \<and> entry (snd (lruGet api c k)) \<subseteq>\<^sub>m entry c) \<and>
     (\<forall>c k v. entry (lruAdd api c k v) \<subseteq>\<^sub>m (entry c)(k \<mapsto> v)) \<and>
     (\<forall>c k. entry (lruRemove api c k) \<subseteq>\<^sub>m (entry c)(k := None))"

section \<open>Authentication\<close>

type_synonym jwt_parse = "string \<Rightarrow> string \<Rightarrow> int \<Rightarrow> jwt_claims option"

text \<open>\<^verbatim>\<open>strings.SplitN(authHeader, " ", 2)\<close>, which has one or two parts.\<close>

definition split_space :: "string \<Rightarrow> string \<times> string option" where
  "split_space s =
     (takeWhile (\<lambda>c. c \<noteq> CHR '' '') s,
      (case dropWhile (\<lambda>c. c \<noteq> CHR '' '') s of [] \<Rightarrow> None | _ # r \<Rightarrow> Some r))"

text \<open>The claims of the header's token and whether they came from the cache; \<open>None\<close> when there are none.\<close>

definition jwtClaims ::
  "'c lru_api \<Rightarrow> jwt_parse \<Rightarrow> int \<Rightarrow> string \<Rightarrow> string \<Rightarrow> string option \<Rightarrow> 'c \<Rightarrow>
     go_panic + (jwt_claims \<times> bool) option \<times> 'c" where
  "jwtClaims api parse now secret authHeader arr1 cache =
     (case lruGet api cache authHeader of
        (Some claims, cache') \<Rightarrow> Inr (Some (claims, True), cache')
      | (None, cache') \<Rightarrow>
          (case arr1 of
             None \<Rightarrow> Inl IndexOutOfRange
           | Some jwtFromHeader \<Rightarrow>
               Inr (map_option (\<lambda>claims. (claims, False)) (parse secret jwtFromHeader now), cache')))"

definition jwtAuth ::
  "'c lru_api \<Rightarrow> jwt_parse \<Rightarrow> int \<Rightarrow> jwt_auth_config \<Rightarrow> http_request \<Rightarrow> 'c \<Rightarrow>
     go_panic + auth_info option \<times> 'c" where
  "jwtAuth api parse now jwtCfg r cache =
     (let authHeader = headerGet (reqHeader r) ''Authorization'' in
      if authHeader = [] then Inr (None, cache)
      else let (arr0, arr1) = split_space authHeader in
        if arr0 \<noteq> ''Bearer'' then Inr (None, cache)
        else case jwtClaims api parse now (Secret jwtCfg) authHeader arr1 cache of
          Inl p \<Rightarrow> Inl p
        | Inr (None, cache') \<Rightarrow> Inr (None, cache')
        | Inr (Some (claims, fromCache), cache') \<Rightarrow>
            if ExpiresAt claims < now then
              Inr (None, if fromCache then lruRemove api cache' authHeader else cache')
            else
              Inr (Some \<lparr>Username = jcUsername claims, Settings = jcSettings claims\<rparr>,
                   if fromCache then cache' else lruAdd api cache' authHeader claims))"

definition basicAuth :: "basic_auth_config list \<Rightarrow> http_request \<Rightarrow> auth_info option" where
  "basicAuth cfgs r =
     (case BasicAuth r of
        None \<Rightarrow> None
      | Some (username, password) \<Rightarrow>
          map_option (\<lambda>basicCfg. \<lparr>Username = username, Settings = baSettings basicCfg\<rparr>)
            (find (\<lambda>basicCfg. baUsername basicCfg = username \<and> baPassword basicCfg = password) cfgs))"

definition bearerAuth :: "bearer_auth_config list \<Rightarrow> http_request \<Rightarrow> auth_info option" where
  "bearerAuth cfgs r =
     (let authHeader = headerGet (reqHeader r) ''Authorization'' in
      map_option (\<lambda>bearerCfg. \<lparr>Username = (if brUsername bearerCfg = [] then brToken bearerCfg else brUsername bearerCfg),
                               Settings = brSettings bearerCfg\<rparr>)
        (find (\<lambda>bearerCfg. authHeader = ''Bearer '' @ brToken bearerCfg) cfgs))"

text \<open>
  The part of \<^verbatim>\<open>TryAuth\<close> after the JWT, and \<^verbatim>\<open>TryAuth\<close>: the \<^verbatim>\<open>AuthInfo\<close> pointer and the flag.
\<close>

definition staticAuth :: "auth_config \<Rightarrow> http_request \<Rightarrow> auth_info option \<times> bool" where
  "staticAuth cfg r =
     (case basicAuth (Basic cfg) r of
        Some info \<Rightarrow> (Some info, True)
      | None \<Rightarrow>
          (case bearerAuth (Bearer cfg) r of
             Some info \<Rightarrow> (Some info, True)
           | None \<Rightarrow> (None, False)))"

definition TryAuth ::
  "'c lru_api \<Rightarrow> jwt_parse \<Rightarrow> int \<Rightarrow> auth_config option \<Rightarrow> http_request \<Rightarrow> 'c \<Rightarrow>
     go_panic + (auth_info option \<times> bool) \<times> 'c" where
  "TryAuth api parse now authConfig r cache =
     (case authConfig of
        None \<Rightarrow> Inr ((None, True), cache)
      | Some cfg \<Rightarrow>
          (case Jwt cfg of
             Some jwtCfg \<Rightarrow>
               if Secret jwtCfg \<noteq> [] then
                 (case jwtAuth api parse now jwtCfg r cache of
                    Inl p \<Rightarrow> Inl p
                  | Inr (Some info, cache') \<Rightarrow> Inr ((Some info, True), cache')
                  | Inr (None, cache') \<Rightarrow> Inr (staticAuth cfg r, cache'))
               else Inr (staticAuth cfg r, cache)
           | None \<Rightarrow> Inr (staticAuth cfg r, cache)))"

text \<open>
  \<^verbatim>\<open>ServeHTTP\<close> in front of the handler \<open>next\<close>, at time \<open>now\<close>. The world is the cache and the world of \<open>next\<close>.
\<close>

definition authServeHTTP ::
  "'c lru_api \<Rightarrow> jwt_parse \<Rightarrow> int \<Rightarrow> auth_config option \<Rightarrow> 'w http_handler_fn \<Rightarrow> ('c \<times> 'w) http_handler_fn" where
  "authServeHTTP api parse now authConfig nxt r w = (\<lambda>(cache, world).
     case TryAuth api parse now authConfig r cache of
       Inl p \<Rightarrow> (Inl (panic_of p), cache, world)
     | Inr ((authInfo, True), cache') \<Rightarrow>
         let (res, world') = nxt (case authInfo of Some info \<Rightarrow> r\<lparr>ctxAuth := Some info\<rparr> | None \<Rightarrow> r) w world
         in (res, cache', world')
     | Inr ((_, False), cache') \<Rightarrow>
         (map_sum panic_of id (respond 401 (''auth failed!'' @ [CHR 0x0A]) w), cache', world))"

definition AuthInfoFromContext :: "http_request \<Rightarrow> auth_info option" where
  "AuthInfoFromContext r = ctxAuth r"

section \<open>Basic credentials\<close>

lemma b64_table: "list_all (\<lambda>n. b64_val (b64_char n) = Some n \<and> b64_char n \<notin> set (''='' @ [CHR 0x0D, CHR 0x0A])) [0..<64]"
  by code_simp

lemma b64_val_char [simp]: "n < 64 \<Longrightarrow> b64_val (b64_char n) = Some n"
  using b64_table by (simp add: list_all_iff)

lemma b64_char_mod: "b64_char n = b64_char (n mod 64)"
  by (simp add: b64_char_def)

lemma b64_char_plain [simp]: "b64_char n \<noteq> CHR ''=''" "b64_char n \<noteq> CHR 0x0D" "b64_char n \<noteq> CHR 0x0A"
  using b64_table by (subst b64_char_mod, simp add: list_all_iff)+

lemma char_code_bound: "char_code c < 256"
  by simp

lemma div_bounds:
  "(x :: nat) < 256 \<Longrightarrow> x div 4 < 64" "(x :: nat) mod 4 * 16 < 64" "(x :: nat) mod 16 * 4 < 64"
  "(y :: nat) < 256 \<Longrightarrow> x mod 4 * 16 + y div 16 < 64" "(y :: nat) < 256 \<Longrightarrow> x mod 16 * 4 + y div 64 < 64"
  by linarith+

lemma b64_bytes:
  "(y :: nat) < 256 \<Longrightarrow> y div 16 div 16 = 0" "(y :: nat) < 256 \<Longrightarrow> y div 16 mod 16 = y div 16"
  "(z :: nat) < 256 \<Longrightarrow> z div 64 div 4 = 0" "(z :: nat) < 256 \<Longrightarrow> z div 64 mod 4 = z div 64"
  by (rule div_less mod_less; linarith)+

lemma b64_groups_encode: "b64_groups (EncodeToString s) = Some s"
  by (induction s rule: EncodeToString.induct) (simp_all add: Let_def div_bounds b64_bytes)

lemma encode_plain: "filter (\<lambda>c. c \<noteq> CHR 0x0D \<and> c \<noteq> CHR 0x0A) (EncodeToString s) = EncodeToString s"
  by (induction s rule: EncodeToString.induct) (simp_all add: Let_def)

lemma DecodeString_encode: "DecodeString (EncodeToString s) = Some s"
  by (simp only: DecodeString_def encode_plain b64_groups_encode)

lemma cut_colon_append: "CHR '':'' \<notin> set u \<Longrightarrow> cut_colon (u @ CHR '':'' # p) = Some (u, p)"
proof -
  assume "CHR '':'' \<notin> set u"
  then have "\<And>x. x \<in> set u \<Longrightarrow> x \<noteq> CHR '':''" by auto
  then show ?thesis
    by (simp add: cut_colon_def takeWhile_append2 [where P = "\<lambda>c. c \<noteq> CHR '':''"]
        dropWhile_append2 [where P = "\<lambda>c. c \<noteq> CHR '':''"])
qed

lemma cut_colon_user: "cut_colon s = Some (u, p) \<Longrightarrow> CHR '':'' \<notin> set u"
  by (auto simp: cut_colon_def split: if_splits dest: set_takeWhileD)

section \<open>The cache holds parsed claims\<close>

text \<open>Every entry was once accepted by the JWT library, for the token that is its key.\<close>

definition cache_sound :: "jwt_parse \<Rightarrow> string \<Rightarrow> (string \<Rightarrow> jwt_claims option) \<Rightarrow> bool" where
  "cache_sound parse secret m \<longleftrightarrow>
     (\<forall>k claims. m k = Some claims \<longrightarrow> (\<exists>token t. k = ''Bearer '' @ token \<and> parse secret token t = Some claims))"

lemma cache_sound_le: "cache_sound parse secret m \<Longrightarrow> m' \<subseteq>\<^sub>m m \<Longrightarrow> cache_sound parse secret m'"
proof -
  assume "m' \<subseteq>\<^sub>m m"
  then have "m' k = Some v \<Longrightarrow> m k = Some v" for k v by (metis domI map_le_def)
  then show "cache_sound parse secret m \<Longrightarrow> cache_sound parse secret m'" by (simp add: cache_sound_def)
qed

lemma cache_sound_add:
  "cache_sound parse secret m \<Longrightarrow> parse secret token t = Some claims \<Longrightarrow>
     cache_sound parse secret (m(''Bearer '' @ token \<mapsto> claims))"
  by (auto simp: cache_sound_def)

lemma cache_sound_del: "cache_sound parse secret m \<Longrightarrow> cache_sound parse secret (m(k := None))"
  by (auto simp: cache_sound_def)

lemma split_space_Bearer:
  assumes "split_space s = (''Bearer'', Some token)"
  shows "s = ''Bearer '' @ token"
proof -
  obtain c where c: "dropWhile (\<lambda>c. c \<noteq> CHR '' '') s = c # token"
    using assms by (auto simp: split_space_def split: list.splits)
  then have "c = CHR '' ''" using hd_dropWhile [of "\<lambda>c. c \<noteq> CHR '' ''" s] by simp
  with c have "s = takeWhile (\<lambda>c. c \<noteq> CHR '' '') s @ CHR '' '' # token"
    by (metis takeWhile_dropWhile_id)
  then show ?thesis using assms by (simp add: split_space_def)
qed

text \<open>What a JWT that passes is good for, and that the cache stays sound.\<close>

lemma jwtAuth_sound:
  assumes "lru_laws api entry" "cache_sound parse (Secret j) (entry cache)"
    and "jwtAuth api parse now j r cache = Inr (res, cache')"
  shows "cache_sound parse (Secret j) (entry cache')"
    and "res = Some info \<Longrightarrow> \<exists>token t claims. headerGet (reqHeader r) ''Authorization'' = ''Bearer '' @ token \<and>
      parse (Secret j) token t = Some claims \<and> now \<le> ExpiresAt claims \<and>
      info = \<lparr>Username = jcUsername claims, Settings = jcSettings claims\<rparr>"
proof -
  let ?h = "headerGet (reqHeader r) ''Authorization''"
  obtain hit cache1 where get: "lruGet api cache ?h = (hit, cache1)" by force
  have laws: "hit = entry cache ?h" "entry cache1 \<subseteq>\<^sub>m entry cache"
    "\<And>k v. entry (lruAdd api cache1 k v) \<subseteq>\<^sub>m (entry cache1)(k \<mapsto> v)"
    "\<And>k. entry (lruRemove api cache1 k) \<subseteq>\<^sub>m (entry cache1)(k := None)"
    using assms(1) get unfolding lru_laws_def by (metis fst_conv snd_conv)+
  have sound1: "cache_sound parse (Secret j) (entry cache1)"
    using cache_sound_le assms(2) laws(2) by blast
  show "cache_sound parse (Secret j) (entry cache')"
    using assms(2,3) get sound1 laws(3,4)
    by (auto simp: jwtAuth_def jwtClaims_def Let_def split: if_splits prod.splits option.splits
        dest!: split_space_Bearer
        intro: cache_sound_le cache_sound_le [OF cache_sound_add] cache_sound_le [OF cache_sound_del])
  assume "res = Some info"
  then show "\<exists>token t claims. ?h = ''Bearer '' @ token \<and> parse (Secret j) token t = Some claims \<and> now \<le> ExpiresAt claims \<and>
      info = \<lparr>Username = jcUsername claims, Settings = jcSettings claims\<rparr>"
    using assms(2,3) get laws(1)
    by (fastforce simp: jwtAuth_def jwtClaims_def Let_def cache_sound_def split: if_splits prod.splits option.splits
        dest!: split_space_Bearer)
qed

section \<open>What is accepted\<close>

text \<open>The specification: the request carries a credential of the configuration, which gives the info.\<close>

definition jwt_credential :: "jwt_parse \<Rightarrow> int \<Rightarrow> auth_config \<Rightarrow> http_request \<Rightarrow> auth_info \<Rightarrow> bool" where
  "jwt_credential parse now cfg r info \<longleftrightarrow>
     (\<exists>j token t claims. Jwt cfg = Some j \<and> Secret j \<noteq> [] \<and>
        headerGet (reqHeader r) ''Authorization'' = ''Bearer '' @ token \<and> parse (Secret j) token t = Some claims \<and>
        now \<le> ExpiresAt claims \<and> info = \<lparr>Username = jcUsername claims, Settings = jcSettings claims\<rparr>)"

definition basic_credential :: "auth_config \<Rightarrow> http_request \<Rightarrow> auth_info \<Rightarrow> bool" where
  "basic_credential cfg r info \<longleftrightarrow>
     (\<exists>b \<in> set (Basic cfg). BasicAuth r = Some (baUsername b, baPassword b) \<and>
        info = \<lparr>Username = baUsername b, Settings = baSettings b\<rparr>)"

definition bearer_credential :: "auth_config \<Rightarrow> http_request \<Rightarrow> auth_info \<Rightarrow> bool" where
  "bearer_credential cfg r info \<longleftrightarrow>
     (\<exists>b \<in> set (Bearer cfg). headerGet (reqHeader r) ''Authorization'' = ''Bearer '' @ brToken b \<and>
        info = \<lparr>Username = (if brUsername b = [] then brToken b else brUsername b), Settings = brSettings b\<rparr>)"

definition cfg_cache_sound :: "jwt_parse \<Rightarrow> auth_config \<Rightarrow> (string \<Rightarrow> jwt_claims option) \<Rightarrow> bool" where
  "cfg_cache_sound parse cfg m \<longleftrightarrow> (\<forall>j. Jwt cfg = Some j \<longrightarrow> cache_sound parse (Secret j) m)"

lemma basicAuth_sound: "basicAuth (Basic cfg) r = Some info \<Longrightarrow> basic_credential cfg r info"
  by (auto simp: basicAuth_def basic_credential_def dest!: find_Some_mem split: option.splits)

lemma bearerAuth_sound: "bearerAuth (Bearer cfg) r = Some info \<Longrightarrow> bearer_credential cfg r info"
  by (auto simp: bearerAuth_def bearer_credential_def Let_def dest!: find_Some_mem)

lemma staticAuth_sound:
  "staticAuth cfg r = (i, True) \<Longrightarrow> \<exists>info. i = Some info \<and> (basic_credential cfg r info \<or> bearer_credential cfg r info)"
  using basicAuth_sound [of cfg r] bearerAuth_sound [of cfg r]
  by (cases "basicAuth (Basic cfg) r"; cases "bearerAuth (Bearer cfg) r") (auto simp: staticAuth_def)

lemma TryAuth_sound:
  assumes "lru_laws api entry" "cfg_cache_sound parse cfg (entry cache)"
    and "TryAuth api parse now (Some cfg) r cache = Inr ((i, ok), cache')"
  shows "cfg_cache_sound parse cfg (entry cache') \<and> (ok \<longrightarrow> (\<exists>info. i = Some info \<and>
    (jwt_credential parse now cfg r info \<or> basic_credential cfg r info \<or> bearer_credential cfg r info)))"
proof (cases "\<exists>j. Jwt cfg = Some j \<and> Secret j \<noteq> []")
  case False
  then have "staticAuth cfg r = (i, ok)" "cache' = cache"
    using assms(3) by (auto simp: TryAuth_def split: option.splits if_splits)
  with staticAuth_sound [of cfg r i] assms(2) show ?thesis by auto
next
  case True
  then obtain j where j: "Jwt cfg = Some j" "Secret j \<noteq> []" by blast
  have sound: "cache_sound parse (Secret j) (entry cache)" using assms(2) j by (simp add: cfg_cache_sound_def)
  obtain res c1 where jw: "jwtAuth api parse now j r cache = Inr (res, c1)"
    using assms(3) j by (cases "jwtAuth api parse now j r cache") (auto simp: TryAuth_def)
  have c1: "cfg_cache_sound parse cfg (entry c1)"
    using jwtAuth_sound(1) [OF assms(1) sound jw] j by (simp add: cfg_cache_sound_def)
  show ?thesis
  proof (cases res)
    case None
    then have "staticAuth cfg r = (i, ok)" "cache' = c1"
      using assms(3) j jw by (auto simp: TryAuth_def)
    with staticAuth_sound [of cfg r i] c1 show ?thesis by auto
  next
    case (Some info)
    then have "i = Some info" "cache' = c1" using assms(3) j jw by (simp_all add: TryAuth_def)
    with jwtAuth_sound(2) [OF assms(1) sound jw Some] c1 j show ?thesis
      by (auto simp: jwt_credential_def)
  qed
qed

text \<open>The handler keeps the contract of HTTP handlers, in front of any that does.\<close>

lemma auth_handler:
  assumes "http_handler nxt"
  shows "http_handler (authServeHTTP api parse now cfg nxt)"
proof
  fix r w cw w' cw'
  assume "authServeHTTP api parse now cfg nxt r w cw = (Inr w', cw')"
  then show "kept w w'"
    by (cases cw) (auto simp: authServeHTTP_def dest: respond_kept http_handler.serve_kept [OF assms]
        split: sum.splits prod.splits bool.splits)
qed

interpretation guarded: http_handler "authServeHTTP api parse now cfg (ServeHTTP ms a)" for api parse now cfg ms a
  by (rule auth_handler) (rule h1.http_handler_axioms)

text \<open>A cache that satisfies the laws, for the examples: a list with the latest entry first.\<close>

definition list_cache :: "(string \<times> jwt_claims) list lru_api" where
  "list_cache = \<lparr>lruGet = (\<lambda>c k. (map_of c k, c)), lruAdd = (\<lambda>c k v. take 100 ((k, v) # AList.delete k c)),
     lruRemove = (\<lambda>c k. AList.delete k c)\<rparr>"

lemma map_of_take_le: "map_of (take n xs) \<subseteq>\<^sub>m map_of xs"
proof -
  have "map_of xs = map_of (drop n xs) ++ map_of (take n xs)"
    by (metis append_take_drop_id map_of_append)
  then show ?thesis by simp
qed

lemma list_cache_laws: "lru_laws list_cache map_of"
proof -
  have "map_of (take 100 ((k, v) # AList.delete k c)) \<subseteq>\<^sub>m (map_of c)(k \<mapsto> v)" for k :: string and v :: jwt_claims and c
    using map_of_take_le [of 100 "(k, v) # AList.delete k c"]
    by (simp add: delete_conv')
  then show ?thesis by (simp add: lru_laws_def list_cache_def delete_conv')
qed

section \<open>Properties\<close>

text \<open>
  \<^bold>\<open>C20.\<close> The handler behind the authentication runs only for a request that carries a credential of the
  configuration, and sees the info of that credential: a basic credential, a bearer token, or a token that the
  JWT library accepted for the configured secret, now or when it was cached, and that has not expired now.
  Otherwise the world behind is unchanged and the answer is 401, but for one header: with a JWT secret configured, an
  \<^verbatim>\<open>Authorization\<close> that is the single word \<^verbatim>\<open>Bearer\<close> makes the handler panic with an index out of range. The cache keeps
  holding only claims the library accepted.
\<close>

theorem auth_guards_handler:
  assumes "lru_laws api entry" "cfg_cache_sound parse cfg (entry cache)"
    and "authServeHTTP api parse now (Some cfg) nxt r new_writer (cache, world) = (res, cache', world')"
  shows "cfg_cache_sound parse cfg (entry cache') \<and>
    ((\<exists>info. (jwt_credential parse now cfg r info \<or> basic_credential cfg r info \<or> bearer_credential cfg r info) \<and>
        nxt (r\<lparr>ctxAuth := Some info\<rparr>) new_writer world = (res, world')) \<or>
     (world' = world \<and> (case res of
          Inl p \<Rightarrow> p = panic_of IndexOutOfRange \<and> headerGet (reqHeader r) ''Authorization'' = ''Bearer'' \<and>
            (\<exists>j. Jwt cfg = Some j \<and> Secret j \<noteq> [])
        | Inr rw \<Rightarrow> StatusCode (sent rw) = 401)))"
proof (cases "TryAuth api parse now (Some cfg) r cache")
  case (Inl p)
  then have "p = IndexOutOfRange \<and> (\<exists>j. Jwt cfg = Some j \<and> Secret j \<noteq> []) \<and>
      split_space (headerGet (reqHeader r) ''Authorization'') = (''Bearer'', None)"
    by (auto simp: TryAuth_def jwtAuth_def jwtClaims_def Let_def split: option.splits if_splits prod.splits)
  moreover have "split_space h = (b, None) \<Longrightarrow> h = b" for h b
    unfolding split_space_def by (metis (no_types, lifting) append_Nil2 list.case_eq_if option.simps(3) prod.inject takeWhile_dropWhile_id)
  ultimately show ?thesis using Inl assms by (auto simp: authServeHTTP_def)
next
  case (Inr x)
  obtain i ok c' where x: "x = ((i, ok), c')" by (metis prod.collapse)
  note sound = TryAuth_sound [OF assms(1,2) Inr [unfolded x]]
  show ?thesis
  proof (cases ok)
    case True
    with sound Inr x assms(3) show ?thesis by (auto simp: authServeHTTP_def split: prod.splits)
  next
    case False
    obtain rw where "respond 401 (''auth failed!'' @ [CHR 0x0A]) new_writer = Inr rw" "StatusCode (sent rw) = 401"
      using respond_sent [of new_writer 401 "''auth failed!'' @ [CHR 0x0A]"]
      by (auto simp: new_writer_def bodyAllowed_def)
    with False sound Inr x assms(3) show ?thesis by (auto simp: authServeHTTP_def)
  qed
qed

theorem auth_guards_handler_witness:
  "authServeHTTP list_cache (\<lambda>sec tok t. if tok = ''t'' then Some \<lparr>jcUsername = ''u'', jcSettings = [], ExpiresAt = 10\<rparr> else None) 7
      (Some \<lparr>Basic = [], Bearer = [], Jwt = Some \<lparr>Secret = ''s''\<rparr>\<rparr>) (\<lambda>r w n. (Inr w, Suc n))
      ((post [])\<lparr>reqHeader := [(''Authorization'', [''Bearer t''])]\<rparr>) new_writer ([], 0) =
    (Inr new_writer, [(''Bearer t'', \<lparr>jcUsername = ''u'', jcSettings = [], ExpiresAt = 10\<rparr>)], Suc 0) \<and>
   (\<exists>info. jwt_credential (\<lambda>sec tok t. if tok = ''t'' then Some \<lparr>jcUsername = ''u'', jcSettings = [], ExpiresAt = 10\<rparr> else None) 7
      \<lparr>Basic = [], Bearer = [], Jwt = Some \<lparr>Secret = ''s''\<rparr>\<rparr>
      ((post [])\<lparr>reqHeader := [(''Authorization'', [''Bearer t''])]\<rparr>) info)"
proof -
  let ?claims = "\<lparr>jcUsername = ''u'', jcSettings = [], ExpiresAt = 10\<rparr>"
  let ?parse = "\<lambda>sec tok t :: int. if tok = ''t'' then Some ?claims else None"
  let ?cfg = "\<lparr>Basic = [], Bearer = [], Jwt = Some \<lparr>Secret = ''s''\<rparr>\<rparr>"
  let ?r = "(post [])\<lparr>reqHeader := [(''Authorization'', [''Bearer t''])]\<rparr>"
  have key: "CanonicalHeaderKey ''Authorization'' = ''Authorization''" "split_space ''Bearer t'' = (''Bearer'', Some ''t'')"
    by code_simp+
  have run: "authServeHTTP list_cache ?parse 7 (Some ?cfg) (\<lambda>r w n. (Inr w, Suc n)) ?r new_writer ([], 0) =
    (Inr new_writer, [(''Bearer t'', ?claims)], Suc 0)"
    by (simp add: authServeHTTP_def TryAuth_def jwtAuth_def jwtClaims_def list_cache_def headerGet_def headerValues_def key)
  moreover have "\<not> basic_credential ?cfg ?r i" "\<not> bearer_credential ?cfg ?r i" for i
    by (simp_all add: basic_credential_def bearer_credential_def)
  ultimately show ?thesis
    using auth_guards_handler [OF list_cache_laws _ run] by (fastforce simp: cfg_cache_sound_def cache_sound_def)
qed

text \<open>
  A client that sends the user name and password of the configuration by HTTP basic authentication is
  accepted with the settings of the first entry that has them, whatever else is configured, provided the user name has
  no colon; a user name with a colon can never be presented.
\<close>

theorem auth_basic_accepts:
  assumes "b \<in> set (Basic cfg)" "baUsername b = u" "baPassword b = p"
  shows "if CHR '':'' \<in> set u then BasicAuth r \<noteq> Some (u, p)
    else headerGet (reqHeader r) ''Authorization'' = ''Basic '' @ EncodeToString (u @ CHR '':'' # p) \<longrightarrow>
      (\<exists>b'. find (\<lambda>c. baUsername c = u \<and> baPassword c = p) (Basic cfg) = Some b' \<and>
        TryAuth api parse now (Some cfg) r cache = Inr ((Some \<lparr>Username = u, Settings = baSettings b'\<rparr>, True), cache))"
proof (cases "CHR '':'' \<in> set u")
  case True
  then have "BasicAuth r \<noteq> Some (u, p)"
    using cut_colon_user [of _ u p] by (auto simp: BasicAuth_def Let_def split: option.splits if_splits)
  with True show ?thesis by simp
next
  case False
  have "find (\<lambda>c. baUsername c = u \<and> baPassword c = p) (Basic cfg) \<noteq> None"
    using assms by (auto simp: find_None_iff)
  then obtain b' where b': "find (\<lambda>c. baUsername c = u \<and> baPassword c = p) (Basic cfg) = Some b'" by blast
  have lower: "map ascii_lower ''Basic '' = ''basic ''" by code_simp
  have "TryAuth api parse now (Some cfg) r cache = Inr ((Some \<lparr>Username = u, Settings = baSettings b'\<rparr>, True), cache)"
    if h: "headerGet (reqHeader r) ''Authorization'' = ''Basic '' @ EncodeToString (u @ CHR '':'' # p)"
  proof -
    have "jwtAuth api parse now j r cache = Inr (None, cache)" for j
      by (simp add: jwtAuth_def h split_space_def)
    moreover have "BasicAuth r = Some (u, p)"
      using lower False by (simp add: BasicAuth_def h DecodeString_encode cut_colon_append Let_def)
    ultimately show ?thesis
      using b' by (simp add: TryAuth_def staticAuth_def basicAuth_def split: option.split)
  qed
  with False b' show ?thesis by simp
qed

theorem auth_basic_accepts_witness:
  "TryAuth list_cache (\<lambda>sec tok t. None) 7
     (Some \<lparr>Basic = [\<lparr>baUsername = ''u'', baPassword = ''p'', baSettings = []\<rparr>], Bearer = [], Jwt = Some \<lparr>Secret = ''s''\<rparr>\<rparr>)
     ((post [])\<lparr>reqHeader := [(''Authorization'', [''Basic dTpw''])]\<rparr>) [] =
   Inr ((Some \<lparr>Username = ''u'', Settings = []\<rparr>, True), [])"
proof -
  let ?b = "\<lparr>baUsername = ''u'', baPassword = ''p'', baSettings = []\<rparr>"
  let ?r = "(post [])\<lparr>reqHeader := [(''Authorization'', [''Basic dTpw''])]\<rparr>"
  have h: "headerGet (reqHeader ?r) ''Authorization'' = ''Basic '' @ EncodeToString (''u'' @ CHR '':'' # ''p'')"
    by code_simp
  show ?thesis
    using auth_basic_accepts [of ?b "\<lparr>Basic = [?b], Bearer = [], Jwt = Some \<lparr>Secret = ''s''\<rparr>\<rparr>" "''u''" "''p''"
        ?r list_cache "\<lambda>sec tok t. None" 7 "[]"] h
    by (simp del: EncodeToString.simps)
qed

text \<open>
  With a configuration that passes \<^verbatim>\<open>ValidateValues\<close> no empty user name, password or bearer token is
  accepted.
\<close>

theorem auth_no_empty_credential:
  assumes "ValidateValues (Some cfg) = None" "staticAuth cfg r = (Some info, True)"
  shows "Username info \<noteq> [] \<and> headerGet (reqHeader r) ''Authorization'' \<noteq> ''Bearer '' \<and>
    (\<forall>u. BasicAuth r = Some (u, []) \<longrightarrow> bearer_credential cfg r info)"
proof -
  have ok: "\<forall>b \<in> set (Bearer cfg). brToken b \<noteq> []" "\<forall>b \<in> set (Basic cfg). baUsername b \<noteq> [] \<and> baPassword b \<noteq> []"
    using assms(1) by (auto simp: ValidateValues_def list_ex_iff split: if_splits)
  from staticAuth_sound [OF assms(2)] consider (basic) "basic_credential cfg r info" | (bearer) "bearer_credential cfg r info"
    by auto
  then show ?thesis
  proof cases
    case basic
    then have "BasicAuth r \<noteq> None" by (auto simp: basic_credential_def)
    then have "headerGet (reqHeader r) ''Authorization'' \<noteq> ''Bearer ''"
      by (auto simp: BasicAuth_def Let_def ascii_lower_def split: if_splits)
    with basic ok show ?thesis by (auto simp: basic_credential_def)
  qed (use ok in \<open>auto simp: bearer_credential_def split: if_splits\<close>)
qed

theorem auth_no_empty_credential_witness:
  "ValidateValues (Some \<lparr>Basic = [], Bearer = [\<lparr>brToken = ''k'', brUsername = [], brSettings = []\<rparr>], Jwt = None\<rparr>) = None \<and>
   Username \<lparr>Username = ''k'', Settings = []\<rparr> \<noteq> []"
proof -
  have key: "CanonicalHeaderKey ''Authorization'' = ''Authorization''" by code_simp
  show ?thesis
    using auth_no_empty_credential [of "\<lparr>Basic = [], Bearer = [\<lparr>brToken = ''k'', brUsername = [], brSettings = []\<rparr>], Jwt = None\<rparr>"
        "(post [])\<lparr>reqHeader := [(''Authorization'', [''Bearer k''])]\<rparr>" "\<lparr>Username = ''k'', Settings = []\<rparr>"]
    by (simp add: ValidateValues_def staticAuth_def basicAuth_def bearerAuth_def headerGet_def headerValues_def key
        split: option.split)
qed

text \<open>
  With a JWT secret configured, a request whose \<^verbatim>\<open>Authorization\<close> header is the single word \<^verbatim>\<open>Bearer\<close>
  makes the handler panic with an index out of range.
\<close>

theorem auth_bearer_word_panics:
  assumes "lru_laws api entry" "cfg_cache_sound parse cfg (entry cache)" "Jwt cfg = Some j" "Secret j \<noteq> []"
    and "headerGet (reqHeader r) ''Authorization'' = ''Bearer''"
  shows "TryAuth api parse now (Some cfg) r cache = Inl IndexOutOfRange"
proof -
  have "entry cache ''Bearer'' = None"
    using assms(2,3) by (cases "entry cache ''Bearer''") (auto simp: cfg_cache_sound_def cache_sound_def)
  then have "fst (lruGet api cache ''Bearer'') = None" using assms(1) by (simp add: lru_laws_def)
  then obtain c' where "lruGet api cache ''Bearer'' = (None, c')" by (metis prod.collapse)
  with assms show ?thesis by (simp add: TryAuth_def jwtAuth_def jwtClaims_def split_space_def)
qed

theorem auth_bearer_word_panics_witness:
  "TryAuth list_cache (\<lambda>sec tok t. None) 7 (Some \<lparr>Basic = [], Bearer = [], Jwt = Some \<lparr>Secret = ''s''\<rparr>\<rparr>)
     ((post [])\<lparr>reqHeader := [(''Authorization'', [''Bearer''])]\<rparr>) [] = Inl IndexOutOfRange"
proof -
  have key: "CanonicalHeaderKey ''Authorization'' = ''Authorization''" by code_simp
  show ?thesis
    by (rule auth_bearer_word_panics [OF list_cache_laws, where j = "\<lparr>Secret = ''s''\<rparr>"])
      (simp_all add: cfg_cache_sound_def cache_sound_def headerGet_def headerValues_def key)
qed

end
