(* ===== verification/Guarded_Calls.thy ===== *)
theory Guarded_Calls
  imports Http1_Client Auth
begin

text \<open>
  Calls of the HTTP/1.1 client to a server that stands behind the authentication handler: client, wire format, authentication,
  server and actor composed.
\<close>

lemma canonical_keys:
  "CanonicalHeaderKey ''Authorization'' = ''Authorization''" "CanonicalHeaderKey ''Accept'' = ''Accept''"
  "CanonicalHeaderKey ''Content-Type'' = ''Content-Type''" "CanonicalHeaderKey ''X-Trace-Id'' = ''X-Trace-Id''"
  by code_simp+

text \<open>The request carries the client's own \<^verbatim>\<open>Authorization\<close> header.\<close>

lemma request_authorization:
  assumes "header_ok extra"
  shows "headerGet (request_header trace extra) ''Authorization'' = headerGet extra ''Authorization''"
  using assms
  by (simp add: headerGet_def request_header_def addAll_values headerValues_set headerValues_add canonical_keys)

definition basicHeader :: "string \<Rightarrow> string \<Rightarrow> string" where
  "basicHeader user password = ''Basic '' @ EncodeToString (user @ CHR '':'' # password)"

lemma BasicAuth_header:
  assumes "headerGet (reqHeader r) ''Authorization'' = basicHeader user password" "CHR '':'' \<notin> set user"
  shows "BasicAuth r = Some (user, password)"
proof -
  have "map ascii_lower ''Basic '' = ''basic ''" by code_simp
  then show ?thesis
    by (simp add: BasicAuth_def assms basicHeader_def DecodeString_encode cut_colon_append)
qed

text \<open>A basic credential passes whatever else is configured, as long as it is no bearer token.\<close>

lemma jwtAuth_basic_header:
  assumes "headerGet (reqHeader r) ''Authorization'' = basicHeader user password"
  shows "jwtAuth api parse now j r cache = Inr (None, cache)"
  using assms by (simp add: jwtAuth_def split_space_def basicHeader_def)

lemma TryAuth_basic:
  assumes "headerGet (reqHeader r) ''Authorization'' = basicHeader user password" "CHR '':'' \<notin> set user"
    and "find (\<lambda>b. baUsername b = user \<and> baPassword b = password) (Basic cfg) = Some b"
  shows "TryAuth api parse now (Some cfg) r cache = Inr ((Some \<lparr>Username = user, Settings = baSettings b\<rparr>, True), cache)"
  using assms
  by (auto simp: TryAuth_def jwtAuth_basic_header staticAuth_def basicAuth_def BasicAuth_header split: option.split)

lemma TryAuth_no_header:
  assumes "headerGet (reqHeader r) ''Authorization'' = []"
  shows "TryAuth api parse now (Some cfg) r cache = Inr ((None, False), cache)"
proof -
  have "find (\<lambda>b. [] = ''Bearer '' @ brToken b) (Bearer cfg) = None" by (simp add: find_None_iff)
  then show ?thesis
    using assms by (auto simp: TryAuth_def jwtAuth_def staticAuth_def basicAuth_def BasicAuth_def bearerAuth_def split: option.split)
qed

text \<open>
  \<^bold>\<open>C21.\<close> A client whose extra header is the basic credential of a configured user gets the handler's value over a server behind
  the authentication; the handler runs once, on a request whose context has that user's name and settings.
\<close>

theorem authenticated_call:
  assumes "header_ok (extraHeader client)" "headerGet (extraHeader client) ''Authorization'' = basicHeader user password"
    and "CHR '':'' \<notin> set user" "find (\<lambda>b. baUsername b = user \<and> baPassword b = password) (Basic cfg) = Some b"
    and "msg_ok (MReq q)" "sendable (MReq q)" "url_ok (urlText (serverUrl client))"
    and "canon_msg (SetTraceId [] (MReq q)) = MReq q'" "reqMethod q' \<noteq> ''rpc.discover''"
    and "route a (reqMethod q') = Some (a', h)"
    and "validateRequest ms (ValidateSchema a') (hschema h) (MReq q') = None"
    and "\<And>r. AuthInfoFromContext r = Some \<lparr>Username = user, Settings = baSettings b\<rparr> \<Longrightarrow>
           callback h (WithHTTPRequest (NewRPCRequest (MReq q') TransportHTTP) r) (reqParams q') w = (Returns (PlainValue v) None, w')"
    and "marshal_ok v" "gdepth v < max_depth"
  shows "Call url_ok (httpNetwork (authServeHTTP api parse now (Some cfg) (ServeHTTP ms a))) client q (cache, w) =
    (Inr (MRes \<lparr>kind = MKResult, traceId = traceId q, resId = canon_id (reqId q), resResult = canon v, resHeader = None\<rparr>),
     q\<lparr>traceId := []\<rparr>, snd (connect client), cache, w')"
proof (rule served_call [where P = "\<lambda>r. AuthInfoFromContext r = Some \<lparr>Username = user, Settings = baSettings b\<rparr>"
      and F = "\<lambda>w. (cache, w)" and w = w and w' = w'])
  fix cr :: client_request
  assume cr: "crHeader cr = request_header (traceId q) (extraHeader client)"
  let ?r = "(arriving cr)\<lparr>ctxAuth := Some \<lparr>Username = user, Settings = baSettings b\<rparr>\<rparr>"
  have "headerGet (reqHeader (arriving cr)) ''Authorization'' = basicHeader user password"
    using cr request_authorization assms(1,2) by (simp add: arriving_def)
  note auth = TryAuth_basic [OF this assms(3,4)]
  show "\<exists>r. verb r = ''POST'' \<and> reqBody r = Some (crBody cr) \<and>
      AuthInfoFromContext r = Some \<lparr>Username = user, Settings = baSettings b\<rparr> \<and>
      authServeHTTP api parse now (Some cfg) (ServeHTTP ms a) (arriving cr) new_writer (cache, w) =
      (let (res, w'') = ServeHTTP ms a r new_writer w in (res, cache, w''))"
    by (intro exI [of _ ?r]) (simp add: authServeHTTP_def auth, simp add: AuthInfoFromContext_def arriving_def)
qed (use assms in auto)

text \<open>A client with an extra header, a user, and a handler that returns the name of the caller, for the examples.\<close>

abbreviation header_client :: "http_header \<Rightarrow> nat http1_client" where
  "header_client h \<equiv> \<lparr>serverUrl = \<lparr>Scheme = ''http'', urlText = ''http://h''\<rparr>, extraHeader = h, httpClient = None,
     clientOptions = \<lparr>Timeout = 0\<rparr>, clientTLS = None\<rparr>"

abbreviation one_user :: auth_config where
  "one_user \<equiv> \<lparr>Basic = [\<lparr>baUsername = ''u'', baPassword = ''p'', baSettings = []\<rparr>], Bearer = [], Jwt = Some \<lparr>Secret = ''s''\<rparr>\<rparr>"

abbreviation whoami :: "nat request_callback" where
  "whoami \<equiv> \<lambda>req ps w.
     (Returns (PlainValue (GStr (case Option.bind (httpReq req) AuthInfoFromContext of
        Some info \<Rightarrow> Username info | None \<Rightarrow> []))) None, Suc w)"

theorem authenticated_call_witness:
  "fst (Call (\<lambda>u. True)
      (httpNetwork (authServeHTTP list_cache (\<lambda>secret token now. None) 0 (Some one_user) (ServeHTTP (\<lambda>t. Inr []) (one_handler whoami))))
      (header_client [(''Authorization'', [''Basic dTpw''])]) (ping\<lparr>traceId := ''t''\<rparr>) ([], 0)) =
    Inr (MRes \<lparr>kind = MKResult, traceId = ''t'', resId = GInt 1, resResult = GStr ''u'', resHeader = None\<rparr>)"
proof -
  let ?h = "\<lparr>callback = whoami, hschema = None\<rparr>"
  have "canon_msg (SetTraceId [] (MReq (ping\<lparr>traceId := ''t''\<rparr>))) = MReq ping"
    "sendable (MReq (ping\<lparr>traceId := ''t''\<rparr>))"
    by (simp_all add: params_value_def to_valid_utf8_ascii_only id_ok_def max_depth_def max_list_def)
  moreover have "headerGet [(''Authorization'', [''Basic dTpw''])] ''Authorization'' = basicHeader ''u'' ''p''"
    "header_ok [(''Authorization'', [''Basic dTpw''])]"
    by code_simp+
  ultimately show ?thesis
    using authenticated_call [of "header_client [(''Authorization'', [''Basic dTpw''])]" "''u''" "''p''" one_user
        "\<lparr>baUsername = ''u'', baPassword = ''p'', baSettings = []\<rparr>" "ping\<lparr>traceId := ''t''\<rparr>" "\<lambda>u. True" ping "one_handler whoami"
        "one_handler whoami" ?h "\<lambda>t. Inr []" 0 "GStr ''u''" "Suc 0" list_cache "\<lambda>secret token now. None" 0 "[]"]
    by (simp add: validateRequest_def max_depth_def params_ok_def to_valid_utf8_ascii_only WithHTTPRequest_def NewRPCRequest_def)
qed

text \<open>
  A client without an \<^verbatim>\<open>Authorization\<close> header gets the error of an abnormal response with the status 401 and its text, whatever
  it calls, and neither the cache nor the world of the server changes.
\<close>

theorem unauthenticated_call:
  assumes "header_ok (extraHeader client)" "headerGet (extraHeader client) ''Authorization'' = []"
    and "msg_ok (MReq q)" "sendable (MReq q)" "url_ok (urlText (serverUrl client))"
  shows "Call url_ok (httpNetwork (authServeHTTP api parse now (Some cfg) nxt)) client q (cache, w) =
    (Inl (ErrWrap (rpc_text q) (ErrWrap ''abnormal response'' (ErrWrappedResponse
       \<lparr>Response = \<lparr>StatusCode = 401, respHeader = [], respBody = Some (''auth failed!'' @ [CHR 0x0A])\<rparr>,
        wrBody = ''auth failed!'' @ [CHR 0x0A]\<rparr>))),
     q\<lparr>traceId := []\<rparr>, snd (connect client), cache, w)"
proof -
  obtain hc cl where conn: "connect client = (hc, cl)" by force
  let ?net = "httpNetwork (authServeHTTP api parse now (Some cfg) nxt)"
  obtain cr where cr: "crHeader cr = request_header (traceId q) (extraHeader client)"
    "\<And>done n'. ?net hc cr (cache, w) = (done, n') \<Longrightarrow>
       request url_ok ?net client q (cache, w) = (receive (traceId q) done, q\<lparr>traceId := []\<rparr>, cl, n')"
    using request_sent [of q url_ok client hc cl] assms conn by metis
  have "headerGet (reqHeader (arriving cr)) ''Authorization'' = []"
    using cr request_authorization assms(1,2) by (simp add: arriving_def)
  note auth = TryAuth_no_header [OF this]
  have "?net hc cr (cache, w) = (Inr \<lparr>StatusCode = 401, respHeader = [], respBody = Some (''auth failed!'' @ [CHR 0x0A])\<rparr>, cache, w)"
    by (simp add: httpNetwork_def authServeHTTP_def auth respond_def WriteHeader_def writeBody_def new_writer_def sent_def bodyAllowed_def)
  from cr(2) [OF this] conn show ?thesis by (simp add: Call_def receive_def)
qed

theorem unauthenticated_call_witness:
  "\<exists>err cl. Call (\<lambda>u. True)
      (httpNetwork (authServeHTTP list_cache (\<lambda>secret token now. None) 0 (Some one_user) (ServeHTTP (\<lambda>t. Inr []) (one_handler whoami))))
      (header_client []) ping ([], 7) = (Inl err, ping, cl, [], 7)"
  using unauthenticated_call [of "header_client []" ping "\<lambda>u. True" list_cache "\<lambda>secret token now. None" 0 one_user
      "ServeHTTP (\<lambda>t. Inr []) (one_handler whoami)" "[]" 7]
  by (simp add: headerGet_def headerValues_def params_ok_def id_ok_def max_depth_def params_value_def max_list_def)

end
