(* ===== verification/Pretty.thy ===== *)
theory Pretty
  imports Wire
begin

text \<open>
  \<^verbatim>\<open>EncodePretty\<close> of \<^verbatim>\<open>messageimpl.go\<close>, and what the log entries of messages hold. \<open>indent_json\<close> is \<^verbatim>\<open>json.MarshalIndent\<close> with an
  empty prefix and two blanks.
\<close>

section \<open>Indented documents\<close>

definition newline_at :: "nat \<Rightarrow> string" where
  "newline_at depth = CHR 0x0A # replicate (2 * depth) CHR '' ''"

text \<open>The text of a document at a depth; an empty array or object has nothing between its brackets.\<close>

primrec indent_json :: "json \<Rightarrow> nat \<Rightarrow> string" where
  "indent_json JNull = (\<lambda>d. ''null'')"
| "indent_json (JBool b) = (\<lambda>d. if b then ''true'' else ''false'')"
| "indent_json (JNum n) = (\<lambda>d. n)"
| "indent_json (JStr s) = (\<lambda>d. quote s)"
| "indent_json (JArr xs) = (\<lambda>d.
     if xs = [] then ''[]''
     else CHR ''['' # newline_at (Suc d) @ join_ws (newline_at (Suc d)) (map (\<lambda>f. f (Suc d)) (map indent_json xs)) @
       newline_at d @ '']'')"
| "indent_json (JObj kvs) = (\<lambda>d.
     if kvs = [] then ''{}''
     else CHR ''{'' # newline_at (Suc d) @
       join_ws (newline_at (Suc d)) (map (\<lambda>(k, f). member_ws '' '' (k, f (Suc d))) (map (map_prod id indent_json) kvs)) @
       newline_at d @ ''}'')"

text \<open>The error is the marshaller's, as in \<^verbatim>\<open>MessageBytes\<close>; the text it is wrapped in is left out.\<close>

definition EncodePretty :: "message \<Rightarrow> marshal_error + string" where
  "EncodePretty m = map_sum id (\<lambda>j. indent_json j 0) (marshal_template (Interface m))"

section \<open>Log entries\<close>

text \<open>The fields of the log entry of a message, \<^verbatim>\<open>Log\<close>, a map.\<close>

primrec logFields :: "message \<Rightarrow> gmap" where
  "logFields (MReq m) = [(''traceid'', GStr (traceId m)), (''msgtype'', GStr ''request''), (''msgid'', reqId m), (''method'', GStr (reqMethod m))]"
| "logFields (MNtf m) = [(''traceid'', GStr (traceId m)), (''msgtype'', GStr ''notify''), (''method'', GStr (ntfMethod m))]"
| "logFields (MRes m) = [(''traceid'', GStr (traceId m)), (''msgtype'', GStr ''result''), (''msgid'', resId m)]"
| "logFields (MErr m) = [(''traceid'', GStr (traceId m)), (''msgtype'', GStr ''error''), (''msgid'', errId m)]"

section \<open>Reading an indented document\<close>

lemma newline_ws [simp]: "list_all is_ws (newline_at d)"
  by (simp add: newline_at_def is_ws_def list_all_iff)

lemma indent_reads: "json_ok v \<Longrightarrow> reads_as (indent_json v d) v"
proof (induction v arbitrary: d)
  case (JArr vs)
  show ?case
  proof (cases "vs = []")
    case True
    then show ?thesis using reads_json [of "JArr []"] by simp
  next
    case False
    let ?ts = "map (\<lambda>v. indent_json v (Suc d)) vs"
    have "list_all2 reads_as ?ts vs"
      using JArr by (simp add: list.rel_map list_all2_same list_all_iff)
    from run_array [OF this] False show ?thesis
      by (intro readsI) (simp add: comp_def)
  qed
next
  case (JObj kvs)
  show ?case
  proof (cases "kvs = []")
    case True
    then show ?thesis using reads_json [of "JObj []"] by simp
  next
    case False
    let ?ts = "map (\<lambda>(k, v). (k, indent_json v (Suc d))) kvs"
    have "reads_member (k, indent_json v (Suc d)) (k, v)" if "(k, v) \<in> set kvs" for k v
      using JObj.IH [OF that, of v "Suc d"] JObj.prems that by (auto simp: reads_member_def list_all_iff snds.simps pred_prod_beta)
    then have "list_all2 reads_member ?ts kvs"
      by (auto simp: list.rel_map list_all2_same)
    from run_object [OF this, of _ _ "newline_at (Suc d)" "newline_at d" "'' ''"] False show ?thesis
      by (intro readsI) (simp add: comp_def case_prod_beta map_prod_def is_ws_def)
  qed
qed (use reads_json in fastforce)+

text \<open>What is printed of a message is read back as the message itself would be.\<close>

lemma pretty_round_trip:
  assumes "msg_ok m" "sendable m" "id_allowed (opts_of os) m"
  shows "\<exists>s. EncodePretty m = Inr s \<and> ParseBytes os s = Inr (canon_msg m)"
proof -
  obtain kvs where kvs: "marshal_template (Interface m) = Inr (JObj kvs)" "json_ok (JObj kvs)" "jdepth (JObj kvs) \<le> max_depth"
    "message_of_json (opts_of os) (jclean (JObj kvs)) = Inr (canon_msg m)"
    using wire_value_message [OF assms] unfolding wire_value_def by blast
  have "decode (indent_json (JObj kvs) 0 @ []) = DOk (jclean (JObj kvs)) []"
    using readsD [OF indent_reads [OF kvs(2)], of WantValue "[]" "[]" 0] kvs(3) by (simp add: decode_def)
  with kvs(1,4) show ?thesis
    by (simp add: EncodePretty_def ParseBytes_def DecodeMessage_def decode_into_def del: indent_json.simps jclean.simps)
qed

lemma encode_pretty_fails: "EncodePretty m = Inl e \<longleftrightarrow> MessageBytes m = Inl e"
  by (cases "marshal_template (Interface m)") (simp_all add: EncodePretty_def MessageBytes_def)

section \<open>Properties\<close>

text \<open>
  \<^bold>\<open>C32.\<close> What \<^verbatim>\<open>EncodePretty\<close> prints of a message is read back as the message \<^verbatim>\<open>MessageBytes\<close> is read back as, its values in the
  decoder's form.
\<close>

theorem encode_pretty_parses:
  assumes "msg_ok m" "sendable m" "id_allowed (opts_of os) m"
  shows "\<exists>s. EncodePretty m = Inr s \<and> ParseBytes os s = Inr (canon_msg m)"
  by (rule pretty_round_trip [OF assms])

theorem encode_pretty_parses_witness:
  "\<exists>s. EncodePretty (MRes (rawResultMessage (GInt 1) (GList [GBool True]) None)) = Inr s \<and>
     ParseBytes [] s = Inr (MRes (rawResultMessage (GInt 1) (GList [GBool True]) None))"
  using encode_pretty_parses [of "MRes (rawResultMessage (GInt 1) (GList [GBool True]) None)" "[]"]
  by (simp add: raw_defs id_ok_def in_int64_def int64_min_def int64_max_def max_depth_def max_list_def id_allowed_def opts_of_def)

end
