(* ===== verification/Sessions.thy ===== *)
theory Sessions
  imports Http1_Server
begin

text \<open>
  The sessions of the streaming servers: \<^verbatim>\<open>net/tcp_server.go\<close>, \<^verbatim>\<open>net/vsock_server.go\<close>, \<^verbatim>\<open>net/http2_server.go\<close>
  with \<^verbatim>\<open>net/http2_session.go\<close>, and \<^verbatim>\<open>net/ws_server.go\<close>. A session is three goroutines (\<^verbatim>\<open>recvLoop\<close>, \<^verbatim>\<open>sendLoop\<close>
  and \<^verbatim>\<open>wait\<close>), one more per message being handled, and two bounded channels. The body of each loop is a
  function that gives the next event and state, or \<open>None\<close> where the goroutine blocks or has ended; the
  session's behaviours are the interleavings of the bodies, a step relation labelled with events. The four servers have
  the same code up to what a read gives and how a write is framed, which is the record \<open>session_code\<close>. The
  input is what the peer sends until it closes; when it arrives only delays a read. A call of a handler is one
  step. A panic outside \<^verbatim>\<open>Feed\<close>'s recovery ends the process: no step follows it.
\<close>

section \<open>State\<close>

datatype 'p read_result = ReadMsg 'p | ReadSkip | ReadEnd | ReadErr go_error

text \<open>A goroutine: a message to handle, or the send on \<^verbatim>\<open>sendChannel\<close> or \<^verbatim>\<open>done\<close> that is left to do.\<close>

datatype 'p goroutine = GoReceived 'p | GoSend message | GoDone go_error

text \<open>What is left to do once \<^verbatim>\<open>wait\<close> has returned: \<^verbatim>\<open>session.server = nil\<close> and the deferred calls.\<close>

datatype cleanup =
    ClearServer
  | TellClosed                         \<comment> \<open>\<^verbatim>\<open>Actor.HandleClose(session)\<close>\<close>
  | CloseConn
  | CloseBody                          \<comment> \<open>\<^verbatim>\<open>r.Body.Close()\<close>: a read fails, as it may at any time\<close>

record ('i, 'p, 'w) session_code =
  readInput :: "'i \<Rightarrow> 'p read_result \<times> 'i"
  received :: "bool \<Rightarrow> 'p \<Rightarrow> 'w \<Rightarrow> (panic_value + 'p goroutine list) \<times> 'w"  \<comment> \<open>the flag: \<^verbatim>\<open>session.server != nil\<close>\<close>
  frameBytes :: "string \<Rightarrow> string"
  spawns :: bool                       \<comment> \<open>\<^verbatim>\<open>SpawnGoroutine\<close>\<close>
  afterWait :: "cleanup list"          \<comment> \<open>in the order it is done\<close>
  onClose :: "'w \<Rightarrow> 'w"                 \<comment> \<open>\<^verbatim>\<open>HandleClose\<close> of the session\<close>

record ('i, 'p, 'w) session =
  input :: 'i
  goroutines :: "'p goroutine list"
  pushing :: "message list"            \<comment> \<open>calls of \<^verbatim>\<open>session.Send\<close> by code of the application that have not returned\<close>
  sendChannel :: "message list"
  doneChannel :: "go_error option list"
  receiving :: bool
  sending :: bool
  waiting :: bool
  cleanups :: "cleanup list"           \<comment> \<open>what is left to do after \<^verbatim>\<open>wait\<close>\<close>
  serverSet :: bool
  connOpen :: bool
  written :: string
  crashed :: "panic_value option"
  sworld :: 'w

definition sendCapacity :: nat where "sendCapacity = 100"
definition doneCapacity :: nat where "doneCapacity = 10"

definition newSession :: "'i \<Rightarrow> 'w \<Rightarrow> ('i, 'p, 'w) session" where
  "newSession i w =
     \<lparr>input = i, goroutines = [], pushing = [], sendChannel = [], doneChannel = [], receiving = True, sending = True, waiting = True,
      cleanups = [], serverSet = True, connOpen = True, written = [], crashed = None, sworld = w\<rparr>"

section \<open>The loops\<close>

datatype 'p event =
    EvReceived 'p
  | EvHandled 'p "'p goroutine list"
  | EvSent message
  | EvDropped message      \<comment> \<open>taken off the channel and not written\<close>
  | EvPushed message       \<comment> \<open>\<^verbatim>\<open>session.Send\<close> is called\<close>
  | EvClosed               \<comment> \<open>\<^verbatim>\<open>HandleClose\<close> has run\<close>
  | EvInternal
  | EvOthers               \<comment> \<open>something else of the process has changed the world\<close>
  | EvCrash

definition crash :: "panic_value \<Rightarrow> ('i, 'p, 'w) session \<Rightarrow> 'p event \<times> ('i, 'p, 'w) session" where
  "crash p s = (EvCrash, s\<lparr>crashed := Some p\<rparr>)"

definition recvBody ::
  "('i, 'p, 'w) session_code \<Rightarrow> ('i, 'p, 'w) session \<Rightarrow> ('p event \<times> ('i, 'p, 'w) session) option" where
  "recvBody code s =
     (if \<not> receiving s \<or> (\<not> spawns code \<and> goroutines s \<noteq> []) then None
      else case readInput code (input s) of
        (ReadMsg p, i) \<Rightarrow>
          Some (if serverSet s then (EvReceived p, s\<lparr>input := i, goroutines := goroutines s @ [GoReceived p]\<rparr>)
                else crash (panic_of NilDereference) s)
      | (ReadSkip, i) \<Rightarrow> Some (EvInternal, s\<lparr>input := i\<rparr>)
      | (ReadEnd, i) \<Rightarrow>
          if length (doneChannel s) < doneCapacity
          then Some (EvInternal, s\<lparr>input := i, receiving := False, doneChannel := doneChannel s @ [None]\<rparr>) else None
      | (ReadErr e, i) \<Rightarrow>
          if length (doneChannel s) < doneCapacity
          then Some (EvInternal, s\<lparr>input := i, receiving := False, doneChannel := doneChannel s @ [Some e]\<rparr>) else None)"

text \<open>The step of the goroutine at position \<open>k\<close>.\<close>

definition goBody ::
  "('i, 'p, 'w) session_code \<Rightarrow> nat \<Rightarrow> ('i, 'p, 'w) session \<Rightarrow> ('p event \<times> ('i, 'p, 'w) session) option" where
  "goBody code k s =
     (if length (goroutines s) \<le> k then None
      else let others = (\<lambda>gs. take k (goroutines s) @ gs @ drop (Suc k) (goroutines s)) in
        case goroutines s ! k of
          GoReceived p \<Rightarrow>
            (case received code (serverSet s) p (sworld s) of
               (Inl pan, w') \<Rightarrow> Some (crash pan (s\<lparr>sworld := w'\<rparr>))
             | (Inr gs, w') \<Rightarrow> Some (EvHandled p gs, s\<lparr>goroutines := others gs, sworld := w'\<rparr>))
        | GoSend m \<Rightarrow>
            if length (sendChannel s) < sendCapacity
            then Some (EvInternal, s\<lparr>goroutines := others [], sendChannel := sendChannel s @ [m]\<rparr>) else None
        | GoDone e \<Rightarrow>
            if length (doneChannel s) < doneCapacity
            then Some (EvInternal, s\<lparr>goroutines := others [], doneChannel := doneChannel s @ [Some e]\<rparr>) else None)"

definition sendBody ::
  "('i, 'p, 'w) session_code \<Rightarrow> ('i, 'p, 'w) session \<Rightarrow> ('p event \<times> ('i, 'p, 'w) session) option" where
  "sendBody code s =
     (if \<not> sending s then None
      else case sendChannel s of
        [] \<Rightarrow> None
      | m # ms \<Rightarrow>
          (case MessageBytes m of
             Inl err \<Rightarrow> Some (EvDropped m, s\<lparr>sendChannel := ms, sending := False\<rparr>)
           | Inr marshaled \<Rightarrow>
               if connOpen s
               then Some (EvSent m, s\<lparr>sendChannel := ms, written := written s @ frameBytes code marshaled\<rparr>)
               else Some (EvDropped m, s\<lparr>sendChannel := ms, sending := False\<rparr>)))"

text \<open>\<^verbatim>\<open>Send\<close>, called by a handler or another goroutine of the application: a send on \<^verbatim>\<open>sendChannel\<close>.\<close>

definition pushBody ::
  "nat \<Rightarrow> ('i, 'p, 'w) session \<Rightarrow> ('p event \<times> ('i, 'p, 'w) session) option" where
  "pushBody k s =
     (if k < length (pushing s) \<and> length (sendChannel s) < sendCapacity
      then Some (EvInternal, s\<lparr>pushing := take k (pushing s) @ drop (Suc k) (pushing s), sendChannel := sendChannel s @ [pushing s ! k]\<rparr>)
      else None)"

definition waitBody ::
  "('i, 'p, 'w) session_code \<Rightarrow> ('i, 'p, 'w) session \<Rightarrow> ('p event \<times> ('i, 'p, 'w) session) option" where
  "waitBody code s =
     (if \<not> waiting s then None
      else case doneChannel s of
        [] \<Rightarrow> None
      | err # ds \<Rightarrow>
          Some (EvInternal, s\<lparr>waiting := False, doneChannel := ds, cleanups := afterWait code\<rparr>))"

text \<open>The next of what is left to do after \<^verbatim>\<open>wait\<close>.\<close>

definition closeBody ::
  "('i, 'p, 'w) session_code \<Rightarrow> ('i, 'p, 'w) session \<Rightarrow> ('p event \<times> ('i, 'p, 'w) session) option" where
  "closeBody code s =
     (case cleanups s of
        [] \<Rightarrow> None
      | d # ds \<Rightarrow>
          Some (case d of
            ClearServer \<Rightarrow> (EvInternal, s\<lparr>cleanups := ds, serverSet := False\<rparr>)
          | TellClosed \<Rightarrow> (EvClosed, s\<lparr>cleanups := ds, sworld := onClose code (sworld s)\<rparr>)
          | CloseConn \<Rightarrow> (EvInternal, s\<lparr>cleanups := ds, connOpen := False\<rparr>)
          | CloseBody \<Rightarrow> (EvInternal, s\<lparr>cleanups := ds\<rparr>)))"

text \<open>
  The interleavings: a step of one of the goroutines, the end of a context, which \<^verbatim>\<open>wait\<close> and \<^verbatim>\<open>sendLoop\<close>
  watch, or a read or write that fails. At any moment the application may call \<^verbatim>\<open>Send\<close> on the session, and other
  sessions of the process may change the world.
\<close>

inductive session_step ::
  "('i, 'p, 'w) session_code \<Rightarrow> ('i, 'p, 'w) session \<Rightarrow> 'p event \<Rightarrow> ('i, 'p, 'w) session \<Rightarrow> bool"
  for code :: "('i, 'p, 'w) session_code" where
  recv: "crashed s = None \<Longrightarrow> recvBody code s = Some (e, s') \<Longrightarrow> session_step code s e s'"
| go: "crashed s = None \<Longrightarrow> goBody code k s = Some (e, s') \<Longrightarrow> session_step code s e s'"
| send: "crashed s = None \<Longrightarrow> sendBody code s = Some (e, s') \<Longrightarrow> session_step code s e s'"
| wait: "crashed s = None \<Longrightarrow> waitBody code s = Some (e, s') \<Longrightarrow> session_step code s e s'"
| close: "crashed s = None \<Longrightarrow> closeBody code s = Some (e, s') \<Longrightarrow> session_step code s e s'"
| wait_done: "crashed s = None \<Longrightarrow> waiting s \<Longrightarrow>
    session_step code s EvInternal (s\<lparr>waiting := False, cleanups := afterWait code\<rparr>)"
| send_done: "crashed s = None \<Longrightarrow> session_step code s EvInternal (s\<lparr>sending := False\<rparr>)"
| write_error: "crashed s = None \<Longrightarrow> sending s \<Longrightarrow> sendChannel s = m # ms \<Longrightarrow>
    session_step code s (EvDropped m) (s\<lparr>sendChannel := ms, sending := False\<rparr>)"
| read_error: "crashed s = None \<Longrightarrow> receiving s \<Longrightarrow> spawns code \<or> goroutines s = [] \<Longrightarrow>
    length (doneChannel s) < doneCapacity \<Longrightarrow>
    session_step code s EvInternal (s\<lparr>receiving := False, doneChannel := doneChannel s @ [Some err]\<rparr>)"
| push: "crashed s = None \<Longrightarrow> session_step code s (EvPushed m) (s\<lparr>pushing := pushing s @ [m]\<rparr>)"
| push_send: "crashed s = None \<Longrightarrow> pushBody k s = Some (e, s') \<Longrightarrow> session_step code s e s'"
| others: "crashed s = None \<Longrightarrow> session_step code s EvOthers (s\<lparr>sworld := w\<rparr>)"

inductive session_run ::
  "('i, 'p, 'w) session_code \<Rightarrow> ('i, 'p, 'w) session \<Rightarrow> 'p event list \<Rightarrow> ('i, 'p, 'w) session \<Rightarrow> bool"
  for code :: "('i, 'p, 'w) session_code" where
  run_nil: "session_run code s [] s"
| run_step: "session_run code s es t \<Longrightarrow> session_step code t e u \<Longrightarrow> session_run code s (es @ [e]) u"

section \<open>The four servers\<close>

definition TransportWebsocket :: string where "TransportWebsocket = ''websocket''"
definition TransportHTTP2 :: string where "TransportHTTP2 = ''http2''"
definition TransportTCP :: string where "TransportTCP = ''tcp''"
definition TransportVsock :: string where "TransportVsock = ''vsock''"

text \<open>\<^verbatim>\<open>msgReceived\<close>, from the call of \<^verbatim>\<open>Feed\<close> on; both of its branches for a reply send it on \<^verbatim>\<open>sendChannel\<close>.\<close>

definition msgReceived ::
  "(template \<Rightarrow> go_error + gmap) \<Rightarrow> 'w actor \<Rightarrow> rpc_request \<Rightarrow> 'w \<Rightarrow> (panic_value + 'p goroutine list) \<times> 'w" where
  "msgReceived ms a req w =
     (case Feed a ms req w of
        (FeedPanic p, w') \<Rightarrow> (Inl p, w')
      | (Fed resmsg (Some err), w') \<Rightarrow> (Inr [GoDone (ErrWrap ''actor.Feed'' err)], w')
      | (Fed (Some resmsg) None, w') \<Rightarrow> (Inr [GoSend resmsg], w')
      | (Fed None None, w') \<Rightarrow> (Inr [], w'))"

text \<open>A read of a decoder over the connection.\<close>

definition decodeRead :: "string \<Rightarrow> message read_result \<times> string" where
  "decodeRead s =
     (case DecodeMessage [] s of
        (Inr m, r) \<Rightarrow> (ReadMsg m, r)
      | (Inl EOF, r) \<Rightarrow> (ReadEnd, r)
      | (Inl e, r) \<Rightarrow> (ReadErr (ErrText ''json''), r))"

definition newline :: "string \<Rightarrow> string" where
  "newline bs = bs @ [CHR 0x0A]"

text \<open>The request a message becomes: it carries the session, here its \<^verbatim>\<open>sessionId\<close>.\<close>

definition tcpRequest :: "string \<Rightarrow> message \<Rightarrow> rpc_request" where
  "tcpRequest sid m = WithSession (NewRPCRequest m TransportTCP) sid"

definition vsockRequest :: "string \<Rightarrow> message \<Rightarrow> rpc_request" where
  "vsockRequest sid m = WithSession (NewRPCRequest m TransportVsock) sid"

definition http2Request :: "http_request \<Rightarrow> string \<Rightarrow> message \<Rightarrow> rpc_request" where
  "http2Request r sid m = WithSession (WithHTTPRequest (NewRPCRequest m TransportHTTP2) r) sid"

definition wsRequest :: "http_request \<Rightarrow> string \<Rightarrow> message \<Rightarrow> rpc_request" where
  "wsRequest r sid m = WithSession (WithHTTPRequest (NewRPCRequest m TransportWebsocket) r) sid"

lemmas request_defs = tcpRequest_def vsockRequest_def http2Request_def wsRequest_def WithSession_def WithHTTPRequest_def NewRPCRequest_def

definition tcpSession ::
  "(template \<Rightarrow> go_error + gmap) \<Rightarrow> 'w actor \<Rightarrow> string \<Rightarrow> (string, message, 'w) session_code" where
  "tcpSession ms a sid =
     \<lparr>readInput = decodeRead, received = (\<lambda>_ m. msgReceived ms a (tcpRequest sid m)),
      frameBytes = newline, spawns = True, afterWait = [CloseConn, TellClosed], onClose = HandleClose a sid\<rparr>"

definition vsockSession ::
  "(template \<Rightarrow> go_error + gmap) \<Rightarrow> 'w actor \<Rightarrow> string \<Rightarrow> (string, message, 'w) session_code" where
  "vsockSession ms a sid =
     \<lparr>readInput = decodeRead, received = (\<lambda>_ m. msgReceived ms a (vsockRequest sid m)),
      frameBytes = newline, spawns = True, afterWait = [CloseConn, TellClosed], onClose = HandleClose a sid\<rparr>"

definition http2Session ::
  "(template \<Rightarrow> go_error + gmap) \<Rightarrow> 'w actor \<Rightarrow> bool \<Rightarrow> http_request \<Rightarrow> string \<Rightarrow> (string, message, 'w) session_code" where
  "http2Session ms a spawnGoroutine r sid =
     \<lparr>readInput = decodeRead, received = (\<lambda>_ m. msgReceived ms a (http2Request r sid m)),
      frameBytes = newline, spawns = spawnGoroutine,
      afterWait = [CloseBody, TellClosed, CloseConn], onClose = HandleClose a sid\<rparr>"

text \<open>Websocket frames: text, another type, or an error of the connection; after the last one a read fails.\<close>

datatype ws_frame = WsText string | WsOther | WsError

fun wsRead :: "ws_frame list \<Rightarrow> string read_result \<times> ws_frame list" where
  "wsRead (WsText bs # fs) = (ReadMsg bs, fs)"
| "wsRead (WsOther # fs) = (ReadSkip, fs)"
| "wsRead (WsError # fs) = (ReadErr (ErrWrap ''ws.ReadMessage()'' (ErrText ''ws'')), fs)"
| "wsRead [] = (ReadErr (ErrWrap ''ws.ReadMessage()'' (ErrText ''ws'')), [])"

definition msgBytesReceived ::
  "(template \<Rightarrow> go_error + gmap) \<Rightarrow> 'w actor \<Rightarrow> http_request \<Rightarrow> string \<Rightarrow> bool \<Rightarrow> string \<Rightarrow> 'w \<Rightarrow>
     (panic_value + string goroutine list) \<times> 'w" where
  "msgBytesReceived ms a r sid server_set msgBytes w =
     (case ParseBytes [] msgBytes of
        Inl err \<Rightarrow> (Inr [GoDone (ErrText ''bad jsonrpc message'')], w)
      | Inr m \<Rightarrow>
          if server_set then msgReceived ms a (wsRequest r sid m) w
          else (Inl (panic_of NilDereference), w))"

definition wsSession ::
  "(template \<Rightarrow> go_error + gmap) \<Rightarrow> 'w actor \<Rightarrow> bool \<Rightarrow> http_request \<Rightarrow> string \<Rightarrow> (ws_frame list, string, 'w) session_code" where
  "wsSession ms a spawnGoroutine r sid =
     \<lparr>readInput = wsRead, received = msgBytesReceived ms a r sid, frameBytes = id, spawns = spawnGoroutine,
      afterWait = [ClearServer, TellClosed, CloseConn], onClose = HandleClose a sid\<rparr>"

text \<open>
  \<^verbatim>\<open>ServeHTTP\<close> of the HTTP/2 handler before the session: the fallback to the HTTP/1 handler, and the answer when the
  connection cannot stream (\<open>flusher\<close> is whether the writer is an \<^verbatim>\<open>http.Flusher\<close>).
\<close>

datatype 'r h2_outcome = H2Fallback 'r | H2NotSupported 'r | H2Session 'r

definition http2ServeHTTP ::
  "(template \<Rightarrow> go_error + gmap) \<Rightarrow> 'w actor \<Rightarrow> bool \<Rightarrow> bool \<Rightarrow> http_request \<Rightarrow> response_writer \<Rightarrow> 'w \<Rightarrow>
     ((panic_value + response_writer) \<times> 'w) h2_outcome" where
  "http2ServeHTTP ms a useHttp2C flusher r w world =
     (if \<not> useHttp2C \<and> \<not> ProtoAtLeast r 2 0 then H2Fallback (ServeHTTP ms a r w world)
      else if \<not> flusher then H2NotSupported (map_sum panic_of id (respond 400 ''http2 not supported'' w), world)
      else H2Session (map_sum panic_of id (WriteHeader 200 w), world))"

section \<open>What a run has done\<close>

definition receivedOf :: "'p event list \<Rightarrow> 'p list" where
  "receivedOf es = concat (map (\<lambda>e. case e of EvReceived p \<Rightarrow> [p] | _ \<Rightarrow> []) es)"

definition handledOf :: "'p event list \<Rightarrow> ('p \<times> 'p goroutine list) list" where
  "handledOf es = concat (map (\<lambda>e. case e of EvHandled p gs \<Rightarrow> [(p, gs)] | _ \<Rightarrow> []) es)"

definition sentOf :: "'p event list \<Rightarrow> message list" where
  "sentOf es = concat (map (\<lambda>e. case e of EvSent m \<Rightarrow> [m] | _ \<Rightarrow> []) es)"

definition droppedOf :: "'p event list \<Rightarrow> message list" where
  "droppedOf es = concat (map (\<lambda>e. case e of EvDropped m \<Rightarrow> [m] | _ \<Rightarrow> []) es)"

definition pushedOf :: "'p event list \<Rightarrow> message list" where
  "pushedOf es = concat (map (\<lambda>e. case e of EvPushed m \<Rightarrow> [m] | _ \<Rightarrow> []) es)"

definition pending :: "'p goroutine list \<Rightarrow> 'p list" where
  "pending gs = concat (map (\<lambda>g. case g of GoReceived p \<Rightarrow> [p] | _ \<Rightarrow> []) gs)"

definition replies :: "'p goroutine list \<Rightarrow> message list" where
  "replies gs = concat (map (\<lambda>g. case g of GoSend m \<Rightarrow> [m] | _ \<Rightarrow> []) gs)"

lemmas run_views = receivedOf_def handledOf_def sentOf_def droppedOf_def pushedOf_def

lemma views_simps [simp]:
  "receivedOf [] = []" "handledOf [] = []" "sentOf [] = []" "droppedOf [] = []" "pushedOf [] = []"
  "receivedOf (es @ es') = receivedOf es @ receivedOf es'" "handledOf (es @ es') = handledOf es @ handledOf es'"
  "sentOf (es @ es') = sentOf es @ sentOf es'" "droppedOf (es @ es') = droppedOf es @ droppedOf es'"
  "pushedOf (es @ es') = pushedOf es @ pushedOf es'"
  by (simp_all add: run_views)

lemma pending_simps [simp]:
  "pending [] = []" "pending (gs @ gs') = pending gs @ pending gs'" "pending (GoReceived p # gs) = p # pending gs"
  "pending (GoSend m # gs) = pending gs" "pending (GoDone e # gs) = pending gs"
  by (simp_all add: pending_def)

lemma replies_simps [simp]:
  "replies [] = []" "replies (gs @ gs') = replies gs @ replies gs'" "replies (GoReceived p # gs) = replies gs"
  "replies (GoSend m # gs) = m # replies gs" "replies (GoDone e # gs) = replies gs"
  by (simp_all add: replies_def)

definition bytesOf :: "('i, 'p, 'w) session_code \<Rightarrow> message \<Rightarrow> string" where
  "bytesOf code m = (case MessageBytes m of Inr bs \<Rightarrow> frameBytes code bs | Inl e \<Rightarrow> [])"

inductive_cases session_stepE: "session_step code s e s'"

section \<open>One reply per message\<close>

lemma mset_balance:
  fixes A :: "'a multiset"
  assumes "A + B = S + D + C + R + P" "A' + B' + C + R + P = S' + D' + C' + R' + P'"
  shows "(A + A') + (B + B') = (S + S') + (D + D') + C' + R' + P'"
proof (rule multiset_eqI)
  fix x
  show "count ((A + A') + (B + B')) x = count ((S + S') + (D + D') + C' + R' + P') x"
    using arg_cong [OF assms(1), of "\<lambda>M. count M x"] arg_cong [OF assms(2), of "\<lambda>M. count M x"] by simp
qed

text \<open>What the loops rely on: handling a message leaves at most one send to do.\<close>

locale session_protocol =
  fixes code :: "('i, 'p, 'w) session_code"
  assumes one_send: "received code b p w = (Inr gs, w') \<Longrightarrow> gs = [] \<or> (\<exists>m. gs = [GoSend m]) \<or> (\<exists>e. gs = [GoDone e])"
begin

lemma handled_pending [simp]: "received code b p w = (Inr gs, w') \<Longrightarrow> pending gs = []"
  using one_send by fastforce

lemma split_at:
  assumes "k < length (goroutines s)" "goroutines s ! k = g"
  shows "goroutines s = take k (goroutines s) @ g # drop (Suc k) (goroutines s)"
  using assms id_take_nth_drop by blast

lemma go_accounts:
  assumes "goBody code k s = Some (e, s')"
  shows "mset (receivedOf [e]) + mset (pending (goroutines s)) = mset (map fst (handledOf [e])) + mset (pending (goroutines s'))"
    and "mset (concat (map (replies \<circ> snd) (handledOf [e]))) + mset (sendChannel s) + mset (replies (goroutines s)) =
      mset (sentOf [e]) + mset (droppedOf [e]) + mset (sendChannel s') + mset (replies (goroutines s'))"
    and "written s' = written s" "sentOf [e] = []" "pushedOf [e] = []" "pushing s' = pushing s"
    and "set (handledOf [e]) \<subseteq> {(p, gs). \<exists>b w w'. received code b p w = (Inr gs, w')}"
proof -
  from assms have k: "k < length (goroutines s)" by (simp add: goBody_def split: if_splits)
  note at = split_at [OF k refl]
  let ?A = "take k (goroutines s)" and ?B = "drop (Suc k) (goroutines s)"
  have P: "pending (goroutines s) = pending ?A @ pending [goroutines s ! k] @ pending ?B"
    by (subst at) (metis append_Cons append_Nil pending_simps(2))
  have R: "replies (goroutines s) = replies ?A @ replies [goroutines s ! k] @ replies ?B"
    by (subst at) (metis append_Cons append_Nil replies_simps(2))
  show "mset (receivedOf [e]) + mset (pending (goroutines s)) = mset (map fst (handledOf [e])) + mset (pending (goroutines s'))"
    "mset (concat (map (replies \<circ> snd) (handledOf [e]))) + mset (sendChannel s) + mset (replies (goroutines s)) =
      mset (sentOf [e]) + mset (droppedOf [e]) + mset (sendChannel s') + mset (replies (goroutines s'))"
    "written s' = written s" "sentOf [e] = []" "pushedOf [e] = []" "pushing s' = pushing s"
    "set (handledOf [e]) \<subseteq> {(p, gs). \<exists>b w w'. received code b p w = (Inr gs, w')}"
    using assms k P R
    by (auto simp: goBody_def crash_def run_views Let_def split: goroutine.splits if_splits prod.splits sum.splits)
qed

lemma step_accounts:
  assumes "session_step code s e s'"
  shows "mset (receivedOf [e]) + mset (pending (goroutines s)) = mset (map fst (handledOf [e])) + mset (pending (goroutines s'))
    \<and> mset (concat (map (replies \<circ> snd) (handledOf [e]))) + mset (pushedOf [e]) + mset (sendChannel s) +
      mset (replies (goroutines s)) + mset (pushing s) =
      mset (sentOf [e]) + mset (droppedOf [e]) + mset (sendChannel s') + mset (replies (goroutines s')) + mset (pushing s')
    \<and> written s' = written s @ concat (map (bytesOf code) (sentOf [e]))
    \<and> (\<forall>m \<in> set (sentOf [e]). \<exists>bs. MessageBytes m = Inr bs)
    \<and> set (handledOf [e]) \<subseteq> {(p, gs). \<exists>b w w'. received code b p w = (Inr gs, w')}"
  using assms
proof (cases rule: session_step.cases)
  case recv
  then show ?thesis
    by (auto simp: recvBody_def crash_def run_views split: if_splits prod.splits read_result.splits)
next
  case (go k)
  from go_accounts [OF this(2)] show ?thesis by simp
next
  case send
  then show ?thesis
    by (auto simp: sendBody_def run_views bytesOf_def split: if_splits list.splits sum.splits)
next
  case wait
  then show ?thesis by (auto simp: waitBody_def run_views split: if_splits list.splits)
next
  case close
  then show ?thesis by (auto simp: closeBody_def run_views split: list.splits cleanup.splits)
next
  case (push_send k)
  then have k: "k < length (pushing s)" and e: "e = EvInternal"
    "s' = s\<lparr>pushing := take k (pushing s) @ drop (Suc k) (pushing s), sendChannel := sendChannel s @ [pushing s ! k]\<rparr>"
    by (auto simp: pushBody_def split: if_splits)
  have "mset (pushing s) = mset (take k (pushing s)) + {# pushing s ! k #} + mset (drop (Suc k) (pushing s))"
    by (subst id_take_nth_drop [OF k]) simp
  then show ?thesis by (simp add: e run_views)
qed (auto simp: run_views)

text \<open>
  Over a whole run nothing is lost or made up: what was received is handled or pending, and every reply of a handled
  message and every message pushed by the application is written, dropped by a send loop that stopped, or still on its way.
\<close>

lemma run_accounts:
  assumes "session_run code (newSession i w) es s"
  shows "mset (receivedOf es) = mset (map fst (handledOf es)) + mset (pending (goroutines s))
    \<and> mset (concat (map (replies \<circ> snd) (handledOf es))) + mset (pushedOf es) =
      mset (sentOf es) + mset (droppedOf es) + mset (sendChannel s) + mset (replies (goroutines s)) + mset (pushing s)
    \<and> written s = concat (map (bytesOf code) (sentOf es))
    \<and> (\<forall>m \<in> set (sentOf es). \<exists>bs. MessageBytes m = Inr bs)
    \<and> set (handledOf es) \<subseteq> {(p, gs). \<exists>b w w'. received code b p w = (Inr gs, w')}"
  using assms
proof (induction "newSession i w :: ('i, 'p, 'w) session" es s rule: session_run.induct)
  case run_nil
  show ?case by (simp add: newSession_def)
next
  case (run_step es t e u)
  note st = step_accounts [OF run_step.hyps(3)]
  let ?h = "mset (concat (map (replies \<circ> snd) (handledOf es)))"
  have "mset (receivedOf (es @ [e])) = mset (map fst (handledOf (es @ [e]))) + mset (pending (goroutines u))"
    using st run_step.hyps(2) by (simp add: ac_simps)
  moreover have "mset (concat (map (replies \<circ> snd) (handledOf (es @ [e])))) + mset (pushedOf (es @ [e])) =
      mset (sentOf (es @ [e])) + mset (droppedOf (es @ [e])) + mset (sendChannel u) + mset (replies (goroutines u)) +
      mset (pushing u)"
    using mset_balance [of ?h "mset (pushedOf es)" "mset (sentOf es)" "mset (droppedOf es)" "mset (sendChannel t)"
        "mset (replies (goroutines t))" "mset (pushing t)" "mset (concat (map (replies \<circ> snd) (handledOf [e])))"
        "mset (pushedOf [e])" "mset (sentOf [e])" "mset (droppedOf [e])"] st run_step.hyps(2)
    by simp
  ultimately show ?case using st run_step.hyps(2) by auto
qed

text \<open>So what was written is replies of handled messages and pushed messages, none of them twice.\<close>

lemma sent_parts:
  assumes "session_run code (newSession i w) es s"
  shows "\<exists>rs ps. mset (sentOf es) = mset rs + mset ps \<and> mset rs \<subseteq># mset (concat (map (replies \<circ> snd) (handledOf es))) \<and>
    mset ps \<subseteq># mset (pushedOf es)"
proof -
  let ?S = "mset (sentOf es)" and ?R = "mset (concat (map (replies \<circ> snd) (handledOf es)))"
  have "?S \<subseteq># ?R + mset (pushedOf es)"
    using run_accounts [OF assms] by (simp add: ac_simps)
  then have "?S - ?R \<subseteq># mset (pushedOf es)"
    by (simp add: subset_eq_diff_conv add.commute)
  moreover obtain rs ps where p: "mset rs = ?S \<inter># ?R" "mset ps = ?S - ?R" by (metis ex_mset)
  moreover have "?S = ?S \<inter># ?R + (?S - ?R)" by (auto simp: multiset_eq_iff min_def)
  ultimately show ?thesis
    by (intro exI [of _ rs] exI [of _ ps] conjI) (simp_all only: p subset_mset.inf_le2)
qed

text \<open>A session whose server pointer stays set crashes only where handling a message panics.\<close>

lemma crash_cause:
  assumes "session_run code (newSession i w) es s" "ClearServer \<notin> set (afterWait code)"
  shows "serverSet s \<and> ClearServer \<notin> set (cleanups s) \<and> (\<forall>x. crashed s = Some x \<longrightarrow>
    (\<exists>p \<in> set (receivedOf es). \<exists>w w'. received code True p w = (Inl x, w')))"
  using assms
proof (induction "newSession i w :: ('i, 'p, 'w) session" es s rule: session_run.induct)
  case run_nil
  show ?case by (simp add: newSession_def)
next
  case (run_step es t e u)
  then have t: "serverSet t" "crashed t = None" "ClearServer \<notin> set (cleanups t)" by (auto elim: session_stepE)
  have pend: "set (pending (goroutines t)) \<subseteq> set (receivedOf es)"
    using run_accounts [OF run_step.hyps(1)] by (metis set_mset_mset set_mset_union sup_ge2)
  show ?case using run_step.hyps(3)
  proof (cases rule: session_step.cases)
    case recv
    with t show ?thesis
      by (auto simp: recvBody_def crash_def split: if_splits prod.splits read_result.splits)
  next
    case (go k)
    then have k: "k < length (goroutines t)" by (simp add: goBody_def split: if_splits)
    have "p \<in> set (receivedOf es)" if "goroutines t ! k = GoReceived p" for p
      using pend split_at [OF k that] by (metis Un_iff list.set_intros(1) pending_simps(2,3) set_append subsetD)
    with go(2) t show ?thesis
      by (auto simp: goBody_def crash_def Let_def split: if_splits goroutine.splits prod.splits sum.splits)
        (metis UnCI)
  next
    case send
    with t show ?thesis by (auto simp: sendBody_def split: if_splits list.splits sum.splits)
  next
    case wait
    with t assms(2) show ?thesis by (auto simp: waitBody_def split: if_splits list.splits)
  next
    case close
    with t show ?thesis by (auto simp: closeBody_def split: list.splits cleanup.splits)
  next
    case (push_send k)
    with t show ?thesis by (auto simp: pushBody_def split: if_splits)
  qed (use t assms(2) in auto)
qed

end

lemma msgReceived_one_send:
  "msgReceived ms a req w = (Inr gs, w') \<Longrightarrow> gs = [] \<or> (\<exists>m. gs = [GoSend m]) \<or> (\<exists>e. gs = [GoDone e])"
  by (auto simp: msgReceived_def split: prod.splits feed_result.splits option.splits)

interpretation ws: session_protocol "wsSession ms a b r sid" for ms a b r sid
  by unfold_locales (auto simp: wsSession_def msgBytesReceived_def dest: msgReceived_one_send split: sum.splits if_splits)

section \<open>What a decoder session has received\<close>

lemma read_n_snoc:
  "read_n dec n s = (rs, r) \<Longrightarrow> dec r = (x, r') \<Longrightarrow> read_n dec (Suc n) s = (rs @ [x], r')"
proof (induction n arbitrary: s rs)
  case (Suc n)
  obtain y s1 rs1 where d: "dec s = (y, s1)" "read_n dec n s1 = (rs1, r)" "rs = y # rs1"
    using Suc.prems(1) by (auto split: prod.splits)
  with Suc.IH [OF d(2) Suc.prems(2)] show ?case
    by (subst read_n.simps(2)) (simp only: Let_def prod.case append_Cons)
qed simp

lemma decodeRead_Msg: "decodeRead s = (ReadMsg m, r) \<longleftrightarrow> DecodeMessage [] s = (Inr m, r)"
  by (auto simp: decodeRead_def split: prod.splits sum.splits decode_error.splits)

lemma decodeRead_no_Skip: "decodeRead s \<noteq> (ReadSkip, r)"
  by (auto simp: decodeRead_def split: prod.splits sum.splits decode_error.splits)

lemma decode_step:
  assumes "session_step code t e u" "readInput code = decodeRead"
  obtains (msg) m where "receivedOf [e] = [m]" "receiving t" "DecodeMessage [] (input t) = (Inr m, input u)"
  | (none) "receivedOf [e] = []" "receiving u \<longrightarrow> receiving t \<and> input u = input t"
  using assms(1)
proof (cases rule: session_step.cases)
  case recv
  with that assms(2) decodeRead_Msg decodeRead_no_Skip show thesis
    by (auto simp: recvBody_def crash_def run_views split: if_splits prod.splits read_result.splits)
next
  case (go k)
  with that show thesis
    by (auto simp: goBody_def crash_def run_views Let_def split: if_splits goroutine.splits prod.splits sum.splits)
next
  case send
  with that show thesis by (auto simp: sendBody_def run_views split: if_splits list.splits sum.splits)
next
  case wait
  with that show thesis by (auto simp: waitBody_def run_views split: if_splits list.splits)
next
  case close
  with that show thesis by (auto simp: closeBody_def run_views split: list.splits cleanup.splits)
next
  case (push_send k)
  with that show thesis by (auto simp: pushBody_def run_views split: if_splits)
qed (use that in \<open>auto simp: run_views\<close>)

lemma receives_stream:
  assumes "session_run code (newSession bytes w) es s" "readInput code = decodeRead"
  shows "\<exists>rest. read_n (DecodeMessage []) (length (receivedOf es)) bytes = (map Inr (receivedOf es), rest) \<and>
    (receiving s \<longrightarrow> rest = input s) \<and> list_all msg_ok (receivedOf es)"
  using assms
proof (induction "newSession bytes w :: (string, message, 'a) session" es s rule: session_run.induct)
  case run_nil
  show ?case by (simp add: newSession_def)
next
  case (run_step es t e u)
  then obtain rest where t: "read_n (DecodeMessage []) (length (receivedOf es)) bytes = (map Inr (receivedOf es), rest)"
    "receiving t \<longrightarrow> rest = input t" "list_all msg_ok (receivedOf es)" by blast
  from run_step.hyps(3) run_step.prems show ?case
  proof (cases rule: decode_step)
    case (msg m)
    then have "msg_ok m" using message_of_json_ok by (auto simp: DecodeMessage_Inr)
    with msg t read_n_snoc [OF t(1), of "Inr m" "input u"] show ?thesis by auto
  next
    case none
    with t show ?thesis by auto
  qed
qed

section \<open>Every request can be answered\<close>

lemma run_one: "session_step code s e s' \<Longrightarrow> session_run code s [e] s'"
  using run_step [OF run_nil] by force

lemma run_snoc: "session_run code s es t \<Longrightarrow> session_step code t e u \<Longrightarrow> es' = es @ [e] \<Longrightarrow> session_run code s es' u"
  using run_step by blast

lemma run_trans: "session_run code t es' u \<Longrightarrow> session_run code s es t \<Longrightarrow> session_run code s (es @ es') u"
  by (induction rule: session_run.induct) (auto intro: run_nil run_snoc)

definition marshals :: "message \<Rightarrow> bool" where
  "marshals m \<longleftrightarrow> (\<exists>bs. MessageBytes m = Inr bs)"

definition alive :: "('i, 'p, 'w) session \<Rightarrow> bool" where
  "alive s \<longleftrightarrow> crashed s = None \<and> sending s \<and> connOpen s"

text \<open>A goroutine that, whatever the world, ends in a reply that can be written or in none.\<close>

definition answerable :: "('i, 'p, 'w) session_code \<Rightarrow> bool \<Rightarrow> 'p goroutine \<Rightarrow> bool" where
  "answerable code b g \<longleftrightarrow> (case g of
      GoReceived p \<Rightarrow> \<forall>w. \<exists>gs w'. received code b p w = (Inr gs, w') \<and> (gs = [] \<or> (\<exists>m. gs = [GoSend m] \<and> marshals m))
    | GoSend m \<Rightarrow> marshals m
    | GoDone e \<Rightarrow> False)"

lemma drain:
  assumes "alive s" "\<forall>m \<in> set (sendChannel s). marshals m"
  shows "\<exists>es t. session_run code s es t \<and> alive t \<and> serverSet t = serverSet s \<and> pushing t = pushing s \<and> goroutines t = goroutines s \<and> sendChannel t = [] \<and>
    droppedOf es = []"
  using assms
proof (induction "sendChannel s" arbitrary: s)
  case Nil
  then show ?case by (intro exI [of _ "[]"] exI [of _ s]) (simp add: run_nil)
next
  case (Cons m ms)
  obtain bs where bs: "MessageBytes m = Inr bs" using Cons by (metis list.set_intros(1) marshals_def)
  let ?s = "s\<lparr>sendChannel := ms, written := written s @ frameBytes code bs\<rparr>"
  have st: "session_step code s (EvSent m) ?s"
    by (rule session_step.send) (use Cons bs in \<open>auto simp: sendBody_def alive_def split: list.split\<close>)
  obtain es t where "session_run code ?s es t" "alive t" "serverSet t = serverSet s" "pushing t = pushing s" "goroutines t = goroutines s"
    "sendChannel t = []" "droppedOf es = []"
    using Cons.hyps(1) [of ?s] Cons.prems Cons.hyps(2) [symmetric] by (auto simp: alive_def)
  with run_trans [OF _ run_one [OF st]] show ?case
    by (intro exI [of _ "[EvSent m] @ es"] exI [of _ t]) (simp add: droppedOf_def)
qed

lemma finish_send:
  assumes "alive s" "goroutines s = GoSend m # gs" "sendChannel s = []" "marshals m"
  shows "\<exists>es t. session_run code s es t \<and> alive t \<and> serverSet t = serverSet s \<and> pushing t = pushing s \<and> goroutines t = gs \<and> sendChannel t = [] \<and>
    droppedOf es = []"
proof -
  let ?s = "s\<lparr>goroutines := gs, sendChannel := [m]\<rparr>"
  have st: "session_step code s EvInternal ?s"
    by (rule session_step.go [where k = 0]) (use assms in \<open>simp_all add: goBody_def alive_def sendCapacity_def Let_def\<close>)
  obtain es t where "session_run code ?s es t" "alive t" "serverSet t = serverSet s" "pushing t = pushing s" "goroutines t = gs"
    "sendChannel t = []" "droppedOf es = []"
    using drain [of ?s code] assms by (fastforce simp: alive_def)
  with run_trans [OF _ run_one [OF st]] show ?thesis
    by (intro exI [of _ "[EvInternal] @ es"] exI [of _ t]) (simp add: droppedOf_def)
qed

lemma finish_head:
  assumes "alive s" "goroutines s = g # gs" "sendChannel s = []" "answerable code (serverSet s) g"
  shows "\<exists>es t. session_run code s es t \<and> alive t \<and> serverSet t = serverSet s \<and> pushing t = pushing s \<and> goroutines t = gs \<and> sendChannel t = [] \<and>
    droppedOf es = []"
proof (cases g)
  case (GoReceived p)
  from assms(4) GoReceived have "\<exists>gs' w'. received code (serverSet s) p (sworld s) = (Inr gs', w') \<and>
    (gs' = [] \<or> (\<exists>m. gs' = [GoSend m] \<and> marshals m))" by (simp add: answerable_def)
  then obtain gs' w' where h: "received code (serverSet s) p (sworld s) = (Inr gs', w')"
    "gs' = [] \<or> (\<exists>m. gs' = [GoSend m] \<and> marshals m)" by blast
  let ?s = "s\<lparr>goroutines := gs' @ gs, sworld := w'\<rparr>"
  have st: "session_step code s (EvHandled p gs') ?s"
    by (rule session_step.go [where k = 0]) (use assms GoReceived h in \<open>simp_all add: goBody_def alive_def Let_def\<close>)
  have "\<exists>es t. session_run code ?s es t \<and> alive t \<and> serverSet t = serverSet s \<and> pushing t = pushing s \<and> goroutines t = gs \<and> sendChannel t = [] \<and>
    droppedOf es = []"
    using h(2)
  proof
    assume "gs' = []"
    with assms show ?thesis by (intro exI [of _ "[]"] exI [of _ ?s]) (simp add: run_nil alive_def)
  next
    assume "\<exists>m. gs' = [GoSend m] \<and> marshals m"
    with finish_send [of ?s _ gs code] assms show ?thesis by (fastforce simp: alive_def)
  qed
  then obtain es t where "session_run code ?s es t" "alive t" "serverSet t = serverSet s" "pushing t = pushing s" "goroutines t = gs"
    "sendChannel t = []" "droppedOf es = []" by blast
  with run_trans [OF _ run_one [OF st]] show ?thesis
    by (intro exI [of _ "[EvHandled p gs'] @ es"] exI [of _ t]) (simp add: droppedOf_def)
next
  case (GoSend m)
  with finish_send assms show ?thesis by (fastforce simp: answerable_def)
next
  case (GoDone e)
  with assms show ?thesis by (simp add: answerable_def)
qed

lemma finish_goroutines:
  assumes "alive s" "\<forall>g \<in> set (goroutines s). answerable code (serverSet s) g" "sendChannel s = []"
  shows "\<exists>es t. session_run code s es t \<and> alive t \<and> pushing t = pushing s \<and> goroutines t = [] \<and> sendChannel t = [] \<and>
    droppedOf es = []"
  using assms
proof (induction "goroutines s" arbitrary: s)
  case Nil
  then show ?case by (intro exI [of _ "[]"] exI [of _ s]) (simp add: run_nil)
next
  case (Cons g gs)
  obtain es t where t: "session_run code s es t" "alive t" "serverSet t = serverSet s" "pushing t = pushing s" "goroutines t = gs"
    "sendChannel t = []" "droppedOf es = []"
    using finish_head [of s g gs code] Cons by (metis list.set_intros(1))
  obtain es' u where "session_run code t es' u" "alive u" "pushing u = pushing t" "goroutines u = []" "sendChannel u = []"
    "droppedOf es' = []"
    using Cons.hyps(1) [of t] Cons.hyps(2) [symmetric] Cons.prems t by auto
  with t run_trans show ?case by (intro exI [of _ "es @ es'"] exI [of _ u]) simp
qed

lemma finish_pushes:
  assumes "alive s" "\<forall>m \<in> set (pushing s). marshals m" "goroutines s = []" "sendChannel s = []"
  shows "\<exists>es t. session_run code s es t \<and> pushing t = [] \<and> goroutines t = [] \<and> sendChannel t = [] \<and> droppedOf es = []"
  using assms
proof (induction "pushing s" arbitrary: s)
  case Nil
  then show ?case by (intro exI [of _ "[]"] exI [of _ s]) (simp add: run_nil)
next
  case (Cons m ms)
  let ?s = "s\<lparr>pushing := ms, sendChannel := [m]\<rparr>"
  have st: "session_step code s EvInternal ?s"
    by (rule session_step.push_send [where k = 0])
       (use Cons.hyps(2) [symmetric] Cons.prems in \<open>simp_all add: pushBody_def alive_def sendCapacity_def\<close>)
  have "marshals m" "\<forall>m \<in> set ms. marshals m"
    using Cons.prems(2) Cons.hyps(2) [symmetric] by simp_all
  with Cons.prems drain [of ?s code] obtain es t where t: "session_run code ?s es t" "alive t" "pushing t = ms" "goroutines t = []"
    "sendChannel t = []" "droppedOf es = []"
    by (fastforce simp: alive_def)
  obtain es' u where "session_run code t es' u" "pushing u = []" "goroutines u = []" "sendChannel u = []" "droppedOf es' = []"
    using Cons.hyps(1) [of t] \<open>\<forall>m \<in> set ms. marshals m\<close> t by auto
  with t run_trans [OF _ run_trans [OF t(1) run_one [OF st]]] show ?case
    by (intro exI [of _ "([EvInternal] @ es) @ es'"] exI [of _ u]) (simp add: droppedOf_def)
qed

lemma finish_all:
  assumes "alive s" "\<forall>g \<in> set (goroutines s). answerable code (serverSet s) g"
    and "\<forall>m \<in> set (sendChannel s). marshals m" "\<forall>m \<in> set (pushing s). marshals m"
  shows "\<exists>es t. session_run code s es t \<and> pushing t = [] \<and> goroutines t = [] \<and> sendChannel t = [] \<and> droppedOf es = []"
proof -
  obtain es t where t: "session_run code s es t" "alive t" "serverSet t = serverSet s" "pushing t = pushing s"
    "goroutines t = goroutines s" "sendChannel t = []" "droppedOf es = []"
    using drain [OF assms(1,3)] by blast
  with finish_goroutines [of t code] assms obtain es' u where u: "session_run code t es' u" "alive u" "pushing u = pushing s"
    "goroutines u = []" "sendChannel u = []" "droppedOf es' = []" by auto
  with finish_pushes [of u code] assms obtain es'' v where v: "session_run code u es'' v" "pushing v = []" "goroutines v = []"
    "sendChannel v = []" "droppedOf es'' = []" by auto
  have "session_run code s (es @ es' @ es'') v"
    using run_trans [OF run_trans [OF v(1) u(1)] t(1)] by simp
  with t u v show ?thesis by (intro exI [of _ "es @ es' @ es''"] exI [of _ v]) simp
qed

section \<open>Properties\<close>

text \<open>Messages are answered by replies of the actor, never more of them than there were requests.\<close>

lemma replies_bounded:
  fixes hs :: "('p \<times> 'p goroutine list) list"
  assumes "\<And>p gs. (p, gs) \<in> set hs \<Longrightarrow> length (replies gs) \<le> 1 \<and> (replies gs \<noteq> [] \<longrightarrow> P p)"
  shows "length (concat (map (replies \<circ> snd) hs)) \<le> length (filter P (map fst hs))"
  using assms
proof (induction hs)
  case (Cons h hs)
  obtain p gs where h: "h = (p, gs)" by force
  have "length (replies gs) \<le> 1" "replies gs \<noteq> [] \<longrightarrow> P p" using Cons.prems [of p gs] h by auto
  moreover have "length (concat (map (replies \<circ> snd) hs)) \<le> length (filter P (map fst hs))"
    by (rule Cons.IH) (use Cons.prems in auto)
  ultimately show ?case by (cases "replies gs") (auto simp: h comp_def)
qed simp

text \<open>
  The specification of a streaming server: what was received is what decoding the peer's bytes gives; what was
  written is a line per message; each of these is the actor's reply to a request that was received, and there are no more
  of these than requests, or a message the application pushed; the process crashes only where a handler panics.
\<close>

definition answers_requests ::
  "(template \<Rightarrow> go_error + gmap) \<Rightarrow> 'w actor \<Rightarrow> (message \<Rightarrow> rpc_request) \<Rightarrow> string \<Rightarrow> message event list \<Rightarrow>
     (string, message, 'w) session \<Rightarrow> bool" where
  "answers_requests ms a req bytes es s \<longleftrightarrow>
     (\<exists>rest. read_n (DecodeMessage []) (length (receivedOf es)) bytes = (map Inr (receivedOf es), rest)) \<and>
     (\<exists>bss. mapR MessageBytes (sentOf es) = Inr bss \<and> written s = concat (map newline bss)) \<and>
     (\<exists>rs ps. mset (sentOf es) = mset rs + mset ps \<and> mset ps \<subseteq># mset (pushedOf es) \<and>
        (\<forall>m \<in> set rs. \<exists>q \<in> set (receivedOf es). IsRequest q \<and> (\<exists>w w'. Feed a ms (req q) w = (Fed (Some m) None, w'))) \<and>
        length rs \<le> length (filter IsRequest (receivedOf es))) \<and>
     (\<forall>x. crashed s = Some x \<longrightarrow> (\<exists>q \<in> set (receivedOf es). \<exists>w w'. Feed a ms (req q) w = (FeedPanic x, w')))"

locale actor_session = session_protocol code
  for code :: "(string, message, 'w) session_code" +
  fixes ms :: "template \<Rightarrow> go_error + gmap" and a :: "'w actor" and req :: "message \<Rightarrow> rpc_request"
  assumes reads: "readInput code = decodeRead"
    and handles: "received code b q = msgReceived ms a (req q)"
    and req_msg: "msg (req q) = q"
    and keeps_server: "ClearServer \<notin> set (afterWait code)"
    and lines: "frameBytes code = newline"
begin

lemma handled_replies:
  assumes "msg_ok q" "received code b q w = (Inr gs, w')"
  shows "length (replies gs) \<le> 1 \<and> (\<forall>m \<in> set (replies gs). IsRequest q \<and> Feed a ms (req q) w = (Fed (Some m) None, w'))"
  using assms act.reply_to_request [of "req q" a ms w]
  by (fastforce simp: handles req_msg msgReceived_def split: prod.splits feed_result.splits option.splits)

lemma handled_received:
  assumes "session_run code (newSession bytes w) es s" "(q, gs) \<in> set (handledOf es)"
  shows "q \<in> set (receivedOf es) \<and> length (replies gs) \<le> 1 \<and>
    (\<forall>m \<in> set (replies gs). IsRequest q \<and> (\<exists>w w'. Feed a ms (req q) w = (Fed (Some m) None, w')))"
proof -
  note acc = run_accounts [OF assms(1)]
  have q: "q \<in> set (receivedOf es)"
    using acc assms(2) by (metis (no_types, lifting) UnI1 fst_conv imageI list.set_map set_mset_mset set_mset_union)
  moreover have "msg_ok q"
    using q receives_stream [OF assms(1) reads] by (auto simp: list_all_iff)
  moreover obtain b w w' where "received code b q w = (Inr gs, w')"
    using acc assms(2) by blast
  ultimately show ?thesis using handled_replies by blast
qed

lemma sent_lines:
  assumes "\<forall>m \<in> set ms'. \<exists>bs. MessageBytes m = Inr bs"
  shows "\<exists>bss. mapR MessageBytes ms' = Inr bss \<and> concat (map (bytesOf code) ms') = concat (map newline bss)"
  using assms by (induction ms') (auto simp: bytesOf_def lines)

lemma replies_received:
  assumes "session_run code (newSession bytes w) es s"
    and "mset rs \<subseteq># mset (concat (map (replies \<circ> snd) (handledOf es)))"
  shows "length rs \<le> length (filter IsRequest (receivedOf es))"
    and "\<forall>m \<in> set rs. \<exists>q \<in> set (receivedOf es). IsRequest q \<and> (\<exists>w w'. Feed a ms (req q) w = (Fed (Some m) None, w'))"
proof -
  have "length rs \<le> length (concat (map (replies \<circ> snd) (handledOf es)))"
    using size_mset_mono [OF assms(2)] by simp
  also have "\<dots> \<le> length (filter IsRequest (map fst (handledOf es)))"
  proof (rule replies_bounded)
    fix q gs
    assume "(q, gs) \<in> set (handledOf es)"
    from handled_received [OF assms(1) this]
    show "length (replies gs) \<le> 1 \<and> (replies gs \<noteq> [] \<longrightarrow> IsRequest q)" by (auto simp: neq_Nil_conv)
  qed
  also have "\<dots> \<le> length (filter IsRequest (receivedOf es))"
  proof -
    have "mset (map fst (handledOf es)) \<subseteq># mset (receivedOf es)" using run_accounts [OF assms(1)] by simp
    from size_mset_mono [OF multiset_filter_mono [OF this, of IsRequest]] show ?thesis
      unfolding mset_filter [symmetric] size_mset .
  qed
  finally show "length rs \<le> length (filter IsRequest (receivedOf es))" .
  show "\<forall>m \<in> set rs. \<exists>q \<in> set (receivedOf es). IsRequest q \<and> (\<exists>w w'. Feed a ms (req q) w = (Fed (Some m) None, w'))"
  proof
    fix m assume "m \<in> set rs"
    then have "m \<in> set (concat (map (replies \<circ> snd) (handledOf es)))"
      using mset_subset_eqD [OF assms(2), of m] by simp
    then obtain q gs where "(q, gs) \<in> set (handledOf es)" "m \<in> set (replies gs)" by auto
    with handled_received [OF assms(1), of q gs]
    show "\<exists>q \<in> set (receivedOf es). IsRequest q \<and> (\<exists>w w'. Feed a ms (req q) w = (Fed (Some m) None, w'))" by blast
  qed
qed

lemma session_answers:
  assumes "session_run code (newSession bytes w) es s"
  shows "answers_requests ms a req bytes es s"
proof -
  note acc = run_accounts [OF assms]
  obtain rs ps where p: "mset (sentOf es) = mset rs + mset ps" "mset ps \<subseteq># mset (pushedOf es)"
    "mset rs \<subseteq># mset (concat (map (replies \<circ> snd) (handledOf es)))"
    using sent_parts [OF assms] by blast
  moreover have "\<exists>q \<in> set (receivedOf es). \<exists>w w'. Feed a ms (req q) w = (FeedPanic x, w')" if x: "crashed s = Some x" for x
    using crash_cause [OF assms keeps_server] x
    by (fastforce simp: handles msgReceived_def split: prod.splits feed_result.splits option.splits)
  ultimately show ?thesis
    using receives_stream [OF assms reads] sent_lines [of "sentOf es"] replies_received [OF assms p(3)] acc
    unfolding answers_requests_def by (metis (no_types, lifting))
qed

end

interpretation tcp: actor_session "tcpSession ms a sid" ms a "tcpRequest sid" for ms a sid
  by unfold_locales (auto simp: tcpSession_def request_defs dest: msgReceived_one_send)

interpretation vsock: actor_session "vsockSession ms a sid" ms a "vsockRequest sid" for ms a sid
  by unfold_locales (auto simp: vsockSession_def request_defs dest: msgReceived_one_send)

interpretation h2: actor_session "http2Session ms a b r sid" ms a "http2Request r sid" for ms a b r sid
  by unfold_locales (auto simp: http2Session_def request_defs dest: msgReceived_one_send)


text \<open>A run of a session, with the bytes of a request, for the examples.\<close>

abbreviation pong :: "nat request_callback" where
  "pong \<equiv> \<lambda>req ps w. (Returns (PlainValue (GBool True)) None, Suc w)"


lemma silent_step: "session_step code s e t \<Longrightarrow> \<not> sending s \<Longrightarrow> \<not> sending t \<and> sentOf [e] = [] \<and> written t = written s"
  by (erule session_stepE)
    (auto simp: recvBody_def goBody_def sendBody_def waitBody_def closeBody_def pushBody_def crash_def sentOf_def Let_def
      split: if_splits list.splits sum.splits prod.splits read_result.splits goroutine.splits cleanup.splits)

lemma silent_run: "session_run code s es t \<Longrightarrow> \<not> sending s \<Longrightarrow> \<not> sending t \<and> sentOf es = [] \<and> written t = written s"
  by (induction rule: session_run.induct) (auto dest: silent_step)

text \<open>
  A reply that cannot be marshalled silences the session for good: the send loop ends without telling anyone,
  the connection stays open and requests are still received and handled, but nothing is written any more.
\<close>

theorem unmarshalable_reply_silences_session:
  assumes "crashed s = None" "sending s" "sendChannel s = m # ms" "MessageBytes m = Inl err"
  shows "session_step code s (EvDropped m) (s\<lparr>sendChannel := ms, sending := False\<rparr>) \<and>
    (\<forall>es t. session_run code (s\<lparr>sendChannel := ms, sending := False\<rparr>) es t \<longrightarrow> sentOf es = [] \<and> written t = written s)"
proof
  show "session_step code s (EvDropped m) (s\<lparr>sendChannel := ms, sending := False\<rparr>)"
    by (rule session_step.send) (use assms in \<open>simp_all add: sendBody_def\<close>)
  show "\<forall>es t. session_run code (s\<lparr>sendChannel := ms, sending := False\<rparr>) es t \<longrightarrow> sentOf es = [] \<and> written t = written s"
    using silent_run by fastforce
qed

theorem unmarshalable_reply_witness:
  "MessageBytes (MRes (rawResultMessage (GInt 1) (GFloat NaN) None)) = Inl UnsupportedValue \<and>
   session_step (tcpSession (\<lambda>t. Inr []) NewActor ''s'')
     ((newSession [] (0 :: nat))\<lparr>sendChannel := [MRes (rawResultMessage (GInt 1) (GFloat NaN) None)]\<rparr>)
     (EvDropped (MRes (rawResultMessage (GInt 1) (GFloat NaN) None))) ((newSession [] 0)\<lparr>sending := False\<rparr>)"
proof -
  let ?m = "MRes (rawResultMessage (GInt 1) (GFloat NaN) None)"
  have m: "MessageBytes ?m = Inl UnsupportedValue"
    by (simp add: MessageBytes_def raw_defs obj_of_def jsonrpc_field_def marshalMsgId_def marshal_float_def fmt_float_def)
  with unmarshalable_reply_silences_session [of "(newSession [] (0 :: nat))\<lparr>sendChannel := [?m]\<rparr>" ?m "[]" UnsupportedValue
      "tcpSession (\<lambda>t. Inr []) NewActor ''s''"]
  show ?thesis by (simp add: newSession_def)
qed

text \<open>
  \<^bold>\<open>C37.\<close> Two text frames crash the process of a websocket server, whatever its actor, when the first is not a message:
  the error ends \<^verbatim>\<open>wait\<close>, \<^verbatim>\<open>session.server\<close> becomes nil, and the receive loop reads the second frame before the
  connection is closed.
\<close>

theorem ws_session_nil_server_crash:
  assumes "ParseBytes [] bad = Inl e"
  shows "\<exists>es s. session_run (wsSession ms a True r sid) (newSession [WsText bad, WsText bs] w) es s \<and>
    crashed s = Some (panic_of NilDereference)"
proof -
  let ?c = "wsSession ms a True r sid"
  let ?s0 = "newSession [WsText bad, WsText bs] w :: (ws_frame list, string, _) session"
  let ?s1 = "?s0\<lparr>input := [WsText bs], goroutines := [GoReceived bad]\<rparr>"
  let ?s2 = "?s1\<lparr>goroutines := [GoDone (ErrText ''bad jsonrpc message'')]\<rparr>"
  let ?s3 = "?s2\<lparr>goroutines := [], doneChannel := [Some (ErrText ''bad jsonrpc message'')]\<rparr>"
  let ?s3' = "?s3\<lparr>waiting := False, doneChannel := [], cleanups := [ClearServer, TellClosed, CloseConn]\<rparr>"
  let ?s4 = "?s3'\<lparr>cleanups := [TellClosed, CloseConn], serverSet := False\<rparr>"
  let ?s5 = "?s4\<lparr>crashed := Some (panic_of NilDereference)\<rparr>"
  have "session_step ?c ?s0 (EvReceived bad) ?s1"
    by (rule session_step.recv) (simp_all add: newSession_def recvBody_def wsSession_def)
  moreover have "session_step ?c ?s1 (EvHandled bad [GoDone (ErrText ''bad jsonrpc message'')]) ?s2"
    by (rule session_step.go [where k = 0])
      (use assms in \<open>simp_all add: newSession_def goBody_def wsSession_def msgBytesReceived_def Let_def\<close>)
  moreover have "session_step ?c ?s2 EvInternal ?s3"
    by (rule session_step.go [where k = 0]) (simp_all add: newSession_def goBody_def doneCapacity_def Let_def)
  moreover have "session_step ?c ?s3 EvInternal ?s3'"
    by (rule session_step.wait) (simp_all add: newSession_def waitBody_def wsSession_def)
  moreover have "session_step ?c ?s3' EvInternal ?s4"
    by (rule session_step.close) (simp_all add: newSession_def closeBody_def)
  moreover have "session_step ?c ?s4 EvCrash ?s5"
    by (rule session_step.recv) (simp_all add: newSession_def recvBody_def wsSession_def crash_def)
  ultimately have "\<exists>es. session_run ?c ?s0 es ?s5"
    by (blast intro: run_one run_step)
  then show ?thesis by (auto intro!: exI [of _ ?s5])
qed

theorem ws_session_nil_server_crash_witness:
  "\<exists>es s. session_run (wsSession (\<lambda>t. Inr []) (NewActor :: nat actor) True (post []) ''s'') (newSession [WsText [], WsText []] 0) es s \<and>
     crashed s = Some (panic_of NilDereference)"
proof -
  have "ParseBytes [] [] = Inl EOF"
    by (simp add: ParseBytes_def DecodeMessage_def decode_into_def decode_def run.simps next_token_def)
  from ws_session_nil_server_crash [OF this] show ?thesis .
qed

text \<open>
  \<^bold>\<open>C17.\<close> No request has to stay unanswered: as long as the send loop runs and the connection is open, a TCP session can
  go on to a state where every received message is handled and every reply to them and every pushed message is written,
  provided the pending handlers return without an error and the messages can be marshalled. The bounded channels cannot
  deadlock it.
\<close>

theorem tcp_session_can_answer_all:
  assumes "session_run (tcpSession ms a sid) (newSession bytes w) es s" "alive s" "droppedOf es = []"
    and "\<forall>g \<in> set (goroutines s). answerable (tcpSession ms a sid) True g"
    and "\<forall>m \<in> set (sendChannel s). marshals m" "\<forall>m \<in> set (pushing s). marshals m"
  shows "\<exists>es' t. session_run (tcpSession ms a sid) s es' t \<and>
    mset (map fst (handledOf (es @ es'))) = mset (receivedOf (es @ es')) \<and>
    mset (sentOf (es @ es')) = mset (concat (map (replies \<circ> snd) (handledOf (es @ es')))) + mset (pushedOf (es @ es'))"
proof -
  have "serverSet s" using tcp.crash_cause [OF assms(1) tcp.keeps_server] by simp
  then obtain es' t where t: "session_run (tcpSession ms a sid) s es' t" "pushing t = []" "goroutines t = []" "sendChannel t = []"
    "droppedOf es' = []"
    using finish_all [OF assms(2) _ assms(5,6), of "tcpSession ms a sid"] assms(4) by auto
  from tcp.run_accounts [OF run_trans [OF t(1) assms(1)]] t assms(3) show ?thesis
    by (intro exI [of _ es'] exI [of _ t]) simp
qed

theorem tcp_session_can_answer_all_witness:
  "\<exists>bytes es s es' t. session_run (tcpSession (\<lambda>t. Inr []) (one_handler pong) ''s'') (newSession bytes 0) es s \<and>
     receivedOf es = [MReq ping] \<and> handledOf es = [] \<and> session_run (tcpSession (\<lambda>t. Inr []) (one_handler pong) ''s'') s es' t \<and>
     mset (map fst (handledOf (es @ es'))) = mset (receivedOf (es @ es'))"
proof -
  let ?c = "tcpSession (\<lambda>t. Inr []) (one_handler pong) ''s''"
  obtain bytes where b: "ParseBytes [] bytes = Inr (MReq ping)" by (rule ping_bytes)
  then obtain rest where "DecodeMessage [] bytes = (Inr (MReq ping), rest)"
    by (auto simp: ParseBytes_def prod_eq_iff intro: prod_eqI)
  then have read: "decodeRead bytes = (ReadMsg (MReq ping), rest)" by (simp add: decodeRead_Msg)
  let ?s = "(newSession bytes (0 :: nat))\<lparr>input := rest, goroutines := [GoReceived (MReq ping)]\<rparr> :: (string, message, nat) session"
  have run: "session_run ?c (newSession bytes 0) [EvReceived (MReq ping)] ?s"
    by (rule run_one, rule session_step.recv) (simp_all add: newSession_def recvBody_def tcpSession_def read)
  let ?res = "MRes (rawResultMessage (GInt 1) (GBool True) None)"
  have "msg_ok ?res" "sendable ?res" by (simp_all add: raw_defs id_ok_def max_depth_def)
  then have "marshals ?res" using ParseBytes_MessageBytes [of ?res "[]"] by (auto simp: marshals_def)
  moreover have "msgReceived (\<lambda>t. Inr []) (one_handler pong) (tcpRequest ''s'' (MReq ping)) w =
      (Inr [GoSend ?res] :: panic_value + message goroutine list, Suc w)" for w
    by (simp add: msgReceived_def request_defs feed_eval NewResultMessage_def raw_defs)
  ultimately have "answerable ?c True (GoReceived (MReq ping))"
    by (simp add: answerable_def tcpSession_def)
  with tcp_session_can_answer_all [OF run] obtain es' t where "session_run ?c ?s es' t"
    "mset (map fst (handledOf ([EvReceived (MReq ping)] @ es'))) = mset (receivedOf ([EvReceived (MReq ping)] @ es'))"
    by (auto simp: newSession_def alive_def droppedOf_def)
  with run show ?thesis
    by (intro exI [of _ bytes] exI [of _ "[EvReceived (MReq ping)]"] exI [of _ ?s] exI [of _ es'] exI [of _ t])
      (simp add: receivedOf_def handledOf_def)
qed

end
