(* ===== verification/Servers.thy ===== *)
theory Servers
  imports Sessions
begin

text \<open>
  The servers around the sessions: \<^verbatim>\<open>TCPServer\<close> and \<^verbatim>\<open>VsockServer\<close> with \<^verbatim>\<open>Start\<close>, \<^verbatim>\<open>Stop\<close> and one goroutine per
  connection, and the construction and \<^verbatim>\<open>ServeHTTP\<close> of the HTTP/2, websocket and gateway handlers. A server runs its sessions
  over one world; a run of the server projects to a run of each of its sessions.
\<close>

section \<open>The HTTP handlers\<close>

definition actorOrNew :: "'w actor option \<Rightarrow> 'w actor" where
  "actorOrNew actor = (case actor of None \<Rightarrow> NewActor | Some a \<Rightarrow> a)"

record 'w http2_handler =
  h2Actor :: "'w actor"
  h2SpawnGoroutine :: bool
  UseHttp2C :: bool

record 'w ws_handler =
  wsActor :: "'w actor"
  wsSpawnGoroutine :: bool

definition NewHttp2Handler :: "'w actor option \<Rightarrow> 'w http2_handler" where
  "NewHttp2Handler actor = \<lparr>h2Actor = actorOrNew actor, h2SpawnGoroutine = True, UseHttp2C = False\<rparr>"

definition NewWSHandler :: "'w actor option \<Rightarrow> 'w ws_handler" where
  "NewWSHandler actor = \<lparr>wsActor = actorOrNew actor, wsSpawnGoroutine = True\<rparr>"

text \<open>The HTTP/1 handler that \<^verbatim>\<open>ServeHTTP\<close> falls back to serves the same actor.\<close>

definition FallbackHandler :: "'w http2_handler \<Rightarrow> 'w actor" where
  "FallbackHandler h = NewHttp1Handler (Some (h2Actor h))"

text \<open>How a request is served: it is answered, or the connection is handed to a session.\<close>

datatype 'w served_as =
    Answered "(panic_value + response_writer) \<times> 'w"
  | Http2Streams "panic_value + response_writer"
  | WsStreams "ws_frame list"

type_synonym 'w serve_fn = "http_request \<Rightarrow> response_writer \<Rightarrow> 'w \<Rightarrow> 'w served_as"

definition serveHttp1 :: "(template \<Rightarrow> go_error + gmap) \<Rightarrow> 'w actor \<Rightarrow> 'w serve_fn" where
  "serveHttp1 ms a r w world = Answered (ServeHTTP ms a r w world)"

definition serveHttp2 :: "(template \<Rightarrow> go_error + gmap) \<Rightarrow> bool \<Rightarrow> 'w http2_handler \<Rightarrow> 'w serve_fn" where
  "serveHttp2 ms flusher h r w world =
     (case http2ServeHTTP ms (FallbackHandler h) (UseHttp2C h) flusher r w world of
        H2Fallback res \<Rightarrow> Answered res
      | H2NotSupported res \<Rightarrow> Answered res
      | H2Session res \<Rightarrow> Http2Streams (fst res))"

text \<open>\<open>upgrade\<close> is \<^verbatim>\<open>upgrader.Upgrade\<close>: the frames of the websocket, or what it left in the writer when it failed.\<close>

definition serveWS :: "(http_request \<Rightarrow> response_writer \<Rightarrow> response_writer + ws_frame list) \<Rightarrow> 'w serve_fn" where
  "serveWS upgrade r w world =
     (case upgrade r w of
        Inl w' \<Rightarrow> Answered (served (respond 400 ''ws upgrade failed'' w') world)
      | Inr frames \<Rightarrow> WsStreams frames)"

text \<open>
  \<^verbatim>\<open>Http2CHandler\<close>: the field is set and the handler is wrapped by \<^verbatim>\<open>h2c.NewHandler\<close>, the argument \<open>h2c\<close>.
\<close>

definition Http2CHandler ::
  "('w serve_fn \<Rightarrow> 'w serve_fn) \<Rightarrow> (template \<Rightarrow> go_error + gmap) \<Rightarrow> bool \<Rightarrow> 'w http2_handler \<Rightarrow> 'w serve_fn" where
  "Http2CHandler h2c ms flusher h = h2c (serveHttp2 ms flusher (h\<lparr>UseHttp2C := True\<rparr>))"

definition NewGatewayHandler ::
  "('w serve_fn \<Rightarrow> 'w serve_fn) \<Rightarrow> (http_request \<Rightarrow> response_writer \<Rightarrow> response_writer + ws_frame list) \<Rightarrow>
     (template \<Rightarrow> go_error + gmap) \<Rightarrow> bool \<Rightarrow> 'w actor option \<Rightarrow> bool \<Rightarrow> ('w, 'w served_as) gateway_handler" where
  "NewGatewayHandler h2c upgrade ms flusher actor insecure =
     (let a = actorOrNew actor in
      \<lparr>h1Handler = serveHttp1 ms (NewHttp1Handler (Some a)),
       wsHandler = serveWS upgrade,
       h2Handler = (if insecure then Http2CHandler h2c ms flusher (NewHttp2Handler (Some a))
                    else serveHttp2 ms flusher (NewHttp2Handler (Some a)))\<rparr>)"

section \<open>A server and its connections\<close>

text \<open>What \<^verbatim>\<open>Accept\<close> gives: a connection with the input its peer will send, a \<^verbatim>\<open>*net.OpError\<close>, or another error.\<close>

datatype 'i accepted = AcceptConn 'i | AcceptOpError | AcceptError go_error

text \<open>
  A connection is what \<^verbatim>\<open>processConnection\<close> was called with (\<open>'c\<close>: the session's id, and the HTTP request where there is
  one), the input, and the session. \<open>startLoop\<close> says where \<^verbatim>\<open>Start\<close> is: it is not running, at the top of its loop, or in \<^verbatim>\<open>Accept\<close>.
\<close>

datatype start_loop = NotStarted | AtTop | InAccept

record ('c, 'i, 'p, 'w) server =
  svActor :: "'w actor"
  listener :: bool
  startLoop :: start_loop
  startResults :: "go_error option list"
  conns :: "('c \<times> 'i \<times> ('i, 'p, 'w) session) list"
  gworld :: 'w

definition NewTCPServer :: "'w actor option \<Rightarrow> 'w \<Rightarrow> (string, string, message, 'w) server" where
  "NewTCPServer actor w =
     \<lparr>svActor = actorOrNew actor, listener = False, startLoop = NotStarted, startResults = [], conns = [], gworld = w\<rparr>"

definition NewVsockServer :: "'w actor option \<Rightarrow> 'w \<Rightarrow> (string, string, message, 'w) server" where
  "NewVsockServer actor w =
     \<lparr>svActor = actorOrNew actor, listener = False, startLoop = NotStarted, startResults = [], conns = [], gworld = w\<rparr>"

text \<open>\<^verbatim>\<open>Start\<close> up to its loop, with the result of \<^verbatim>\<open>net.Listen\<close>.\<close>

definition Start :: "go_error option \<Rightarrow> ('c, 'i, 'p, 'w) server \<Rightarrow> ('c, 'i, 'p, 'w) server" where
  "Start listenErr s =
     (case listenErr of
        Some err \<Rightarrow> s\<lparr>startResults := startResults s @ [Some err]\<rparr>
      | None \<Rightarrow> s\<lparr>listener := True, startLoop := AtTop\<rparr>)"

definition startReturns :: "go_error option \<Rightarrow> ('c, 'i, 'p, 'w) server \<Rightarrow> ('c, 'i, 'p, 'w) server" where
  "startReturns r s = s\<lparr>startLoop := NotStarted, startResults := startResults s @ [r]\<rparr>"

definition processConnection :: "'c \<Rightarrow> 'i \<Rightarrow> ('c, 'i, 'p, 'w) server \<Rightarrow> ('c, 'i, 'p, 'w) server" where
  "processConnection c i s = s\<lparr>conns := conns s @ [(c, i, newSession i (gworld s))]\<rparr>"

text \<open>
  The two parts of a turn of the loop: the listener is looked up, and \<^verbatim>\<open>Accept\<close> returns. In between \<^verbatim>\<open>Stop\<close> may
  run; \<open>label\<close> is \<^verbatim>\<open>tcp.Accept\<close> or \<^verbatim>\<open>vsock.Accept\<close>.
\<close>

definition loopTop :: "('c, 'i, 'p, 'w) server \<Rightarrow> ('c, 'i, 'p, 'w) server" where
  "loopTop s = (if listener s then s\<lparr>startLoop := InAccept\<rparr> else startReturns None s)"

definition acceptReturns :: "string \<Rightarrow> 'c \<Rightarrow> 'i accepted \<Rightarrow> ('c, 'i, 'p, 'w) server \<Rightarrow> ('c, 'i, 'p, 'w) server" where
  "acceptReturns label c r s =
     (case r of
        AcceptConn i \<Rightarrow> processConnection c i (s\<lparr>startLoop := AtTop\<rparr>)
      | AcceptOpError \<Rightarrow> startReturns None s
      | AcceptError err \<Rightarrow> startReturns (Some (ErrWrap label err)) s)"

definition Stop :: "('c, 'i, 'p, 'w) server \<Rightarrow> ('c, 'i, 'p, 'w) server" where
  "Stop s = s\<lparr>listener := False\<rparr>"

datatype 'p server_event = SvStart | SvTop | SvAccept | SvStop | SvConn nat "'p event"

definition running :: "('c, 'i, 'p, 'w) server \<Rightarrow> bool" where
  "running s \<longleftrightarrow> (\<forall>(c, i, se) \<in> set (conns s). crashed se = None)"

text \<open>
  The interleavings of the server's goroutines: \<^verbatim>\<open>Start\<close>, its loop, \<^verbatim>\<open>Stop\<close>, and a step of a session, which acts on
  the world all sessions share. A panic in one session ends them all.
\<close>

inductive server_step ::
  "string \<Rightarrow> ('w actor \<Rightarrow> 'c \<Rightarrow> ('i, 'p, 'w) session_code) \<Rightarrow> ('c, 'i, 'p, 'w) server \<Rightarrow> 'p server_event \<Rightarrow>
     ('c, 'i, 'p, 'w) server \<Rightarrow> bool"
  for label :: string and code :: "'w actor \<Rightarrow> 'c \<Rightarrow> ('i, 'p, 'w) session_code" where
  start: "running s \<Longrightarrow> startLoop s = NotStarted \<Longrightarrow> server_step label code s SvStart (Start listenErr s)"
| top: "running s \<Longrightarrow> startLoop s = AtTop \<Longrightarrow> server_step label code s SvTop (loopTop s)"
| accept: "running s \<Longrightarrow> startLoop s = InAccept \<Longrightarrow> server_step label code s SvAccept (acceptReturns label c r s)"
| stop: "running s \<Longrightarrow> server_step label code s SvStop (Stop s)"
| conn: "running s \<Longrightarrow> k < length (conns s) \<Longrightarrow> conns s ! k = (c, i, se) \<Longrightarrow>
    session_step (code (svActor s) c) (se\<lparr>sworld := gworld s\<rparr>) e se' \<Longrightarrow>
    server_step label code s (SvConn k e) (s\<lparr>conns := (conns s)[k := (c, i, se')], gworld := sworld se'\<rparr>)"

inductive server_run ::
  "string \<Rightarrow> ('w actor \<Rightarrow> 'c \<Rightarrow> ('i, 'p, 'w) session_code) \<Rightarrow> ('c, 'i, 'p, 'w) server \<Rightarrow> 'p server_event list \<Rightarrow>
     ('c, 'i, 'p, 'w) server \<Rightarrow> bool"
  for label :: string and code :: "'w actor \<Rightarrow> 'c \<Rightarrow> ('i, 'p, 'w) session_code" where
  srun_nil: "server_run label code s [] s"
| srun_step: "server_run label code s evs t \<Longrightarrow> server_step label code t e u \<Longrightarrow> server_run label code s (evs @ [e]) u"

inductive_cases server_stepE: "server_step label code s e s'"

text \<open>What happened on one connection, and the part of a session's events that is visible.\<close>

definition connEvents :: "nat \<Rightarrow> 'p server_event list \<Rightarrow> 'p event list" where
  "connEvents k evs = concat (map (\<lambda>e. case e of SvConn j x \<Rightarrow> if j = k then [x] else [] | _ \<Rightarrow> []) evs)"

definition visible :: "'p event list \<Rightarrow> 'p event list" where
  "visible es = filter (\<lambda>e. e \<noteq> EvInternal \<and> e \<noteq> EvOthers) es"

definition closings :: "'p event list \<Rightarrow> nat" where
  "closings es = length (filter (\<lambda>e. e = EvClosed) es)"

section \<open>A run of the server is a run of each session\<close>

lemma connEvents_simps [simp]:
  "connEvents k [] = []" "connEvents k (evs @ evs') = connEvents k evs @ connEvents k evs'"
  "connEvents k [SvStart] = []" "connEvents k [SvTop] = []" "connEvents k [SvAccept] = []" "connEvents k [SvStop] = []"
  "connEvents k [SvConn j x] = (if j = k then [x] else [])"
  by (simp_all add: connEvents_def)

lemma visible_simps [simp]: "visible [] = []" "visible (es @ es') = visible es @ visible es'" "visible [EvInternal] = []"
  "visible [EvOthers] = []"
  by (simp_all add: visible_def)

lemma views_visible [simp]:
  "receivedOf (visible es) = receivedOf es" "sentOf (visible es) = sentOf es" "pushedOf (visible es) = pushedOf es"
  "closings (visible es) = closings es"
  by (induction es) (auto simp: visible_def run_views closings_def)

lemma same_views:
  "visible es = visible es' \<Longrightarrow>
     receivedOf es = receivedOf es' \<and> sentOf es = sentOf es' \<and> pushedOf es = pushedOf es' \<and> closings es = closings es'"
  by (metis views_visible)

lemma server_run_actor:
  "server_run label code s evs t \<Longrightarrow> svActor t = svActor s"
  by (induction rule: server_run.induct)
     (auto elim!: server_stepE simp: Start_def loopTop_def acceptReturns_def startReturns_def processConnection_def Stop_def
       split: option.splits accepted.splits if_splits)

text \<open>Every step keeps the connections, adds one at the end, or makes a step of one.\<close>

lemma server_step_cases:
  assumes "server_step label code s e t"
  obtains (same) "conns t = conns s" "\<And>k. connEvents k [e] = []" "gworld t = gworld s"
  | (new) c i where "conns t = conns s @ [(c, i, newSession i (gworld s))]" "\<And>k. connEvents k [e] = []" "gworld t = gworld s"
  | (at) k c i se x se' where "k < length (conns s)" "conns s ! k = (c, i, se)" "crashed se = None" "e = SvConn k x"
      "session_step (code (svActor s) c) (se\<lparr>sworld := gworld s\<rparr>) x se'" "conns t = (conns s)[k := (c, i, se')]"
      "gworld t = sworld se'"
  using assms
proof cases
  case (start listenErr)
  then show thesis by (intro same) (auto simp: Start_def split: option.splits)
next
  case top
  then show thesis by (intro same) (auto simp: loopTop_def startReturns_def)
next
  case (accept c r)
  then show thesis
    by (cases r) (auto intro: same new simp: acceptReturns_def startReturns_def processConnection_def)
next
  case stop
  then show thesis by (intro same) (auto simp: Stop_def)
next
  case (conn k c i se x se')
  then have "(c, i, se) \<in> set (conns s)" by (metis nth_mem)
  with conn(3) have "crashed se = None" by (auto simp: running_def)
  with conn at show thesis by auto
qed

lemma conn_run:
  assumes "server_run label code s evs t" "conns s = []"
  shows "(\<forall>k c i se. k < length (conns t) \<longrightarrow> conns t ! k = (c, i, se) \<longrightarrow>
      (\<exists>w es. session_run (code (svActor s) c) (newSession i w) es se \<and> visible es = visible (connEvents k evs))) \<and>
    (\<forall>k \<ge> length (conns t). connEvents k evs = [])"
  using assms
proof (induction rule: server_run.induct)
  case (srun_nil s)
  then show ?case by simp
next
  case (srun_step s evs t e u)
  then have IH: "\<And>k c i se. k < length (conns t) \<Longrightarrow> conns t ! k = (c, i, se) \<Longrightarrow>
      \<exists>w es. session_run (code (svActor s) c) (newSession i w) es se \<and> visible es = visible (connEvents k evs)"
    "\<forall>k \<ge> length (conns t). connEvents k evs = []" by blast+
  from srun_step.hyps(2) show ?case
  proof (cases rule: server_step_cases)
    case same
    with IH show ?thesis by simp
  next
    case (new c i)
    have "\<exists>w es. session_run (code (svActor s) c) (newSession i w) es (newSession i (gworld t)) \<and> visible es = []"
      by (intro exI [of _ "gworld t"] exI [of _ "[]"]) (simp add: run_nil)
    with new IH show ?thesis by (auto simp: nth_append less_Suc_eq)
  next
    case (at k c i se x se')
    obtain w es where run: "session_run (code (svActor s) c) (newSession i w) es se" "visible es = visible (connEvents k evs)"
      using IH(1) [OF at(1,2)] by blast
    have "session_step (code (svActor s) c) se EvOthers (se\<lparr>sworld := gworld t\<rparr>)" for t :: "('b, 'c, 'd, 'a) server"
      by (rule session_step.others [OF at(3)])
    from run_snoc [OF run_snoc [OF run(1) this [of t] refl] at(5) [unfolded server_run_actor [OF srun_step.hyps(1)]] refl]
    have "session_run (code (svActor s) c) (newSession i w) ((es @ [EvOthers]) @ [x]) se'" .
    moreover have "visible ((es @ [EvOthers]) @ [x]) = visible (connEvents k (evs @ [e]))"
      using run(2) by (simp add: at(4) del: append_assoc)
    ultimately have "\<exists>w es. session_run (code (svActor s) c) (newSession i w) es se' \<and> visible es = visible (connEvents k (evs @ [e]))"
      by blast
    with at IH show ?thesis by (auto simp: nth_list_update)
  qed
qed

section \<open>Every connection is served by itself\<close>

lemma answers_requests_visible:
  "answers_requests ms a req bytes es se \<Longrightarrow> visible es = visible es' \<Longrightarrow> answers_requests ms a req bytes es' se"
  unfolding answers_requests_def using same_views by metis

lemma server_answers:
  assumes "server_run label code s evs t" "conns s = []" "k < length (conns t)" "conns t ! k = (c, bytes, se)"
    and "\<And>w es. session_run (code (svActor s) c) (newSession bytes w) es se \<Longrightarrow> answers_requests ms a req bytes es se"
  shows "answers_requests ms a req bytes (connEvents k evs) se"
  using conn_run [OF assms(1,2)] assms(3-5) answers_requests_visible by metis

text \<open>
  \<^bold>\<open>C15.\<close> In every interleaving of a server's goroutines, each connection of a TCP or vsock server is answered as if it were
  alone: what was received on it is the decoding of its own bytes, and what was written to it are the replies to its own
  requests, made with its own session, and what the application pushed to its session.
\<close>

theorem servers_isolate_connections:
  "(server_run ''tcp.Accept'' (tcpSession ms) (NewTCPServer act w) evs t \<longrightarrow> k < length (conns t) \<longrightarrow>
     conns t ! k = (sid, bytes, se) \<longrightarrow>
     answers_requests ms (actorOrNew act) (tcpRequest sid) bytes (connEvents k evs) se) \<and>
   (server_run ''vsock.Accept'' (vsockSession ms) (NewVsockServer act w) evs t \<longrightarrow> k < length (conns t) \<longrightarrow>
     conns t ! k = (sid, bytes, se) \<longrightarrow>
     answers_requests ms (actorOrNew act) (vsockRequest sid) bytes (connEvents k evs) se)"
  by (intro conjI impI; erule server_answers)
     (auto simp: NewTCPServer_def NewVsockServer_def intro: tcp.session_answers vsock.session_answers)

lemma srun_snoc: "server_run label code s es t \<Longrightarrow> server_step label code t e u \<Longrightarrow> es' = es @ [e] \<Longrightarrow> server_run label code s es' u"
  using srun_step by blast

text \<open>A server that has accepted two connections, the second of which sends a request.\<close>

abbreviation two_connections_events :: "message \<Rightarrow> message server_event list" where
  "two_connections_events m \<equiv> [SvStart, SvTop, SvAccept, SvTop, SvAccept, SvConn 1 (EvReceived m)]"

lemma accepts:
  assumes "server_run label code s es t" "running t" "startLoop t = AtTop" "listener t"
  shows "server_run label code s (es @ [SvTop, SvAccept]) (t\<lparr>conns := conns t @ [(c, i, newSession i (gworld t))]\<rparr>)"
proof -
  let ?t = "t\<lparr>startLoop := InAccept\<rparr>"
  have "server_run label code s (es @ [SvTop]) ?t"
    using srun_step [OF assms(1) server_step.top [OF assms(2,3)]] assms(4) by (simp add: loopTop_def)
  moreover have "acceptReturns label c (AcceptConn i) ?t = t\<lparr>conns := conns t @ [(c, i, newSession i (gworld t))]\<rparr>"
    using assms(3) by (cases t) (simp add: acceptReturns_def processConnection_def)
  ultimately show ?thesis
    using srun_step [of label code s "es @ [SvTop]" ?t, OF _ server_step.accept [of ?t label code c "AcceptConn i"]] assms(2)
    by (simp add: running_def)
qed

lemma two_connections:
  assumes "DecodeMessage [] bytes = (Inr m, rest)" "a = actorOrNew act"
  shows "\<exists>t se. server_run ''tcp.Accept'' (tcpSession ms) (NewTCPServer act w) (two_connections_events m) t \<and>
    conns t = [(''s0'', [], newSession [] w), (''s1'', bytes, se)] \<and> connOpen se"
proof -
  let ?run = "server_run ''tcp.Accept'' (tcpSession ms) (NewTCPServer act w)"
  let ?s0 = "NewTCPServer act w" and ?c0 = "(''s0'', [], newSession [] w)"
  let ?se = "(newSession bytes w)\<lparr>input := rest, goroutines := [GoReceived m]\<rparr>"
  let ?s1 = "?s0\<lparr>listener := True, startLoop := AtTop\<rparr>"
  let ?s3 = "?s1\<lparr>conns := [?c0, (''s1'', bytes, newSession bytes w)]\<rparr>"
  let ?s4 = "?s3\<lparr>conns := [?c0, (''s1'', bytes, ?se)]\<rparr>"
  note defs = NewTCPServer_def running_def newSession_def
  have "?run [SvStart] ?s1"
    by (rule srun_snoc [OF srun_nil server_step.start [where listenErr = None, unfolded Start_def option.case]]) (simp_all add: defs)
  from accepts [OF this, of "''s0''" "[]"]
  have "?run [SvStart, SvTop, SvAccept] (?s1\<lparr>conns := [?c0]\<rparr>)" by (simp add: defs)
  from accepts [OF this, of "''s1''" bytes]
  have "?run [SvStart, SvTop, SvAccept, SvTop, SvAccept] ?s3" by (simp add: defs)
  moreover have "session_step (tcpSession ms a ''s1'') (newSession bytes w) (EvReceived m) ?se"
    by (rule session_step.recv) (use assms in \<open>simp_all add: newSession_def recvBody_def tcpSession_def decodeRead_def\<close>)
  then have "server_step ''tcp.Accept'' (tcpSession ms) ?s3 (SvConn 1 (EvReceived m)) ?s4"
    using server_step.conn [of ?s3 1 "''s1''" bytes "newSession bytes w" "tcpSession ms" "EvReceived m" ?se "''tcp.Accept''"] assms(2)
    by (simp add: defs)
  ultimately have "?run (two_connections_events m) ?s4" by (rule srun_snoc) simp
  then show ?thesis by (intro exI [of _ ?s4] exI [of _ ?se]) (simp add: defs)
qed

lemma ping_connections:
  obtains bytes t se where "server_run ''tcp.Accept'' (tcpSession (\<lambda>t. Inr [])) (NewTCPServer (Some (one_handler pong)) 0)
      (two_connections_events (MReq ping)) t"
    "conns t = [(''s0'', [], newSession [] 0), (''s1'', bytes, se)]" "connOpen se"
proof -
  obtain bytes where b: "ParseBytes [] bytes = Inr (MReq ping)" by (rule ping_bytes)
  then obtain rest where "DecodeMessage [] bytes = (Inr (MReq ping), rest)"
    by (auto simp: ParseBytes_def prod_eq_iff intro: prod_eqI)
  from two_connections [OF this refl, where act = "Some (one_handler pong)" and ms = "\<lambda>t. Inr []" and w = 0] that
  show thesis by blast
qed

theorem servers_isolate_connections_witness:
  "\<exists>bytes evs t se. server_run ''tcp.Accept'' (tcpSession (\<lambda>t. Inr [])) (NewTCPServer (Some (one_handler pong)) 0) evs t \<and>
     length (conns t) = 2 \<and> conns t ! 1 = (''s1'', bytes, se) \<and> connEvents 0 evs = [] \<and> receivedOf (connEvents 1 evs) = [MReq ping] \<and>
     answers_requests (\<lambda>t. Inr []) (actorOrNew (Some (one_handler pong))) (tcpRequest ''s1'') bytes (connEvents 1 evs) se"
proof -
  let ?es = "two_connections_events (MReq ping)"
  obtain bytes t se where t: "server_run ''tcp.Accept'' (tcpSession (\<lambda>t. Inr [])) (NewTCPServer (Some (one_handler pong)) 0) ?es t"
    "conns t = [(''s0'', [], newSession [] 0), (''s1'', bytes, se)]" by (rule ping_connections)
  with servers_isolate_connections [of "\<lambda>t. Inr []" "Some (one_handler pong)" 0 ?es t 1 "''s1''" bytes se]
  show ?thesis
    by (intro exI [of _ bytes] exI [of _ ?es] exI [of _ t] exI [of _ se]) (auto simp: connEvents_def receivedOf_def)
qed

section \<open>A connection is closed once\<close>

lemma closings_simps [simp]: "closings [] = 0" "closings (es @ es') = closings es + closings es'"
  by (simp_all add: closings_def)

text \<open>Whether \<^verbatim>\<open>HandleClose\<close> has run for a session, and how often it is still to run.\<close>

definition told :: "('i, 'p, 'w) session \<Rightarrow> bool" where
  "told s \<longleftrightarrow> \<not> waiting s \<and> TellClosed \<notin> set (cleanups s)"

definition owed :: "('i, 'p, 'w) session_code \<Rightarrow> ('i, 'p, 'w) session \<Rightarrow> nat" where
  "owed code s = (if waiting s then count_list (afterWait code) TellClosed else 0) + count_list (cleanups s) TellClosed"

lemma closing_step:
  assumes "session_step code s e u" "waiting s \<Longrightarrow> cleanups s = []"
  shows "closings [e] + owed code u = owed code s" and "waiting u \<Longrightarrow> cleanups u = []"
  using assms
  by (auto elim!: session_stepE
      simp: closings_def owed_def recvBody_def goBody_def sendBody_def waitBody_def closeBody_def pushBody_def crash_def Let_def
      split: if_splits list.splits sum.splits prod.splits read_result.splits goroutine.splits cleanup.splits)

text \<open>
  A step changes the world by handling a message or by telling the actor of the end, of all steps but those of others.
\<close>

lemma world_step:
  assumes "session_step code s e u" "e \<noteq> EvOthers"
    and "\<And>b p w r w'. received code b p w = (r, w') \<Longrightarrow> n w' = n w" "\<And>w. n (onClose code w) = n w + weight"
  shows "n (sworld u) = n (sworld s) + closings [e] * weight"
  using assms
  by (auto elim!: session_stepE
      simp: closings_def recvBody_def goBody_def sendBody_def waitBody_def closeBody_def pushBody_def crash_def Let_def
      split: if_splits list.splits sum.splits prod.splits read_result.splits goroutine.splits cleanup.splits)

lemma closing_run:
  assumes "session_run code s es t" "waiting s \<Longrightarrow> cleanups s = []"
  shows "closings es + owed code t = owed code s \<and> (waiting t \<longrightarrow> cleanups t = [])"
  using assms
proof (induction rule: session_run.induct)
  case (run_step s es t e u)
  then show ?case using closing_step [OF run_step.hyps(2)] by auto
qed simp

text \<open>What a server's run relies on: each session is told of its end once.\<close>

lemma srun_trans: "server_run label code t evs' u \<Longrightarrow> server_run label code s evs t \<Longrightarrow> server_run label code s (evs @ evs') u"
  by (induction rule: server_run.induct) (auto intro: srun_nil srun_snoc)

locale tells_once =
  fixes label :: string and code :: "'w actor \<Rightarrow> 'c \<Rightarrow> ('i, 'p, 'w) session_code"
  assumes once: "count_list (afterWait (code a c)) TellClosed = 1"
begin

lemma fresh_owed [simp]: "owed (code a c) (newSession i w) = 1"
  by (simp add: owed_def newSession_def once)

lemma conn_told:
  assumes "server_run label code s evs t" "conns s = []" "k < length (conns t)" "conns t ! k = (c, i, se)"
  shows "closings (connEvents k evs) = (if told se then 1 else 0)"
    and "owed (code (svActor s) c) se = (if told se then 0 else 1)" and "waiting se \<Longrightarrow> cleanups se = []"
proof -
  obtain w es where run: "session_run (code (svActor s) c) (newSession i w) es se" "visible es = visible (connEvents k evs)"
    using conn_run [OF assms(1,2)] assms(3,4) by blast
  note c = closing_run [OF run(1)]
  have 1: "closings es + owed (code (svActor s) c) se = 1" "waiting se \<Longrightarrow> cleanups se = []"
    using c by (simp_all add: newSession_def [of i w, THEN arg_cong [of _ _ cleanups]])
  have "told se \<longleftrightarrow> owed (code (svActor s) c) se = 0"
    using 1(2) once [of "svActor s" c] by (auto simp: told_def owed_def count_list_0_iff)
  then show "closings (connEvents k evs) = (if told se then 1 else 0)" "owed (code (svActor s) c) se = (if told se then 0 else 1)"
    using 1(1) same_views [OF run(2)] by auto
  show "waiting se \<Longrightarrow> cleanups se = []" by (rule 1(2))
qed

text \<open>What is left to do up to the telling can be done, and only the telling changes the world.\<close>

lemma can_tell:
  assumes "running t" "k < length (conns t)" "conns t ! k = (c, i, se)" "cleanups se = pre @ TellClosed # rest"
    "TellClosed \<notin> set pre" "\<not> waiting se"
  shows "\<exists>evs u se'. server_run label code t evs u \<and> conns u ! k = (c, i, se') \<and> cleanups se' = rest \<and> \<not> waiting se' \<and>
    gworld u = onClose (code (svActor t) c) (gworld t)"
  using assms
proof (induction pre arbitrary: t se)
  case Nil
  let ?c = "code (svActor t) c" and ?se = "se\<lparr>sworld := gworld t\<rparr>"
  let ?se' = "?se\<lparr>cleanups := rest, sworld := onClose ?c (gworld t)\<rparr>"
  have "(c, i, se) \<in> set (conns t)" using Nil.prems(2,3) by (metis nth_mem)
  then have "crashed se = None" using Nil.prems(1) by (auto simp: running_def)
  then have "session_step ?c ?se EvClosed ?se'"
    by (intro session_step.close) (use Nil.prems(4) in \<open>simp_all add: closeBody_def\<close>)
  from srun_snoc [OF srun_nil server_step.conn [of t k c i se code EvClosed ?se' label, OF Nil.prems(1-3) this] refl] show ?case
    using Nil.prems(2,6) by fastforce
next
  case (Cons d pre)
  let ?c = "code (svActor t) c" and ?se = "se\<lparr>sworld := gworld t\<rparr>"
  have se: "(c, i, se) \<in> set (conns t)" using Cons.prems(2,3) by (metis nth_mem)
  then have "crashed se = None" using Cons.prems(1) by (auto simp: running_def)
  moreover have "\<exists>e se1. closeBody ?c ?se = Some (e, se1) \<and> cleanups se1 = pre @ TellClosed # rest \<and> sworld se1 = gworld t \<and>
      crashed se1 = crashed se \<and> waiting se1 = waiting se"
    using Cons.prems(4,5) by (cases d) (simp_all add: closeBody_def)
  ultimately obtain e se1 where se1: "closeBody ?c ?se = Some (e, se1)" "cleanups se1 = pre @ TellClosed # rest" "sworld se1 = gworld t"
    "crashed se1 = None" "\<not> waiting se1" "crashed se = None"
    using Cons.prems(6) by auto
  have st: "session_step ?c ?se e se1" by (rule session_step.close) (simp_all add: se1)
  let ?t = "t\<lparr>conns := (conns t)[k := (c, i, se1)], gworld := sworld se1\<rparr>"
  have 1: "server_run label code t [SvConn k e] ?t"
    by (rule srun_snoc [OF srun_nil server_step.conn [of t k c i se code e se1 label, OF Cons.prems(1-3) st]]) simp
  have "running ?t"
    using Cons.prems(1) se1(4) set_update_subset_insert [of "conns t" k "(c, i, se1)"] by (fastforce simp: running_def)
  then obtain evs u se' where "server_run label code ?t evs u" "conns u ! k = (c, i, se')" "cleanups se' = rest" "\<not> waiting se'"
    "gworld u = onClose ?c (gworld t)"
    using Cons.IH [of ?t se1] Cons.prems(2,5) se1 by auto
  with srun_trans [OF this(1) 1] show ?case by blast
qed

lemma run_world:
  assumes "server_run label code s evs t" "conns s = []" "\<forall>k. EvOthers \<notin> set (connEvents k evs)"
    and "\<And>c b p w r w'. received (code (svActor s) c) b p w = (r, w') \<Longrightarrow> n w' = n w"
    and "\<And>c w. n (onClose (code (svActor s) c) w) = n w + weight c"
  shows "n (gworld t) = n (gworld s) + (\<Sum>k<length (conns t). closings (connEvents k evs) * weight (fst (conns t ! k)))"
  using assms
proof (induction rule: server_run.induct)
  case (srun_nil s)
  then show ?case by simp
next
  case (srun_step s evs t e u)
  then have IH: "n (gworld t) = n (gworld s) + (\<Sum>k<length (conns t). closings (connEvents k evs) * weight (fst (conns t ! k)))"
    by auto
  have none: "\<forall>k \<ge> length (conns t). connEvents k evs = []" using conn_run [OF srun_step.hyps(1) srun_step.prems(1)] by blast
  from srun_step.hyps(2) show ?case
  proof (cases rule: server_step_cases)
    case same
    with IH show ?thesis by simp
  next
    case (new c i)
    with IH none show ?thesis by (simp add: nth_append)
  next
    case (at k c i se x se')
    have "x \<noteq> EvOthers" using srun_step.prems(2) [rule_format, of k] at(4) by auto
    then have "n (gworld u) = n (gworld t) + closings [x] * weight c"
      using world_step [OF at(5), of n "weight c"] srun_step.prems(3,4) at(7) by (simp add: server_run_actor [OF srun_step.hyps(1)])
    moreover have "(\<Sum>j<length (conns u). closings (connEvents j (evs @ [e])) * weight (fst (conns u ! j))) =
        (\<Sum>j<length (conns t). closings (connEvents j evs) * weight (fst (conns t ! j)) + (if k = j then closings [x] * weight c else 0))"
      using at(1,2,4,6) by (intro sum.cong) (auto simp: nth_list_update add_mult_distrib)
    ultimately show ?thesis using IH at(1) by (simp add: sum.distrib)
  qed
qed

lemma told_sum:
  assumes "server_run label code s evs t" "conns s = []"
  shows "(\<Sum>k<length (conns t). closings (connEvents k evs) * weight (fst (conns t ! k))) =
    (\<Sum>(c, i, se)\<leftarrow>conns t. if told se then weight c else (0 :: nat))"
proof -
  have "closings (connEvents k evs) * weight (fst (conns t ! k)) = (case conns t ! k of (c, i, se) \<Rightarrow> if told se then weight c else 0)"
    if "k < length (conns t)" for k
    using conn_told(1) [OF assms that] by (auto split: prod.split)
  then show ?thesis by (simp add: sum_list_sum_nth atLeast0LessThan)
qed

lemma told_later:
  assumes "server_run label code s evs t" "conns s = []" "k < length (conns t)" "conns t ! k = (c, i, se)"
    and "running t" "\<not> waiting se" "\<not> told se"
  shows "\<exists>evs' u se'. server_run label code t evs' u \<and> conns u ! k = (c, i, se') \<and> told se' \<and>
    gworld u = onClose (code (svActor s) c) (gworld t)"
proof -
  have "TellClosed \<in> set (cleanups se)" using assms(6,7) by (simp add: told_def)
  then obtain pre rest where p: "cleanups se = pre @ TellClosed # rest" "TellClosed \<notin> set pre" by (metis split_list_first)
  have "owed (code (svActor s) c) se = 1" using conn_told(2) [OF assms(1-4)] assms(7) by simp
  then have "TellClosed \<notin> set rest" using p assms(6) by (simp add: owed_def count_list_0_iff)
  with can_tell [OF assms(5,3,4) p assms(6)] show ?thesis
    by (fastforce simp: told_def server_run_actor [OF assms(1)])
qed

end

section \<open>The send loop that stays\<close>

text \<open>
  When the peer of a TCP or vsock connection has closed it, the session ends with its connection closed and the actor told,
  but its send loop waits for ever on a channel nobody sends to: none of the session's loops has a step, and only the end
  of the server's own context, or the application, can wake it. So each connection leaves a goroutine behind.
\<close>

definition loopsBlocked :: "('i, 'p, 'w) session_code \<Rightarrow> ('i, 'p, 'w) session \<Rightarrow> bool" where
  "loopsBlocked code s \<longleftrightarrow> recvBody code s = None \<and> goroutines s = [] \<and> pushing s = [] \<and> sendBody code s = None \<and>
     waitBody code s = None \<and> closeBody code s = None"

lemma send_loop_stays:
  assumes "readInput code [] = (ReadEnd, [])" "afterWait code = [CloseConn, TellClosed]"
  shows "\<exists>s. session_run code (newSession [] w) [EvInternal, EvInternal, EvInternal, EvClosed] s \<and> loopsBlocked code s \<and> sending s \<and>
    \<not> receiving s \<and> \<not> connOpen s \<and> crashed s = None \<and> told s \<and> sworld s = onClose code w"
proof -
  let ?s0 = "newSession [] w"
  let ?s1 = "?s0\<lparr>receiving := False, doneChannel := [None]\<rparr>"
  let ?s2 = "?s1\<lparr>waiting := False, doneChannel := [], cleanups := [CloseConn, TellClosed]\<rparr>"
  let ?s3 = "?s2\<lparr>cleanups := [TellClosed], connOpen := False\<rparr>"
  let ?s4 = "?s3\<lparr>cleanups := [], sworld := onClose code w\<rparr>"
  have 1: "session_step code ?s0 EvInternal ?s1"
    by (rule session_step.recv) (use assms in \<open>simp_all add: newSession_def recvBody_def doneCapacity_def\<close>)
  have 2: "session_step code ?s1 EvInternal ?s2"
    by (rule session_step.wait) (simp_all add: newSession_def waitBody_def assms)
  have 3: "session_step code ?s2 EvInternal ?s3"
    by (rule session_step.close) (simp_all add: newSession_def closeBody_def)
  have 4: "session_step code ?s3 EvClosed ?s4"
    by (rule session_step.close) (simp_all add: newSession_def closeBody_def)
  have "session_run code ?s0 [EvInternal, EvInternal, EvInternal, EvClosed] ?s4"
    by (rule run_snoc [OF run_snoc [OF run_snoc [OF run_one [OF 1] 2 refl] 3 refl] 4]) simp
  then show ?thesis
    by (intro exI [of _ ?s4])
       (simp add: newSession_def loopsBlocked_def recvBody_def sendBody_def waitBody_def closeBody_def told_def)
qed

lemma decodeRead_end: "decodeRead [] = (ReadEnd, [])"
  by (simp add: decodeRead_def DecodeMessage_def decode_into_def decode_def run.simps next_token_def)

theorem ended_session_keeps_send_loop:
  "(\<exists>s. session_run (tcpSession ms a sid) (newSession [] w) [EvInternal, EvInternal, EvInternal, EvClosed] s \<and>
      loopsBlocked (tcpSession ms a sid) s \<and> sending s \<and> \<not> receiving s \<and> \<not> connOpen s \<and> crashed s = None \<and> told s \<and>
      sworld s = HandleClose a sid w) \<and>
   (\<exists>s. session_run (vsockSession ms a sid) (newSession [] w) [EvInternal, EvInternal, EvInternal, EvClosed] s \<and>
      loopsBlocked (vsockSession ms a sid) s \<and> sending s \<and> \<not> receiving s \<and> \<not> connOpen s \<and> crashed s = None \<and> told s \<and>
      sworld s = HandleClose a sid w)"
  using send_loop_stays [of "tcpSession ms a sid" w] send_loop_stays [of "vsockSession ms a sid" w] decodeRead_end
  by (simp add: tcpSession_def vsockSession_def)

section \<open>The end of a session is told once\<close>

text \<open>
  What \<open>closes_once\<close> says of a run of a server without changes of the world from elsewhere: for a measure \<open>n\<close> of the
  world that handling a message keeps and \<^verbatim>\<open>HandleClose\<close> of connection \<open>c\<close> raises by \<open>weight c\<close>, at the end of the run the measure
  has grown by the weights of the sessions whose actor is told, each once. And a session that is not told, and whose \<^verbatim>\<open>wait\<close> has
  returned, can go on to be told.
\<close>

definition closes_once :: "string \<Rightarrow> ('w actor \<Rightarrow> 'c \<Rightarrow> ('i, 'p, 'w) session_code) \<Rightarrow> bool" where
  "closes_once label code \<longleftrightarrow> (\<forall>s evs t. server_run label code s evs t \<longrightarrow> conns s = [] \<longrightarrow>
     (\<forall>n weight. (\<forall>c b p w r w'. received (code (svActor s) c) b p w = (r, w') \<longrightarrow> n w' = (n w :: nat)) \<longrightarrow>
        (\<forall>c w. n (onClose (code (svActor s) c) w) = n w + weight c) \<longrightarrow> (\<forall>k. EvOthers \<notin> set (connEvents k evs)) \<longrightarrow>
        n (gworld t) = n (gworld s) + (\<Sum>(c, i, se)\<leftarrow>conns t. if told se then weight c else 0)) \<and>
     (\<forall>k c i se. k < length (conns t) \<longrightarrow> conns t ! k = (c, i, se) \<longrightarrow>
        closings (connEvents k evs) = (if told se then 1 else 0) \<and>
        (running t \<longrightarrow> \<not> waiting se \<longrightarrow> \<not> told se \<longrightarrow> (\<exists>evs' u se'. server_run label code t evs' u \<and>
           conns u ! k = (c, i, se') \<and> told se' \<and> gworld u = onClose (code (svActor s) c) (gworld t)))))"

context tells_once
begin

lemma closes_once: "closes_once label code"
  unfolding closes_once_def
proof (intro allI impI conjI)
  fix s evs t n weight
  assume h: "server_run label code s evs t" "conns s = []"
    "\<forall>c b p w r w'. received (code (svActor s) c) b p w = (r, w') \<longrightarrow> n w' = (n w :: nat)"
    "\<forall>c w. n (onClose (code (svActor s) c) w) = n w + weight c" "\<forall>k. EvOthers \<notin> set (connEvents k evs)"
  have "n (gworld t) = n (gworld s) + (\<Sum>k<length (conns t). closings (connEvents k evs) * weight (fst (conns t ! k)))"
    by (rule run_world [OF h(1,2,5)]) (use h(3,4) in blast)+
  with told_sum [OF h(1,2)] show "n (gworld t) = n (gworld s) + (\<Sum>(c, i, se)\<leftarrow>conns t. if told se then weight c else 0)" by simp
next
  fix s evs t k c i se
  assume h: "server_run label code s evs t" "conns s = []" "k < length (conns t)" "conns t ! k = (c, i, se)"
  show "closings (connEvents k evs) = (if told se then 1 else 0)" by (rule conn_told(1) [OF h])
  assume "running t" "\<not> waiting se" "\<not> told se"
  with told_later [OF h] show "\<exists>evs' u se'. server_run label code t evs' u \<and> conns u ! k = (c, i, se') \<and> told se' \<and>
      gworld u = onClose (code (svActor s) c) (gworld t)" by blast
qed

end

interpretation tcp_tells: tells_once "''tcp.Accept''" "tcpSession ms" for ms
  by unfold_locales (simp add: tcpSession_def)

interpretation vsock_tells: tells_once "''vsock.Accept''" "vsockSession ms" for ms
  by unfold_locales (simp add: vsockSession_def)

text \<open>The connections of the HTTP handlers: the session's request and id.\<close>

interpretation h2_tells: tells_once label "\<lambda>a (r, sid). http2Session ms a spawn r sid" for label ms spawn
  by unfold_locales (auto simp: http2Session_def split: prod.split)

interpretation ws_tells: tells_once label "\<lambda>a (r, sid). wsSession ms a spawn r sid" for label ms spawn
  by unfold_locales (auto simp: wsSession_def split: prod.split)

text \<open>
  \<^bold>\<open>C29.\<close> On all four streaming servers the actor is told of the end of each session once, whatever else happens: whatever
  \<^verbatim>\<open>HandleClose\<close> adds to the world and handlers leave as it is has been added, at any moment of a run of a server, for
  the sessions that were told, once for each, and for no other; and a session whose \<^verbatim>\<open>wait\<close> has returned can go on to be told.
\<close>

theorem sessions_close_once:
  "closes_once ''tcp.Accept'' (tcpSession ms) \<and> closes_once ''vsock.Accept'' (vsockSession ms) \<and>
   closes_once label (\<lambda>a (r, sid). http2Session ms a spawn r sid) \<and> closes_once label (\<lambda>a (r, sid). wsSession ms a spawn r sid)"
  by (intro conjI tcp_tells.closes_once vsock_tells.closes_once h2_tells.closes_once ws_tells.closes_once)

text \<open>A server with one connection follows the runs of its session.\<close>

lemma serves_session:
  assumes "session_run (code (svActor s) c) se es se'" "conns s = [(c, i, se)]" "gworld s = sworld se"
  shows "server_run label code s (map (SvConn 0) es) (s\<lparr>conns := [(c, i, se')], gworld := sworld se'\<rparr>)"
  using assms
proof (induction rule: session_run.induct)
  case (run_nil se)
  then have "s\<lparr>conns := [(c, i, se)], gworld := sworld se\<rparr> = s" by (cases s) simp
  then show ?case by (simp add: srun_nil)
next
  case (run_step se es t e u)
  let ?t = "s\<lparr>conns := [(c, i, t)], gworld := sworld t\<rparr>"
  have "crashed t = None" using run_step.hyps(2) by (auto elim: session_stepE)
  then have "server_step label code ?t (SvConn 0 e) (s\<lparr>conns := [(c, i, u)], gworld := sworld u\<rparr>)"
    using server_step.conn [of ?t 0 c i t code e u label] run_step.hyps(2) by (simp add: running_def)
  from srun_snoc [OF run_step.IH [OF run_step.prems] this] show ?case by simp
qed

text \<open>A close handler that counts: after a connection of an empty input has come and gone it has run once.\<close>

theorem sessions_close_once_witness:
  "\<exists>evs t. server_run ''tcp.Accept'' (tcpSession (\<lambda>t. Inr []))
       (NewTCPServer (Some (Actor True True [] None (Some (\<lambda>sid. Suc)) [])) 0) evs t \<and>
     (\<forall>k. EvOthers \<notin> set (connEvents k evs)) \<and> (\<exists>se. conns t = [(''s'', [], se)] \<and> told se) \<and> gworld t = 1"
proof -
  let ?a = "Actor True True [] None (Some (\<lambda>sid. Suc)) []" and ?ms = "\<lambda>t. Inr []"
  let ?s0 = "NewTCPServer (Some ?a) 0" and ?se = "newSession [] (0 :: nat) :: (string, message, nat) session"
  let ?s1 = "?s0\<lparr>listener := True, startLoop := AtTop\<rparr>"
  let ?s2 = "?s1\<lparr>conns := [(''s'', [], ?se)]\<rparr>"
  let ?es = "[EvInternal, EvInternal, EvInternal, EvClosed]"
  let ?run = "server_run ''tcp.Accept'' (tcpSession ?ms) ?s0"
  note defs = NewTCPServer_def running_def newSession_def actorOrNew_def
  have 1: "?run [SvStart] ?s1"
    by (rule srun_snoc [OF srun_nil server_step.start [where listenErr = None, unfolded Start_def option.case]]) (simp_all add: defs)
  from accepts [OF this, of "''s''" "[]"] have 2: "?run [SvStart, SvTop, SvAccept] ?s2" by (simp add: defs)
  obtain se where se: "session_run (tcpSession ?ms ?a ''s'') ?se ?es se" "told se"
    using ended_session_keeps_send_loop [of ?ms ?a "''s''" 0] by blast
  let ?t = "?s2\<lparr>conns := [(''s'', [], se)], gworld := sworld se\<rparr>"
  have "server_run ''tcp.Accept'' (tcpSession ?ms) ?s2 (map (SvConn 0) ?es) ?t"
    using serves_session [of "tcpSession ?ms" ?s2 "''s''" ?se ?es se "[]" "''tcp.Accept''"] se(1) by (simp add: defs)
  from srun_trans [OF this 2] have run: "?run ([SvStart, SvTop, SvAccept] @ map (SvConn 0) ?es) ?t" .
  have none: "\<forall>k. EvOthers \<notin> set (connEvents k ([SvStart, SvTop, SvAccept] @ map (SvConn 0) ?es))" by (simp add: connEvents_def)
  have "snd (Feed ?a ms req w) = w" for ms req w
    by (simp add: feedResponse_def feedMissing_def Let_def split: sum.split)
  then have feeds: "Feed ?a ms req w = (r, w') \<Longrightarrow> w' = w" for ms req w r w' by (metis snd_conv)
  have keeps: "received (tcpSession ?ms ?a c) b p w = (r, w') \<Longrightarrow> w' = w" for c b p w r w'
    by (auto simp: tcpSession_def msgReceived_def simp del: Feed.simps dest: feeds
        split: prod.splits feed_result.splits option.splits)
  have act: "svActor ?s0 = ?a" "conns ?s0 = []" "gworld ?s0 = 0" by (simp_all add: defs)
  have "closes_once ''tcp.Accept'' (tcpSession ?ms :: nat actor \<Rightarrow> string \<Rightarrow> (string, message, nat) session_code)"
    using sessions_close_once [of ?ms "[]" True] by blast
  from this [unfolded closes_once_def, rule_format, OF run act(2), THEN conjunct1, rule_format, of "\<lambda>w. w" "\<lambda>c. 1", OF _ _ none [rule_format]]
  have "gworld ?t = 1" using keeps se(2) act by (simp add: tcpSession_def)
  with run none se(2) show ?thesis by (intro exI [of _ "[SvStart, SvTop, SvAccept] @ map (SvConn 0) ?es"] exI [of _ ?t]) simp
qed

section \<open>Starting and stopping\<close>

definition accepting :: "('c, 'i, 'p, 'w) server \<Rightarrow> nat" where
  "accepting s = (if startLoop s = InAccept then 1 else 0)"

lemma stopped_step:
  assumes "server_step label code s e t" "\<not> listener s \<or> startLoop s = NotStarted" "e \<noteq> SvStart"
  shows "(\<not> listener t \<or> startLoop t = NotStarted) \<and> length (conns t) + accepting t \<le> length (conns s) + accepting s"
  using assms
  by (auto elim!: server_stepE simp: loopTop_def acceptReturns_def processConnection_def startReturns_def Stop_def accepting_def
      split: if_splits accepted.splits)

lemma stopped_run:
  "server_run label code s evs t \<Longrightarrow> \<not> listener s \<or> startLoop s = NotStarted \<Longrightarrow> SvStart \<notin> set evs \<Longrightarrow>
     (\<not> listener t \<or> startLoop t = NotStarted) \<and> length (conns t) + accepting t \<le> length (conns s) + accepting s"
proof (induction rule: server_run.induct)
  case (srun_step s evs t e u)
  then show ?case using stopped_step [OF srun_step.hyps(2)] by force
qed simp

text \<open>
  \<^bold>\<open>C33.\<close> After \<^verbatim>\<open>Stop\<close> no connection is accepted until \<^verbatim>\<open>Start\<close> is called again, but for one that \<^verbatim>\<open>Accept\<close> was about to return;
  \<^verbatim>\<open>Start\<close> then returns nil. A failure of \<^verbatim>\<open>Accept\<close> that is a \<^verbatim>\<open>*net.OpError\<close> (the error of a listener, whatever its
  cause) has the same effect though nobody called \<^verbatim>\<open>Stop\<close>: \<^verbatim>\<open>Start\<close> returns nil, and the listener stays open and unserved.
\<close>

theorem stopped_server_accepts_nothing:
  assumes "server_run label code s' evs t" "SvStart \<notin> set evs"
  shows "(s' = Stop s \<longrightarrow> length (conns t) \<le> length (conns s) + accepting s \<and>
       (startLoop s = AtTop \<longrightarrow> startResults (loopTop s') = startResults s @ [None] \<and> startLoop (loopTop s') = NotStarted)) \<and>
    (s' = acceptReturns label c AcceptOpError s \<longrightarrow> length (conns t) \<le> length (conns s) \<and> listener s' = listener s \<and>
       startResults s' = startResults s @ [None] \<and> startLoop s' = NotStarted)"
  using stopped_run [OF assms(1) _ assms(2)]
  by (auto simp: Stop_def loopTop_def acceptReturns_def startReturns_def accepting_def)

theorem stopped_server_accepts_nothing_witness:
  "\<exists>(s :: (string, string, message, nat) server) t. server_run ''tcp.Accept'' (tcpSession (\<lambda>t. Inr [])) (Stop s) [SvTop] t \<and> startLoop s = AtTop \<and>
     startResults t = [None] \<and> length (conns t) \<le> length (conns s)"
proof -
  let ?s = "(NewTCPServer (Some (one_handler pong)) 0)\<lparr>listener := True, startLoop := AtTop\<rparr>"
  have "server_step ''tcp.Accept'' (tcpSession (\<lambda>t. Inr [])) (Stop ?s) SvTop (loopTop (Stop ?s))"
    by (rule server_step.top) (simp_all add: running_def NewTCPServer_def Stop_def)
  from srun_snoc [OF srun_nil this, of "[SvTop]"]
  have run: "server_run ''tcp.Accept'' (tcpSession (\<lambda>t. Inr [])) (Stop ?s) [SvTop] (loopTop (Stop ?s))" by simp
  from stopped_server_accepts_nothing [OF this, of ?s "''s''"]
  have "length (conns (loopTop (Stop ?s))) \<le> length (conns ?s)" "startResults (loopTop (Stop ?s)) = [None]"
    by (simp_all add: accepting_def NewTCPServer_def)
  with run show ?thesis by (intro exI [of _ ?s] exI [of _ "loopTop (Stop ?s)"]) simp
qed

section \<open>The gateway\<close>

text \<open>
  One port serves every protocol with one actor: a request of HTTP/2 gets streams, over an insecure gateway as h2c; a
  websocket upgrade gets the frames, or a refusal; any other request is answered by the HTTP/1 handler of the
  same actor, also, over TLS, one that asks to upgrade to h2c.
\<close>

theorem gateway_serves_by_protocol:
  "gatewayServeHTTP (NewGatewayHandler h2c upgrade ms True actor insecure) r new_writer world =
     (if ProtoAtLeast r 2 0 \<or> insecure \<and> headerGet (reqHeader r) ''Upgrade'' = ''h2c''
      then (if insecure then h2c (\<lambda>r w world. Http2Streams (map_sum panic_of id (WriteHeader 200 w))) r new_writer world
            else Http2Streams (Inr (new_writer\<lparr>wrote := Some (200, [])\<rparr>)))
      else if headerGet (reqHeader r) ''Upgrade'' = ''websocket'' then serveWS upgrade r new_writer world
      else Answered (ServeHTTP ms (actorOrNew actor) r new_writer world))"
proof -
  have s: "serveHttp2 ms True (h\<lparr>UseHttp2C := True\<rparr>) = (\<lambda>r w world. Http2Streams (map_sum panic_of id (WriteHeader 200 w)))" for h
    by (intro ext) (simp add: serveHttp2_def http2ServeHTTP_def)
  show ?thesis
    by (simp add: gatewayServeHTTP_def NewGatewayHandler_def Http2CHandler_def s Let_def)
       (auto simp: serveHttp1_def serveHttp2_def http2ServeHTTP_def NewHttp1Handler_def NewHttp2Handler_def FallbackHandler_def
         actorOrNew_def WriteHeader_def new_writer_def)
qed

text \<open>
  The refusal of an upgrade: the upgrader has answered already, so the status 400 is not sent again, and the text is put
  behind what the upgrader wrote.
\<close>

theorem failed_upgrade_appends_text:
  assumes "upgrade r w = Inl w'" "wrote w' = Some (code, h)" "bodyAllowed code"
  shows "serveWS upgrade r w world = Answered (Inr (w'\<lparr>wBody := wBody w' @ ''ws upgrade failed''\<rparr>), world)"
  using assms by (simp add: serveWS_def served_def respond_def WriteHeader_def writeBody_def)

end
