(* ===== verification/Streaming_Client.thy ===== *)
theory Streaming_Client
  imports Http1_Client
begin

text \<open>
  The streaming client of \<^verbatim>\<open>net/streaming_client.go\<close>: calls that run at the same time over one connection, the map of
  pending requests that matches results with calls, the timers that expire them, and the handlers. A call is a
  goroutine that goes through phases; its operations on the client's fields, on the shared map and on channels are the
  steps of a relation, in any interleaving with the receive loop, the timers and the transport. The
  transport is the environment: when connecting succeeds, which messages arrive and when it fails.
  \<^verbatim>\<open>NewUuid\<close> gives any string. The caller's context is not looked at by the code once connected.
\<close>

section \<open>State\<close>

definition TransportConnectFailed :: go_error where "TransportConnectFailed = ErrText ''connect refused''"
definition TransportClosed :: go_error where "TransportClosed = ErrText ''streaming closed''"

record pending_request =
  prReqmsg :: request_message
  prCall :: nat                      \<comment> \<open>the call whose \<^verbatim>\<open>resultChannel\<close> it has\<close>

datatype call_phase =
    Begun request_message
  | Ready request_message                           \<comment> \<open>connected\<close>
  | Checked request_message bool                    \<comment> \<open>the id was found pending\<close>
  | Stored request_message request_message          \<comment> \<open>with the message to send\<close>
  | Linked request_message request_message          \<comment> \<open>\<^verbatim>\<open>Send\<close> has seen the connection\<close>
  | Sent request_message gval                       \<comment> \<open>with the key of its entry\<close>
  | Waiting request_message gval "nat option"       \<comment> \<open>the key, and \<^verbatim>\<open>closeChannel\<close>\<close>
  | Done request_message "go_error + message"

primrec phase_req :: "call_phase \<Rightarrow> request_message" where
  "phase_req (Begun q) = q"
| "phase_req (Ready q) = q"
| "phase_req (Checked q b) = q"
| "phase_req (Stored q m) = q"
| "phase_req (Linked q m) = q"
| "phase_req (Sent q k) = q"
| "phase_req (Waiting q k ch) = q"
| "phase_req (Done q r) = q"

record streaming_client =
  pendingRequests :: "gval \<rightharpoonup> pending_request"
  messageHandler :: bool                            \<comment> \<open>set or not\<close>
  connectedHandler :: bool
  closeHandlerSet :: bool
  connectedFlag :: bool                             \<comment> \<open>\<^verbatim>\<open>transport.Connected()\<close>\<close>
  sendQueue :: "message list option"                \<comment> \<open>\<^verbatim>\<open>sendChannel\<close>\<close>
  closeChannel :: "nat option"                      \<comment> \<open>a reference into \<open>closeChannels\<close>\<close>
  closeChannels :: "(go_error option list) list"    \<comment> \<open>every close channel made, with its content\<close>
  calls :: "nat \<rightharpoonup> call_phase"
  results :: "nat \<Rightarrow> message list"                   \<comment> \<open>the result channel of each call\<close>
  timers :: "gval list"                             \<comment> \<open>the keys of the running \<^verbatim>\<open>expire\<close> goroutines\<close>
  handled :: "message list"                         \<comment> \<open>given to the message handler\<close>
  connectedCalls :: nat                             \<comment> \<open>how often the connected handler ran\<close>
  closeCalls :: nat                                 \<comment> \<open>how often a close handler ran\<close>
  taken :: "message list"                           \<comment> \<open>taken from a send channel by a \<^verbatim>\<open>sendLoop\<close>, not yet written\<close>
  abandoned :: "message list"                       \<comment> \<open>left in a send channel that \<^verbatim>\<open>Reset\<close> let go\<close>
  transmitted :: "message list"                     \<comment> \<open>what \<^verbatim>\<open>sendLoop\<close> wrote to the transport\<close>
  received :: "message list"                        \<comment> \<open>what \<^verbatim>\<open>recvLoop\<close> read from it\<close>
  sentKey :: "nat \<rightharpoonup> gval"                         \<comment> \<open>the id each call was sent with\<close>

definition InitStreaming :: streaming_client where
  "InitStreaming =
     \<lparr>pendingRequests = Map.empty, messageHandler = False, connectedHandler = False, closeHandlerSet = False,
      connectedFlag = False, sendQueue = None, closeChannel = None, closeChannels = [], calls = Map.empty,
      results = (\<lambda>_. []), timers = [], handled = [],
      connectedCalls = 0, closeCalls = 0, taken = [], abandoned = [], transmitted = [], received = [], sentKey = Map.empty\<rparr>"

section \<open>Operations\<close>

definition OnMessage :: "streaming_client \<Rightarrow> go_error + streaming_client" where
  "OnMessage c = (if messageHandler c then Inl (ErrText ''message handler already exist!'') else Inr (c\<lparr>messageHandler := True\<rparr>))"

definition OnConnected :: "streaming_client \<Rightarrow> go_error + streaming_client" where
  "OnConnected c =
     (if connectedHandler c then Inl (ErrText ''connected handler already exist!'') else Inr (c\<lparr>connectedHandler := True\<rparr>))"

definition OnCloseClient :: "streaming_client \<Rightarrow> go_error + streaming_client" where
  "OnCloseClient c =
     (if closeHandlerSet c then Inl (ErrText ''close handler already exist!'') else Inr (c\<lparr>closeHandlerSet := True\<rparr>))"

text \<open>\<^verbatim>\<open>Connect\<close>, with the outcome of the transport's own connect.\<close>

definition Connect :: "go_error option \<Rightarrow> streaming_client \<Rightarrow> go_error option \<times> streaming_client" where
  "Connect dial c =
     (if connectedFlag c then (None, c)
      else case dial of
        Some err \<Rightarrow> (Some err, c)
      | None \<Rightarrow>
          (None, c\<lparr>connectedFlag := True, connectedCalls := connectedCalls c + (if connectedHandler c then 1 else 0),
                   sendQueue := Some [], closeChannel := Some (length (closeChannels c)),
                   closeChannels := closeChannels c @ [[]]\<rparr>))"

text \<open>
  \<^verbatim>\<open>Reset\<close> sets the send channel to nil; a loop that waits on the channel still has it, with what it holds.
\<close>

definition Reset :: "go_error option \<Rightarrow> streaming_client \<Rightarrow> streaming_client" where
  "Reset err c =
     (let c' = c\<lparr>connectedFlag := False, sendQueue := None,
                 abandoned := abandoned c @ (case sendQueue c of None \<Rightarrow> [] | Some ms \<Rightarrow> ms)\<rparr> in
      case closeChannel c of
        Some ch \<Rightarrow> c'\<lparr>closeChannels := (closeChannels c)[ch := closeChannels c ! ch @ [err]], closeChannel := None\<rparr>
      | None \<Rightarrow> c')"

definition CloseClient :: "streaming_client \<Rightarrow> streaming_client" where
  "CloseClient c = (if connectedFlag c then Reset None c else c)"

definition handleError :: "go_error \<Rightarrow> streaming_client \<Rightarrow> streaming_client" where
  "handleError err c =
     (let c' = Reset (Some err) c in
      if closeHandlerSet c' then c'\<lparr>closeCalls := closeCalls c' + 1, closeHandlerSet := False\<rparr> else c')"

text \<open>A key of the map that is not comparable makes the map operation panic; NaN is never found.\<close>

definition hashable :: "gval \<Rightarrow> bool" where
  "hashable k \<longleftrightarrow> (case k of GNilList \<Rightarrow> False | GList _ \<Rightarrow> False | GStrs _ \<Rightarrow> False | GMapList _ \<Rightarrow> False | GMap _ \<Rightarrow> False
     | GAnyMap _ \<Rightarrow> False | _ \<Rightarrow> True)"

definition loadPending :: "gval \<Rightarrow> streaming_client \<Rightarrow> pending_request option" where
  "loadPending k c = (if k = GFloat NaN then None else pendingRequests c k)"

definition deliver_result :: "nat \<Rightarrow> message \<Rightarrow> streaming_client \<Rightarrow> streaming_client" where
  "deliver_result n m c = c\<lparr>results := (results c)(n := results c n @ [m])\<rparr>"

definition tellHandler :: "message \<Rightarrow> streaming_client \<Rightarrow> streaming_client" where
  "tellHandler m c = (if messageHandler c then c\<lparr>handled := handled c @ [m]\<rparr> else c)"

definition handleResult :: "message \<Rightarrow> streaming_client \<Rightarrow> go_panic + streaming_client" where
  "handleResult m c =
     (case MustId m of
        Inl p \<Rightarrow> Inl p
      | Inr msgId \<Rightarrow>
          (case loadPending msgId c of
             None \<Rightarrow> Inr (tellHandler m c)
           | Some p \<Rightarrow>
               let c' = c\<lparr>pendingRequests := (pendingRequests c)(msgId := None)\<rparr> in
               if msgId \<noteq> reqId (prReqmsg p) then
                 (case ReplaceId m (reqId (prReqmsg p)) of
                    Inl pan \<Rightarrow> Inl pan
                  | Inr resmsg \<Rightarrow> Inr (deliver_result (prCall p) resmsg c'))
               else Inr (deliver_result (prCall p) m c')))"

text \<open>The body of \<^verbatim>\<open>recvLoop\<close> for a message that was read.\<close>

definition recvMessage :: "message \<Rightarrow> streaming_client \<Rightarrow> go_panic + streaming_client" where
  "recvMessage m c0 =
     (let c = c0\<lparr>received := received c0 @ [m]\<rparr> in
      if \<not> IsResultOrError m then Inr (tellHandler m c) else handleResult m c)"

text \<open>\<^verbatim>\<open>expire\<close>, after the sleep.\<close>

definition expire :: "gval \<Rightarrow> streaming_client \<Rightarrow> go_panic + streaming_client" where
  "expire k c =
     (case loadPending k c of
        None \<Rightarrow> Inr c
      | Some p \<Rightarrow>
          (case ToMessage ErrTimeout (prReqmsg p) of
             Inl pan \<Rightarrow> Inl pan
           | Inr timeout \<Rightarrow>
               Inr (deliver_result (prCall p) (MErr timeout) (c\<lparr>pendingRequests := (pendingRequests c)(k := None)\<rparr>))))"

definition setPhase :: "nat \<Rightarrow> call_phase \<Rightarrow> streaming_client \<Rightarrow> streaming_client" where
  "setPhase n ph c = c\<lparr>calls := (calls c)(n \<mapsto> ph)\<rparr>"

text \<open>The pieces of \<^verbatim>\<open>request\<close>: connecting, the lookup, storing, sending, and the two ways to return.\<close>

definition requestConnect :: "nat \<Rightarrow> request_message \<Rightarrow> go_error option \<Rightarrow> streaming_client \<Rightarrow> streaming_client" where
  "requestConnect n q dial c =
     (case Connect dial c of
        (Some err, c') \<Rightarrow> setPhase n (Done q (Inl err)) c'
      | (None, c') \<Rightarrow> setPhase n (Ready q) c')"

definition requestLoad :: "nat \<Rightarrow> request_message \<Rightarrow> streaming_client \<Rightarrow> streaming_client" where
  "requestLoad n q c = setPhase n (Checked q (loadPending (reqId q) c \<noteq> None)) c"

definition requestStore :: "nat \<Rightarrow> request_message \<Rightarrow> bool \<Rightarrow> string \<Rightarrow> streaming_client \<Rightarrow> go_panic + streaming_client" where
  "requestStore n q loaded uuid c =
     (case (if loaded then Clone q (GStr uuid) else Inr q) of
        Inl p \<Rightarrow> Inl p
      | Inr sendmsg \<Rightarrow>
          Inr (setPhase n (Stored q sendmsg)
            (c\<lparr>pendingRequests := (pendingRequests c)(reqId sendmsg \<mapsto> \<lparr>prReqmsg = q, prCall = n\<rparr>),
               sentKey := (sentKey c)(n \<mapsto> reqId sendmsg)\<rparr>)))"

definition sendCap :: nat where "sendCap = 100"

text \<open>
  \<^verbatim>\<open>Send\<close> is \<^verbatim>\<open>Connect\<close> followed by the write to the send channel; \<open>None\<close> where the
  channel operation blocks, on a full channel or on one that is nil because the client was reset in between.
\<close>

definition enqueue :: "message \<Rightarrow> streaming_client \<Rightarrow> streaming_client option" where
  "enqueue m c =
     (case sendQueue c of
        Some ms \<Rightarrow> if length ms < sendCap then Some (c\<lparr>sendQueue := Some (ms @ [m])\<rparr>) else None
      | None \<Rightarrow> None)"

definition SendStream :: "message \<Rightarrow> go_error option \<Rightarrow> streaming_client \<Rightarrow> (go_error option \<times> streaming_client) option" where
  "SendStream m dial c =
     (case Connect dial c of
        (Some err, c') \<Rightarrow> Some (Some err, c')
      | (None, c') \<Rightarrow> map_option (Pair None) (enqueue m c'))"

definition requestSend :: "nat \<Rightarrow> request_message \<Rightarrow> request_message \<Rightarrow> go_error option \<Rightarrow> streaming_client \<Rightarrow> streaming_client" where
  "requestSend n q sendmsg dial c =
     (case Connect dial c of
        (Some err, c') \<Rightarrow> setPhase n (Done q (Inl err)) c'
      | (None, c') \<Rightarrow> setPhase n (Linked q sendmsg) c')"

definition requestEnqueue :: "nat \<Rightarrow> request_message \<Rightarrow> request_message \<Rightarrow> streaming_client \<Rightarrow> streaming_client option" where
  "requestEnqueue n q sendmsg c = map_option (setPhase n (Sent q (reqId sendmsg))) (enqueue (MReq sendmsg) c)"

definition requestWait :: "nat \<Rightarrow> request_message \<Rightarrow> gval \<Rightarrow> streaming_client \<Rightarrow> streaming_client" where
  "requestWait n q k c = setPhase n (Waiting q k (closeChannel c)) (c\<lparr>timers := timers c @ [k]\<rparr>)"

definition requestReturn :: "nat \<Rightarrow> request_message \<Rightarrow> streaming_client \<Rightarrow> streaming_client option" where
  "requestReturn n q c =
     (case results c n of
        [] \<Rightarrow> None
      | resmsg # ms \<Rightarrow> Some (setPhase n (Done q (Inr resmsg)) (c\<lparr>results := (results c)(n := ms)\<rparr>)))"

definition requestClosed :: "nat \<Rightarrow> request_message \<Rightarrow> nat \<Rightarrow> streaming_client \<Rightarrow> streaming_client option" where
  "requestClosed n q ch c =
     (if ch < length (closeChannels c) then
        (case closeChannels c ! ch of
           [] \<Rightarrow> None
         | err # es \<Rightarrow>
             Some (setPhase n (Done q (Inl TransportClosed))
               (c\<lparr>closeChannels := (closeChannels c)[ch := es], closeChannel := None\<rparr>)))
      else None)"

text \<open>\<^verbatim>\<open>Wait\<close>: \<open>None\<close> while it blocks.\<close>

definition WaitClient :: "streaming_client \<Rightarrow> (go_error option \<times> streaming_client) option" where
  "WaitClient c =
     (case closeChannel c of
        None \<Rightarrow> Some (None, c)
      | Some ch \<Rightarrow>
          (case closeChannels c ! ch of
             [] \<Rightarrow> None
           | err # es \<Rightarrow> Some (err, c\<lparr>closeChannels := (closeChannels c)[ch := es]\<rparr>)))"

text \<open>What \<^verbatim>\<open>Call\<close> and \<^verbatim>\<open>UnwrapCall\<close> make of the outcome of \<^verbatim>\<open>request\<close>.\<close>

definition CallOutcome :: "request_message \<Rightarrow> go_error + message \<Rightarrow> go_error + message" where
  "CallOutcome q r = map_sum (ErrWrap (rpc_text q)) id r"

definition UnwrapOutcome ::
  "(gval \<Rightarrow> go_error + 'o) \<Rightarrow> request_message \<Rightarrow> go_error + message \<Rightarrow> go_panic + (go_error option + 'o)" where
  "UnwrapOutcome into q r =
     (case CallOutcome q r of
        Inl err \<Rightarrow> Inr (Inl (Some err))
      | Inr resmsg \<Rightarrow>
          if IsResult resmsg then
            (case MustResult resmsg of
               Inl p \<Rightarrow> Inl p
             | Inr v \<Rightarrow> Inr (map_sum (\<lambda>err. Some (ErrWrap (rpc_text q) err)) id (into v)))
          else (case MustError resmsg of Inl p \<Rightarrow> Inl p | Inr e \<Rightarrow> Inr (Inl (map_option ErrRPC e))))"

section \<open>The interleavings\<close>

text \<open>
  The steps of callers and timers that leave the transport as it is: \<^verbatim>\<open>Connect\<close> finds it connected, and nothing is taken from a
  channel by the loops.
\<close>

inductive app_step :: "streaming_client \<Rightarrow> streaming_client \<Rightarrow> bool" where
  begin_call: "calls c n = None \<Longrightarrow> msg_ok (MReq q) \<Longrightarrow> hashable (reqId q) \<Longrightarrow> app_step c (setPhase n (Begun q) c)"
| reuse: "connectedFlag c \<Longrightarrow> calls c n = Some (Begun q) \<Longrightarrow> app_step c (requestConnect n q None c)"
| load: "calls c n = Some (Ready q) \<Longrightarrow> app_step c (requestLoad n q c)"
| store: "calls c n = Some (Checked q b) \<Longrightarrow> requestStore n q b u c = Inr c' \<Longrightarrow> app_step c c'"
| relink: "connectedFlag c \<Longrightarrow> calls c n = Some (Stored q m) \<Longrightarrow> app_step c (requestSend n q m None c)"
| enqueue_call: "calls c n = Some (Linked q m) \<Longrightarrow> requestEnqueue n q m c = Some c' \<Longrightarrow> app_step c c'"
| wait_call: "calls c n = Some (Sent q k) \<Longrightarrow> app_step c (requestWait n q k c)"
| return: "calls c n = Some (Waiting q k ch) \<Longrightarrow> requestReturn n q c = Some c' \<Longrightarrow> app_step c c'"
| return_closed: "calls c n = Some (Waiting q k (Some ch)) \<Longrightarrow> requestClosed n q ch c = Some c' \<Longrightarrow> app_step c c'"
| expires: "k \<in> set (timers c) \<Longrightarrow> expire k (c\<lparr>timers := remove1 k (timers c)\<rparr>) = Inr c' \<Longrightarrow> app_step c c'"
| waited: "WaitClient c = Some (err, c') \<Longrightarrow> app_step c c'"
| set_handler: "OnMessage c = Inr c' \<or> OnConnected c = Inr c' \<or> OnCloseClient c = Inr c' \<Longrightarrow> app_step c c'"
| resend: "connectedFlag c \<Longrightarrow> SendStream m None c = Some (e, c') \<Longrightarrow> app_step c c'"

text \<open>
  \<^verbatim>\<open>Connect\<close> with any outcome of the dial, \<^verbatim>\<open>Close\<close>, and the loops: a receive loop hands over a message it has read and a
  send loop writes one it has taken, also when the connection is gone meanwhile, and a message taken can be lost.
\<close>

inductive client_step :: "streaming_client \<Rightarrow> streaming_client \<Rightarrow> bool" where
  app: "app_step c c' \<Longrightarrow> client_step c c'"
| connect_call: "calls c n = Some (Begun q) \<Longrightarrow> client_step c (requestConnect n q dial c)"
| send_call: "calls c n = Some (Stored q m) \<Longrightarrow> client_step c (requestSend n q m dial c)"
| send_other: "SendStream m dial c = Some (e, c') \<Longrightarrow> client_step c c'"
| connects: "Connect dial c = (e, c') \<Longrightarrow> client_step c c'"
| close: "client_step c (CloseClient c)"
| transport_error: "client_step c (handleError err c)"
| receive: "msg_ok m \<Longrightarrow> wire_fields m \<Longrightarrow> recvMessage m c = Inr c' \<Longrightarrow> client_step c c'"
| take_queued: "sendQueue c = Some (m # ms) \<Longrightarrow> client_step c (c\<lparr>sendQueue := Some ms, taken := taken c @ [m]\<rparr>)"
| take_abandoned: "m \<in> set (abandoned c) \<Longrightarrow>
    client_step c (c\<lparr>abandoned := remove1 m (abandoned c), taken := taken c @ [m]\<rparr>)"
| transmit: "m \<in> set (taken c) \<Longrightarrow>
    client_step c (c\<lparr>taken := remove1 m (taken c), transmitted := transmitted c @ [m]\<rparr>)"
| lose: "m \<in> set (taken c) \<Longrightarrow> client_step c (c\<lparr>taken := remove1 m (taken c)\<rparr>)"

lemmas begin_call = client_step.app [OF app_step.begin_call]
lemmas load = client_step.app [OF app_step.load]
lemmas store = client_step.app [OF app_step.store]
lemmas enqueue_call = client_step.app [OF app_step.enqueue_call]
lemmas wait_call = client_step.app [OF app_step.wait_call]
lemmas return = client_step.app [OF app_step.return]
lemmas expires = client_step.app [OF app_step.expires]

inductive client_reachable :: "streaming_client \<Rightarrow> bool" where
  start: "client_reachable InitStreaming"
| step: "client_reachable c \<Longrightarrow> client_step c c' \<Longrightarrow> client_reachable c'"

inductive_cases client_stepE: "client_step c c'"

section \<open>The invariant\<close>

text \<open>
  An answer to a call that was sent with id \<open>k\<close>: the timeout error, or a result or error read from the transport under
  \<open>k\<close>, with the id of the call.
\<close>

definition answersCall :: "message list \<Rightarrow> gval option \<Rightarrow> message \<Rightarrow> request_message \<Rightarrow> bool" where
  "answersCall rv ko m q \<longleftrightarrow> msg_ok m \<and> IsResultOrError m \<and> MustId m = Inr (reqId q) \<and>
     (map_sum id MErr (ToMessage ErrTimeout q) = Inr m \<or>
      (\<exists>r\<in>set rv. \<exists>k. ko = Some k \<and> IsResultOrError r \<and> MustId r = Inr k \<and> (m = r \<or> ReplaceId r (reqId q) = Inr m)))"

definition stored :: "call_phase \<Rightarrow> bool" where
  "stored ph \<longleftrightarrow> (case ph of Stored _ _ \<Rightarrow> True | Linked _ _ \<Rightarrow> True | Sent _ _ \<Rightarrow> True | Waiting _ _ _ \<Rightarrow> True | Done _ _ \<Rightarrow> True | _ \<Rightarrow> False)"

text \<open>
  The map, the phases and the result channels agree: an entry belongs to a call that was stored and has no result yet, a
  call has at most one entry, and its channel at most one message, which answers the call.
\<close>

definition calls_inv ::
  "message list \<Rightarrow> (nat \<rightharpoonup> gval) \<Rightarrow> (gval \<rightharpoonup> pending_request) \<Rightarrow> (nat \<rightharpoonup> call_phase) \<Rightarrow> (nat \<Rightarrow> message list) \<Rightarrow> bool" where
  "calls_inv rv sk pm cs rs \<longleftrightarrow>
     (\<forall>k e. pm k = Some e \<longrightarrow> rs (prCall e) = [] \<and>
        (\<exists>ph. cs (prCall e) = Some ph \<and> stored ph \<and> phase_req ph = prReqmsg e)) \<and>
     (\<forall>k e. pm k = Some e \<longrightarrow> sk (prCall e) = Some k) \<and>
     (\<forall>n. rs n \<noteq> [] \<longrightarrow> (\<exists>m ph. rs n = [m] \<and> cs n = Some ph \<and> stored ph \<and> answersCall rv (sk n) m (phase_req ph))) \<and>
     (\<forall>n q m. cs n = Some (Done q (Inr m)) \<longrightarrow> rs n = [] \<and> answersCall rv (sk n) m q \<and> (\<forall>k e. pm k = Some e \<longrightarrow> prCall e \<noteq> n)) \<and>
     (\<forall>n ph. cs n = Some ph \<longrightarrow> msg_ok (MReq (phase_req ph)))"

definition client_inv :: "streaming_client \<Rightarrow> bool" where
  "client_inv c \<longleftrightarrow> calls_inv (received c) (sentKey c) (pendingRequests c) (calls c) (results c)"

lemma calls_invD:
  assumes "calls_inv rv sk pm cs rs"
  shows "pm k = Some e \<Longrightarrow> rs (prCall e) = []"
    and "pm k = Some e \<Longrightarrow> \<exists>ph. cs (prCall e) = Some ph \<and> stored ph \<and> phase_req ph = prReqmsg e"
    and "pm k = Some e \<Longrightarrow> sk (prCall e) = Some k"
    and "rs n \<noteq> [] \<Longrightarrow> \<exists>m ph. rs n = [m] \<and> cs n = Some ph \<and> stored ph \<and> answersCall rv (sk n) m (phase_req ph)"
    and "cs n = Some (Done q (Inr m)) \<Longrightarrow> rs n = [] \<and> answersCall rv (sk n) m q \<and> (\<forall>k e. pm k = Some e \<longrightarrow> prCall e \<noteq> n)"
    and "cs n = Some ph \<Longrightarrow> msg_ok (MReq (phase_req ph))"
  using assms unfolding calls_inv_def by blast+

lemma stored_simps [simp]:
  "\<not> stored (Begun q)" "\<not> stored (Ready q)" "\<not> stored (Checked q b)" "stored (Stored q m)" "stored (Linked q m)" "stored (Sent q k)"
  "stored (Waiting q k ch)" "stored (Done q r)"
  by (simp_all add: stored_def)

text \<open>A call that was not stored has neither an entry nor a result.\<close>

lemma not_stored_clean:
  assumes "calls_inv rv sk pm cs rs" "\<forall>ph. cs n = Some ph \<longrightarrow> \<not> stored ph"
  shows "rs n = [] \<and> (\<forall>k e. pm k = Some e \<longrightarrow> prCall e \<noteq> n)"
  using calls_invD(2,4) [OF assms(1)] assms(2) by metis

lemma inv_phase:
  assumes "calls_inv rv sk pm cs rs" "msg_ok (MReq (phase_req ph))"
    and "\<forall>old. cs n = Some old \<longrightarrow> phase_req ph = phase_req old \<and> (stored old \<longrightarrow> stored ph)"
    and "\<forall>q m. ph \<noteq> Done q (Inr m)"
  shows "calls_inv rv sk pm (cs(n \<mapsto> ph)) rs"
  unfolding calls_inv_def
proof (intro conjI allI impI)
  fix k e
  assume "pm k = Some e"
  with calls_invD(2) [OF assms(1) this] assms(3) calls_invD(1) [OF assms(1) this]
  show "rs (prCall e) = []" "\<exists>ph'. (cs(n \<mapsto> ph)) (prCall e) = Some ph' \<and> stored ph' \<and> phase_req ph' = prReqmsg e" by auto
next
  fix k e
  assume "pm k = Some e"
  then show "sk (prCall e) = Some k" by (rule calls_invD(3) [OF assms(1)])
next
  fix n'
  assume "rs n' \<noteq> []"
  from calls_invD(4) [OF assms(1) this] assms(3)
  show "\<exists>m ph'. rs n' = [m] \<and> (cs(n \<mapsto> ph)) n' = Some ph' \<and> stored ph' \<and> answersCall rv (sk n') m (phase_req ph')" by auto
next
  fix n' q m k e
  assume "(cs(n \<mapsto> ph)) n' = Some (Done q (Inr m))"
  then have "cs n' = Some (Done q (Inr m))" using assms(4) by (auto split: if_splits)
  then show "rs n' = []" "answersCall rv (sk n') m q" "pm k = Some e \<Longrightarrow> prCall e \<noteq> n'" using calls_invD(5) [OF assms(1)] by blast+
next
  fix n' ph'
  assume "(cs(n \<mapsto> ph)) n' = Some ph'"
  then show "msg_ok (MReq (phase_req ph'))" using assms(2) calls_invD(6) [OF assms(1)] by (auto split: if_splits)
qed

lemma inv_store:
  assumes "calls_inv rv sk pm cs rs" "cs n = Some (Checked q b)"
  shows "calls_inv rv (sk(n \<mapsto> k)) (pm(k \<mapsto> \<lparr>prReqmsg = q, prCall = n\<rparr>)) (cs(n \<mapsto> Stored q m)) rs"
proof -
  have clean: "rs n = [] \<and> (\<forall>k e. pm k = Some e \<longrightarrow> prCall e \<noteq> n)"
    by (rule not_stored_clean [OF assms(1)]) (simp add: assms(2))
  have q: "msg_ok (MReq q)" using calls_invD(6) [OF assms] by simp
  have i: "calls_inv rv sk pm (cs(n \<mapsto> Stored q m)) rs" by (rule inv_phase [OF assms(1)]) (use q assms(2) in auto)
  show ?thesis
    unfolding calls_inv_def
  proof (intro conjI allI impI)
    fix n' q' m' k' e
    assume "(cs(n \<mapsto> Stored q m)) n' = Some (Done q' (Inr m'))"
    with calls_invD(5) [OF i this] clean
    show "rs n' = []" "answersCall rv ((sk(n \<mapsto> k)) n') m' q'" "(pm(k \<mapsto> \<lparr>prReqmsg = q, prCall = n\<rparr>)) k' = Some e \<Longrightarrow> prCall e \<noteq> n'"
      by (auto split: if_splits)
  next
    fix k' e
    assume "(pm(k \<mapsto> \<lparr>prReqmsg = q, prCall = n\<rparr>)) k' = Some e"
    with clean calls_invD(3) [OF assms(1), of k' e] show "(sk(n \<mapsto> k)) (prCall e) = Some k'" by (auto split: if_splits)
  next
    fix n'
    assume "rs n' \<noteq> []"
    with calls_invD(4) [OF i this] clean
    show "\<exists>m' ph. rs n' = [m'] \<and> (cs(n \<mapsto> Stored q m)) n' = Some ph \<and> stored ph \<and> answersCall rv ((sk(n \<mapsto> k)) n') m' (phase_req ph)"
      by (auto split: if_splits)
  next
    fix k' e
    assume "(pm(k \<mapsto> \<lparr>prReqmsg = q, prCall = n\<rparr>)) k' = Some e"
    with clean calls_invD(1,2) [OF i]
    show "rs (prCall e) = []" "\<exists>ph. (cs(n \<mapsto> Stored q m)) (prCall e) = Some ph \<and> stored ph \<and> phase_req ph = prReqmsg e"
      by (auto split: if_splits)
  qed (use calls_invD(6) [OF i] in blast)
qed

lemma inv_deliver:
  assumes "calls_inv rv sk pm cs rs" "pm k = Some e" "answersCall rv (Some k) m (prReqmsg e)"
  shows "calls_inv rv sk (pm(k := None)) cs (rs(prCall e := rs (prCall e) @ [m]))"
proof -
  obtain ph where ph: "cs (prCall e) = Some ph" "stored ph" "phase_req ph = prReqmsg e"
    using calls_invD(2) [OF assms(1,2)] by blast
  have empty: "rs (prCall e) = []" "sk (prCall e) = Some k" by (rule calls_invD(1,3) [OF assms(1,2)])+
  show ?thesis
    unfolding calls_inv_def
  proof (intro conjI allI impI)
    fix n
    assume "(rs(prCall e := rs (prCall e) @ [m])) n \<noteq> []"
    with ph empty assms(3) calls_invD(4) [OF assms(1)]
    show "\<exists>m' ph. (rs(prCall e := rs (prCall e) @ [m])) n = [m'] \<and> cs n = Some ph \<and> stored ph \<and> answersCall rv (sk n) m' (phase_req ph)"
      by (auto split: if_splits)
  next
    fix n q m' k' e'
    assume "cs n = Some (Done q (Inr m'))"
    with calls_invD(5) [OF assms(1) this] assms(2)
    show "(rs(prCall e := rs (prCall e) @ [m])) n = []" "answersCall rv (sk n) m' q" "(pm(k := None)) k' = Some e' \<Longrightarrow> prCall e' \<noteq> n"
      by (auto split: if_splits)
  next
    fix k' e'
    assume k': "(pm(k := None)) k' = Some e'"
    then have "prCall e' \<noteq> prCall e" using calls_invD(3) [OF assms(1), of k' e'] empty(2) by (auto split: if_splits)
    with k' calls_invD(1,2) [OF assms(1), of k' e']
    show "(rs(prCall e := rs (prCall e) @ [m])) (prCall e') = []"
      "\<exists>ph. cs (prCall e') = Some ph \<and> stored ph \<and> phase_req ph = prReqmsg e'" by (auto split: if_splits)
  next
    fix k' e'
    assume "(pm(k := None)) k' = Some e'"
    then show "sk (prCall e') = Some k'" using calls_invD(3) [OF assms(1)] by (auto split: if_splits)
  qed (use calls_invD(6) [OF assms(1)] in blast)
qed

lemma inv_return:
  assumes "calls_inv rv sk pm cs rs" "cs n = Some (Waiting q k ch)" "rs n = m # ms"
  shows "calls_inv rv sk pm (cs(n \<mapsto> Done q (Inr m))) (rs(n := ms))"
proof -
  have n: "ms = []" "answersCall rv (sk n) m q" using calls_invD(4) [OF assms(1), of n] assms(2,3) by auto
  have none: "pm k' = Some e \<Longrightarrow> prCall e \<noteq> n" for k' e using calls_invD(1) [OF assms(1)] assms(3) by fastforce
  have q: "msg_ok (MReq q)" using calls_invD(6) [OF assms(1,2)] by simp
  show ?thesis
    unfolding calls_inv_def
  proof (intro conjI allI impI)
    fix k' e
    assume "pm k' = Some e"
    with none calls_invD(1,2) [OF assms(1) this]
    show "(rs(n := ms)) (prCall e) = []"
      "\<exists>ph. (cs(n \<mapsto> Done q (Inr m))) (prCall e) = Some ph \<and> stored ph \<and> phase_req ph = prReqmsg e" by auto
  next
    fix n'
    assume "(rs(n := ms)) n' \<noteq> []"
    with n calls_invD(4) [OF assms(1), of n']
    show "\<exists>m' ph. (rs(n := ms)) n' = [m'] \<and> (cs(n \<mapsto> Done q (Inr m))) n' = Some ph \<and> stored ph \<and> answersCall rv (sk n') m' (phase_req ph)"
      by (auto split: if_splits)
  next
    fix n' q' m' k' e
    assume "(cs(n \<mapsto> Done q (Inr m))) n' = Some (Done q' (Inr m'))"
    with n none calls_invD(5) [OF assms(1), of n' q' m']
    show "(rs(n := ms)) n' = []" "answersCall rv (sk n') m' q'" "pm k' = Some e \<Longrightarrow> prCall e \<noteq> n'" by (auto split: if_splits)
  next
    fix n' ph
    assume "(cs(n \<mapsto> Done q (Inr m))) n' = Some ph"
    with q calls_invD(6) [OF assms(1)] show "msg_ok (MReq (phase_req ph))" by (auto split: if_splits)
  qed (use calls_invD(3) [OF assms(1)] in blast)
qed

lemma answersCall_mono: "answersCall rv ko m q \<Longrightarrow> set rv \<subseteq> set rv' \<Longrightarrow> answersCall rv' ko m q"
  unfolding answersCall_def by blast

lemma calls_inv_mono:
  assumes "calls_inv rv sk pm cs rs" "set rv \<subseteq> set rv'"
  shows "calls_inv rv' sk pm cs rs"
proof -
  have a: "answersCall rv ko m q \<Longrightarrow> answersCall rv' ko m q" for ko m q by (rule answersCall_mono [OF _ assms(2)])
  show ?thesis
    using calls_invD [OF assms(1)] a unfolding calls_inv_def by (intro conjI allI impI) blast+
qed

lemma ReplaceId_answers:
  assumes "msg_ok m" "IsResultOrError m" "ReplaceId m (reqId q) = Inr m'" "m \<in> set rv" "MustId m = Inr k"
  shows "answersCall rv (Some k) m' q"
proof -
  have "msg_ok m' \<and> IsResultOrError m' \<and> MustId m' = Inr (reqId q)"
    using assms(1-3) by (cases m) (auto simp: IsResultOrError_def Is_defs raw_defs)
  with assms show ?thesis unfolding answersCall_def by blast
qed

lemma ToMessage_answersCall: "ToMessage ErrTimeout q = Inr m \<Longrightarrow> answersCall rv ko (MErr m) q"
  using ToMessage_answers [of ErrTimeout q] by (auto simp: answersCall_def answers_def IsResultOrError_def Is_defs)

lemma tellHandler_core [simp]:
  "pendingRequests (tellHandler m c) = pendingRequests c" "calls (tellHandler m c) = calls c" "results (tellHandler m c) = results c"
  "received (tellHandler m c) = received c" "timers (tellHandler m c) = timers c" "sentKey (tellHandler m c) = sentKey c"
  by (simp_all add: tellHandler_def)

lemma Reset_core [simp]:
  "pendingRequests (Reset e c) = pendingRequests c" "calls (Reset e c) = calls c" "results (Reset e c) = results c"
  "received (Reset e c) = received c" "timers (Reset e c) = timers c" "sentKey (Reset e c) = sentKey c"
  by (simp_all add: Reset_def Let_def split: option.split)

text \<open>The part of the state that the calls, the map, the channels and the timers make up.\<close>

definition core :: "streaming_client \<Rightarrow> (gval \<rightharpoonup> pending_request) \<times> (nat \<rightharpoonup> call_phase) \<times> (nat \<Rightarrow> message list) \<times> message list \<times> gval list \<times> (nat \<rightharpoonup> gval)" where
  "core c = (pendingRequests c, calls c, results c, received c, timers c, sentKey c)"

lemma core_eqD:
  assumes "core c' = core c"
  shows "pendingRequests c' = pendingRequests c" "calls c' = calls c" "results c' = results c" "received c' = received c"
    "timers c' = timers c" "sentKey c' = sentKey c"
  using assms by (simp_all add: core_def)

lemma Connect_core: "Connect dial c = (e, c') \<Longrightarrow> core c' = core c"
  by (auto simp: Connect_def core_def split: if_splits option.splits)

lemma enqueue_core: "enqueue m c = Some c' \<Longrightarrow> core c' = core c"
  by (auto simp: enqueue_def core_def split: option.splits if_splits)

lemma SendStream_core: "SendStream m dial c = Some (e, c') \<Longrightarrow> core c' = core c"
  by (auto simp: SendStream_def dest!: Connect_core enqueue_core split: prod.splits option.splits if_splits)

lemma handler_core: "OnMessage c = Inr c' \<or> OnConnected c = Inr c' \<or> OnCloseClient c = Inr c' \<Longrightarrow> core c' = core c"
  by (auto simp: OnMessage_def OnConnected_def OnCloseClient_def core_def split: if_splits)

lemma WaitClient_core: "WaitClient c = Some (e, c') \<Longrightarrow> core c' = core c"
  by (auto simp: WaitClient_def core_def split: option.splits list.splits)

lemma handleError_core: "core (handleError e c) = core c"
  by (simp add: handleError_def core_def Let_def)

lemma CloseClient_core: "core (CloseClient c) = core c"
  by (simp add: CloseClient_def core_def)

lemma requestConnect_core:
  "core (requestConnect n q dial c) = core (setPhase n (if connectedFlag c \<or> dial = None then Ready q else Done q (Inl (the dial))) c)"
  by (auto simp: requestConnect_def Connect_def core_def setPhase_def split: option.split)

lemma requestSend_core:
  "core (requestSend n q m dial c) = core (setPhase n (if connectedFlag c \<or> dial = None then Linked q m else Done q (Inl (the dial))) c)"
  by (auto simp: requestSend_def Connect_def core_def setPhase_def split: option.split)

text \<open>The ways a step changes the core, one per piece of the code.\<close>

lemma client_step_core_cases:
  assumes "client_step c c'"
  obtains (same) "core c' = core c"
  | (begins) n q where "calls c n = None" "msg_ok (MReq q)" "hashable (reqId q)" "core c' = core (setPhase n (Begun q) c)"
  | (phase) n old ph ts where "calls c n = Some old" "phase_req ph = phase_req old" "stored old \<longrightarrow> stored ph"
      "\<forall>q m. ph \<noteq> Done q (Inr m)" "core c' = core (setPhase n ph (c\<lparr>timers := timers c @ ts\<rparr>))"
      "\<forall>q k ch. ph = Waiting q k ch \<longrightarrow> ts = [k]"
  | (stores) n q b sendmsg where "calls c n = Some (Checked q b)"
      "core c' = core (setPhase n (Stored q sendmsg)
        (c\<lparr>pendingRequests := (pendingRequests c)(reqId sendmsg \<mapsto> \<lparr>prReqmsg = q, prCall = n\<rparr>),
           sentKey := (sentKey c)(n \<mapsto> reqId sendmsg)\<rparr>))"
  | (returns) n q k ch m ms where "calls c n = Some (Waiting q k ch)" "results c n = m # ms"
      "core c' = core (setPhase n (Done q (Inr m)) (c\<lparr>results := (results c)(n := ms)\<rparr>))"
  | (receives) m where "msg_ok m" "wire_fields m" "recvMessage m c = Inr c'"
  | (times_out) k where "k \<in> set (timers c)" "expire k (c\<lparr>timers := remove1 k (timers c)\<rparr>) = Inr c'"
  using assms
proof (cases rule: client_step.cases)
  case app
  then show thesis
  proof (cases rule: app_step.cases)
    case (begin_call n q)
    then show thesis using begins by simp
  next
    case (reuse n q)
    then show thesis using phase [of n "Begun q" "Ready q" "[]"] requestConnect_core [of n q None c] by (simp add: core_def)
  next
    case (load n q)
    then show thesis
      using phase [of n "Ready q" "Checked q (loadPending (reqId q) c \<noteq> None)" "[]"]
      by (simp add: requestLoad_def core_def setPhase_def)
  next
    case (store n q b u)
    then show thesis using stores [of n q b] by (auto simp: requestStore_def split: if_splits sum.splits)
  next
    case (relink n q m)
    then show thesis using phase [of n "Stored q m" "Linked q m" "[]"] requestSend_core [of n q m None c] by (simp add: core_def)
  next
    case (enqueue_call n q m)
    then obtain c1 where c1: "enqueue (MReq m) c = Some c1" "c' = setPhase n (Sent q (reqId m)) c1"
      by (auto simp: requestEnqueue_def)
    then show thesis
      using phase [of n "Linked q m" "Sent q (reqId m)" "[]"] enqueue_call(1) core_eqD [OF enqueue_core [OF c1(1)]]
      by (simp add: core_def setPhase_def)
  next
    case (wait_call n q k)
    have "core c' = core (setPhase n (Waiting q k (closeChannel c)) (c\<lparr>timers := timers c @ [k]\<rparr>))"
      by (simp add: wait_call(1) requestWait_def)
    from phase [OF wait_call(2) _ _ _ this] show thesis by simp
  next
    case (return n q k ch)
    then obtain m ms where "results c n = m # ms" "c' = setPhase n (Done q (Inr m)) (c\<lparr>results := (results c)(n := ms)\<rparr>)"
      by (auto simp: requestReturn_def split: list.splits)
    with returns [OF return(1)] show thesis by blast
  next
    case (return_closed n q k ch)
    have "core c' = core (setPhase n (Done q (Inl TransportClosed)) (c\<lparr>timers := timers c @ []\<rparr>))"
      using return_closed(2) by (auto simp: requestClosed_def core_def setPhase_def split: if_splits list.splits)
    from phase [OF return_closed(1) _ _ _ this] show thesis by simp
  next
    case (expires k)
    then show thesis using times_out by blast
  next
    case (waited err)
    show thesis by (rule same [OF WaitClient_core [OF waited]])
  next
    case set_handler
    show thesis by (rule same [OF handler_core [OF set_handler]])
  next
    case (resend m e)
    show thesis by (rule same [OF SendStream_core [OF resend(2)]])
  qed
next
  case (connect_call n q dial)
  then show thesis
    using phase [of n "Begun q" "if connectedFlag c \<or> dial = None then Ready q else Done q (Inl (the dial))" "[]"]
      requestConnect_core [of n q dial c] by (simp add: core_def split: if_splits)
next
  case (send_call n q m dial)
  then show thesis
    using phase [of n "Stored q m" "if connectedFlag c \<or> dial = None then Linked q m else Done q (Inl (the dial))" "[]"]
      requestSend_core [of n q m dial c] by (simp add: core_def split: if_splits)
next
  case (send_other m dial e)
  show thesis by (rule same [OF SendStream_core [OF send_other]])
next
  case (connects dial e)
  show thesis by (rule same [OF Connect_core [OF connects]])
next
  case close
  show thesis by (rule same) (simp add: close CloseClient_core)
next
  case (transport_error err)
  show thesis by (rule same) (simp add: transport_error handleError_core)
next
  case (receive m)
  then show thesis using receives by blast
qed (use same in \<open>simp_all add: core_def\<close>)

lemma client_inv_core: "core c' = core c \<Longrightarrow> client_inv c' = client_inv c"
  by (simp add: client_inv_def core_def)

lemma handleResult_cases:
  assumes "handleResult m c = Inr c'"
  obtains (unknown) k where "MustId m = Inr k" "loadPending k c = None" "c' = tellHandler m c"
  | (known) k p m' where "MustId m = Inr k" "pendingRequests c k = Some p" "k \<noteq> GFloat NaN"
      "m' = m \<and> k = reqId (prReqmsg p) \<or> ReplaceId m (reqId (prReqmsg p)) = Inr m'"
      "c' = deliver_result (prCall p) m' (c\<lparr>pendingRequests := (pendingRequests c)(k := None)\<rparr>)"
proof (cases "MustId m")
  case (Inr k)
  show thesis
  proof (cases "loadPending k c")
    case None
    with assms Inr show thesis using unknown by (simp add: handleResult_def)
  next
    case (Some p)
    then have "pendingRequests c k = Some p" "k \<noteq> GFloat NaN" by (auto simp: loadPending_def split: if_splits)
    moreover obtain m' where "m' = m \<and> k = reqId (prReqmsg p) \<or> ReplaceId m (reqId (prReqmsg p)) = Inr m'"
      "c' = deliver_result (prCall p) m' (c\<lparr>pendingRequests := (pendingRequests c)(k := None)\<rparr>)"
      using assms Inr Some by (auto simp: handleResult_def Let_def split: if_splits sum.splits)
    ultimately show thesis by (rule known [OF Inr])
  qed
qed (use assms in \<open>simp add: handleResult_def\<close>)

lemma expire_cases:
  assumes "expire k c = Inr c'"
  obtains (gone) "loadPending k c = None" "c' = c"
  | (late) p m where "pendingRequests c k = Some p" "k \<noteq> GFloat NaN" "ToMessage ErrTimeout (prReqmsg p) = Inr m"
      "c' = deliver_result (prCall p) (MErr m) (c\<lparr>pendingRequests := (pendingRequests c)(k := None)\<rparr>)"
proof (cases "loadPending k c")
  case None
  with assms have "c' = c" by (simp add: expire_def)
  with gone [OF None] show thesis by blast
next
  case (Some p)
  then have "pendingRequests c k = Some p" "k \<noteq> GFloat NaN" by (auto simp: loadPending_def split: if_splits)
  moreover obtain m where "ToMessage ErrTimeout (prReqmsg p) = Inr m"
    "c' = deliver_result (prCall p) (MErr m) (c\<lparr>pendingRequests := (pendingRequests c)(k := None)\<rparr>)"
    using assms Some by (auto simp: expire_def split: sum.splits)
  ultimately show thesis by (rule late)
qed

lemma handleResult_inv:
  assumes "client_inv c" "msg_ok m" "IsResultOrError m" "m \<in> set (received c)" "handleResult m c = Inr c'"
  shows "client_inv c'"
  using assms(5)
proof (cases rule: handleResult_cases)
  case (unknown k)
  with assms(1) show ?thesis by (simp add: client_inv_def)
next
  case (known k p m')
  have "answersCall (received c) (Some k) m' (prReqmsg p)"
    using known(1,4) assms(2,3,4) ReplaceId_answers [OF assms(2,3) _ assms(4) known(1)] by (auto simp: answersCall_def)
  with inv_deliver [of "received c" "sentKey c" "pendingRequests c" "calls c" "results c" k p m'] known assms(1) show ?thesis
    by (simp add: client_inv_def deliver_result_def)
qed

lemma expire_inv:
  assumes "client_inv c" "expire k c = Inr c'"
  shows "client_inv c'"
  using assms(2)
proof (cases rule: expire_cases)
  case (late p m)
  with inv_deliver [of "received c" "sentKey c" "pendingRequests c" "calls c" "results c" k p "MErr m"] assms(1) ToMessage_answersCall
  show ?thesis by (simp add: client_inv_def deliver_result_def)
qed (use assms in simp)

lemma setPhase_inv:
  assumes "client_inv c" "calls c n = Some old" "phase_req ph = phase_req old" "stored old \<longrightarrow> stored ph" "\<forall>q m. ph \<noteq> Done q (Inr m)"
  shows "client_inv (setPhase n ph c)"
  using inv_phase [of "received c" "sentKey c" "pendingRequests c" "calls c" "results c" ph n] assms calls_invD(6) [of "received c" "sentKey c" "pendingRequests c" "calls c" "results c" n old]
  by (simp add: client_inv_def setPhase_def)

lemma client_step_inv:
  assumes "client_step c c'" "client_inv c"
  shows "client_inv c'"
  using assms(1)
proof (cases rule: client_step_core_cases)
  case (begins n q)
  then have "client_inv (setPhase n (Begun q) c)"
    using inv_phase [of "received c" "sentKey c" "pendingRequests c" "calls c" "results c" "Begun q" n] assms(2)
    by (simp add: client_inv_def setPhase_def)
  then show ?thesis using client_inv_core [OF begins(4)] by simp
next
  case (phase n old ph ts)
  have "client_inv (setPhase n ph (c\<lparr>timers := timers c @ ts\<rparr>))"
    by (rule setPhase_inv [OF _ _ phase(2,3,4)]) (use assms(2) phase(1) in \<open>simp_all add: client_inv_def\<close>)
  then show ?thesis using client_inv_core [OF phase(5)] by simp
next
  case (stores n q b m)
  from inv_store [OF assms(2) [unfolded client_inv_def] stores(1), of "reqId m" m]
  show ?thesis using client_inv_core [OF stores(2)] by (simp add: client_inv_def setPhase_def)
next
  case (returns n q k ch m ms)
  from inv_return [OF assms(2) [unfolded client_inv_def] returns(1,2)]
  show ?thesis using client_inv_core [OF returns(3)] by (simp add: client_inv_def setPhase_def)
next
  case (receives m)
  have "client_inv (c\<lparr>received := received c @ [m]\<rparr>)"
    using calls_inv_mono [OF assms(2) [unfolded client_inv_def], of "received c @ [m]"] by (auto simp: client_inv_def)
  with receives handleResult_inv [OF this receives(1), of c'] show ?thesis
    by (cases "IsResultOrError m") (auto simp: recvMessage_def client_inv_def)
next
  case (times_out k)
  then show ?thesis using expire_inv [of "c\<lparr>timers := remove1 k (timers c)\<rparr>"] assms(2) by (simp add: client_inv_def)
qed (use client_inv_core assms(2) in blast)

lemma client_reachable_inv: "client_reachable c \<Longrightarrow> client_inv c"
proof (induction rule: client_reachable.induct)
  case start
  show ?case by (simp add: client_inv_def calls_inv_def InitStreaming_def)
qed (rule client_step_inv)


text \<open>A call that waits under its own entry has a running timer for it.\<close>

definition timers_inv :: "streaming_client \<Rightarrow> bool" where
  "timers_inv c \<longleftrightarrow>
     (\<forall>n q k ch p. calls c n = Some (Waiting q k ch) \<longrightarrow> pendingRequests c k = Some p \<longrightarrow> prCall p = n \<longrightarrow> k \<noteq> GFloat NaN \<longrightarrow>
        k \<in> set (timers c))"

lemma timers_invD:
  "timers_inv c \<Longrightarrow> calls c n = Some (Waiting q k ch) \<Longrightarrow> pendingRequests c k = Some p \<Longrightarrow> prCall p = n \<Longrightarrow> k \<noteq> GFloat NaN \<Longrightarrow>
     k \<in> set (timers c)"
  unfolding timers_inv_def by blast

lemma timers_inv_core: "core c' = core c \<Longrightarrow> timers_inv c' = timers_inv c"
  by (simp add: timers_inv_def core_def)

lemma timers_inv_drop:
  assumes "timers_inv c" "calls c' = calls c"
    "\<forall>k. k \<noteq> GFloat NaN \<longrightarrow> pendingRequests c' k = pendingRequests c k \<and> (k \<in> set (timers c) \<longrightarrow> k \<in> set (timers c'))
    \<or> pendingRequests c' k = None"
  shows "timers_inv c'"
  unfolding timers_inv_def
proof (intro allI impI)
  fix n q k ch p
  assume h: "calls c' n = Some (Waiting q k ch)" "pendingRequests c' k = Some p" "prCall p = n" "k \<noteq> GFloat NaN"
  with assms(3) have k: "pendingRequests c k = Some p" "k \<in> set (timers c) \<longrightarrow> k \<in> set (timers c')" by (auto dest: spec [of _ k])
  with timers_invD [OF assms(1) _ k(1) h(3,4)] h(1) assms(2) show "k \<in> set (timers c')" by simp
qed

lemma timers_inv_handleResult:
  assumes "timers_inv c" "handleResult m c = Inr c'"
  shows "timers_inv c'"
  using assms(2)
proof (cases rule: handleResult_cases)
  case (unknown k)
  then show ?thesis using assms(1) by (simp add: timers_inv_def)
next
  case (known k p m')
  show ?thesis by (rule timers_inv_drop [OF assms(1)]) (use known in \<open>auto simp: deliver_result_def\<close>)
qed

lemma client_step_timers:
  assumes "client_step c c'" "timers_inv c"
  shows "timers_inv c'"
  using assms(1)
proof (cases rule: client_step_core_cases)
  case (begins n q)
  show ?thesis unfolding timers_inv_core [OF begins(4)] using assms(2) by (auto simp: timers_inv_def setPhase_def)
next
  case (phase n old ph ts)
  show ?thesis
    unfolding timers_inv_core [OF phase(5)] using assms(2) phase(6) by (auto simp: timers_inv_def setPhase_def split: if_splits)
next
  case (stores n q b m)
  show ?thesis
    unfolding timers_inv_core [OF stores(2)] using assms(2) stores(1) by (auto simp: timers_inv_def setPhase_def split: if_splits)
next
  case (returns n q k ch m ms)
  show ?thesis unfolding timers_inv_core [OF returns(3)] using assms(2) by (auto simp: timers_inv_def setPhase_def)
next
  case (receives m)
  have "timers_inv (c\<lparr>received := received c @ [m]\<rparr>)" using assms(2) by (simp add: timers_inv_def)
  moreover from this have "timers_inv (tellHandler m (c\<lparr>received := received c @ [m]\<rparr>))" by (simp add: timers_inv_def)
  ultimately show ?thesis
    using receives(3) timers_inv_handleResult [of "c\<lparr>received := received c @ [m]\<rparr>" m c']
    by (cases "IsResultOrError m") (simp_all add: recvMessage_def)
next
  case (times_out k)
  from times_out(2) show ?thesis
  proof (cases rule: expire_cases)
    case gone
    have "pendingRequests c k = None \<or> k = GFloat NaN" using gone(1) by (auto simp: loadPending_def split: if_splits)
    then have "k' \<in> set (timers c) \<Longrightarrow> k' \<noteq> GFloat NaN \<Longrightarrow> pendingRequests c k' \<noteq> None \<Longrightarrow> k' \<in> set (timers c')" for k'
      using gone(2) by (cases "k' = k") auto
    then show ?thesis by (intro timers_inv_drop [OF assms(2)]) (use gone(2) in auto)
  next
    case (late p m)
    show ?thesis by (rule timers_inv_drop [OF assms(2)]) (use late in \<open>auto simp: deliver_result_def\<close>)
  qed
qed (use timers_inv_core assms(2) in blast)

lemma client_reachable_timers: "client_reachable c \<Longrightarrow> timers_inv c"
proof (induction rule: client_reachable.induct)
  case start
  show ?case by (simp add: timers_inv_def InitStreaming_def)
qed (rule client_step_timers)

text \<open>A call whose entry another one has taken: nothing brings it a result any more.\<close>

definition lost :: "nat \<Rightarrow> streaming_client \<Rightarrow> bool" where
  "lost n c \<longleftrightarrow> (\<exists>ph. calls c n = Some ph \<and> stored ph \<and> (\<forall>q m. ph \<noteq> Done q (Inr m))) \<and> results c n = [] \<and>
     (\<forall>k p. pendingRequests c k = Some p \<longrightarrow> prCall p \<noteq> n)"

lemma lost_core: "core c' = core c \<Longrightarrow> lost n c' = lost n c"
  by (simp add: lost_def core_def)

lemma lost_deliver:
  "lost n c \<Longrightarrow> pendingRequests c k = Some p \<Longrightarrow> lost n (deliver_result (prCall p) m (c\<lparr>pendingRequests := (pendingRequests c)(k := None)\<rparr>))"
  unfolding lost_def deliver_result_def by auto

lemma client_step_lost:
  assumes "client_step c c'" "lost n c"
  shows "lost n c'"
  using assms(1)
proof (cases rule: client_step_core_cases)
  case (begins n' q)
  show ?thesis unfolding lost_core [OF begins(4)] using assms(2) begins(1) by (auto simp: lost_def setPhase_def)
next
  case (phase n' old ph ts)
  show ?thesis unfolding lost_core [OF phase(5)] using assms(2) phase(1-4) by (auto simp: lost_def setPhase_def)
next
  case (stores n' q b m)
  show ?thesis unfolding lost_core [OF stores(2)] using assms(2) stores(1) by (auto simp: lost_def setPhase_def)
next
  case (returns n' q k ch m ms)
  show ?thesis unfolding lost_core [OF returns(3)] using assms(2) returns(1,2) by (auto simp: lost_def setPhase_def)
next
  case (receives m)
  have l: "lost n (c\<lparr>received := received c @ [m]\<rparr>)" "lost n (tellHandler m (c\<lparr>received := received c @ [m]\<rparr>))"
    using assms(2) by (simp_all add: lost_def)
  show ?thesis
  proof (cases "IsResultOrError m")
    case True
    then have "handleResult m (c\<lparr>received := received c @ [m]\<rparr>) = Inr c'" using receives(3) by (simp add: recvMessage_def)
    then show ?thesis by (cases rule: handleResult_cases) (use l lost_deliver [OF l(1)] in auto)
  qed (use receives(3) l in \<open>simp add: recvMessage_def\<close>)
next
  case (times_out k)
  have l: "lost n (c\<lparr>timers := remove1 k (timers c)\<rparr>)" using assms(2) by (simp add: lost_def)
  from times_out(2) show ?thesis by (cases rule: expire_cases) (use l lost_deliver [OF l] in auto)
qed (use lost_core assms(2) in blast)

lemma lost_forever:
  assumes "client_step\<^sup>*\<^sup>* c c'" "lost n c"
  shows "lost n c'"
  using assms by (induction rule: rtranclp_induct) (auto intro: client_step_lost)

lemma reachable_steps:
  assumes "client_step\<^sup>*\<^sup>* c c'" "client_reachable c"
  shows "client_reachable c'"
  using assms by (induction rule: rtranclp_induct) (auto intro: client_reachable.step)

lemma UnwrapOutcome_answer:
  assumes "msg_ok m" "IsResultOrError m"
  shows "\<exists>r. UnwrapOutcome into q (Inr m) = Inr r"
  using assms by (cases m) (auto simp: UnwrapOutcome_def CallOutcome_def IsResultOrError_def Is_defs)

text \<open>The steps of one call whose connection stands, up to waiting for the result.\<close>

lemma app_steps: "app_step\<^sup>*\<^sup>* c c' \<Longrightarrow> client_step\<^sup>*\<^sup>* c c'"
  by (induction rule: rtranclp_induct) (auto intro: app rtranclp.rtrancl_into_rtrancl)

lemma call_waits_app:
  assumes "connectedFlag c" "sendQueue c = Some ms" "length ms < sendCap" "calls c n = None" "msg_ok (MReq q)" "hashable (reqId q)"
    and s: "(if loadPending (reqId q) c \<noteq> None then Clone q (GStr uuid) else Inr q) = Inr s"
  shows "app_step\<^sup>*\<^sup>* c (c\<lparr>pendingRequests := (pendingRequests c)(reqId s \<mapsto> \<lparr>prReqmsg = q, prCall = n\<rparr>),
      sendQueue := Some (ms @ [MReq s]), calls := (calls c)(n \<mapsto> Waiting q (reqId s) (closeChannel c)),
      timers := timers c @ [reqId s], sentKey := (sentKey c)(n \<mapsto> reqId s)\<rparr>)"
proof -
  let ?b = "loadPending (reqId q) c \<noteq> None"
  let ?c1 = "setPhase n (Begun q) c" and ?c2 = "setPhase n (Ready q) c" and ?c3 = "setPhase n (Checked q ?b) c"
  let ?d = "c\<lparr>pendingRequests := (pendingRequests c)(reqId s \<mapsto> \<lparr>prReqmsg = q, prCall = n\<rparr>), sentKey := (sentKey c)(n \<mapsto> reqId s)\<rparr>"
  let ?e = "?d\<lparr>sendQueue := Some (ms @ [MReq s])\<rparr>"
  have l: "loadPending k (setPhase n ph c') = loadPending k c'" for k ph c' by (simp add: loadPending_def setPhase_def)
  have 1: "app_step c ?c1" by (rule app_step.begin_call) (use assms in simp_all)
  have 2: "app_step ?c1 ?c2"
    using reuse [of ?c1 n q] assms(1) by (simp add: requestConnect_def Connect_def setPhase_def)
  have 3: "app_step ?c2 ?c3"
    using app_step.load [of ?c2 n q] by (simp add: requestLoad_def l) (simp add: setPhase_def)
  have 4: "app_step ?c3 (setPhase n (Stored q s) ?d)"
    by (rule app_step.store [of _ n q ?b uuid]) (use s in \<open>simp_all add: requestStore_def setPhase_def\<close>)
  have 5: "app_step (setPhase n (Stored q s) ?d) (setPhase n (Linked q s) ?d)"
    using relink [of "setPhase n (Stored q s) ?d" n q s] assms(1) by (simp add: requestSend_def Connect_def setPhase_def)
  have 6: "app_step (setPhase n (Linked q s) ?d) (setPhase n (Sent q (reqId s)) ?e)"
    by (rule app_step.enqueue_call [of _ n q s]) (use assms(2,3) in \<open>simp_all add: requestEnqueue_def enqueue_def setPhase_def\<close>)
  have 7: "app_step (setPhase n (Sent q (reqId s)) ?e) (requestWait n q (reqId s) (setPhase n (Sent q (reqId s)) ?e))"
    by (rule app_step.wait_call) (simp add: setPhase_def)
  from 1 2 3 4 5 6 7 have "app_step\<^sup>*\<^sup>* c (requestWait n q (reqId s) (setPhase n (Sent q (reqId s)) ?e))"
    by (meson converse_rtranclp_into_rtranclp rtranclp.rtrancl_refl)
  then show ?thesis by (cases c) (simp add: requestWait_def setPhase_def)
qed

lemmas call_waits = app_steps [OF call_waits_app]

lemma result_returns:
  assumes "calls c n = Some (Waiting q k ch)" "pendingRequests c k = Some \<lparr>prReqmsg = q, prCall = n\<rparr>"
    "k \<noteq> GFloat NaN" "results c n = []" "msg_ok r" "wire_fields r" "IsResultOrError r" "MustId r = Inr k"
    and m: "(if k \<noteq> reqId q then ReplaceId r (reqId q) else Inr r) = Inr m"
  shows "client_step\<^sup>*\<^sup>* c (c\<lparr>pendingRequests := (pendingRequests c)(k := None), calls := (calls c)(n \<mapsto> Done q (Inr m)),
      received := received c @ [r]\<rparr>)"
proof -
  let ?c1 = "c\<lparr>received := received c @ [r], pendingRequests := (pendingRequests c)(k := None), results := (results c)(n := [m])\<rparr>"
  have 1: "client_step c ?c1"
    by (rule receive [OF assms(5,6)])
      (use assms(2-4,7,8) m in \<open>simp add: recvMessage_def handleResult_def loadPending_def deliver_result_def split: if_splits\<close>)
  have 2: "client_step ?c1 (setPhase n (Done q (Inr m)) (?c1\<lparr>results := (results ?c1)(n := [])\<rparr>))"
    by (rule return [of _ n q k ch]) (use assms(1) in \<open>simp_all add: requestReturn_def\<close>)
  have r: "(results c)(n := []) = results c" using assms(4) by auto
  show ?thesis
    using converse_rtranclp_into_rtranclp [of client_step, OF 1 r_into_rtranclp [of client_step, OF 2]] r
    by (cases c) (simp add: setPhase_def)
qed

lemma call_completes:
  assumes "client_reachable c" "connectedFlag c" "sendQueue c = Some ms" "length ms < sendCap" "calls c n = None"
    and "msg_ok (MReq q)" "hashable (reqId q)"
    and "(if loadPending (reqId q) c \<noteq> None then Clone q (GStr uuid) else Inr q) = Inr s"
    and "pendingRequests c (reqId s) = None" "reqId s \<noteq> GFloat NaN"
    and "msg_ok r" "wire_fields r" "IsResultOrError r" "MustId r = Inr (reqId s)"
    and "(if reqId s \<noteq> reqId q then ReplaceId r (reqId q) else Inr r) = Inr m"
  shows "\<exists>c'. client_step\<^sup>*\<^sup>* c c' \<and> calls c' n = Some (Done q (Inr m)) \<and> sendQueue c' = Some (ms @ [MReq s]) \<and>
    pendingRequests c' = pendingRequests c \<and> MustId m = Inr (reqId q)"
proof -
  let ?w = "c\<lparr>pendingRequests := (pendingRequests c)(reqId s \<mapsto> \<lparr>prReqmsg = q, prCall = n\<rparr>),
      sendQueue := Some (ms @ [MReq s]), calls := (calls c)(n \<mapsto> Waiting q (reqId s) (closeChannel c)),
      timers := timers c @ [reqId s], sentKey := (sentKey c)(n \<mapsto> reqId s)\<rparr>"
  let ?f = "?w\<lparr>pendingRequests := (pendingRequests ?w)(reqId s := None), calls := (calls ?w)(n \<mapsto> Done q (Inr m)),
      received := received ?w @ [r]\<rparr>"
  have 1: "client_step\<^sup>*\<^sup>* c ?w" by (rule call_waits) (use assms in simp_all)
  have "results c n = []"
    using not_stored_clean [OF client_reachable_inv [OF assms(1), unfolded client_inv_def], of n] assms(5) by simp
  then have 2: "client_step\<^sup>*\<^sup>* ?w ?f" by (intro result_returns [where ch = "closeChannel c"]) (use assms(10-) in simp_all)
  from 1 2 have reach: "client_step\<^sup>*\<^sup>* c ?f" by (rule rtranclp_trans)
  have "client_reachable ?f" by (rule reachable_steps [OF reach assms(1)])
  then have "answersCall (received ?f) (sentKey ?f n) m q"
    using calls_invD(5) [OF client_reachable_inv [unfolded client_inv_def], of ?f n q m] by simp
  moreover have "(pendingRequests c)(reqId s := None) = pendingRequests c" using assms(9) by auto
  ultimately show ?thesis using reach by (intro exI [of _ ?f]) (simp add: answersCall_def)
qed

text \<open>The client of the witnesses: connected, with one call that waits for its result.\<close>

abbreviation pong :: message where
  "pong \<equiv> MRes (rawResultMessage (GInt 1) (GBool True) None)"

definition connected_client :: streaming_client where
  "connected_client = snd (Connect None InitStreaming)"

lemma connected_client_reachable: "client_reachable connected_client"
  by (rule client_reachable.step [OF start connects [of None _ None]])
    (simp add: connected_client_def Connect_def InitStreaming_def)

lemmas client_eval = connected_client_def Connect_def InitStreaming_def loadPending_def hashable_def

lemma pong_ok: "msg_ok pong" "wire_fields pong" "IsResultOrError pong" "MustId pong = Inr (GInt 1)"
  by (simp_all add: raw_defs IsResultOrError_def Is_defs wire_id_def)

lemma ping_ok: "msg_ok (MReq ping)" "hashable (reqId ping)"
  by (simp_all add: params_ok_def hashable_def)

text \<open>A state in which the first call waits.\<close>

lemma ping_waits:
  obtains c where "client_reachable c" "connectedFlag c" "sendQueue c = Some [MReq ping]"
    "calls c = [0 \<mapsto> Waiting ping (GInt 1) (Some 0)]" "pendingRequests c = [GInt 1 \<mapsto> \<lparr>prReqmsg = ping, prCall = 0\<rparr>]"
proof -
  from call_waits [of connected_client "[]" 0 ping undefined ping]
  have "client_step\<^sup>*\<^sup>* connected_client (connected_client\<lparr>pendingRequests := [GInt 1 \<mapsto> \<lparr>prReqmsg = ping, prCall = 0\<rparr>],
      sendQueue := Some [MReq ping], calls := [0 \<mapsto> Waiting ping (GInt 1) (Some 0)],
      timers := [GInt 1], sentKey := [0 \<mapsto> GInt 1]\<rparr>)" (is "client_step\<^sup>*\<^sup>* _ ?c")
    using ping_ok by (simp add: client_eval sendCap_def)
  from reachable_steps [OF this connected_client_reachable] show thesis
    by (rule that) (simp_all add: client_eval)
qed

lemma ping_returns:
  obtains c where "client_reachable c" "calls c 0 = Some (Done ping (Inr pong))"
  using call_completes [OF connected_client_reachable, of "[]" 0 ping undefined ping pong pong] pong_ok ping_ok
    reachable_steps [OF _ connected_client_reachable]
  by (auto simp: client_eval sendCap_def)

section \<open>Properties\<close>

text \<open>
  \<^bold>\<open>C11.\<close> However the calls of a streaming client interleave, a call that returns a message returns a
  result or an error under its own id, which is the timeout error or was read from the transport under the id the call was sent
  with. The result channel of a call never holds more than one message, so a delivery never blocks, the entry of the call
  is gone when it returns, and \<^verbatim>\<open>UnwrapCall\<close> does not panic on the message.
\<close>

theorem streaming_call_answer:
  assumes "client_reachable c" "calls c n = Some (Done q (Inr m))"
  shows "answersCall (received c) (sentKey c n) m q \<and> (\<forall>n'. length (results c n') \<le> 1) \<and>
    n \<notin> prCall ` ran (pendingRequests c) \<and> (\<exists>r. UnwrapOutcome into q (Inr m) = Inr r)"
proof -
  note i = client_reachable_inv [OF assms(1), unfolded client_inv_def]
  have a: "answersCall (received c) (sentKey c n) m q" "\<forall>k p. pendingRequests c k = Some p \<longrightarrow> prCall p \<noteq> n"
    using calls_invD(5) [OF i assms(2)] by blast+
  have "length (results c n') \<le> 1" for n' using calls_invD(4) [OF i, of n'] by (cases "results c n'") auto
  moreover have "\<exists>r. UnwrapOutcome into q (Inr m) = Inr r"
    by (rule UnwrapOutcome_answer) (use a(1) in \<open>simp_all add: answersCall_def\<close>)
  ultimately show ?thesis using a by (auto simp: ran_def)
qed

theorem streaming_call_answer_witness:
  "\<exists>c. client_reachable c \<and> calls c 0 = Some (Done ping (Inr pong)) \<and> answersCall (received c) (sentKey c 0) pong ping"
proof -
  obtain c where c: "client_reachable c" "calls c 0 = Some (Done ping (Inr pong))" by (rule ping_returns)
  with streaming_call_answer [OF this] show ?thesis by blast
qed

text \<open>
  \<^bold>\<open>C12.\<close> A call over a standing connection gets the response to the message that was sent for it, also while another
  call with the same id is pending: then the message is sent with a fresh id and the response is delivered under the call's own.
  The steps put one message into the send channel and leave the entries of the other calls as they were.
\<close>

theorem streaming_call_completes:
  assumes "client_reachable c" "connectedFlag c" "sendQueue c = Some ms" "length ms < 100" "calls c n = None"
    and "msg_ok (MReq q)" "hashable (reqId q)"
    and "(if loadPending (reqId q) c \<noteq> None then Clone q (GStr uuid) else Inr q) = Inr s"
    and "pendingRequests c (reqId s) = None" "reqId s \<noteq> GFloat NaN"
    and "msg_ok r" "wire_fields r" "IsResultOrError r" "MustId r = Inr (reqId s)"
    and "(if reqId s \<noteq> reqId q then ReplaceId r (reqId q) else Inr r) = Inr m"
  shows "\<exists>c'. client_step\<^sup>*\<^sup>* c c' \<and> calls c' n = Some (Done q (Inr m)) \<and> sendQueue c' = Some (ms @ [MReq s]) \<and>
    pendingRequests c' = pendingRequests c \<and> MustId m = Inr (reqId q)"
  using assms by (intro call_completes [of c ms n q uuid s r m]) (simp_all add: sendCap_def)

theorem streaming_call_completes_witness:
  "\<exists>c c'. client_reachable c \<and> pendingRequests c (GInt 1) \<noteq> None \<and> client_step\<^sup>*\<^sup>* c c' \<and>
     calls c' 1 = Some (Done ping (Inr pong)) \<and> sendQueue c' = Some [MReq ping, MReq (ping\<lparr>reqId := GStr ''u''\<rparr>)]"
proof -
  obtain c where c: "client_reachable c" "connectedFlag c" "sendQueue c = Some [MReq ping]"
    "calls c = [0 \<mapsto> Waiting ping (GInt 1) (Some 0)]" "pendingRequests c = [GInt 1 \<mapsto> \<lparr>prReqmsg = ping, prCall = 0\<rparr>]"
    by (rule ping_waits)
  let ?r = "MRes (rawResultMessage (GStr ''u'') (GBool True) None)"
  have "Clone ping (GStr ''u'') = Inr (ping\<lparr>reqId := GStr ''u''\<rparr>)" by (simp add: Clone_Inr)
  with streaming_call_completes [OF c(1-3), of 1 ping "''u''" "ping\<lparr>reqId := GStr ''u''\<rparr>" ?r pong] ping_ok
  show ?thesis
    using c(1,4,5) by (auto simp: loadPending_def raw_defs IsResultOrError_def Is_defs wire_id_def)
qed

text \<open>
  \<^bold>\<open>C13.\<close> A call never waits for ever under its own entry: its timer is running, and when it fires the call
  returns the timeout error made from its request and the entry is removed.
\<close>

theorem streaming_call_times_out:
  assumes "client_reachable c" "calls c n = Some (Waiting q k ch)" "pendingRequests c k = Some p" "prCall p = n" "k \<noteq> GFloat NaN"
  shows "k \<in> set (timers c) \<and> (\<exists>t c'. ToMessage ErrTimeout q = Inr t \<and> client_step\<^sup>*\<^sup>* c c' \<and>
    calls c' n = Some (Done q (Inr (MErr t))) \<and> pendingRequests c' = (pendingRequests c)(k := None))"
proof -
  note i = client_reachable_inv [OF assms(1), unfolded client_inv_def]
  have k: "k \<in> set (timers c)" by (rule timers_invD [OF client_reachable_timers [OF assms(1)] assms(2-5)])
  have q: "prReqmsg p = q" using calls_invD(2) [OF i assms(3)] assms(2,4) by auto
  have "results c n = []" using calls_invD(1) [OF i assms(3)] assms(4) by simp
  moreover obtain t where t: "ToMessage ErrTimeout q = Inr t" using ToMessage_answers [of ErrTimeout q] by blast
  let ?c1 = "deliver_result n (MErr t) (c\<lparr>timers := remove1 k (timers c), pendingRequests := (pendingRequests c)(k := None)\<rparr>)"
  have 1: "client_step c ?c1"
    by (rule expires [OF k]) (use assms(3-5) q t in \<open>simp add: expire_def loadPending_def deliver_result_def\<close>)
  have 2: "client_step ?c1 (setPhase n (Done q (Inr (MErr t))) (?c1\<lparr>results := (results ?c1)(n := [])\<rparr>))" (is "client_step _ ?c2")
    by (rule return [of _ n q k ch]) (use assms(2) calculation in \<open>simp_all add: requestReturn_def deliver_result_def\<close>)
  have "client_step\<^sup>*\<^sup>* c ?c2" by (rule converse_rtranclp_into_rtranclp [of client_step, OF 1 r_into_rtranclp [of client_step, OF 2]])
  then show ?thesis using k t by (intro conjI exI [of _ t] exI [of _ ?c2]) (simp_all add: setPhase_def deliver_result_def)
qed

theorem streaming_call_times_out_witness:
  "\<exists>c t c'. client_reachable c \<and> ToMessage ErrTimeout ping = Inr t \<and> client_step\<^sup>*\<^sup>* c c' \<and> calls c' 0 = Some (Done ping (Inr (MErr t)))"
proof -
  obtain c where c: "client_reachable c" "calls c = [0 \<mapsto> Waiting ping (GInt 1) (Some 0)]"
    "pendingRequests c = [GInt 1 \<mapsto> \<lparr>prReqmsg = ping, prCall = 0\<rparr>]" by (rule ping_waits)
  with streaming_call_times_out [OF c(1), of 0 ping "GInt 1" "Some 0" "\<lparr>prReqmsg = ping, prCall = 0\<rparr>"] show ?thesis by auto
qed

text \<open>
  \<^bold>\<open>C36.\<close> The lookup of the id and the store of the entry are not one operation: when two calls with the same id look it up
  before either is stored, both are sent under that id, the second entry replaces the first, and from then on no response
  and no timeout reaches the first call, whatever happens.
\<close>

theorem concurrent_same_id_loses_call:
  assumes "client_reachable c" "n \<noteq> n'" "reqId q = reqId q'"
    and "calls c n = Some (Checked q False)" "calls c n' = Some (Checked q' False)"
  shows "\<exists>c'. client_step\<^sup>*\<^sup>* c c' \<and> calls c' n = Some (Stored q q) \<and> calls c' n' = Some (Stored q' q') \<and>
    (\<forall>c'' r m. client_step\<^sup>*\<^sup>* c' c'' \<longrightarrow> calls c'' n \<noteq> Some (Done r (Inr m)))"
proof -
  let ?c1 = "setPhase n (Stored q q) (c\<lparr>pendingRequests := (pendingRequests c)(reqId q \<mapsto> \<lparr>prReqmsg = q, prCall = n\<rparr>),
    sentKey := (sentKey c)(n \<mapsto> reqId q)\<rparr>)"
  let ?c2 = "setPhase n' (Stored q' q') (?c1\<lparr>pendingRequests := (pendingRequests ?c1)(reqId q' \<mapsto> \<lparr>prReqmsg = q', prCall = n'\<rparr>),
    sentKey := (sentKey ?c1)(n' \<mapsto> reqId q')\<rparr>)"
  have clean: "results c n = [] \<and> (\<forall>k e. pendingRequests c k = Some e \<longrightarrow> prCall e \<noteq> n)"
    by (rule not_stored_clean [OF client_reachable_inv [OF assms(1), unfolded client_inv_def]]) (simp add: assms(4))
  have 1: "client_step c ?c1" by (rule store [of _ n q False undefined]) (use assms(4) in \<open>simp_all add: requestStore_def\<close>)
  have 2: "client_step ?c1 ?c2"
    by (rule store [of _ n' q' False undefined]) (use assms(2,5) in \<open>simp_all add: requestStore_def\<close>, simp add: setPhase_def)
  have "client_step\<^sup>*\<^sup>* c ?c2" by (rule converse_rtranclp_into_rtranclp [of client_step, OF 1 r_into_rtranclp [of client_step, OF 2]])
  moreover have l: "lost n ?c2" using clean assms(2,3) by (auto simp: lost_def setPhase_def)
  have "calls c'' n \<noteq> Some (Done r (Inr m))" if "client_step\<^sup>*\<^sup>* ?c2 c''" for c'' r m
    using lost_forever [OF that l] by (auto simp: lost_def)
  moreover have "calls ?c2 n = Some (Stored q q)" "calls ?c2 n' = Some (Stored q' q')" using assms(2) by (simp_all add: setPhase_def)
  ultimately show ?thesis by blast
qed

lemma two_checked:
  obtains c where "client_reachable c" "calls c 0 = Some (Checked ping False)" "calls c 1 = Some (Checked ping False)"
proof -
  have to_checked: "\<exists>c'. client_step\<^sup>*\<^sup>* c c' \<and> connectedFlag c' \<and> pendingRequests c' = Map.empty \<and> calls c' = (calls c)(n \<mapsto> Checked ping False)"
    if h: "connectedFlag c" "pendingRequests c = Map.empty" "calls c n = None" for c n
  proof -
    have 1: "client_step c (setPhase n (Begun ping) c)" by (rule begin_call) (use h(3) ping_ok in simp_all)
    have 2: "client_step (setPhase n (Begun ping) c) (setPhase n (Ready ping) c)"
      using connect_call [of "setPhase n (Begun ping) c" n ping None] h(1) by (simp add: requestConnect_def Connect_def setPhase_def)
    have 3: "client_step (setPhase n (Ready ping) c) (setPhase n (Checked ping False) c)"
      using load [of "setPhase n (Ready ping) c" n ping] h(2) by (simp add: requestLoad_def loadPending_def setPhase_def)
    from 1 2 3 have "client_step\<^sup>*\<^sup>* c (setPhase n (Checked ping False) c)"
      by (meson converse_rtranclp_into_rtranclp rtranclp.rtrancl_refl)
    then show ?thesis using h by (intro exI [of _ "setPhase n (Checked ping False) c"]) (simp add: setPhase_def)
  qed
  obtain c1 where c1: "client_step\<^sup>*\<^sup>* connected_client c1" "connectedFlag c1" "pendingRequests c1 = Map.empty"
    "calls c1 = (calls connected_client)(0 \<mapsto> Checked ping False)"
    using to_checked [of connected_client 0] by (auto simp: client_eval)
  obtain c2 where c2: "client_step\<^sup>*\<^sup>* c1 c2" "calls c2 = (calls c1)(1 \<mapsto> Checked ping False)"
    using to_checked [of c1 1] c1 by (auto simp: client_eval)
  have "client_reachable c2" by (rule reachable_steps [OF rtranclp_trans [OF c1(1) c2(1)] connected_client_reachable])
  then show thesis by (rule that) (simp_all add: c2(2) c1(4))
qed

theorem concurrent_same_id_loses_call_witness:
  "\<exists>c c'. client_reachable c \<and> client_step\<^sup>*\<^sup>* c c' \<and> calls c' 0 = Some (Stored ping ping) \<and> calls c' 1 = Some (Stored ping ping) \<and>
     (\<forall>c'' r m. client_step\<^sup>*\<^sup>* c' c'' \<longrightarrow> calls c'' 0 \<noteq> Some (Done r (Inr m)))"
proof -
  obtain c where c: "client_reachable c" "calls c 0 = Some (Checked ping False)" "calls c 1 = Some (Checked ping False)"
    by (rule two_checked)
  with concurrent_same_id_loses_call [OF c(1) zero_neq_one refl c(2,3)] show ?thesis by blast
qed

end
