(* ===== verification/Transports.thy ===== *)
theory Transports
  imports Http1_Client Sessions Streaming_Client "HOL-Library.Sublist" "HOL-Library.Word"
begin

text \<open>
  The transports of the streaming clients, \<^verbatim>\<open>net/tcp_client.go\<close>, \<^verbatim>\<open>net/vsock_client.go\<close>, \<^verbatim>\<open>net/http2_client.go\<close> and
  \<^verbatim>\<open>net/ws_client.go\<close>, the loops of \<^verbatim>\<open>net/streaming_client.go\<close> that use them, and \<^verbatim>\<open>NewClient\<close> of
  \<^verbatim>\<open>net/client_factory.go\<close>. A connection is what the peer still sends with the error that ends it, and what
  was written to it. The outcome of dialling and of a write is an argument.
\<close>

section \<open>Connections\<close>

record stream_url = url +
  urlHostname :: string
  urlPort :: string

text \<open>Errors by what the code distinguishes: end of file, a network operation, a URL error, a websocket close, another.\<close>

datatype io_error = IoEOF | IoOp string | IoUrl string | IoClose string | IoText string

primrec io_text :: "io_error \<Rightarrow> string" where
  "io_text IoEOF = ''EOF''"
| "io_text (IoOp s) = s"
| "io_text (IoUrl s) = s"
| "io_text (IoClose s) = s"
| "io_text (IoText s) = s"

abbreviation io_error :: "io_error \<Rightarrow> go_error" where
  "io_error e \<equiv> ErrText (io_text e)"

definition contains :: "string \<Rightarrow> string \<Rightarrow> bool" where
  "contains s pat \<longleftrightarrow> list_ex (prefix pat) (suffixes s)"

record decoder =
  incoming :: string
  ending :: io_error

text \<open>The written bytes while \<^verbatim>\<open>conn\<close> is not nil; the decoder stays after \<^verbatim>\<open>Close\<close>.\<close>

record stream_transport =
  outgoing :: "string option"
  tdecoder :: "decoder option"

definition newTransport :: stream_transport where
  "newTransport = \<lparr>outgoing = None, tdecoder = None\<rparr>"

text \<open>\<^verbatim>\<open>DecodeMessage\<close> on a connection: an error of the connection shows when the decoder needs more bytes.\<close>

definition nextMessage :: "decoder \<Rightarrow> ((io_error + decode_error) + message) \<times> decoder" where
  "nextMessage d =
     (case DecodeMessage [] (incoming d) of
        (Inr m, r) \<Rightarrow> (Inr m, d\<lparr>incoming := r\<rparr>)
      | (Inl EOF, r) \<Rightarrow> (Inl (Inl (ending d)), d)
      | (Inl UnexpectedEOF, r) \<Rightarrow> (Inl (if ending d = IoEOF then Inr UnexpectedEOF else Inl (ending d)), d)
      | (Inl e, r) \<Rightarrow> (Inl (Inr e), d\<lparr>incoming := r\<rparr>))"

section \<open>The interface\<close>

text \<open>What \<^verbatim>\<open>ReadMessage\<close> returns: an error, or a message, or neither.\<close>

type_synonym read_outcome = "go_panic + (go_error + message option)"

text \<open>\<^verbatim>\<open>Transport\<close>, over the transport's state and what a dial gives for the URL and header.\<close>

record ('d, 't) transport_ops =
  tConnect :: "(stream_url \<Rightarrow> http_header \<Rightarrow> io_error + 'd) \<Rightarrow> stream_url \<Rightarrow> http_header \<Rightarrow> 't \<Rightarrow> go_error option \<times> 't"
  tClose :: "'t \<Rightarrow> 't"
  tConnected :: "'t \<Rightarrow> bool"
  tRead :: "'t \<Rightarrow> read_outcome \<times> 't"
  tWrite :: "io_error option \<Rightarrow> message \<Rightarrow> 't \<Rightarrow> (go_panic + go_error option) \<times> 't"

section \<open>TCP\<close>

definition tcpConnect ::
  "(stream_url \<Rightarrow> http_header \<Rightarrow> io_error + decoder) \<Rightarrow> stream_url \<Rightarrow> http_header \<Rightarrow> stream_transport \<Rightarrow>
     go_error option \<times> stream_transport" where
  "tcpConnect dial u header t =
     (case dial u [] of
        Inl (IoOp e) \<Rightarrow> (Some TransportConnectFailed, t)
      | Inl e \<Rightarrow> (Some (ErrWrap ''tcp.connect'' (io_error e)), t)
      | Inr d \<Rightarrow> (None, t\<lparr>outgoing := Some [], tdecoder := Some d\<rparr>))"

text \<open>A read after \<^verbatim>\<open>Close\<close> gives what the decoder had buffered and then an error.\<close>

definition closeWith :: "io_error \<Rightarrow> stream_transport \<Rightarrow> stream_transport" where
  "closeWith err t =
     (if outgoing t = None then t
      else t\<lparr>outgoing := None, tdecoder := map_option (ending_update (\<lambda>_. err)) (tdecoder t)\<rparr>)"

definition tcpClose :: "stream_transport \<Rightarrow> stream_transport" where
  "tcpClose t = closeWith (IoOp ''use of closed network connection'') t"

definition tcpConnected :: "stream_transport \<Rightarrow> bool" where
  "tcpConnected t \<longleftrightarrow> outgoing t \<noteq> None"

definition handleTCPError :: "io_error \<Rightarrow> go_error" where
  "handleTCPError err = (if err = IoEOF then TransportClosed else ErrWrap ''handleTCPError'' (io_error err))"

text \<open>A write of bytes, with what becomes of its error.\<close>

definition writeBytes ::
  "(io_error \<Rightarrow> go_error) \<Rightarrow> io_error option \<Rightarrow> string \<Rightarrow> stream_transport \<Rightarrow> (go_panic + go_error option) \<times> stream_transport" where
  "writeBytes handle werr bs t =
     (case outgoing t of
        None \<Rightarrow> (Inl NilDereference, t)
      | Some out \<Rightarrow>
          (case werr of
             Some err \<Rightarrow> (Inr (Some (handle err)), t)
           | None \<Rightarrow> (Inr None, t\<lparr>outgoing := Some (out @ bs)\<rparr>)))"

definition tcpWriteMessage :: "io_error option \<Rightarrow> message \<Rightarrow> stream_transport \<Rightarrow> (go_panic + go_error option) \<times> stream_transport" where
  "tcpWriteMessage werr m t =
     (case MessageBytes m of
        Inl err \<Rightarrow> (Inr (Some (ErrText ''json'')), t)
      | Inr marshaled \<Rightarrow> writeBytes handleTCPError werr marshaled t)"

definition tcpReadMessage :: "stream_transport \<Rightarrow> read_outcome \<times> stream_transport" where
  "tcpReadMessage t =
     (case tdecoder t of
        None \<Rightarrow> (Inl NilDereference, t)
      | Some d \<Rightarrow>
          (case nextMessage d of
             (Inr m, d') \<Rightarrow> (Inr (Inr (Some m)), t\<lparr>tdecoder := Some d'\<rparr>)
           | (Inl (Inl err), d') \<Rightarrow>
               (Inr (Inl (if err = IoEOF then TransportClosed
                          else if contains (io_text err) ''read/write on closed pipe'' then TransportClosed
                          else io_error err)), t\<lparr>tdecoder := Some d'\<rparr>)
           | (Inl (Inr err), d') \<Rightarrow> (Inr (Inl (ErrText ''json'')), t\<lparr>tdecoder := Some d'\<rparr>)))"

definition tcpTransport :: "(decoder, stream_transport) transport_ops" where
  "tcpTransport =
     \<lparr>tConnect = tcpConnect, tClose = tcpClose, tConnected = tcpConnected, tRead = tcpReadMessage, tWrite = tcpWriteMessage\<rparr>"

section \<open>Vsock\<close>

text \<open>\<^verbatim>\<open>strconv.ParseUint(s, 10, 32)\<close>, and the conversion to \<^verbatim>\<open>uint32\<close>.\<close>

definition ParseUint32 :: "string \<Rightarrow> 32 word option" where
  "ParseUint32 s =
     (case parse_udec s of
        None \<Rightarrow> None
      | Some n \<Rightarrow> if n < 2 ^ 32 then Some (word_of_nat n) else None)"

definition vsockConnect ::
  "(32 word \<Rightarrow> 32 word \<Rightarrow> io_error + decoder) \<Rightarrow> stream_url \<Rightarrow> stream_transport \<Rightarrow> go_error option \<times> stream_transport" where
  "vsockConnect dial u t =
     (case ParseUint32 (urlHostname u) of
        None \<Rightarrow> (Some (ErrWrap ''vsock.parseContextId'' (ErrText ''strconv.ParseUint'')), t)
      | Some contextID \<Rightarrow>
          (case ParseUint32 (urlPort u) of
             None \<Rightarrow> (Some (ErrWrap ''vsock.parsePort'' (ErrText ''strconv.ParseUint'')), t)
           | Some port \<Rightarrow>
               (case dial contextID port of
                  Inl (IoOp e) \<Rightarrow> (Some TransportConnectFailed, t)
                | Inl e \<Rightarrow> (Some (ErrWrap ''vsock.connect'' (io_error e)), t)
                | Inr d \<Rightarrow> (None, t\<lparr>outgoing := Some [], tdecoder := Some d\<rparr>))))"

definition vsockClose :: "stream_transport \<Rightarrow> stream_transport" where
  "vsockClose t = closeWith (IoOp ''use of closed network connection'') t"

definition vsockConnected :: "stream_transport \<Rightarrow> bool" where
  "vsockConnected t \<longleftrightarrow> outgoing t \<noteq> None"

definition vsockWriteMessage :: "io_error option \<Rightarrow> message \<Rightarrow> stream_transport \<Rightarrow> (go_panic + go_error option) \<times> stream_transport" where
  "vsockWriteMessage werr m t =
     (case MessageBytes m of
        Inl err \<Rightarrow> (Inr (Some (ErrText ''json'')), t)
      | Inr marshaled \<Rightarrow> writeBytes handleTCPError werr marshaled t)"

text \<open>The code of \<^verbatim>\<open>ReadMessage\<close> is the one of the TCP transport.\<close>

definition vsockReadMessage :: "stream_transport \<Rightarrow> read_outcome \<times> stream_transport" where
  "vsockReadMessage t = tcpReadMessage t"

definition vsockTransport :: "(32 word \<Rightarrow> 32 word \<Rightarrow> io_error + decoder) \<Rightarrow> (decoder, stream_transport) transport_ops" where
  "vsockTransport dial =
     \<lparr>tConnect = (\<lambda>_ u header. vsockConnect dial u), tClose = vsockClose, tConnected = vsockConnected,
      tRead = vsockReadMessage, tWrite = vsockWriteMessage\<rparr>"

section \<open>HTTP/2\<close>

definition handleHttp2Error :: "io_error \<Rightarrow> go_error" where
  "handleHttp2Error err =
     (case err of IoEOF \<Rightarrow> TransportClosed | IoUrl s \<Rightarrow> TransportClosed
      | _ \<Rightarrow> ErrWrap ''h2transport.handleHttp2Error'' (io_error err))"

definition h2Connect ::
  "(stream_url \<Rightarrow> http_header \<Rightarrow> io_error + decoder) \<Rightarrow> stream_url \<Rightarrow> http_header \<Rightarrow> stream_transport \<Rightarrow>
     go_error option \<times> stream_transport" where
  "h2Connect dial u header t =
     (case dial u header of
        Inl err \<Rightarrow> (Some (handleHttp2Error err), t)
      | Inr d \<Rightarrow> (None, t\<lparr>outgoing := Some [], tdecoder := Some d\<rparr>))"

definition h2Close :: "stream_transport \<Rightarrow> stream_transport" where
  "h2Close t = closeWith (IoText ''http2: response body closed'') t"

definition h2Connected :: "stream_transport \<Rightarrow> bool" where
  "h2Connected t \<longleftrightarrow> outgoing t \<noteq> None"

definition h2WriteMessage :: "io_error option \<Rightarrow> message \<Rightarrow> stream_transport \<Rightarrow> (go_panic + go_error option) \<times> stream_transport" where
  "h2WriteMessage werr m t =
     (case MessageBytes m of
        Inl err \<Rightarrow> (Inr (Some (ErrText ''json'')), t)
      | Inr marshaled \<Rightarrow> writeBytes handleHttp2Error werr (newline marshaled) t)"

definition h2ReadMessage :: "stream_transport \<Rightarrow> read_outcome \<times> stream_transport" where
  "h2ReadMessage t = tcpReadMessage t"

definition h2Transport :: "(decoder, stream_transport) transport_ops" where
  "h2Transport =
     \<lparr>tConnect = h2Connect, tClose = h2Close, tConnected = h2Connected, tRead = h2ReadMessage, tWrite = h2WriteMessage\<rparr>"

section \<open>Websocket\<close>

text \<open>The frames that are still to come, with their types, and the frames written. The type of text frames is 1.\<close>

record ws_conn =
  frames :: "(int \<times> string) list"
  wsEnding :: io_error
  wsWritten :: "string list"

definition TextMessage :: int where "TextMessage = 1"

type_synonym ws_transport = "ws_conn option"

definition wsConnect ::
  "(stream_url \<Rightarrow> http_header \<Rightarrow> io_error + ws_conn) \<Rightarrow> stream_url \<Rightarrow> http_header \<Rightarrow> ws_transport \<Rightarrow> go_error option \<times> ws_transport" where
  "wsConnect dial u header t =
     (case dial u header of
        Inl (IoOp e) \<Rightarrow> (Some TransportConnectFailed, t)
      | Inl e \<Rightarrow> (Some (ErrWrap ''wstransport.connect'' (io_error e)), t)
      | Inr c \<Rightarrow> (None, Some c))"

definition wsClose :: "ws_transport \<Rightarrow> ws_transport" where "wsClose t = None"

definition wsConnected :: "ws_transport \<Rightarrow> bool" where "wsConnected t \<longleftrightarrow> t \<noteq> None"

definition handleWebsocketError :: "io_error \<Rightarrow> go_error" where
  "handleWebsocketError err =
     (case err of IoEOF \<Rightarrow> TransportClosed | IoClose s \<Rightarrow> TransportClosed
      | _ \<Rightarrow> ErrWrap ''handleWebsocketError'' (io_error err))"

definition wsWriteMessage :: "io_error option \<Rightarrow> message \<Rightarrow> ws_transport \<Rightarrow> (go_panic + go_error option) \<times> ws_transport" where
  "wsWriteMessage werr m t =
     (case MessageBytes m of
        Inl err \<Rightarrow> (Inr (Some (ErrText ''json'')), t)
      | Inr marshaled \<Rightarrow>
          (case t of
             None \<Rightarrow> (Inl NilDereference, t)
           | Some c \<Rightarrow>
               (case werr of
                  Some err \<Rightarrow> (Inr (Some (handleWebsocketError err)), t)
                | None \<Rightarrow> (Inr None, Some (c\<lparr>wsWritten := wsWritten c @ [marshaled]\<rparr>)))))"

definition wsReadMessage :: "ws_transport \<Rightarrow> read_outcome \<times> ws_transport" where
  "wsReadMessage t =
     (case t of
        None \<Rightarrow> (Inl NilDereference, t)
      | Some c \<Rightarrow>
          (case frames c of
             [] \<Rightarrow> (Inr (Inl (handleWebsocketError (wsEnding c))), t)
           | (messageType, msgBytes) # fs \<Rightarrow>
               (if messageType \<noteq> TextMessage then Inr (Inr None)
                else case ParseBytes [] msgBytes of
                  Inl err \<Rightarrow> Inr (Inl (ErrText ''json''))
                | Inr m \<Rightarrow> Inr (Inr (Some m)), Some (c\<lparr>frames := fs\<rparr>))))"

definition wsTransport :: "(ws_conn, ws_transport) transport_ops" where
  "wsTransport =
     \<lparr>tConnect = wsConnect, tClose = wsClose, tConnected = wsConnected, tRead = wsReadMessage, tWrite = wsWriteMessage\<rparr>"

section \<open>The loops of the client\<close>

text \<open>
  Where a loop is. The check of \<^verbatim>\<open>Connected\<close>, the use of the connection that starts a read or a write, its end, and what the
  loop does with the outcome are steps of their own, between which the other goroutines go on. A number is the connection,
  by how many were made, that a read, a write or the channel of a select belongs to.
\<close>

datatype recv_pc =
    RecvTop
  | RecvRead                              \<comment> \<open>has seen the transport connected\<close>
  | RecvReading nat                       \<comment> \<open>blocked in the read\<close>
  | RecvHandle message
  | RecvFail go_error
  | RecvEnd

datatype send_pc =
    SendTop
  | SendChoose                            \<comment> \<open>has seen the transport connected\<close>
  | SendSelect "nat option"               \<comment> \<open>in the \<^verbatim>\<open>select\<close>, on this send channel\<close>
  | SendTaken message
  | SendWrite message                     \<comment> \<open>has seen the transport connected again\<close>
  | SendWriting nat message               \<comment> \<open>in the write\<close>
  | SendFail go_error
  | SendEnd

text \<open>A client with its transport and all the loops that \<^verbatim>\<open>Connect\<close> has started.\<close>

record 't net =
  trans :: 't
  cl :: streaming_client
  recvLoops :: "recv_pc list"
  sendLoops :: "send_pc list"

definition newNet :: "'t \<Rightarrow> 't net" where
  "newNet t = \<lparr>trans = t, cl = InitStreaming, recvLoops = [], sendLoops = []\<rparr>"

definition connection :: "streaming_client \<Rightarrow> nat" where
  "connection c = length (closeChannels c)"

definition recvGoto :: "nat \<Rightarrow> recv_pc \<Rightarrow> 't net \<Rightarrow> 't net" where
  "recvGoto k pc s = s\<lparr>recvLoops := (recvLoops s)[k := pc]\<rparr>"

definition sendGoto :: "nat \<Rightarrow> send_pc \<Rightarrow> 't net \<Rightarrow> 't net" where
  "sendGoto k pc s = s\<lparr>sendLoops := (sendLoops s)[k := pc]\<rparr>"

text \<open>After a read: an error, nothing that is a message, or a message.\<close>

definition recvNext :: "go_error + message option \<Rightarrow> recv_pc" where
  "recvNext r = (case r of Inl err \<Rightarrow> RecvFail err | Inr None \<Rightarrow> RecvTop | Inr (Some m) \<Rightarrow> RecvHandle m)"

text \<open>
  A step of receive loop \<open>k\<close>, \<open>None\<close> once it has returned. A read of a connection that was closed meanwhile
  ends in \<open>stale\<close>, whatever that is.
\<close>

definition recvLoop ::
  "('d, 't) transport_ops \<Rightarrow> go_error + message option \<Rightarrow> nat \<Rightarrow> 't net \<Rightarrow> (go_panic + 't net) option" where
  "recvLoop ops stale k s =
     (case recvLoops s ! k of
        RecvTop \<Rightarrow> Some (Inr (recvGoto k (if tConnected ops (trans s) then RecvRead else RecvEnd) s))
      | RecvRead \<Rightarrow>
          (case fst (tRead ops (trans s)) of
             Inl p \<Rightarrow> Some (Inl p)
           | Inr _ \<Rightarrow> Some (Inr (recvGoto k (RecvReading (connection (cl s))) s)))
      | RecvReading i \<Rightarrow>
          if i = connection (cl s) \<and> tConnected ops (trans s) then
            (case tRead ops (trans s) of
               (Inl p, t) \<Rightarrow> Some (Inl p)
             | (Inr r, t) \<Rightarrow> Some (Inr (recvGoto k (recvNext r) (s\<lparr>trans := t\<rparr>))))
          else Some (Inr (recvGoto k (recvNext stale) s))
      | RecvHandle m \<Rightarrow> Some (map_sum id (\<lambda>c. recvGoto k RecvTop (s\<lparr>cl := c\<rparr>)) (recvMessage m (cl s)))
      | RecvFail err \<Rightarrow>
          Some (Inr (recvGoto k RecvEnd (s\<lparr>trans := tClose ops (trans s), cl := handleError err (cl s)\<rparr>)))
      | RecvEnd \<Rightarrow> None)"

definition takeMessage :: "nat \<Rightarrow> message \<Rightarrow> 't net \<Rightarrow> 't net" where
  "takeMessage k m s = sendGoto k (SendTaken m) (s\<lparr>cl := (cl s)\<lparr>taken := taken (cl s) @ [m]\<rparr>\<rparr>)"

definition dropTaken :: "message \<Rightarrow> streaming_client \<Rightarrow> streaming_client" where
  "dropTaken m c = c\<lparr>taken := remove1 m (taken c)\<rparr>"

definition writeTaken :: "message \<Rightarrow> streaming_client \<Rightarrow> streaming_client" where
  "writeTaken m c = c\<lparr>taken := remove1 m (taken c), transmitted := transmitted c @ [m]\<rparr>"

definition sendNext :: "nat \<Rightarrow> message \<Rightarrow> go_error option \<Rightarrow> 't net \<Rightarrow> 't net" where
  "sendNext k m r s =
     (case r of
        Some err \<Rightarrow> sendGoto k (SendFail err) (s\<lparr>cl := dropTaken m (cl s)\<rparr>)
      | None \<Rightarrow> sendGoto k SendTop (s\<lparr>cl := writeTaken m (cl s)\<rparr>))"

text \<open>
  A step of send loop \<open>k\<close>, \<open>None\<close> while it waits on its channel or has returned. A select that has the channel of an
  earlier connection gets what was left in it, \<open>pick\<close> says which; a write to a connection closed meanwhile
  ends in \<open>stale\<close>.
\<close>

definition sendLoop ::
  "('d, 't) transport_ops \<Rightarrow> io_error option \<Rightarrow> go_error option \<Rightarrow> nat \<Rightarrow> nat \<Rightarrow> 't net \<Rightarrow> (go_panic + 't net) option" where
  "sendLoop ops werr stale pick k s =
     (let c = cl s; t = trans s in
      case sendLoops s ! k of
        SendTop \<Rightarrow> Some (Inr (sendGoto k (if tConnected ops t then SendChoose else SendEnd) s))
      | SendChoose \<Rightarrow> Some (Inr (sendGoto k (SendSelect (map_option (\<lambda>_. connection c) (sendQueue c))) s))
      | SendSelect None \<Rightarrow> None
      | SendSelect (Some i) \<Rightarrow>
          if i = connection c \<and> sendQueue c \<noteq> None then
            (case the (sendQueue c) of
               [] \<Rightarrow> None
             | m # ms \<Rightarrow> Some (Inr (takeMessage k m (s\<lparr>cl := c\<lparr>sendQueue := Some ms\<rparr>\<rparr>))))
          else if pick < length (abandoned c) then
            let m = abandoned c ! pick in
            Some (Inr (takeMessage k m (s\<lparr>cl := c\<lparr>abandoned := remove1 m (abandoned c)\<rparr>\<rparr>)))
          else None
      | SendTaken m \<Rightarrow>
          Some (Inr (if tConnected ops t then sendGoto k (SendWrite m) s
                     else sendGoto k SendEnd (s\<lparr>cl := dropTaken m c\<rparr>)))
      | SendWrite m \<Rightarrow>
          (case fst (tWrite ops werr m t) of
             Inl p \<Rightarrow> Some (Inl p)
           | Inr _ \<Rightarrow> Some (Inr (sendGoto k (SendWriting (connection c) m) s)))
      | SendWriting i m \<Rightarrow>
          if i = connection c \<and> tConnected ops t then
            (case tWrite ops werr m t of
               (Inl p, t') \<Rightarrow> Some (Inl p)
             | (Inr r, t') \<Rightarrow> Some (Inr (sendNext k m r (s\<lparr>trans := t'\<rparr>))))
          else Some (Inr (sendNext k m stale s))
      | SendFail err \<Rightarrow> Some (Inr (sendGoto k SendEnd (s\<lparr>trans := tClose ops t, cl := handleError err c\<rparr>)))
      | SendEnd \<Rightarrow> None)"

text \<open>\<^verbatim>\<open>Connect\<close> and \<^verbatim>\<open>Close\<close> of the client with its transport.\<close>

definition connectTurn ::
  "('d, 't) transport_ops \<Rightarrow> (stream_url \<Rightarrow> http_header \<Rightarrow> io_error + 'd) \<Rightarrow> stream_url \<Rightarrow> http_header \<Rightarrow>
     't \<times> streaming_client \<Rightarrow> go_error option \<times> 't \<times> streaming_client" where
  "connectTurn ops dial u header = (\<lambda>(t, c).
     if tConnected ops t then (None, t, c)
     else case tConnect ops dial u header t of
       (err, t') \<Rightarrow> (case Connect err c of (err', c') \<Rightarrow> (err', t', c')))"

definition closeTurn :: "('d, 't) transport_ops \<Rightarrow> 't \<times> streaming_client \<Rightarrow> 't \<times> streaming_client" where
  "closeTurn ops = (\<lambda>(t, c). if tConnected ops t then (tClose ops t, CloseClient c) else (t, c))"

text \<open>\<^verbatim>\<open>Close\<close> by the application, and by send loop \<open>k\<close> when its context is done.\<close>

definition closeNet :: "('d, 't) transport_ops \<Rightarrow> 't net \<Rightarrow> 't net" where
  "closeNet ops s = (let (t, c) = closeTurn ops (trans s, cl s) in s\<lparr>trans := t, cl := c\<rparr>)"

text \<open>The ways the client comes to connect: \<^verbatim>\<open>Connect\<close> itself, a call at its start or when it sends, and \<^verbatim>\<open>Send\<close>.\<close>

inductive connects_by :: "go_error option \<Rightarrow> streaming_client \<Rightarrow> streaming_client \<Rightarrow> bool" where
  by_connect: "connects_by err c (snd (Connect err c))"
| by_call: "calls c n = Some (Begun q) \<Longrightarrow> connects_by err c (requestConnect n q err c)"
| by_request: "calls c n = Some (Stored q m) \<Longrightarrow> connects_by err c (requestSend n q m err c)"
| by_send: "SendStream m err c = Some (e, c') \<Longrightarrow> connects_by err c c'"

text \<open>
  All interleavings of the loops with \<^verbatim>\<open>Close\<close>, contexts that end, connects, and the steps of callers and timers;
  \<^verbatim>\<open>Connect\<close>, \<^verbatim>\<open>Close\<close> and \<^verbatim>\<open>Reset\<close> are one step each.
  A read that ends after its connection was closed gives an error or a message in the form of the decoder.
\<close>

definition stale_ok :: "go_error + message option \<Rightarrow> bool" where
  "stale_ok r \<longleftrightarrow> (\<forall>m. r = Inr (Some m) \<longrightarrow> msg_ok m \<and> wire_fields m)"

inductive net_step :: "('d, 't) transport_ops \<Rightarrow> 't net \<Rightarrow> 't net \<Rightarrow> bool" for ops where
  recv: "k < length (recvLoops s) \<Longrightarrow> stale_ok stale \<Longrightarrow> recvLoop ops stale k s = Some (Inr s') \<Longrightarrow> net_step ops s s'"
| send: "k < length (sendLoops s) \<Longrightarrow> sendLoop ops werr stale pick k s = Some (Inr s') \<Longrightarrow> net_step ops s s'"
| context_done: "k < length (sendLoops s) \<Longrightarrow> sendLoops s ! k = SendSelect ch \<Longrightarrow>
    net_step ops s (sendGoto k SendEnd (closeNet ops s))"
| close_net: "net_step ops s (closeNet ops s)"
| dial_fails: "\<not> tConnected ops (trans s) \<Longrightarrow> tConnect ops dial u header (trans s) = (Some err, t) \<Longrightarrow>
    connects_by (Some err) (cl s) c \<Longrightarrow> net_step ops s (s\<lparr>trans := t, cl := c\<rparr>)"
| dial_connects: "\<not> tConnected ops (trans s) \<Longrightarrow> tConnect ops dial u header (trans s) = (None, t) \<Longrightarrow>
    connects_by None (cl s) c \<Longrightarrow>
    net_step ops s (s\<lparr>trans := t, cl := c, recvLoops := recvLoops s @ [RecvTop], sendLoops := sendLoops s @ [SendTop]\<rparr>)"
| app_net: "app_step (cl s) c \<Longrightarrow> net_step ops s (s\<lparr>cl := c\<rparr>)"

section \<open>Clients\<close>

text \<open>The \<^verbatim>\<open>http.Client\<close> of the HTTP/2 client: it dials without TLS, or with the TLS configuration of the client.\<close>

datatype 's h2_http_client = CleartextClient | TLSClient "'s option"

record ('tr, 's) net_stream_client =
  clientUrl :: stream_url
  clientTransport :: 'tr
  streaming :: streaming_client
  streamHeader :: http_header       \<comment> \<open>\<^verbatim>\<open>extraHeader\<close>\<close>
  streamTLS :: "'s option"          \<comment> \<open>\<^verbatim>\<open>clientTLS\<close>\<close>
  UseHttp2C :: bool                 \<comment> \<open>of the HTTP/2 client\<close>
  h2HttpClient :: "'s h2_http_client option"   \<comment> \<open>set once, by \<^verbatim>\<open>clientOnce\<close>\<close>

definition newStreaming :: "stream_url \<Rightarrow> 'tr \<Rightarrow> bool \<Rightarrow> ('tr, 's) net_stream_client" where
  "newStreaming u t h2c =
     \<lparr>clientUrl = u, clientTransport = t, streaming = InitStreaming, streamHeader = [], streamTLS = None, UseHttp2C = h2c,
      h2HttpClient = None\<rparr>"

definition streamSetExtraHeader :: "http_header \<Rightarrow> ('tr, 's) net_stream_client \<Rightarrow> ('tr, 's) net_stream_client" where
  "streamSetExtraHeader h c = c\<lparr>streamHeader := h\<rparr>"

definition streamSetClientTLSConfig :: "'s option \<Rightarrow> ('tr, 's) net_stream_client \<Rightarrow> ('tr, 's) net_stream_client" where
  "streamSetClientTLSConfig cfg c = c\<lparr>streamTLS := cfg\<rparr>"

text \<open>\<^verbatim>\<open>HTTPClient\<close>: made by the first call, with the configuration of that moment.\<close>

definition HTTPClient :: "('tr, 's) net_stream_client \<Rightarrow> 's h2_http_client \<times> ('tr, 's) net_stream_client" where
  "HTTPClient c =
     (case h2HttpClient c of
        Some hc \<Rightarrow> (hc, c)
      | None \<Rightarrow>
          let hc = (if UseHttp2C c then CleartextClient else TLSClient (streamTLS c))
          in (hc, c\<lparr>h2HttpClient := Some hc\<rparr>))"

text \<open>\<^verbatim>\<open>Connect\<close> of the HTTP/2 client dials through \<^verbatim>\<open>HTTPClient\<close>, that of the websocket client with the TLS configuration.\<close>

definition netConnect ::
  "('d, 'tr) transport_ops \<Rightarrow> (stream_url \<Rightarrow> http_header \<Rightarrow> io_error + 'd) \<Rightarrow> ('tr, 's) net_stream_client \<Rightarrow>
     go_error option \<times> ('tr, 's) net_stream_client" where
  "netConnect ops dial c =
     (case connectTurn ops dial (clientUrl c) (streamHeader c) (clientTransport c, streaming c) of
        (err, t, s) \<Rightarrow> (err, c\<lparr>clientTransport := t, streaming := s\<rparr>))"

definition http2Connect ::
  "('s h2_http_client \<Rightarrow> stream_url \<Rightarrow> http_header \<Rightarrow> io_error + decoder) \<Rightarrow> (stream_transport, 's) net_stream_client \<Rightarrow>
     go_error option \<times> (stream_transport, 's) net_stream_client" where
  "http2Connect dial c =
     (if h2Connected (clientTransport c) then (None, c)
      else case HTTPClient c of (hc, c') \<Rightarrow> netConnect h2Transport (dial hc) c')"

text \<open>
  \<^verbatim>\<open>websocket.DefaultDialer\<close> is one value of the process: \<^verbatim>\<open>Connect\<close> sets its TLS configuration and then dials with the one it
  has. The last argument is that configuration.
\<close>

definition setDialerTLS :: "(ws_transport, 's) net_stream_client \<Rightarrow> 's option \<Rightarrow> 's option" where
  "setDialerTLS c dialer = streamTLS c"

definition dialWebsocket ::
  "('s option \<Rightarrow> stream_url \<Rightarrow> http_header \<Rightarrow> io_error + ws_conn) \<Rightarrow> 's option \<Rightarrow> (ws_transport, 's) net_stream_client \<Rightarrow>
     go_error option \<times> (ws_transport, 's) net_stream_client" where
  "dialWebsocket dial dialer c = netConnect wsTransport (dial dialer) c"

definition websocketConnect ::
  "('s option \<Rightarrow> stream_url \<Rightarrow> http_header \<Rightarrow> io_error + ws_conn) \<Rightarrow> (ws_transport, 's) net_stream_client \<Rightarrow> 's option \<Rightarrow>
     (go_error option \<times> (ws_transport, 's) net_stream_client) \<times> 's option" where
  "websocketConnect dial c dialer =
     (if wsConnected (clientTransport c) then ((None, c), dialer)
      else let dialer' = setDialerTLS c dialer in (dialWebsocket dial dialer' c, dialer'))"

definition NewTCPClient :: "stream_url \<Rightarrow> go_panic + (stream_transport, 's) net_stream_client" where
  "NewTCPClient u =
     (if Scheme u \<noteq> ''tcp'' then Inl (PanicText ''server url is not tcp'') else Inr (newStreaming u newTransport False))"

definition NewVsockClient :: "stream_url \<Rightarrow> go_panic + (stream_transport, 's) net_stream_client" where
  "NewVsockClient u =
     (if Scheme u \<noteq> ''vsock'' then Inl (PanicText ''server url is not vsock'') else Inr (newStreaming u newTransport False))"

definition NewWSClient :: "stream_url \<Rightarrow> go_panic + (ws_transport, 't) net_stream_client" where
  "NewWSClient u =
     (if Scheme u \<noteq> ''ws'' \<and> Scheme u \<noteq> ''wss'' then Inl (PanicText ''server url is not websocket'')
      else Inr (newStreaming u None False))"

text \<open>
  The copy of the URL, made by printing and parsing it, is taken to be the URL; so the panic for a copy that does not parse is left out.
\<close>

definition NewHttp2Client :: "stream_url \<Rightarrow> go_panic + (stream_transport, 's) net_stream_client" where
  "NewHttp2Client u =
     (let newUrl = (if Scheme u = ''h2'' then u\<lparr>Scheme := ''https''\<rparr>
                    else if Scheme u = ''h2c'' then u\<lparr>Scheme := ''http''\<rparr> else u);
          useh2c = (Scheme u = ''h2c'')
      in if Scheme newUrl \<noteq> ''https'' \<and> Scheme newUrl \<noteq> ''http'' then Inl (PanicText ''server url is not http2'')
         else Inr (newStreaming newUrl newTransport useh2c))"

datatype 't client =
    Http1Client "'t http1_client"
  | WSClient "(ws_transport, 't) net_stream_client"
  | Http2Client "(stream_transport, 't) net_stream_client"
  | TCPClient "(stream_transport, 't) net_stream_client"
  | VsockClient "(stream_transport, 't) net_stream_client"

text \<open>
  \<^verbatim>\<open>url.Parse\<close>: the scheme as the library finds it, the rest being the argument \<open>authority\<close>, which gives the
  host name and port or fails. \<open>getScheme\<close> is the scheme with what follows the colon.
\<close>

definition is_letter :: "char \<Rightarrow> bool" where
  "is_letter c \<longleftrightarrow> 65 \<le> char_code c \<and> char_code c \<le> 90 \<or> 97 \<le> char_code c \<and> char_code c \<le> 122"

definition scheme_char :: "char \<Rightarrow> bool" where
  "scheme_char c \<longleftrightarrow> is_letter c \<or> is_digit c \<or> c \<in> {CHR ''+'', CHR ''-'', CHR ''.''}"

definition getScheme :: "string \<Rightarrow> go_error + (string \<times> string)" where
  "getScheme s =
     (let p = takeWhile scheme_char s in
      case dropWhile scheme_char s of
        [] \<Rightarrow> Inr ([], s)
      | c # r \<Rightarrow>
          if p \<noteq> [] \<and> \<not> is_letter (hd p) then Inr ([], s)
          else if c \<noteq> CHR '':'' then Inr ([], s)
          else if p = [] then Inl (ErrText ''missing protocol scheme'')
          else Inr (p, r))"

definition urlParse :: "(string \<Rightarrow> string \<Rightarrow> go_error + string \<times> string) \<Rightarrow> string \<Rightarrow> go_error + stream_url" where
  "urlParse authority rawURL =
     (if list_ex (\<lambda>c. char_code c < 32 \<or> char_code c = 127) rawURL
      then Inl (ErrText ''net/url: invalid control character in URL'')
      else case getScheme (takeWhile (\<lambda>c. c \<noteq> CHR ''#'') rawURL) of
        Inl e \<Rightarrow> Inl e
      | Inr (scheme, rest) \<Rightarrow>
          map_sum id (\<lambda>(host, port). \<lparr>Scheme = map ascii_lower scheme, urlText = rawURL, urlHostname = host, urlPort = port\<rparr>)
            (authority scheme rest))"

definition NewClient ::
  "(string \<Rightarrow> string \<Rightarrow> go_error + string \<times> string) \<Rightarrow> string \<Rightarrow> client_options list \<Rightarrow> go_panic + (go_error + 't client)" where
  "NewClient authority rawURL optlist =
     (case urlParse authority rawURL of
        Inl err \<Rightarrow> Inr (Inl (ErrWrap ''url.Parse'' err))
      | Inr u \<Rightarrow>
          if Scheme u \<in> {''http'', ''https''}
          then map_sum id (Inr \<circ> Http1Client) (NewHttp1Client \<lparr>Scheme = Scheme u, urlText = urlText u\<rparr> optlist)
          else if Scheme u \<in> {''ws'', ''wss''} then map_sum id (Inr \<circ> WSClient) (NewWSClient u)
          else if Scheme u \<in> {''h2'', ''h2c''} then map_sum id (Inr \<circ> Http2Client) (NewHttp2Client u)
          else if Scheme u = ''tcp'' then map_sum id (Inr \<circ> TCPClient) (NewTCPClient u)
          else if Scheme u = ''vsock'' then map_sum id (Inr \<circ> VsockClient) (NewVsockClient u)
          else Inr (Inl (ErrText ''url scheme not supported'')))"

section \<open>Reading and writing\<close>

text \<open>The messages a stream begins with.\<close>

definition begins_with :: "string \<Rightarrow> message list \<Rightarrow> bool" where
  "begins_with s ms \<longleftrightarrow> (\<exists>rest. read_n (DecodeMessage []) (length ms) s = (map Inr ms, rest))"

lemma begins_with_Cons: "begins_with s (m # ms) \<longleftrightarrow> (\<exists>r. DecodeMessage [] s = (Inr m, r) \<and> begins_with r ms)"
  by (auto simp: begins_with_def split: prod.splits)

lemma begins_with_Nil [simp]: "begins_with s []"
  by (simp add: begins_with_def)

lemma DecodeMessage_ws: "is_ws c \<Longrightarrow> DecodeMessage os (c # s) = (Inr m, r) \<longleftrightarrow> DecodeMessage os s = (Inr m, r)"
  by (simp add: DecodeMessage_Inr decode_def run.simps [of _ _ "c # s"] run.simps [of _ _ s] next_token_ws)

text \<open>Messages written as lines, or one after the other, are what a reader finds.\<close>

lemma begins_with_line: "begins_with (CHR 0x0A # s) ms \<longleftrightarrow> begins_with s ms" if "ms \<noteq> []"
  using that by (cases ms) (simp_all add: begins_with_Cons DecodeMessage_ws is_ws_def)

lemma lines_read:
  assumes "list_all (\<lambda>m. msg_ok m \<and> sendable m) ms" "mapR MessageBytes ms = Inr bss"
  shows "begins_with (concat (map newline bss)) (map canon_msg ms)"
  using assms
proof (induction ms arbitrary: bss)
  case (Cons m ms)
  obtain bs where bs: "MessageBytes m = Inr bs" "\<forall>x. DecodeMessage [] (bs @ x) = (Inr (canon_msg m), x)"
    using round_trip [of m "[]"] Cons.prems by auto
  then obtain bss' where "bss = bs # bss'" "mapR MessageBytes ms = Inr bss'"
    using Cons.prems by (auto split: sum.splits)
  then show ?case
    using bs Cons by (cases "ms = []") (simp_all add: begins_with_Cons begins_with_line newline_def)
qed simp

lemma messages_read:
  assumes "list_all (\<lambda>m. msg_ok m \<and> sendable m) ms"
  shows "\<exists>bss. mapR MessageBytes ms = Inr bss \<and> begins_with (concat bss) (map canon_msg ms)"
  using msgs.stream_reads [of "[]" ms] assms unfolding begins_with_def
  by (auto simp: list_all_iff comp_def) (metis append_Nil2)

section \<open>The loops over a transport\<close>

text \<open>The transport and the client agree on whether they are connected.\<close>

definition linked :: "('d, 't) transport_ops \<Rightarrow> 't \<Rightarrow> streaming_client \<Rightarrow> bool" where
  "linked ops t c \<longleftrightarrow> tConnected ops t = connectedFlag c"

text \<open>What the send loops hold: taken from a channel and not yet written.\<close>

primrec holds :: "send_pc \<Rightarrow> message list" where
  "holds SendTop = []"
| "holds SendChoose = []"
| "holds (SendSelect ch) = []"
| "holds (SendTaken m) = [m]"
| "holds (SendWrite m) = [m]"
| "holds (SendWriting i m) = [m]"
| "holds (SendFail err) = []"
| "holds SendEnd = []"

text \<open>
  A transport of a kind has been connected once a loop runs, \<open>opened\<close>; a message read is in the form of the decoder; the
  messages held by the send loops are those taken.
\<close>

definition net_inv :: "('d, 't) transport_ops \<Rightarrow> ('t \<Rightarrow> bool) \<Rightarrow> ('t \<Rightarrow> bool) \<Rightarrow> 't net \<Rightarrow> bool" where
  "net_inv ops tinv opened s \<longleftrightarrow>
     tinv (trans s) \<and> linked ops (trans s) (cl s) \<and> (recvLoops s \<noteq> [] \<longrightarrow> opened (trans s)) \<and>
     (\<forall>m. RecvHandle m \<in> set (recvLoops s) \<longrightarrow> msg_ok m \<and> wire_fields m) \<and>
     mset (taken (cl s)) = mset (concat (map holds (sendLoops s)))"

text \<open>
  What holds of all reachable states of a client over a transport \<open>t0\<close> that was just made. The first line: the client is in a
  state of its own relation, and transport and client agree on being connected. The next three: a loop panics only with a nil
  dereference, where it uses the connection after it has seen it connected, and only when it is closed by now, and a write
  then does panic. At last, each step is a step of the client or none, and a connect that fails leaves the client as it was.
\<close>

definition net_safe :: "('d, 't) transport_ops \<Rightarrow> 't \<Rightarrow> bool" where
  "net_safe ops t0 \<longleftrightarrow>
     (\<forall>s. (net_step ops)\<^sup>*\<^sup>* (newNet t0) s \<longrightarrow>
        client_reachable (cl s) \<and> linked ops (trans s) (cl s) \<and>
        (\<forall>stale k p. k < length (recvLoops s) \<longrightarrow> stale_ok stale \<longrightarrow> recvLoop ops stale k s = Some (Inl p) \<longrightarrow>
           p = NilDereference \<and> recvLoops s ! k = RecvRead \<and> \<not> tConnected ops (trans s)) \<and>
        (\<forall>werr stale pick k p. k < length (sendLoops s) \<longrightarrow> sendLoop ops werr stale pick k s = Some (Inl p) \<longrightarrow>
           p = NilDereference \<and> (\<exists>m. sendLoops s ! k = SendWrite m) \<and> \<not> tConnected ops (trans s)) \<and>
        (\<forall>werr stale pick k m bs. sendLoops s ! k = SendWrite m \<longrightarrow> MessageBytes m = Inr bs \<longrightarrow> \<not> tConnected ops (trans s) \<longrightarrow>
           sendLoop ops werr stale pick k s = Some (Inl NilDereference)) \<and>
        (\<forall>s'. net_step ops s s' \<longrightarrow> client_step\<^sup>=\<^sup>= (cl s) (cl s')) \<and>
        (\<forall>dial u header err t c. connectTurn ops dial u header (trans s, cl s) = (err, t, c) \<longrightarrow>
           (tConnected ops t \<longleftrightarrow> err = None) \<and> (err \<noteq> None \<longrightarrow> c = cl s)))"

lemma tell_keeps [simp]:
  "connectedFlag (tellHandler m c) = connectedFlag c" "taken (tellHandler m c) = taken c"
  "connectedFlag (deliver_result n m c) = connectedFlag c" "taken (deliver_result n m c) = taken c"
  by (simp_all add: tellHandler_def deliver_result_def)

lemma recvMessage_total:
  assumes "msg_ok m"
  obtains c' where "recvMessage m c = Inr c'" "connectedFlag c' = connectedFlag c" "taken c' = taken c"
proof -
  have "\<exists>c'. handleResult m c = Inr c' \<and> connectedFlag c' = connectedFlag c \<and> taken c' = taken c" if "IsResultOrError m" for c
    using assms that
    by (cases m) (auto simp: handleResult_def IsResultOrError_def Is_defs Let_def split: option.splits)
  then obtain c' where "IsResultOrError m \<longrightarrow> handleResult m (c\<lparr>received := received c @ [m]\<rparr>) = Inr c' \<and>
      connectedFlag c' = connectedFlag c \<and> taken c' = taken c"
    by (cases "IsResultOrError m") fastforce+
  then show thesis
    using that by (cases "IsResultOrError m") (auto simp: recvMessage_def Let_def)
qed

lemma handleError_connected [simp]: "\<not> connectedFlag (handleError e c)"
  by (simp add: handleError_def Reset_def Let_def split: option.split)

lemma connects_by_step:
  assumes "connects_by err c c'"
  shows "client_step c c'" and "\<not> connectedFlag c \<Longrightarrow> connectedFlag c' \<longleftrightarrow> err = None" and "taken c' = taken c"
proof -
  show "client_step c c'"
    using assms by cases (auto intro: connect_call send_call send_other connects [of err _ "fst (Connect err c)"])
  show "\<not> connectedFlag c \<Longrightarrow> connectedFlag c' \<longleftrightarrow> err = None"
    using assms by cases
      (auto simp: Connect_def requestConnect_def requestSend_def SendStream_def enqueue_def setPhase_def split: option.splits if_splits)
  show "taken c' = taken c"
    using assms by cases
      (auto simp: Connect_def requestConnect_def requestSend_def SendStream_def enqueue_def setPhase_def split: option.splits if_splits)
qed

lemma app_step_keeps:
  assumes "app_step c c'"
  shows "connectedFlag c' = connectedFlag c" and "taken c' = taken c"
  using assms
  by (cases; auto simp: requestConnect_def requestLoad_def requestStore_def requestSend_def requestEnqueue_def requestWait_def
      requestReturn_def requestClosed_def expire_def WaitClient_def OnMessage_def OnConnected_def OnCloseClient_def SendStream_def
      Connect_def enqueue_def setPhase_def deliver_result_def split: option.splits list.splits if_splits sum.splits)+

lemma Reset_keeps [simp]: "taken (handleError e c) = taken c" "taken (CloseClient c) = taken c" "\<not> connectedFlag (CloseClient c)"
  by (simp_all add: handleError_def CloseClient_def Reset_def Let_def split: option.split)

lemma holds_update:
  assumes "k < length ls"
  shows "mset (concat (map holds (ls[k := pc]))) + mset (holds (ls ! k)) = mset (concat (map holds ls)) + mset (holds pc)"
  using assms by (induction ls arbitrary: k) (auto simp: less_Suc_eq_0_disj split: nat.split)

text \<open>A send loop that writes a message of the channel, and a receive loop that hands one over, undisturbed.\<close>

lemma send_one:
  assumes "k < length (sendLoops s)" "sendLoops s ! k = SendTop" "tConnected ops (trans s)" "sendQueue (cl s) = Some (m # ms)"
    "tWrite ops None m (trans s) = (Inr None, t)"
  shows "(net_step ops)\<^sup>*\<^sup>* s (s\<lparr>trans := t, cl := (cl s)\<lparr>sendQueue := Some ms, taken := remove1 m (taken (cl s) @ [m]),
    transmitted := transmitted (cl s) @ [m]\<rparr>\<rparr>)" (is "(net_step ops)\<^sup>*\<^sup>* s ?s6")
proof -
  let ?i = "connection (cl s)"
  let ?c = "(cl s)\<lparr>sendQueue := Some ms, taken := taken (cl s) @ [m]\<rparr>"
  let ?s1 = "sendGoto k SendChoose s" and ?s2 = "sendGoto k (SendSelect (Some ?i)) s"
  let ?s3 = "sendGoto k (SendTaken m) (s\<lparr>cl := ?c\<rparr>)" and ?s4 = "sendGoto k (SendWrite m) (s\<lparr>cl := ?c\<rparr>)"
  let ?s5 = "sendGoto k (SendWriting ?i m) (s\<lparr>cl := ?c\<rparr>)"
  note defs = sendLoop_def sendGoto_def takeMessage_def sendNext_def writeTaken_def connection_def
  have 1: "net_step ops s ?s1" by (rule send [of k _ _ None None 0]) (use assms in \<open>simp_all add: defs Let_def\<close>)
  have 2: "net_step ops ?s1 ?s2" by (rule send [of k _ _ None None 0]) (use assms in \<open>simp_all add: defs Let_def\<close>)
  have 3: "net_step ops ?s2 ?s3" by (rule send [of k _ _ None None 0]) (use assms in \<open>simp_all add: defs Let_def\<close>)
  have 4: "net_step ops ?s3 ?s4" by (rule send [of k _ _ None None 0]) (use assms in \<open>simp_all add: defs Let_def\<close>)
  have 5: "net_step ops ?s4 ?s5" by (rule send [of k _ _ None None 0]) (use assms in \<open>simp_all add: defs Let_def\<close>)
  have "(sendLoops s)[k := SendTop] = sendLoops s" using assms(2) by (metis list_update_id)
  then have 6: "net_step ops ?s5 ?s6" by (intro send [of k _ _ None None 0]) (use assms in \<open>simp_all add: defs Let_def\<close>)
  from 1 2 3 4 5 6 show ?thesis by (meson converse_rtranclp_into_rtranclp rtranclp.rtrancl_refl)
qed

lemma recv_one:
  assumes "k < length (recvLoops s)" "recvLoops s ! k = RecvTop" "tConnected ops (trans s)"
    "tRead ops (trans s) = (Inr (Inr (Some m)), t)" "recvMessage m (cl s) = Inr c"
  shows "(net_step ops)\<^sup>*\<^sup>* s (s\<lparr>trans := t, cl := c\<rparr>)" (is "(net_step ops)\<^sup>*\<^sup>* s ?s4")
proof -
  let ?s1 = "recvGoto k RecvRead s" and ?s2 = "recvGoto k (RecvReading (connection (cl s))) s"
  let ?s3 = "recvGoto k (RecvHandle m) (s\<lparr>trans := t\<rparr>)"
  note defs = recvLoop_def recvGoto_def recvNext_def
  have any: "stale_ok (Inr None)" by (simp add: stale_ok_def)
  have 1: "net_step ops s ?s1" by (rule recv [OF _ any, of k]) (use assms in \<open>simp_all add: defs\<close>)
  have 2: "net_step ops ?s1 ?s2" by (rule recv [OF _ any, of k]) (use assms in \<open>simp_all add: defs\<close>)
  have 3: "net_step ops ?s2 ?s3" by (rule recv [OF _ any, of k]) (use assms in \<open>simp_all add: defs\<close>)
  have "(recvLoops s)[k := RecvTop] = recvLoops s" using assms(2) by (metis list_update_id)
  then have 4: "net_step ops ?s3 ?s4" by (intro recv [OF _ any, of k]) (use assms in \<open>simp_all add: defs\<close>)
  from 1 2 3 4 show ?thesis by (meson converse_rtranclp_into_rtranclp rtranclp.rtrancl_refl)
qed

locale transport_link =
  fixes ops :: "('d, 't) transport_ops"
    and tinv :: "'t \<Rightarrow> bool"
    and opened :: "'t \<Rightarrow> bool"
    and arrives :: "'t \<Rightarrow> message list \<Rightarrow> bool"
  assumes close: "tinv t \<Longrightarrow> tinv (tClose ops t) \<and> \<not> tConnected ops (tClose ops t) \<and> (opened t \<longrightarrow> opened (tClose ops t))"
    and connect: "tinv t \<Longrightarrow> \<not> tConnected ops t \<Longrightarrow> tConnect ops dial u header t = (err, t') \<Longrightarrow>
      tinv t' \<and> (tConnected ops t' \<longleftrightarrow> err = None) \<and> (opened t \<or> err = None \<longrightarrow> opened t')"
    and reading: "tinv t \<Longrightarrow> tConnected ops t \<Longrightarrow> tRead ops t = (Inr r, t') \<Longrightarrow>
      tinv t' \<and> tConnected ops t' \<and> opened t' \<and> stale_ok r"
    and read_panic: "tinv t \<Longrightarrow> opened t \<Longrightarrow> tRead ops t = (Inl p, t') \<Longrightarrow> p = NilDereference \<and> \<not> tConnected ops t"
    and read_next: "tinv t \<Longrightarrow> tConnected ops t \<Longrightarrow> arrives t (m # ms) \<Longrightarrow>
      \<exists>t'. tRead ops t = (Inr (Inr (Some m)), t') \<and> arrives t' ms"
    and writing: "tinv t \<Longrightarrow> tConnected ops t \<Longrightarrow> tWrite ops werr m t = (Inr res, t') \<Longrightarrow>
      tinv t' \<and> tConnected ops t' \<and> opened t'"
    and write_closed: "\<not> tConnected ops t \<Longrightarrow> MessageBytes m = Inr bs \<Longrightarrow> fst (tWrite ops werr m t) = Inl NilDereference"
    and write_panic: "tinv t \<Longrightarrow> tWrite ops werr m t = (Inl p, t') \<Longrightarrow> p = NilDereference \<and> \<not> tConnected ops t"
begin

lemma recv_keeps:
  assumes "net_inv ops tinv opened s" "k < length (recvLoops s)" "stale_ok stale" "recvLoop ops stale k s = Some (Inr s')"
  shows "net_inv ops tinv opened s' \<and> client_step\<^sup>=\<^sup>= (cl s) (cl s')"
proof -
  have inv: "tinv (trans s)" "tConnected ops (trans s) = connectedFlag (cl s)" "opened (trans s)"
    "\<And>m. RecvHandle m \<in> set (recvLoops s) \<Longrightarrow> msg_ok m \<and> wire_fields m"
    "mset (taken (cl s)) = mset (concat (map holds (sendLoops s)))"
    using assms(1,2) by (auto simp: net_inv_def linked_def)
  have keep: "\<forall>m. RecvHandle m \<in> set ((recvLoops s)[k := pc]) \<longrightarrow> msg_ok m \<and> wire_fields m"
    if "\<And>m. pc = RecvHandle m \<Longrightarrow> msg_ok m \<and> wire_fields m" for pc
    using set_update_subset_insert [of "recvLoops s" k pc] inv(4) that by blast
  have handed: "recvNext r = RecvHandle m \<Longrightarrow> stale_ok r \<Longrightarrow> msg_ok m \<and> wire_fields m" for r m
    by (auto simp: recvNext_def stale_ok_def split: sum.splits option.splits)
  show ?thesis
  proof (cases "recvLoops s ! k")
    case (RecvReading i)
    show ?thesis
    proof (cases "i = connection (cl s) \<and> tConnected ops (trans s)")
      case True
      then obtain r t where r: "tRead ops (trans s) = (Inr r, t)" "s' = recvGoto k (recvNext r) (s\<lparr>trans := t\<rparr>)"
        using assms(4) RecvReading by (auto simp: recvLoop_def split: prod.splits sum.splits)
      with reading [OF inv(1) _ r(1)] True inv(2,5) keep [of "recvNext r", OF handed] show ?thesis
        by (auto simp: net_inv_def linked_def recvGoto_def)
    next
      case False
      have "\<forall>m. RecvHandle m \<in> set ((recvLoops s)[k := recvNext stale]) \<longrightarrow> msg_ok m \<and> wire_fields m"
        by (rule keep) (rule handed [OF _ assms(3)])
      moreover have "s' = recvGoto k (recvNext stale) s" using False assms(4) RecvReading by (auto simp: recvLoop_def)
      ultimately show ?thesis using inv(1,2,3,5) by (simp add: net_inv_def linked_def recvGoto_def)
    qed
  next
    case (RecvHandle m)
    then have m: "msg_ok m" "wire_fields m" using inv(4) [of m] nth_mem [OF assms(2)] by auto
    obtain c where c: "recvMessage m (cl s) = Inr c" "connectedFlag c = connectedFlag (cl s)" "taken c = taken (cl s)"
      by (rule recvMessage_total [OF m(1)])
    with receive [OF m c(1)] assms(4) RecvHandle inv(1-3,5) keep [of RecvTop] show ?thesis
      by (auto simp: net_inv_def linked_def recvGoto_def recvLoop_def)
  next
    case (RecvFail err)
    with close [OF inv(1)] transport_error [of "cl s" err] assms(4) inv(1-3,5) keep [of RecvEnd] show ?thesis
      by (auto simp: net_inv_def linked_def recvGoto_def recvLoop_def)
  next
    case RecvTop
    let ?pc = "if tConnected ops (trans s) then RecvRead else RecvEnd"
    have "\<forall>m. RecvHandle m \<in> set ((recvLoops s)[k := ?pc]) \<longrightarrow> msg_ok m \<and> wire_fields m"
      by (rule keep) (simp split: if_splits)
    moreover have "s' = recvGoto k ?pc s" using assms(4) RecvTop by (simp add: recvLoop_def)
    ultimately show ?thesis using inv(1-3,5) by (simp only: net_inv_def linked_def recvGoto_def) simp
  next
    case RecvRead
    with assms(4) have "s' = recvGoto k (RecvReading (connection (cl s))) s" by (simp add: recvLoop_def split: sum.splits)
    with inv(1-3,5) keep [of "RecvReading (connection (cl s))"] show ?thesis by (simp add: net_inv_def linked_def recvGoto_def)
  qed (use assms(4) in \<open>simp add: recvLoop_def\<close>)
qed

lemma send_keeps:
  assumes "net_inv ops tinv opened s" "k < length (sendLoops s)" "sendLoop ops werr stale pick k s = Some (Inr s')"
  shows "net_inv ops tinv opened s' \<and> client_step\<^sup>=\<^sup>= (cl s) (cl s')"
proof -
  have inv: "tinv (trans s)" "tConnected ops (trans s) = connectedFlag (cl s)" "recvLoops s \<noteq> [] \<longrightarrow> opened (trans s)"
    "\<forall>m. RecvHandle m \<in> set (recvLoops s) \<longrightarrow> msg_ok m \<and> wire_fields m"
    "mset (taken (cl s)) = mset (concat (map holds (sendLoops s)))"
    using assms(1) by (auto simp: net_inv_def linked_def)
  note h = holds_update [OF assms(2)]
  have holding: "m \<in> set (taken (cl s))" "mset (remove1 m (taken (cl s))) = mset (concat (map holds ((sendLoops s)[k := pc])))"
    if "holds (sendLoops s ! k) = [m]" "holds pc = []" for m pc
  proof -
    have "mset (taken (cl s)) = add_mset m (mset (concat (map holds ((sendLoops s)[k := pc]))))"
      using h [of pc] inv(5) that by simp
    then show "m \<in> set (taken (cl s))" "mset (remove1 m (taken (cl s))) = mset (concat (map holds ((sendLoops s)[k := pc])))"
      by (metis in_multiset_in_set union_single_eq_member, simp)
  qed
  have same: "mset (concat (map holds ((sendLoops s)[k := pc]))) = mset (taken (cl s))" if "holds pc = holds (sendLoops s ! k)" for pc
    using h [of pc] inv(5) that by simp
  have more: "mset (concat (map holds ((sendLoops s)[k := pc]))) = add_mset m (mset (taken (cl s)))"
    if "holds (sendLoops s ! k) = []" "holds pc = [m]" for m pc
    using h [of pc] inv(5) that by simp
  have finish: "net_inv ops tinv opened (sendNext k m r (s\<lparr>trans := t\<rparr>)) \<and> client_step\<^sup>=\<^sup>= (cl s) (cl (sendNext k m r (s\<lparr>trans := t\<rparr>)))"
    if "holds (sendLoops s ! k) = [m]" "tinv t" "tConnected ops t = connectedFlag (cl s)" "recvLoops s \<noteq> [] \<longrightarrow> opened t" for m r t
  proof -
    have m: "m \<in> set (taken (cl s))" by (rule holding(1) [OF that(1), of SendTop]) simp
    show ?thesis
      using that(2-4) inv(4) holding(2) [OF that(1), of SendTop] holding(2) [OF that(1), of "SendFail _"] transmit [OF m] lose [OF m]
      by (cases r) (auto simp: sendNext_def net_inv_def linked_def sendGoto_def dropTaken_def writeTaken_def)
  qed
  show ?thesis
  proof (cases "sendLoops s ! k")
    case (SendWriting i m)
    show ?thesis
    proof (cases "i = connection (cl s) \<and> tConnected ops (trans s)")
      case True
      then obtain r t where r: "tWrite ops werr m (trans s) = (Inr r, t)" "s' = sendNext k m r (s\<lparr>trans := t\<rparr>)"
        using assms(3) SendWriting by (auto simp: sendLoop_def Let_def split: prod.splits sum.splits)
      with writing [OF inv(1) _ r(1)] True inv(2) finish [of m t r] SendWriting show ?thesis by simp
    next
      case False
      with assms(3) SendWriting have "s' = sendNext k m stale s" by (auto simp: sendLoop_def Let_def)
      with finish [of m "trans s" stale] inv SendWriting show ?thesis by simp
    qed
  next
    case (SendSelect ch)
    then obtain i where i: "ch = Some i" using assms(3) by (cases ch) (simp_all add: sendLoop_def Let_def)
    show ?thesis
    proof (cases "i = connection (cl s) \<and> sendQueue (cl s) \<noteq> None")
      case True
      then obtain m ms where m: "sendQueue (cl s) = Some (m # ms)"
        "s' = takeMessage k m (s\<lparr>cl := (cl s)\<lparr>sendQueue := Some ms\<rparr>\<rparr>)"
        using assms(3) SendSelect i by (auto simp: sendLoop_def Let_def split: list.splits)
      with take_queued [OF m(1)] more [of "SendTaken m" m] inv SendSelect show ?thesis
        by (auto simp: takeMessage_def sendGoto_def net_inv_def linked_def)
    next
      case False
      let ?m = "abandoned (cl s) ! pick"
      have p: "pick < length (abandoned (cl s))"
        "s' = takeMessage k ?m (s\<lparr>cl := (cl s)\<lparr>abandoned := remove1 ?m (abandoned (cl s))\<rparr>\<rparr>)"
        using False assms(3) SendSelect i by (auto simp: sendLoop_def Let_def split: if_splits)
      with take_abandoned [OF nth_mem [OF p(1)]] more [of "SendTaken ?m" ?m] inv SendSelect show ?thesis
        by (auto simp: takeMessage_def sendGoto_def net_inv_def linked_def)
    qed
  next
    case (SendTaken m)
    have m: "m \<in> set (taken (cl s))" by (rule holding(1) [of m SendTop]) (simp_all add: SendTaken)
    have d: "mset (remove1 m (taken (cl s))) = mset (concat (map holds ((sendLoops s)[k := SendEnd])))"
      by (rule holding(2)) (simp_all add: SendTaken)
    have w: "mset (concat (map holds ((sendLoops s)[k := SendWrite m]))) = mset (taken (cl s))"
      by (rule same) (simp add: SendTaken)
    show ?thesis
    proof (cases "tConnected ops (trans s)")
      case True
      with assms(3) SendTaken have "s' = sendGoto k (SendWrite m) s" by (simp add: sendLoop_def)
      with w inv show ?thesis by (simp add: net_inv_def linked_def sendGoto_def)
    next
      case False
      with assms(3) SendTaken have "s' = sendGoto k SendEnd (s\<lparr>cl := dropTaken m (cl s)\<rparr>)" by (simp add: sendLoop_def Let_def)
      with d inv lose [OF m] show ?thesis by (simp add: net_inv_def linked_def sendGoto_def dropTaken_def)
    qed
  next
    case (SendFail err)
    with close [OF inv(1)] transport_error [of "cl s" err] assms(3) inv same [of SendEnd] show ?thesis
      by (auto simp: sendLoop_def Let_def sendGoto_def net_inv_def linked_def)
  next
    case (SendWrite m)
    with assms(3) inv same [of "SendWriting (connection (cl s)) m"] show ?thesis
      by (auto simp: sendLoop_def Let_def sendGoto_def net_inv_def linked_def split: sum.splits)
  next
    case SendTop
    with assms(3) inv same [of SendEnd] same [of SendChoose] show ?thesis
      by (auto simp: sendLoop_def Let_def sendGoto_def net_inv_def linked_def)
  next
    case SendChoose
    with assms(3) inv same [of "SendSelect _"] show ?thesis
      by (auto simp: sendLoop_def Let_def sendGoto_def net_inv_def linked_def)
  qed (use assms(3) in \<open>simp add: sendLoop_def Let_def\<close>)
qed

lemma close_keeps:
  assumes "net_inv ops tinv opened s"
  shows "net_inv ops tinv opened (closeNet ops s) \<and> client_step\<^sup>=\<^sup>= (cl s) (cl (closeNet ops s))"
  using assms close [of "trans s"] client_step.close [of "cl s"]
  by (auto simp: net_inv_def linked_def closeNet_def closeTurn_def)

lemma done_keeps:
  assumes "net_inv ops tinv opened s" "k < length (sendLoops s)" "holds (sendLoops s ! k) = []"
  shows "net_inv ops tinv opened (sendGoto k SendEnd s)"
  using assms holds_update [OF assms(2), of SendEnd] by (auto simp: net_inv_def sendGoto_def)

lemma step_keeps:
  assumes "net_step ops s s'" "net_inv ops tinv opened s"
  shows "net_inv ops tinv opened s' \<and> client_step\<^sup>=\<^sup>= (cl s) (cl s')"
  using assms(1)
proof cases
  case (recv k stale)
  then show ?thesis using recv_keeps [OF assms(2)] by blast
next
  case (send k werr stale pick)
  then show ?thesis using send_keeps [OF assms(2)] by blast
next
  case (context_done k ch)
  then show ?thesis using done_keeps [of "closeNet ops s" k] close_keeps [OF assms(2)]
    by (simp add: closeNet_def sendGoto_def split: prod.split)
next
  case close_net
  then show ?thesis using close_keeps [OF assms(2)] by simp
next
  case (dial_fails dial u header err t c)
  with connect [OF _ dial_fails(2,3)] connects_by_step [OF dial_fails(4)] assms(2) show ?thesis
    by (auto simp: net_inv_def linked_def)
next
  case (dial_connects dial u header t c)
  with connect [OF _ dial_connects(2,3)] connects_by_step [OF dial_connects(4)] assms(2) show ?thesis
    by (auto simp: net_inv_def linked_def)
next
  case (app_net c)
  with client_step.app [OF app_net(2)] app_step_keeps [OF app_net(2)] assms(2) show ?thesis
    by (auto simp: net_inv_def linked_def)
qed

lemma steps_keep:
  assumes "(net_step ops)\<^sup>*\<^sup>* s s'" "net_inv ops tinv opened s" "client_reachable (cl s)"
  shows "net_inv ops tinv opened s' \<and> client_reachable (cl s')"
  using assms
proof (induction rule: rtranclp_induct)
  case (step s' s'')
  with step_keeps [OF step(2)] show ?case by (auto intro: client_reachable.step)
qed simp

lemma write_panics_fst: "tinv t \<Longrightarrow> fst (tWrite ops werr m t) = Inl p \<Longrightarrow> p = NilDereference \<and> \<not> tConnected ops t"
  by (cases "tWrite ops werr m t") (auto dest: write_panic)

lemma read_panics_fst: "tinv t \<Longrightarrow> opened t \<Longrightarrow> fst (tRead ops t) = Inl p \<Longrightarrow> p = NilDereference \<and> \<not> tConnected ops t"
  by (cases "tRead ops t") (auto dest: read_panic)

lemma recv_panics:
  assumes "net_inv ops tinv opened s" "k < length (recvLoops s)" "recvLoop ops stale k s = Some (Inl p)"
  shows "p = NilDereference \<and> recvLoops s ! k = RecvRead \<and> \<not> tConnected ops (trans s)"
proof -
  have inv: "tinv (trans s)" "opened (trans s)" "\<And>m. RecvHandle m \<in> set (recvLoops s) \<Longrightarrow> msg_ok m"
    using assms(1,2) by (auto simp: net_inv_def)
  have "\<And>m. recvLoops s ! k = RecvHandle m \<Longrightarrow> msg_ok m" using inv(3) nth_mem [OF assms(2)] by force
  with read_panic [OF inv(1,2)] read_panics_fst [OF inv(1,2)] assms(3) show ?thesis
    by (cases "recvLoops s ! k")
      (auto simp: recvLoop_def split: sum.splits prod.splits if_splits elim: recvMessage_total [of _ "cl s"])
qed

lemma send_panics:
  assumes "net_inv ops tinv opened s" "sendLoop ops werr stale pick k s = Some (Inl p)"
  shows "p = NilDereference \<and> (\<exists>m. sendLoops s ! k = SendWrite m) \<and> \<not> tConnected ops (trans s)"
proof -
  have inv: "tinv (trans s)" using assms(1) by (simp add: net_inv_def)
  show ?thesis
    using assms(2) write_panic [OF inv, of werr] write_panics_fst [OF inv, of werr]
    by (cases "sendLoops s ! k")
      (auto simp: sendLoop_def Let_def split: sum.splits prod.splits if_splits option.splits list.splits)
qed

lemma connect_turn:
  assumes "net_inv ops tinv opened s" "connectTurn ops dial u header (trans s, cl s) = (err, t, c)"
  shows "(tConnected ops t \<longleftrightarrow> err = None) \<and> (err \<noteq> None \<longrightarrow> c = cl s)"
  using assms connect [of "trans s" dial u header]
  by (auto simp: net_inv_def linked_def connectTurn_def Connect_def split: if_splits prod.splits option.splits)

text \<open>Messages that arrive are handed to the client in order.\<close>

lemma recv_all:
  assumes "k < length (recvLoops s)" "recvLoops s ! k = RecvTop" "tinv (trans s)" "linked ops (trans s) (cl s)"
    "tConnected ops (trans s)" "arrives (trans s) ms"
  shows "\<exists>t c. foldR recvMessage ms (cl s) = Inr c \<and> (net_step ops)\<^sup>*\<^sup>* s (s\<lparr>trans := t, cl := c\<rparr>) \<and> linked ops t c"
  using assms
proof (induction ms arbitrary: s)
  case Nil
  have "(net_step ops)\<^sup>*\<^sup>* s (s\<lparr>trans := trans s, cl := cl s\<rparr>)" by simp
  with Nil show ?case by (intro exI [of _ "trans s"] exI [of _ "cl s"]) simp
next
  case (Cons m ms)
  obtain t1 where t1: "tRead ops (trans s) = (Inr (Inr (Some m)), t1)" "arrives t1 ms" using read_next Cons.prems by blast
  with reading [OF Cons.prems(3,5)] have ok: "tinv t1" "tConnected ops t1" "msg_ok m" by (auto simp: stale_ok_def)
  obtain c1 where c1: "recvMessage m (cl s) = Inr c1" "connectedFlag c1 = connectedFlag (cl s)" by (rule recvMessage_total [OF ok(3)])
  have 1: "(net_step ops)\<^sup>*\<^sup>* s (s\<lparr>trans := t1, cl := c1\<rparr>)" by (rule recv_one [OF Cons.prems(1,2,5) t1(1) c1(1)])
  have "linked ops t1 c1" using c1 ok Cons.prems by (simp add: linked_def)
  then obtain t c where "foldR recvMessage ms c1 = Inr c" "linked ops t c"
    "(net_step ops)\<^sup>*\<^sup>* (s\<lparr>trans := t1, cl := c1\<rparr>) (s\<lparr>trans := t, cl := c\<rparr>)"
    using Cons.IH [of "s\<lparr>trans := t1, cl := c1\<rparr>"] Cons.prems(1,2) ok t1(2) by auto
  with 1 c1 show ?case by (auto intro: rtranclp_trans)
qed

lemma safe: "tinv t0 \<Longrightarrow> \<not> tConnected ops t0 \<Longrightarrow> net_safe ops t0"
  unfolding net_safe_def
proof (intro allI impI)
  fix s
  assume t0: "tinv t0" "\<not> tConnected ops t0" "(net_step ops)\<^sup>*\<^sup>* (newNet t0) s"
  have "net_inv ops tinv opened (newNet t0)"
    using t0(1,2) by (simp add: net_inv_def linked_def newNet_def InitStreaming_def)
  then have s: "net_inv ops tinv opened s" "client_reachable (cl s)"
    using steps_keep [OF t0(3)] start by (simp_all add: newNet_def)
  then show "client_reachable (cl s) \<and> linked ops (trans s) (cl s) \<and>
        (\<forall>stale k p. k < length (recvLoops s) \<longrightarrow> stale_ok stale \<longrightarrow> recvLoop ops stale k s = Some (Inl p) \<longrightarrow>
           p = NilDereference \<and> recvLoops s ! k = RecvRead \<and> \<not> tConnected ops (trans s)) \<and>
        (\<forall>werr stale pick k p. k < length (sendLoops s) \<longrightarrow> sendLoop ops werr stale pick k s = Some (Inl p) \<longrightarrow>
           p = NilDereference \<and> (\<exists>m. sendLoops s ! k = SendWrite m) \<and> \<not> tConnected ops (trans s)) \<and>
        (\<forall>werr stale pick k m bs. sendLoops s ! k = SendWrite m \<longrightarrow> MessageBytes m = Inr bs \<longrightarrow> \<not> tConnected ops (trans s) \<longrightarrow>
           sendLoop ops werr stale pick k s = Some (Inl NilDereference)) \<and>
        (\<forall>s'. net_step ops s s' \<longrightarrow> client_step\<^sup>=\<^sup>= (cl s) (cl s')) \<and>
        (\<forall>dial u header err t c. connectTurn ops dial u header (trans s, cl s) = (err, t, c) \<longrightarrow>
           (tConnected ops t \<longleftrightarrow> err = None) \<and> (err \<noteq> None \<longrightarrow> c = cl s))"
    using recv_panics [OF s(1)] send_panics [OF s(1)] step_keeps [OF _ s(1)] connect_turn [OF s(1)] write_closed
    by (auto simp: net_inv_def sendLoop_def)
qed

text \<open>
  \<^verbatim>\<open>Close\<close> between the check and the use of the connection: the state in which a loop of each kind has seen the transport
  connected and the transport is closed.
\<close>

lemma race:
  assumes "tinv t0" "\<not> tConnected ops t0" "tConnect ops dial u header t0 = (None, t)"
  obtains s where "(net_step ops)\<^sup>*\<^sup>* (newNet t0) s" "sendLoops s = [SendWrite m]" "recvLoops s = [RecvRead]" "trans s = tClose ops t"
proof -
  have t: "tinv t" "tConnected ops t" using connect [OF assms] by simp_all
  obtain c where c: "SendStream m None InitStreaming = Some (None, c)" "connectedFlag c" "sendQueue c = Some [m]"
    by (simp add: SendStream_def Connect_def enqueue_def InitStreaming_def sendCap_def)
  let ?s = "\<lambda>c r pc. \<lparr>trans = t, cl = c, recvLoops = [r], sendLoops = [pc]\<rparr>"
  let ?c = "c\<lparr>sendQueue := Some [], taken := taken c @ [m]\<rparr>"
  note defs = recvLoop_def recvGoto_def sendLoop_def sendGoto_def takeMessage_def
  have 0: "net_step ops (newNet t0) (?s c RecvTop SendTop)"
    using dial_connects [of ops "newNet t0" dial u header t c] assms(2,3) by_send [OF c(1)] by (simp add: newNet_def)
  have 1: "net_step ops (?s c RecvTop SendTop) (?s c RecvRead SendTop)"
    by (rule recv [of 0 _ "Inr None"]) (use t in \<open>simp_all add: stale_ok_def defs\<close>)
  have 2: "net_step ops (?s c RecvRead SendTop) (?s c RecvRead SendChoose)"
    by (rule send [of 0 _ _ None None 0]) (use t in \<open>simp_all add: defs Let_def\<close>)
  have 3: "net_step ops (?s c RecvRead SendChoose) (?s c RecvRead (SendSelect (Some (connection c))))"
    by (rule send [of 0 _ _ None None 0]) (use c in \<open>simp_all add: defs Let_def\<close>)
  have 4: "net_step ops (?s c RecvRead (SendSelect (Some (connection c)))) (?s ?c RecvRead (SendTaken m))"
    by (rule send [of 0 _ _ None None 0]) (use c in \<open>simp_all add: defs Let_def\<close>)
  have 5: "net_step ops (?s ?c RecvRead (SendTaken m)) (?s ?c RecvRead (SendWrite m))"
    by (rule send [of 0 _ _ None None 0]) (use t in \<open>simp_all add: defs Let_def\<close>)
  have 6: "net_step ops (?s ?c RecvRead (SendWrite m)) (closeNet ops (?s ?c RecvRead (SendWrite m)))" by (rule close_net)
  from 0 1 2 3 4 5 6 have "(net_step ops)\<^sup>*\<^sup>* (newNet t0) (closeNet ops (?s ?c RecvRead (SendWrite m)))"
    by (meson converse_rtranclp_into_rtranclp rtranclp.rtrancl_refl)
  then show thesis by (rule that) (use t in \<open>simp_all add: closeNet_def closeTurn_def\<close>)
qed

text \<open>
  The receive loop of a connection that was closed, still in its read when the client has connected again: its error
  resets the new connection.
\<close>

lemma stale_error:
  assumes "tinv t0" "\<not> tConnected ops t0" "\<And>t. \<exists>t'. tConnect ops dial u header t = (None, t')"
  shows "\<exists>s s'. (net_step ops)\<^sup>*\<^sup>* (newNet t0) s \<and> connectedFlag (cl s) \<and> recvLoops s = [RecvFail err, RecvTop] \<and>
    net_step ops s s' \<and> \<not> connectedFlag (cl s')"
proof -
  obtain t where t: "tConnect ops dial u header t0 = (None, t)" using assms(3) by blast
  have ok: "tinv t" "tConnected ops t" "opened t" using connect [OF assms(1,2) t] by simp_all
  have closed: "tinv (tClose ops t)" "\<not> tConnected ops (tClose ops t)" using close [OF ok(1)] by simp_all
  obtain t2 where t2: "tConnect ops dial u header (tClose ops t) = (None, t2)" using assms(3) by blast
  obtain r where r: "fst (tRead ops t) = Inr r" using read_panics_fst [OF ok(1,3)] ok(2) by (cases "fst (tRead ops t)") auto
  let ?c = "snd (Connect None InitStreaming)"
  let ?d = "CloseClient ?c"
  let ?e = "snd (Connect None ?d)"
  have c: "connectedFlag ?c" "connection ?c = 1" "\<not> connectedFlag ?d" "connection ?e = 2" "connectedFlag ?e"
    by (simp_all add: Connect_def InitStreaming_def CloseClient_def Reset_def connection_def)
  let ?s = "\<lambda>t c rs ss. \<lparr>trans = t, cl = c, recvLoops = rs, sendLoops = ss\<rparr>"
  have 0: "net_step ops (newNet t0) (?s t ?c [RecvTop] [SendTop])"
    using dial_connects [of ops "newNet t0" dial u header t ?c] assms(2) t by_connect [of None InitStreaming] by (simp add: newNet_def)
  have 1: "net_step ops (?s t ?c [RecvTop] [SendTop]) (?s t ?c [RecvRead] [SendTop])"
    by (rule recv [of 0 _ "Inr None"]) (use ok in \<open>simp_all add: stale_ok_def recvLoop_def recvGoto_def\<close>)
  have 2: "net_step ops (?s t ?c [RecvRead] [SendTop]) (?s t ?c [RecvReading 1] [SendTop])"
    by (rule recv [of 0 _ "Inr None"]) (use r c(2) in \<open>simp_all add: stale_ok_def recvLoop_def recvGoto_def\<close>)
  have 3: "net_step ops (?s t ?c [RecvReading 1] [SendTop]) (?s (tClose ops t) ?d [RecvReading 1] [SendTop])"
    using close_net [of ops "?s t ?c [RecvReading 1] [SendTop]"] ok(2) by (simp add: closeNet_def closeTurn_def)
  have 4: "net_step ops (?s (tClose ops t) ?d [RecvReading 1] [SendTop]) (?s t2 ?e [RecvReading 1, RecvTop] [SendTop, SendTop])"
    using dial_connects [of ops "?s (tClose ops t) ?d [RecvReading 1] [SendTop]" dial u header t2 ?e] closed(2) t2 by_connect [of None ?d]
    by simp
  have 5: "net_step ops (?s t2 ?e [RecvReading 1, RecvTop] [SendTop, SendTop]) (?s t2 ?e [RecvFail err, RecvTop] [SendTop, SendTop])"
    by (rule recv [of 0 _ "Inl err"]) (use c(4) in \<open>simp_all add: stale_ok_def recvLoop_def recvGoto_def recvNext_def\<close>)
  have 6: "net_step ops (?s t2 ?e [RecvFail err, RecvTop] [SendTop, SendTop])
      (?s (tClose ops t2) (handleError err ?e) [RecvEnd, RecvTop] [SendTop, SendTop])"
    by (rule recv [of 0 _ "Inr None"]) (simp_all add: stale_ok_def recvLoop_def recvGoto_def)
  from 0 1 2 3 4 5 have "(net_step ops)\<^sup>*\<^sup>* (newNet t0) (?s t2 ?e [RecvFail err, RecvTop] [SendTop, SendTop])"
    by (meson converse_rtranclp_into_rtranclp rtranclp.rtrancl_refl)
  with 6 c(5) show ?thesis by force
qed

end

section \<open>The four transports\<close>

definition stream_inv :: "stream_transport \<Rightarrow> bool" where
  "stream_inv t \<longleftrightarrow> (outgoing t \<noteq> None \<longrightarrow> tdecoder t \<noteq> None)"

definition stream_arrives :: "stream_transport \<Rightarrow> message list \<Rightarrow> bool" where
  "stream_arrives t ms \<longleftrightarrow> (case tdecoder t of None \<Rightarrow> ms = [] | Some d \<Rightarrow> begins_with (incoming d) ms)"

definition ws_arrives :: "ws_transport \<Rightarrow> message list \<Rightarrow> bool" where
  "ws_arrives t ms \<longleftrightarrow> (case t of None \<Rightarrow> ms = []
     | Some c \<Rightarrow> list_all2 (\<lambda>m (ty, bs). ty = TextMessage \<and> ParseBytes [] bs = Inr m) ms (take (length ms) (frames c)))"

lemma nextMessage_ok: "nextMessage d = (Inr m, d') \<Longrightarrow> msg_ok m \<and> wire_fields m"
  by (auto simp: nextMessage_def DecodeMessage_Inr split: prod.splits sum.splits decode_error.splits dest: message_of_json_ok)

lemma closeWith_link: "stream_inv t \<Longrightarrow> stream_inv (closeWith e t) \<and> outgoing (closeWith e t) = None"
  by (simp add: stream_inv_def closeWith_def)

lemma stream_read:
  assumes "stream_inv t" "outgoing t \<noteq> None" "tcpReadMessage t = (Inr r, t')"
  shows "stream_inv t' \<and> outgoing t' \<noteq> None \<and> tdecoder t' \<noteq> None \<and> stale_ok r"
proof -
  obtain d where d: "tdecoder t = Some d" using assms by (auto simp: stream_inv_def)
  obtain n d' where n: "nextMessage d = (n, d')" by force
  then show ?thesis
    using assms d nextMessage_ok [of d] by (auto simp: tcpReadMessage_def stream_inv_def stale_ok_def split: sum.splits)
qed

text \<open>The decoder stays after \<^verbatim>\<open>Close\<close>: a stream that was connected once can be read.\<close>

lemma stream_read_panic: "tdecoder t \<noteq> None \<Longrightarrow> tcpReadMessage t \<noteq> (Inl p, t')"
  by (auto simp: tcpReadMessage_def split: prod.splits sum.splits)

lemma stream_read_next:
  assumes "stream_inv t" "outgoing t \<noteq> None" "stream_arrives t (m # ms)"
  shows "\<exists>t'. tcpReadMessage t = (Inr (Inr (Some m)), t') \<and> stream_arrives t' ms"
proof -
  obtain d r where d: "tdecoder t = Some d" "DecodeMessage [] (incoming d) = (Inr m, r)" "begins_with r ms"
    using assms(3) by (auto simp: stream_arrives_def begins_with_Cons split: option.splits)
  then show ?thesis by (simp add: tcpReadMessage_def nextMessage_def stream_arrives_def)
qed

lemma writeBytes_keeps:
  assumes "stream_inv t" "outgoing t \<noteq> None" "writeBytes h werr bs t = (Inr r, t')"
  shows "stream_inv t' \<and> outgoing t' \<noteq> None \<and> tdecoder t' \<noteq> None"
  using assms by (auto simp: writeBytes_def stream_inv_def split: option.splits)

lemma writeBytes_panic: "writeBytes h werr bs t = (Inl p, t') \<Longrightarrow> p = NilDereference \<and> outgoing t = None"
  by (auto simp: writeBytes_def split: option.splits)

lemma message_write:
  assumes "stream_inv t" "outgoing t \<noteq> None"
    "(case MessageBytes m of Inl e \<Rightarrow> (Inr (Some err), t) | Inr bs \<Rightarrow> writeBytes h werr (f bs) t) = (Inr r, t')"
  shows "stream_inv t' \<and> outgoing t' \<noteq> None \<and> tdecoder t' \<noteq> None"
  using assms writeBytes_keeps [OF assms(1,2)] by (cases "MessageBytes m") (auto simp: stream_inv_def)

lemma stream_connect:
  assumes "outgoing t = None"
  shows "tcpConnect d u h t = (err, t') \<Longrightarrow> stream_inv t' \<and> ((\<exists>y. outgoing t' = Some y) \<longleftrightarrow> err = None) \<and>
      (tdecoder t \<noteq> None \<or> err = None \<longrightarrow> tdecoder t' \<noteq> None)"
    and "vsockConnect dl u t = (err, t') \<Longrightarrow> stream_inv t' \<and> ((\<exists>y. outgoing t' = Some y) \<longleftrightarrow> err = None) \<and>
      (tdecoder t \<noteq> None \<or> err = None \<longrightarrow> tdecoder t' \<noteq> None)"
    and "h2Connect d u h t = (err, t') \<Longrightarrow> stream_inv t' \<and> ((\<exists>y. outgoing t' = Some y) \<longleftrightarrow> err = None) \<and>
      (tdecoder t \<noteq> None \<or> err = None \<longrightarrow> tdecoder t' \<noteq> None)"
  using assms by (auto simp: tcpConnect_def vsockConnect_def h2Connect_def stream_inv_def
    split: sum.splits io_error.splits option.splits)

lemmas transport_defs =
  tcpTransport_def tcpConnected_def tcpClose_def tcpWriteMessage_def
  vsockTransport_def vsockConnected_def vsockClose_def vsockWriteMessage_def vsockReadMessage_def
  h2Transport_def h2Connected_def h2Close_def h2WriteMessage_def h2ReadMessage_def
  wsTransport_def wsConnected_def wsClose_def wsWriteMessage_def wsReadMessage_def

definition stream_opened :: "stream_transport \<Rightarrow> bool" where
  "stream_opened t \<longleftrightarrow> tdecoder t \<noteq> None"

lemma stream_defs_close:
  "stream_inv t \<Longrightarrow> stream_inv (closeWith e t) \<and> outgoing (closeWith e t) = None \<and> (stream_opened t \<longrightarrow> stream_opened (closeWith e t))"
  by (simp add: stream_inv_def stream_opened_def closeWith_def)

interpretation tcp_link: transport_link tcpTransport stream_inv stream_opened stream_arrives
  apply unfold_locales
  subgoal by (simp add: transport_defs stream_defs_close)
  subgoal by (simp add: transport_defs stream_opened_def stream_connect)
  subgoal for t r t' using stream_read [of t r t'] by (simp add: transport_defs stream_opened_def)
  subgoal by (simp add: transport_defs stream_opened_def stream_read_panic)
  subgoal by (simp add: transport_defs stream_read_next)
  subgoal for t werr m r t' using message_write [where t = t and m = m and h = handleTCPError and werr = werr and f = "\<lambda>bs. bs" and r = r and t' = t'] by (simp add: transport_defs stream_opened_def)
  subgoal by (simp add: transport_defs writeBytes_def)
  subgoal by (auto simp: transport_defs dest: writeBytes_panic split: sum.splits)
  done

interpretation vsock_link: transport_link "vsockTransport dial" stream_inv stream_opened stream_arrives for dial
  apply unfold_locales
  subgoal by (simp add: transport_defs stream_defs_close)
  subgoal by (simp add: transport_defs stream_opened_def stream_connect)
  subgoal for t r t' using stream_read [of t r t'] by (simp add: transport_defs stream_opened_def)
  subgoal by (simp add: transport_defs stream_opened_def stream_read_panic)
  subgoal by (simp add: transport_defs stream_read_next)
  subgoal for t werr m r t' using message_write [where t = t and m = m and h = handleTCPError and werr = werr and f = "\<lambda>bs. bs" and r = r and t' = t'] by (simp add: transport_defs stream_opened_def)
  subgoal by (simp add: transport_defs writeBytes_def)
  subgoal by (auto simp: transport_defs dest: writeBytes_panic split: sum.splits)
  done

interpretation h2_link: transport_link h2Transport stream_inv stream_opened stream_arrives
  apply unfold_locales
  subgoal by (simp add: transport_defs stream_defs_close)
  subgoal by (simp add: transport_defs stream_opened_def stream_connect)
  subgoal for t r t' using stream_read [of t r t'] by (simp add: transport_defs stream_opened_def)
  subgoal by (simp add: transport_defs stream_opened_def stream_read_panic)
  subgoal by (simp add: transport_defs stream_read_next)
  subgoal for t werr m r t' using message_write [where t = t and m = m and h = handleHttp2Error and werr = werr and f = "newline" and r = r and t' = t'] by (simp add: transport_defs stream_opened_def)
  subgoal by (simp add: transport_defs writeBytes_def)
  subgoal by (auto simp: transport_defs dest: writeBytes_panic split: sum.splits)
  done

interpretation ws_link: transport_link wsTransport "\<lambda>t. True" "\<lambda>t. True" ws_arrives
  by unfold_locales
    (auto simp: transport_defs wsConnect_def ws_arrives_def list_all2_Cons1 take_Suc neq_Nil_conv stale_ok_def dest: ParseBytes_ok
      split: sum.splits io_error.splits list.splits option.splits if_splits)

section \<open>The loops refine the client\<close>

lemma close_race_panics:
  assumes "MessageBytes m = Inr bs"
  shows "\<exists>s. (net_step tcpTransport)\<^sup>*\<^sup>* (newNet newTransport) s \<and> sendLoop tcpTransport werr stale pick 0 s = Some (Inl NilDereference)"
    and "\<exists>s. (net_step wsTransport)\<^sup>*\<^sup>* (newNet None) s \<and> sendLoop wsTransport werr stale pick 0 s = Some (Inl NilDereference) \<and>
      recvLoop wsTransport r 0 s = Some (Inl NilDereference)"
proof -
  let ?d = "\<lambda>u h. Inr \<lparr>incoming = [], ending = IoEOF\<rparr>"
  obtain s where "(net_step tcpTransport)\<^sup>*\<^sup>* (newNet newTransport) s" "sendLoops s = [SendWrite m]"
    "trans s = tClose tcpTransport (newTransport\<lparr>outgoing := Some [], tdecoder := Some \<lparr>incoming = [], ending = IoEOF\<rparr>\<rparr>)"
    by (rule tcp_link.race [of newTransport ?d undefined undefined])
      (simp_all add: transport_defs tcpConnect_def newTransport_def stream_inv_def)
  with assms show "\<exists>s. (net_step tcpTransport)\<^sup>*\<^sup>* (newNet newTransport) s \<and>
      sendLoop tcpTransport werr stale pick 0 s = Some (Inl NilDereference)"
    by (intro exI [of _ s]) (simp add: sendLoop_def transport_defs closeWith_def writeBytes_def)
next
  let ?c = "\<lparr>frames = [], wsEnding = IoEOF, wsWritten = []\<rparr>"
  obtain s where "(net_step wsTransport)\<^sup>*\<^sup>* (newNet None) s" "sendLoops s = [SendWrite m]" "recvLoops s = [RecvRead]"
    "trans s = tClose wsTransport (Some ?c)"
    by (rule ws_link.race [of None "\<lambda>u h. Inr ?c" undefined undefined]) (simp_all add: transport_defs wsConnect_def)
  with assms show "\<exists>s. (net_step wsTransport)\<^sup>*\<^sup>* (newNet None) s \<and>
      sendLoop wsTransport werr stale pick 0 s = Some (Inl NilDereference) \<and> recvLoop wsTransport r 0 s = Some (Inl NilDereference)"
    by (intro exI [of _ s]) (simp add: sendLoop_def recvLoop_def transport_defs)
qed

lemma old_loop_resets_connection:
  "\<exists>s s'. (net_step tcpTransport)\<^sup>*\<^sup>* (newNet newTransport) s \<and> connectedFlag (cl s) \<and> recvLoops s = [RecvFail err, RecvTop] \<and>
     net_step tcpTransport s s' \<and> \<not> connectedFlag (cl s')"
  by (rule tcp_link.stale_error [of _ "\<lambda>u h. Inr \<lparr>incoming = [], ending = IoEOF\<rparr>" undefined undefined])
    (simp_all add: transport_defs tcpConnect_def newTransport_def stream_inv_def)


text \<open>
  A server that the configuration of a websocket client rejects is rejected when the client connects alone, and accepted
  when another client without this configuration sets the shared dialer before the first one dials.
\<close>

lemma websocket_clients_share_dialer:
  assumes "\<not> wsConnected (clientTransport c)" "\<not> connectedFlag (streaming c)" "streamTLS c = Some cfg" "streamTLS c' = None"
    and "dial (Some cfg) (clientUrl c) (streamHeader c) = Inl err" "dial None (clientUrl c) (streamHeader c) = Inr conn"
  shows "fst (fst (websocketConnect dial c dialer)) \<noteq> None"
    and "fst (dialWebsocket dial (setDialerTLS c' (setDialerTLS c dialer)) c) = None"
  using assms
  by (cases err; simp add: websocketConnect_def dialWebsocket_def setDialerTLS_def netConnect_def connectTurn_def Connect_def
      transport_defs wsConnect_def Let_def)+



end
