(* ===== verification/Stream_Calls.thy ===== *)
theory Stream_Calls
  imports Transports
begin

text \<open>
  Client and server over the four streaming transports: a call made over a standing connection, the bytes its
  \<^verbatim>\<open>sendLoop\<close> writes, a run of the server's session on them, and the line or frame its \<^verbatim>\<open>recvLoop\<close> reads. The locale
  \<open>duplex\<close> is what the two ends of a connection rely on, interpreted for TCP, vsock, HTTP/2 and websocket.
\<close>

section \<open>A call and its answer\<close>

text \<open>
  A call \<open>n\<close> of \<open>q\<close> by client \<open>c\<close> over a transport that has written nothing, with a receive and a send loop at their
  start: a run of the client up to \<open>s1\<close>, in which the send loop writes one message, a run of the server's session
  on what was written, and a run of the client from \<open>s1\<close> with what the server has written arriving. \<open>fed\<close> is what the server
  reads of what the transport has written, \<open>gets\<close> the transport when the server's bytes arrive, \<open>got\<close> the answer.
\<close>

definition call_answered ::
  "('d, 't) transport_ops \<Rightarrow> ('i, 'p, 'w) session_code \<Rightarrow> ('t \<Rightarrow> bool) \<Rightarrow> ('t \<Rightarrow> 'i) \<Rightarrow> (string \<Rightarrow> 't \<Rightarrow> 't) \<Rightarrow>
     streaming_client \<Rightarrow> nat \<Rightarrow> request_message \<Rightarrow> message \<Rightarrow> 'w \<Rightarrow> 'w \<Rightarrow> bool" where
  "call_answered ops code ready fed gets c n q got w w' \<longleftrightarrow>
     (\<forall>t. ready t \<longrightarrow> linked ops t c \<longrightarrow>
        (\<exists>s1 es s s2.
          (net_step ops)\<^sup>*\<^sup>* \<lparr>trans = t, cl = c, recvLoops = [RecvTop], sendLoops = [SendTop]\<rparr> s1 \<and>
          transmitted (cl s1) = transmitted c @ [MReq q] \<and>
          session_run code (newSession (fed (trans s1)) w) es s \<and> sworld s = w' \<and> length (handledOf es) = 1 \<and> length (sentOf es) = 1 \<and>
          (net_step ops)\<^sup>*\<^sup>* (s1\<lparr>trans := gets (written s) (trans s1)\<rparr>) s2 \<and>
          streaming_client.received (cl s2) = streaming_client.received (cl s1) @ [got] \<and>
          calls (cl s2) n = Some (Done q (Inr got))))"

lemma session_answers_one:
  assumes "readInput code i = (ReadMsg p, i')" "session_code.received code True p w = (Inr [GoSend res], w')" "MessageBytes res = Inr out"
  shows "\<exists>es s. session_run code (newSession i w) es s \<and> length (handledOf es) = 1 \<and> sentOf es = [res] \<and> pushedOf es = [] \<and>
    written s = frameBytes code out \<and> sworld s = w'"
proof -
  let ?s0 = "newSession i w"
  let ?s1 = "?s0\<lparr>input := i', goroutines := [GoReceived p]\<rparr>"
  let ?s2 = "?s1\<lparr>goroutines := [GoSend res], sworld := w'\<rparr>"
  let ?s3 = "?s2\<lparr>goroutines := [], sendChannel := [res]\<rparr>"
  let ?s4 = "?s3\<lparr>sendChannel := [], written := frameBytes code out\<rparr>"
  have 1: "session_step code ?s0 (EvReceived p) ?s1"
    by (rule session_step.recv) (simp_all add: newSession_def recvBody_def assms(1))
  have 2: "session_step code ?s1 (EvHandled p [GoSend res]) ?s2"
    by (rule session_step.go [where k = 0]) (simp_all add: newSession_def goBody_def Let_def assms(2))
  have 3: "session_step code ?s2 EvInternal ?s3"
    by (rule session_step.go [where k = 0]) (simp_all add: newSession_def goBody_def sendCapacity_def Let_def)
  have 4: "session_step code ?s3 (EvSent res) ?s4"
    by (rule session_step.send) (simp_all add: newSession_def sendBody_def assms(3))
  let ?es = "[EvReceived p, EvHandled p [GoSend res], EvInternal, EvSent res]"
  have "session_run code ?s0 ?es ?s4"
    by (rule run_snoc [OF run_snoc [OF run_snoc [OF run_one [OF 1] 2 refl] 3 refl] 4]) simp
  then show ?thesis
    by (intro exI [of _ ?es] exI [of _ ?s4]) (simp add: handledOf_def sentOf_def pushedOf_def newSession_def)
qed

lemma app_nets:
  assumes "app_step\<^sup>*\<^sup>* (cl s) c'"
  shows "(net_step ops)\<^sup>*\<^sup>* s (s\<lparr>cl := c'\<rparr>)"
  using assms
proof (induction rule: rtranclp_induct)
  case (step c' c'')
  have "net_step ops (s\<lparr>cl := c'\<rparr>) (s\<lparr>cl := c''\<rparr>)" using app_net [of "s\<lparr>cl := c'\<rparr>" c''] step(2) by simp
  with step(3) show ?case by (auto intro: rtranclp.rtrancl_into_rtrancl)
qed simp

lemma read_result_returns:
  assumes "IsResultOrError r" "MustId r = Inr (reqId q)" "connectedFlag c"
    and "pendingRequests c (reqId q) = Some \<lparr>prReqmsg = q, prCall = n\<rparr>" "reqId q \<noteq> GFloat NaN"
    and "calls c n = Some (Waiting q k ch)" "results c n = []"
  shows "\<exists>c' c''. recvMessage r c = Inr c' \<and> app_step c' c'' \<and> calls c'' n = Some (Done q (Inr r)) \<and>
    streaming_client.received c'' = streaming_client.received c @ [r]"
proof -
  let ?c = "deliver_result n r (c\<lparr>received := streaming_client.received c @ [r], pendingRequests := (pendingRequests c)(reqId q := None)\<rparr>)"
  have "recvMessage r c = Inr ?c"
    using assms(1,2,4,5) by (simp add: recvMessage_def handleResult_def loadPending_def Let_def)
  moreover have "app_step ?c (setPhase n (Done q (Inr r)) (?c\<lparr>results := (results ?c)(n := [])\<rparr>))" (is "app_step _ ?d")
    by (rule app_step.return [of _ n q k ch]) (use assms(6,7) in \<open>simp_all add: requestReturn_def deliver_result_def\<close>)
  moreover have "calls ?d n = Some (Done q (Inr r))" "streaming_client.received ?d = streaming_client.received c @ [r]"
    by (simp_all add: setPhase_def deliver_result_def)
  ultimately show ?thesis by blast
qed

section \<open>The two ends of a connection\<close>

locale duplex =
  fixes ops :: "('d, 't) transport_ops" and code :: "('i, 'p, 'w) session_code"
    and ready :: "'t \<Rightarrow> bool" and fed :: "'t \<Rightarrow> 'i" and gets :: "string \<Rightarrow> 't \<Rightarrow> 't"
    and ms :: "template \<Rightarrow> go_error + gmap" and a :: "'w actor" and req :: "message \<Rightarrow> rpc_request"
  assumes up: "ready t \<Longrightarrow> tConnected ops t"
    and carries: "ready t \<Longrightarrow> msg_ok m \<Longrightarrow> sendable m \<Longrightarrow> \<exists>t' p i. tWrite ops None m t = (Inr None, t') \<and> tConnected ops t' \<and>
      readInput code (fed t') = (ReadMsg p, i) \<and> (\<forall>w. session_code.received code True p w = msgReceived ms a (req (canon_msg m)) w)"
    and returns: "tConnected ops t \<Longrightarrow> msg_ok m \<Longrightarrow> sendable m \<Longrightarrow> MessageBytes m = Inr out \<Longrightarrow>
      tConnected ops (gets (frameBytes code out) t) \<and>
      (\<exists>t'. tRead ops (gets (frameBytes code out) t) = (Inr (Inr (Some (canon_msg m))), t'))"
    and req_msg: "msg (req m) = m"
begin

lemma call_is_answered:
  assumes "client_reachable c" "sendQueue c = Some []" "calls c n = None" "pendingRequests c (reqId q) = None"
    and "msg_ok (MReq q)" "sendable (MReq q)" "hashable (reqId q)" "canon_id (reqId q) = reqId q" "reqId q \<noteq> GFloat NaN"
    and "canon_msg (MReq q) = MReq q'" "route a (reqMethod q') = Some (a', h)"
    and "validateRequest ms (ValidateSchema a') (hschema h) (MReq q') = None"
    and "callback h (req (MReq q')) (reqParams q') w = (Returns (PlainValue v) None, w')"
    and "marshal_ok v" "gdepth v < max_depth"
  shows "call_answered ops code ready fed gets c n q (MRes \<lparr>kind = MKResult, traceId = to_valid_utf8 (traceId q), resId = reqId q,
      resResult = canon v, resHeader = None\<rparr>) w w'"
  unfolding call_answered_def
proof (intro allI impI)
  fix t
  assume t: "ready t" "linked ops t c"
  let ?res = "MRes ((rawResultMessage (reqId q') v None)\<lparr>traceId := traceId q'\<rparr>)"
  let ?got = "MRes \<lparr>kind = MKResult, traceId = to_valid_utf8 (traceId q), resId = reqId q, resResult = canon v, resHeader = None\<rparr>"
  obtain bytes where bytes: "ParseBytes [] bytes = Inr (MReq q')"
    using ParseBytes_MessageBytes [OF assms(5,6), of "[]"] assms(10) by auto
  have q': "msg_ok (MReq q')" "reqId q' = reqId q" "traceId q' = to_valid_utf8 (traceId q)" "id_ok (reqId q')"
    using ParseBytes_ok [OF bytes] assms(6,8,10) wire_id_ok by (auto split: prod.splits)
  have fed: "Feed a ms (req (MReq q')) w = (Fed (Some ?res) None, w')"
    using Feed_callback [of "req (MReq q')" q' a a' h ms w] assms(11-13) q'(1)
    by (simp add: req_msg recoverCall_def wrapResult_def IsRequest_MReq NewResultMessage_def)
  have res: "msg_ok ?res" "sendable ?res" "canon_msg ?res = ?got"
    using assms(8,14,15) q' by (simp_all add: raw_defs to_valid_utf8_idem)
  obtain out where out: "MessageBytes ?res = Inr out" using round_trip [OF res(1,2), of "[]"] by auto
  obtain t1 p i where t1: "tWrite ops None (MReq q) t = (Inr None, t1)" "tConnected ops t1" "readInput code (fed t1) = (ReadMsg p, i)"
    "\<And>w. session_code.received code True p w = msgReceived ms a (req (MReq q')) w"
    using carries [OF t(1) assms(5,6)] assms(10) by auto
  obtain es s where run: "session_run code (newSession (fed t1) w) es s" "length (handledOf es) = 1" "length (sentOf es) = 1"
    "written s = frameBytes code out" "sworld s = w'"
    using session_answers_one [OF t1(3) _ out, of w w'] fed t1(4) by (auto simp: msgReceived_def)
  obtain t3 where t3: "tRead ops (gets (written s) t1) = (Inr (Inr (Some ?got)), t3)" "tConnected ops (gets (written s) t1)"
    using returns [OF t1(2) res(1,2) out] res(3) run(4) by auto
  let ?c1 = "c\<lparr>pendingRequests := (pendingRequests c)(reqId q \<mapsto> \<lparr>prReqmsg = q, prCall = n\<rparr>),
      sendQueue := Some [MReq q], calls := (calls c)(n \<mapsto> Waiting q (reqId q) (closeChannel c)),
      timers := timers c @ [reqId q], sentKey := (sentKey c)(n \<mapsto> reqId q)\<rparr>"
  let ?c2 = "?c1\<lparr>sendQueue := Some [], taken := remove1 (MReq q) (taken ?c1 @ [MReq q]), transmitted := transmitted ?c1 @ [MReq q]\<rparr>"
  let ?net = "\<lambda>t c. \<lparr>trans = t, cl = c, recvLoops = [RecvTop], sendLoops = [SendTop]\<rparr>"
  have conn: "tConnected ops t" "connectedFlag c" using up t by (simp_all add: linked_def)
  have 1: "(net_step ops)\<^sup>*\<^sup>* (?net t c) (?net t ?c1)"
    using app_nets [of "?net t c" _ ops] call_waits_app [of c "[]" n q undefined q] assms(2-5,7) conn
    by (simp add: loadPending_def sendCap_def)
  have 2: "(net_step ops)\<^sup>*\<^sup>* (?net t ?c1) (?net t1 ?c2)"
    using send_one [of 0 "?net t ?c1" ops "MReq q" "[]" t1] conn t1(1) by simp
  have "results c n = []"
    using not_stored_clean [OF client_reachable_inv [OF assms(1), unfolded client_inv_def], of n] assms(3) by simp
  then obtain c3 c4 where 3: "recvMessage ?got ?c2 = Inr c3" "app_step c3 c4" "calls c4 n = Some (Done q (Inr ?got))"
    "streaming_client.received c4 = streaming_client.received ?c2 @ [?got]"
    using read_result_returns [of ?got q ?c2 n "reqId q" "closeChannel c"] assms(9) conn(2)
    by (auto simp: IsResultOrError_def Is_defs)
  have 4: "(net_step ops)\<^sup>*\<^sup>* (?net (gets (written s) t1) ?c2) (?net t3 c3)"
    using recv_one [of 0 "?net (gets (written s) t1) ?c2" ops ?got t3 c3] t3 3(1) by simp
  have 5: "net_step ops (?net t3 c3) (?net t3 c4)" using app_net [of "?net t3 c3" c4 ops] 3(2) by simp
  show "\<exists>s1 es s s2. (net_step ops)\<^sup>*\<^sup>* (?net t c) s1 \<and> transmitted (cl s1) = transmitted c @ [MReq q] \<and>
      session_run code (newSession (fed (trans s1)) w) es s \<and> sworld s = w' \<and> length (handledOf es) = 1 \<and> length (sentOf es) = 1 \<and>
      (net_step ops)\<^sup>*\<^sup>* (s1\<lparr>trans := gets (written s) (trans s1)\<rparr>) s2 \<and>
      streaming_client.received (cl s2) = streaming_client.received (cl s1) @ [?got] \<and> calls (cl s2) n = Some (Done q (Inr ?got))"
    using rtranclp_trans [OF 1 2] run rtranclp.rtrancl_into_rtrancl [OF 4 5] 3(3,4)
    by (intro exI [of _ "?net t1 ?c2"] exI [of _ es] exI [of _ s] exI [of _ "?net t3 c4"]) simp
qed

end

definition stream_ready :: "stream_transport \<Rightarrow> bool" where
  "stream_ready t \<longleftrightarrow> outgoing t = Some []"

text \<open>What was written to a stream, and a stream on which the peer's bytes arrive.\<close>

definition stream_fed :: "stream_transport \<Rightarrow> string" where
  "stream_fed t = (case outgoing t of None \<Rightarrow> [] | Some bs \<Rightarrow> bs)"

definition stream_gets :: "string \<Rightarrow> stream_transport \<Rightarrow> stream_transport" where
  "stream_gets bs t = t\<lparr>tdecoder := Some \<lparr>incoming = bs, ending = IoEOF\<rparr>\<rparr>"

text \<open>The frames written, as the server reads them, and a connection on which the peer's frame arrives.\<close>

definition ws_ready :: "ws_transport \<Rightarrow> bool" where
  "ws_ready t \<longleftrightarrow> (\<exists>c. t = Some c \<and> wsWritten c = [])"

definition ws_fed :: "ws_transport \<Rightarrow> ws_frame list" where
  "ws_fed t = (case t of None \<Rightarrow> [] | Some c \<Rightarrow> map WsText (wsWritten c))"

definition ws_gets :: "string \<Rightarrow> ws_transport \<Rightarrow> ws_transport" where
  "ws_gets bs = map_option (frames_update (\<lambda>_. [(TextMessage, bs)]))"

lemmas ends_defs = stream_ready_def stream_fed_def stream_gets_def ws_ready_def ws_fed_def ws_gets_def

lemma message_carried:
  assumes "msg_ok m" "sendable m"
  shows "\<exists>bs. MessageBytes m = Inr bs \<and> ParseBytes [] bs = Inr (canon_msg m) \<and> decodeRead bs = (ReadMsg (canon_msg m), []) \<and>
    (\<forall>x. decodeRead (bs @ x) = (ReadMsg (canon_msg m), x))"
proof -
  obtain bs where bs: "MessageBytes m = Inr bs" "\<forall>x. DecodeMessage [] (bs @ x) = (Inr (canon_msg m), x)"
    using round_trip [OF assms, of "[]"] by auto
  then show ?thesis using bs(2) [rule_format, of "[]"] by (simp add: decodeRead_Msg ParseBytes_def)
qed

lemma stream_carries:
  assumes "stream_ready t" "msg_ok m" "sendable m"
  shows "\<exists>bs. MessageBytes m = Inr bs \<and> decodeRead bs = (ReadMsg (canon_msg m), []) \<and>
    (\<forall>x. decodeRead (bs @ x) = (ReadMsg (canon_msg m), x)) \<and>
    (\<forall>h x. writeBytes h None x t = (Inr None, t\<lparr>outgoing := Some x\<rparr>))"
  using message_carried [OF assms(2,3)] assms(1) by (auto simp: stream_ready_def writeBytes_def)

lemma stream_up [simp]: "outgoing (stream_gets bs t) = outgoing t" "stream_ready t \<Longrightarrow> outgoing t = Some []"
  by (simp_all add: stream_gets_def stream_ready_def)

lemma stream_returns:
  assumes "msg_ok m" "sendable m" "MessageBytes m = Inr out"
  shows "\<exists>t'. tcpReadMessage (stream_gets (out @ [CHR 0x0A]) t) = (Inr (Inr (Some (canon_msg m))), t')"
  using round_trip [OF assms(1,2), of "[]"] assms(3)
  by (auto simp: stream_gets_def tcpReadMessage_def nextMessage_def)

lemma frame_returns:
  assumes "msg_ok m" "sendable m" "MessageBytes m = Inr out"
  shows "\<exists>t'. wsReadMessage (ws_gets out (Some c)) = (Inr (Inr (Some (canon_msg m))), t')"
  using ParseBytes_MessageBytes [OF assms(1,2), of "[]"] assms(3) by (simp add: ws_gets_def wsReadMessage_def)

lemmas session_defs = tcpSession_def vsockSession_def http2Session_def wsSession_def

lemmas duplex_defs = transport_defs session_defs request_defs

interpretation tcp_duplex: duplex tcpTransport "tcpSession ms a sid" stream_ready stream_fed stream_gets ms a "tcpRequest sid" for ms a sid
  by unfold_locales
    (auto simp: duplex_defs stream_returns stream_fed_def newline_def dest!: stream_carries)

interpretation vsock_duplex: duplex "vsockTransport dial" "vsockSession ms a sid" stream_ready stream_fed stream_gets ms a
  "vsockRequest sid" for dial ms a sid
  by unfold_locales
    (auto simp: duplex_defs stream_returns stream_fed_def newline_def dest!: stream_carries)

interpretation h2_duplex: duplex h2Transport "http2Session ms a spawn r sid" stream_ready stream_fed stream_gets ms a
  "http2Request r sid" for ms a spawn r sid
  by unfold_locales
    (auto simp: duplex_defs stream_returns stream_fed_def newline_def dest!: stream_carries)

interpretation ws_duplex: duplex wsTransport "wsSession ms a spawn r sid" ws_ready ws_fed ws_gets ms a
  "wsRequest r sid" for ms a spawn r sid
  by unfold_locales
    (auto simp: duplex_defs frame_returns ws_ready_def ws_fed_def ws_gets_def msgBytesReceived_def dest!: message_carried)

section \<open>Calls end to end\<close>

text \<open>
  \<^bold>\<open>C18.\<close> End to end over TCP, vsock, HTTP/2 and websocket: a call over a standing connection that has written nothing is
  written by \<^verbatim>\<open>sendLoop\<close>; a server session that gets these bytes can run so that its handler is called once on the
  parameters of the call and one message is written; and when \<^verbatim>\<open>recvLoop\<close> reads it, the call returns a result with its own
  id and the handler's value in the decoder's form.
\<close>

theorem stream_call_end_to_end:
  assumes "client_reachable c" "sendQueue c = Some []" "calls c n = None" "pendingRequests c (reqId q) = None"
    and "msg_ok (MReq q)" "sendable (MReq q)" "hashable (reqId q)" "canon_id (reqId q) = reqId q" "reqId q \<noteq> GFloat NaN"
    and "canon_msg (MReq q) = MReq q'" "route a (reqMethod q') = Some (a', h)"
    and "validateRequest ms (ValidateSchema a') (hschema h) (MReq q') = None"
    and "\<forall>req \<in> {tcpRequest sid, vsockRequest sid, http2Request r sid, wsRequest r sid}.
      callback h (req (MReq q')) (reqParams q') w = (Returns (PlainValue v) None, w')"
    and "marshal_ok v" "gdepth v < max_depth"
  shows "let got = MRes \<lparr>kind = MKResult, traceId = to_valid_utf8 (traceId q), resId = reqId q, resResult = canon v, resHeader = None\<rparr> in
    call_answered tcpTransport (tcpSession ms a sid) stream_ready stream_fed stream_gets c n q got w w' \<and>
    call_answered (vsockTransport dial) (vsockSession ms a sid) stream_ready stream_fed stream_gets c n q got w w' \<and>
    call_answered h2Transport (http2Session ms a spawn r sid) stream_ready stream_fed stream_gets c n q got w w' \<and>
    call_answered wsTransport (wsSession ms a spawn r sid) ws_ready ws_fed ws_gets c n q got w w'"
  using assms(13) by (simp add: Let_def tcp_duplex.call_is_answered [OF assms(1-12) _ assms(14,15)]
    vsock_duplex.call_is_answered [OF assms(1-12) _ assms(14,15)] h2_duplex.call_is_answered [OF assms(1-12) _ assms(14,15)]
    ws_duplex.call_is_answered [OF assms(1-12) _ assms(14,15)])

theorem stream_call_end_to_end_witness:
  "\<exists>t. ws_ready t \<and> linked wsTransport t connected_client \<and>
    call_answered wsTransport (wsSession (\<lambda>t. Inr []) (one_handler Sessions.pong) True (post []) ''s'')
      ws_ready ws_fed ws_gets connected_client 0 ping (Streaming_Client.pong) 0 (Suc 0)"
proof -
  let ?h = "\<lparr>callback = Sessions.pong, hschema = None\<rparr>"
  let ?a = "Actor True True [(''m'', ?h)] None None []"
  let ?t = "Some \<lparr>frames = [], wsEnding = IoEOF, wsWritten = []\<rparr>"
  have c: "calls connected_client = Map.empty" "pendingRequests connected_client = Map.empty" "sendQueue connected_client = Some []"
    "linked wsTransport ?t connected_client"
    by (simp_all add: client_eval linked_def transport_defs)
  have q: "canon_msg (MReq ping) = MReq ping" "sendable (MReq ping)"
    by (simp_all add: params_value_def to_valid_utf8_ascii_only id_ok_def max_depth_def max_list_def)
  have "to_valid_utf8 [] = []" by simp
  with stream_call_end_to_end [of connected_client 0 ping ping ?a ?a ?h "\<lambda>t. Inr []" "''s''" "post []" 0 "GBool True" "Suc 0"]
  show ?thesis
    using connected_client_reachable c q ping_ok
    by (intro exI [of _ ?t]) (simp add: validateRequest_def max_depth_def raw_defs ws_ready_def Let_def)
qed

end
