(* ===== verification/Systems.thy ===== *)
theory Systems
  imports Servers Stream_Calls
begin

text \<open>
  Several streaming clients and one TCP or vsock server in one system. Its parts are those of \<open>Streaming_Client\<close> and
  \<open>Servers\<close>, each with every interleaving of its own goroutines; they are composed through their connections: what a client wrote
  on a connection is what the server's session of this connection gets, and what the client read are messages of what that
  session wrote. A client may reconnect, so that it has several connections one after the other.
\<close>

section \<open>Connections between clients and a server\<close>

text \<open>A connection, seen from outside, is the bytes sent to the server and the bytes sent by it.\<close>

definition link_of :: "'c \<times> string \<times> (string, message, 'w) session \<Rightarrow> string \<times> string" where
  "link_of = (\<lambda>(c, bytes, se). (bytes, written se))"

text \<open>The messages a client wrote and read, split over its connections.\<close>

definition linked_over :: "streaming_client \<Rightarrow> (string \<times> string) list \<Rightarrow> bool" where
  "linked_over c links \<longleftrightarrow> (\<exists>tss rss. transmitted c = concat tss \<and> received c = concat rss \<and>
     list_all2 (\<lambda>ts (sent, got). \<exists>bss. mapR MessageBytes ts = Inr bss \<and> sent = concat bss) tss links \<and>
     list_all2 (\<lambda>rs (sent, got). begins_with got rs) rss links)"

definition deliverable :: "message \<Rightarrow> bool" where
  "deliverable m \<longleftrightarrow> msg_ok m \<and> sendable m"

text \<open>
  Client \<open>c\<close> has the connections \<open>ks\<close> of the server; what both write on them stays under the decoder's nesting limit, and
  the application pushes requests and notifications only, no results.
\<close>

definition client_of ::
  "message server_event list \<Rightarrow> ('c, string, message, 'w) server \<Rightarrow> nat list \<Rightarrow> streaming_client \<Rightarrow> bool" where
  "client_of evs t ks c \<longleftrightarrow> client_reachable c \<and> list_all deliverable (transmitted c) \<and>
     linked_over c (map (\<lambda>k. link_of (conns t ! k)) ks) \<and>
     (\<forall>k \<in> set ks. k < length (conns t) \<and> list_all deliverable (sentOf (connEvents k evs)) \<and>
        list_all (\<lambda>m. \<not> IsResultOrError m) (pushedOf (connEvents k evs)))"

text \<open>
  The answer \<open>m\<close> to call \<open>n\<close> of \<open>q\<close>: what the actor returned for a request that this client sent, over a connection with request \<open>req\<close>, under the
  id the call was sent with, and with the id of the call put in its place.
\<close>

definition own_answer ::
  "(template \<Rightarrow> go_error + gmap) \<Rightarrow> 'w actor \<Rightarrow> (message \<Rightarrow> rpc_request) \<Rightarrow> streaming_client \<Rightarrow> nat \<Rightarrow> request_message \<Rightarrow> message \<Rightarrow> bool" where
  "own_answer ms a req c n q m \<longleftrightarrow> (\<exists>p reply k w w'. MReq p \<in> set (transmitted c) \<and>
     Feed a ms (req (canon_msg (MReq p))) w = (Fed (Some reply) None, w') \<and>
     sentKey c n = Some k \<and> MustId (canon_msg reply) = Inr k \<and>
     (m = canon_msg reply \<or> ReplaceId (canon_msg reply) (reqId q) = Inr m) \<and>
     (MustId reply = Inr (canon_id (reqId p)) \<longrightarrow> k = canon_id (reqId p)))"

section \<open>What one end reads of what the other wrote\<close>

lemma begins_with_blank: "list_all is_ws s \<Longrightarrow> begins_with s ms \<longleftrightarrow> ms = []"
proof (cases ms)
  case (Cons m ms')
  have none: "DecodeMessage [] [] \<noteq> (Inr m, r)" for m r
    by (auto simp: DecodeMessage_Inr decode_def run.simps next_token_def)
  have "list_all is_ws s \<Longrightarrow> DecodeMessage [] s \<noteq> (Inr m, r)" for r
    by (induction s) (simp_all add: none DecodeMessage_ws)
  with Cons show "list_all is_ws s \<Longrightarrow> ?thesis" by (simp add: begins_with_Cons)
qed simp

lemma begins_with_ws: "list_all is_ws s \<Longrightarrow> begins_with (s @ x) ms \<longleftrightarrow> begins_with x ms"
  by (induction s; cases ms) (auto simp: begins_with_Cons DecodeMessage_ws)

text \<open>Of messages written one after the other, each followed by the same blanks, only these are read, in order.\<close>

lemma only_written_is_read:
  assumes "list_all deliverable ms" "mapR MessageBytes ms = Inr bss" "list_all is_ws sep"
    and "begins_with (concat (map (\<lambda>bs. bs @ sep) bss)) rs"
  shows "\<exists>k. rs = map canon_msg (take k ms)"
  using assms
proof (induction ms arbitrary: bss rs)
  case Nil
  then show ?case using begins_with_blank [of "[]" rs] by simp
next
  case (Cons m ms)
  obtain bs where bs: "MessageBytes m = Inr bs" "\<forall>x. DecodeMessage [] (bs @ x) = (Inr (canon_msg m), x)"
    using round_trip [of m "[]"] Cons.prems(1) by (auto simp: deliverable_def)
  then obtain bss' where bss: "bss = bs # bss'" "mapR MessageBytes ms = Inr bss'"
    using Cons.prems(2) by (auto split: sum.splits)
  show ?case
  proof (cases rs)
    case Nil
    then show ?thesis by (intro exI [of _ 0]) simp
  next
    case (Cons r rs')
    with bs(2) bss(1) Cons.prems(3,4)
    have r: "r = canon_msg m" "begins_with (concat (map (\<lambda>bs. bs @ sep) bss')) rs'"
      by (auto simp: begins_with_Cons begins_with_ws)
    obtain k where "rs' = map canon_msg (take k ms)" using Cons.IH [OF _ bss(2) Cons.prems(3) r(2)] Cons.prems(1) by auto
    with r(1) Cons show ?thesis by (intro exI [of _ "Suc k"]) simp
  qed
qed

lemma canon_kinds [simp]: "IsResultOrError (canon_msg m) = IsResultOrError m" if "msg_ok m"
  using that by (cases m) (auto simp: IsResultOrError_def Is_defs Let_def split: prod.split)

lemma canon_id_msg:
  assumes "sendable m" "MustId m = Inr i"
  shows "MustId (canon_msg m) = Inr (canon_id i)"
  using assms by (cases m) (auto simp: Let_def split: prod.split)

lemma reply_of_own_request:
  assumes "client_of evs t ks c" "k \<in> set ks" "conns t ! k = (sid, bytes, se)"
    and "answers_requests ms a req bytes (connEvents k evs) se" "\<And>x. msg (req x) = x"
    and "list_all2 (\<lambda>ts (sent, got). \<exists>bss. mapR MessageBytes ts = Inr bss \<and> sent = concat bss) tss (map (\<lambda>k. link_of (conns t ! k)) ks)"
    and "transmitted c = concat tss" "begins_with (written se) rs" "r \<in> set rs" "IsResultOrError r"
  shows "\<exists>p reply w w'. MReq p \<in> set (transmitted c) \<and> r = canon_msg reply \<and>
    Feed a ms (req (canon_msg (MReq p))) w = (Fed (Some reply) None, w') \<and> sendable reply"
proof -
  from assms(1,2) have ok: "list_all deliverable (transmitted c)" "list_all deliverable (sentOf (connEvents k evs))"
    "list_all (\<lambda>m. \<not> IsResultOrError m) (pushedOf (connEvents k evs))"
    by (auto simp: client_of_def)
  from assms(4) obtain bss where bss: "mapR MessageBytes (sentOf (connEvents k evs)) = Inr bss" "written se = concat (map newline bss)"
    by (auto simp: answers_requests_def)
  have "newline = (\<lambda>bs. bs @ [CHR 0x0A])" by (simp add: newline_def fun_eq_iff)
  with only_written_is_read [OF ok(2) bss(1), of "[CHR 0x0A]" rs] assms(8) bss(2)
  obtain j where "rs = map canon_msg (take j (sentOf (connEvents k evs)))" by (auto simp: is_ws_def)
  with assms(9) obtain x where x: "x \<in> set (sentOf (connEvents k evs))" "r = canon_msg x" by (auto dest: in_set_takeD)
  with ok(2) have xok: "msg_ok x" "sendable x" by (auto simp: list_all_iff deliverable_def)
  with x(2) assms(10) ok(3) have "x \<notin> set (pushedOf (connEvents k evs))" by (auto simp: list_all_iff)
  with assms(4) x(1) obtain q w w' where q: "q \<in> set (receivedOf (connEvents k evs))" "IsRequest q" "Feed a ms (req q) w = (Fed (Some x) None, w')"
    unfolding answers_requests_def
    by (metis (no_types, lifting) mset_subset_eqD set_mset_mset set_mset_union Un_iff)
  obtain i where i: "i < length ks" "ks ! i = k" using assms(2) by (auto simp: in_set_conv_nth)
  then obtain bss' where ts: "mapR MessageBytes (tss ! i) = Inr bss'" "bytes = concat bss'" "i < length tss"
    using list_all2_nthD [OF assms(6), of i] list_all2_lengthD [OF assms(6)] assms(3) by (auto simp: link_of_def)
  have sub: "set (tss ! i) \<subseteq> set (transmitted c)" using nth_mem [OF ts(3)] assms(7) by auto
  have "begins_with bytes (receivedOf (connEvents k evs))" using assms(4) by (auto simp: answers_requests_def begins_with_def)
  moreover have "list_all deliverable (tss ! i)" using ok(1) sub by (auto simp: list_all_iff)
  ultimately obtain j where "receivedOf (connEvents k evs) = map canon_msg (take j (tss ! i))"
    using only_written_is_read [of "tss ! i" bss' "[]"] ts by auto
  with q(1) obtain y where y: "y \<in> set (transmitted c)" "q = canon_msg y" using sub by (auto dest: in_set_takeD)
  with q(2) obtain p where "y = MReq p" by (cases y) (auto simp: Is_defs Let_def split: prod.splits)
  with y q(3) x(2) xok(2) show ?thesis by blast
qed

lemma answer_is_own:
  assumes "client_of evs t ks c" "calls c n = Some (Done q (Inr m))"
    and "\<And>k sid bytes se. k \<in> set ks \<Longrightarrow> conns t ! k = (sid, bytes, se) \<Longrightarrow> answers_requests ms a (req sid) bytes (connEvents k evs) se"
    and "\<And>sid x. msg (req sid x) = x"
  shows "map_sum id MErr (ToMessage ErrTimeout q) = Inr m \<or>
    (\<exists>k \<in> set ks. own_answer ms a (req (fst (conns t ! k))) c n q m)"
proof -
  from assms(1) have c: "client_reachable c" "list_all deliverable (transmitted c)" by (auto simp: client_of_def)
  have "answersCall (received c) (sentKey c n) m q"
    using calls_invD(5) [OF client_reachable_inv [OF c(1), unfolded client_inv_def] assms(2)] by blast
  then consider "map_sum id MErr (ToMessage ErrTimeout q) = Inr m"
    | r k where "r \<in> set (received c)" "sentKey c n = Some k" "IsResultOrError r" "MustId r = Inr k" "m = r \<or> ReplaceId r (reqId q) = Inr m"
    by (auto simp: answersCall_def)
  then show ?thesis
  proof cases
    case 2
    obtain tss rss where l: "transmitted c = concat tss" "received c = concat rss"
      "list_all2 (\<lambda>ts (sent, got). \<exists>bss. mapR MessageBytes ts = Inr bss \<and> sent = concat bss) tss (map (\<lambda>k. link_of (conns t ! k)) ks)"
      "list_all2 (\<lambda>rs (sent, got). begins_with got rs) rss (map (\<lambda>k. link_of (conns t ! k)) ks)"
      using assms(1) by (auto simp: client_of_def linked_over_def)
    obtain rs where "rs \<in> set rss" "r \<in> set rs" using 2(1) l(2) by auto
    then obtain i where i: "i < length rss" "r \<in> set (rss ! i)" by (metis in_set_conv_nth)
    then have ks: "i < length ks" "ks ! i \<in> set ks" using list_all2_lengthD [OF l(4)] by simp_all
    obtain sid bytes se where at: "conns t ! (ks ! i) = (sid, bytes, se)" by (rule prod_cases3)
    have "begins_with (written se) (rss ! i)" using list_all2_nthD [OF l(4) i(1)] ks at by (simp add: link_of_def)
    from reply_of_own_request [OF assms(1) ks(2) at assms(3) [OF ks(2) at] assms(4) l(3,1) this i(2) 2(3)]
    obtain p reply w w' where p: "MReq p \<in> set (transmitted c)" "r = canon_msg reply"
      "Feed a ms (req sid (canon_msg (MReq p))) w = (Fed (Some reply) None, w')" "sendable reply" by blast
    have "id_ok (reqId p)" using p(1) c(2) by (auto simp: list_all_iff deliverable_def)
    then have "MustId reply = Inr (canon_id (reqId p)) \<longrightarrow> k = canon_id (reqId p)"
      using canon_id_msg [OF p(4)] 2(4) p(2) by (auto simp: canon_id_idem)
    with p 2 have "own_answer ms a (req sid) c n q m" unfolding own_answer_def by blast
    with ks(2) at show ?thesis by (metis fst_conv)
  qed simp
qed

section \<open>Every client gets its own answers\<close>

text \<open>
  \<^bold>\<open>C14.\<close> In a system of any number of clients and a TCP or vsock server, whatever the interleaving of all their goroutines: a call of a client
  that returns a message returns the timeout error, or what the server's actor returned for a request that
  this very client sent, on a connection of this client and with its session, under the id the call was sent with. No
  answer reaches another client or another id.
\<close>

theorem clients_get_their_own_answers:
  assumes "client_of evs t ks c" "calls c n = Some (Done q (Inr m))"
    and "server_run ''tcp.Accept'' (tcpSession ms) (NewTCPServer act w) evs t \<and> req = tcpRequest \<or>
      server_run ''vsock.Accept'' (vsockSession ms) (NewVsockServer act w) evs t \<and> req = vsockRequest"
  shows "map_sum id MErr (ToMessage ErrTimeout q) = Inr m \<or>
    (\<exists>k \<in> set ks. own_answer ms (actorOrNew act) (req (fst (conns t ! k))) c n q m)"
proof (rule answer_is_own [OF assms(1,2)])
  fix k sid bytes se
  assume "k \<in> set ks" and at: "conns t ! k = (sid, bytes, se)"
  then have k: "k < length (conns t)" using assms(1) by (simp add: client_of_def)
  from assms(3) show "answers_requests ms (actorOrNew act) (req sid) bytes (connEvents k evs) se"
    by (elim disjE conjE; hypsubst; intro server_answers [OF _ _ k at])
       (auto simp: NewTCPServer_def NewVsockServer_def intro: tcp.session_answers vsock.session_answers)
qed (use assms(3) in \<open>auto simp: request_defs\<close>)

text \<open>A client that has got its answer, and a server that has given it.\<close>

lemma ping_answered:
  obtains c where "client_reachable c" "calls c 0 = Some (Done ping (Inr Streaming_Client.pong))" "transmitted c = [MReq ping]"
    "received c = [Streaming_Client.pong]" "sentKey c 0 = Some (GInt 1)"
proof -
  let ?c1 = "connected_client\<lparr>pendingRequests := [GInt 1 \<mapsto> \<lparr>prReqmsg = ping, prCall = 0\<rparr>], sendQueue := Some [MReq ping],
      calls := [0 \<mapsto> Waiting ping (GInt 1) (Some 0)], timers := [GInt 1], sentKey := [0 \<mapsto> GInt 1]\<rparr>"
  let ?t = "?c1\<lparr>sendQueue := Some [], taken := [MReq ping]\<rparr>"
  let ?c2 = "?t\<lparr>taken := [], transmitted := [MReq ping]\<rparr>"
  have 1: "client_step\<^sup>*\<^sup>* connected_client ?c1"
    using call_waits [of connected_client "[]" 0 ping undefined ping] ping_ok by (simp add: client_eval sendCap_def)
  have taken: "client_step ?c1 ?t" using take_queued [of ?c1 "MReq ping" "[]"] by (simp add: client_eval)
  have "client_step ?t ?c2" using transmit [of "MReq ping" ?t] by (simp add: client_eval)
  with taken have 2: "client_step\<^sup>*\<^sup>* ?c1 ?c2" by (meson converse_rtranclp_into_rtranclp rtranclp.rtrancl_refl)
  from Streaming_Client.result_returns [of ?c2 0 ping "GInt 1" "Some 0" Streaming_Client.pong Streaming_Client.pong]
  have 3: "client_step\<^sup>*\<^sup>* ?c2 (?c2\<lparr>pendingRequests := Map.empty, calls := [0 \<mapsto> Done ping (Inr Streaming_Client.pong)],
      received := [Streaming_Client.pong]\<rparr>)"
    using pong_ok by (simp add: client_eval)
  have "client_step\<^sup>*\<^sup>* connected_client (?c2\<lparr>pendingRequests := Map.empty, calls := [0 \<mapsto> Done ping (Inr Streaming_Client.pong)],
      received := [Streaming_Client.pong]\<rparr>)" (is "_ _ ?c3")
    using 1 2 3 by (meson rtranclp_trans)
  from that [OF reachable_steps [OF this connected_client_reachable]] show thesis by simp
qed

lemma pong_served:
  obtains bytes evs t se where
    "server_run ''tcp.Accept'' (tcpSession (\<lambda>t. Inr [])) (NewTCPServer (Some (one_handler Sessions.pong)) 0) evs t"
    "conns t = [(''s'', bytes, se)]" "MessageBytes (MReq ping) = Inr bytes" "begins_with (written se) [Streaming_Client.pong]"
    "sentOf (connEvents 0 evs) = [Streaming_Client.pong]" "pushedOf (connEvents 0 evs) = []"
proof -
  let ?a = "one_handler Sessions.pong" and ?res = "Streaming_Client.pong"
  let ?run = "server_run ''tcp.Accept'' (tcpSession (\<lambda>t. Inr [])) (NewTCPServer (Some ?a) 0)"
  have ok: "deliverable (MReq ping)" "canon_msg (MReq ping) = MReq ping" "deliverable ?res" "canon_msg ?res = ?res"
    using ping_ok pong_ok
    by (simp_all add: deliverable_def params_value_def to_valid_utf8_ascii_only id_ok_def max_depth_def max_list_def raw_defs)
  then obtain bytes where bytes: "MessageBytes (MReq ping) = Inr bytes" "decodeRead bytes = (ReadMsg (MReq ping), [])"
    using message_carried [of "MReq ping"] by (auto simp: deliverable_def)
  obtain out where out: "MessageBytes ?res = Inr out" using message_carried [of ?res] ok(3) by (auto simp: deliverable_def)
  have "msgReceived (\<lambda>t. Inr []) ?a (tcpRequest ''s'' (MReq ping)) 0 = (Inr [GoSend ?res] :: panic_value + message goroutine list, 1)"
    by (simp add: msgReceived_def request_defs feed_eval NewResultMessage_def raw_defs)
  then obtain es se where run: "session_run (tcpSession (\<lambda>t. Inr []) ?a ''s'') (newSession bytes 0) es se"
    "sentOf es = [?res]" "pushedOf es = []" "written se = newline out"
    using session_answers_one [of "tcpSession (\<lambda>t. Inr []) ?a ''s''" bytes "MReq ping" "[]" 0 ?res 1 out] bytes(2) out
    by (auto simp: tcpSession_def)
  let ?s0 = "NewTCPServer (Some ?a) 0\<lparr>listener := True, startLoop := AtTop\<rparr>"
  let ?s1 = "?s0\<lparr>conns := [(''s'', bytes, newSession bytes 0)]\<rparr>"
  have "?run [SvStart] ?s0"
    by (rule srun_snoc [OF srun_nil server_step.start [where listenErr = None, unfolded Start_def option.case]])
       (simp_all add: NewTCPServer_def running_def)
  from accepts [OF this, of "''s''" bytes] have "?run [SvStart, SvTop, SvAccept] ?s1"
    by (simp add: NewTCPServer_def running_def)
  moreover have "server_run ''tcp.Accept'' (tcpSession (\<lambda>t. Inr [])) ?s1 (map (SvConn 0) es) (?s1\<lparr>conns := [(''s'', bytes, se)], gworld := sworld se\<rparr>)"
    by (rule serves_session) (use run(1) in \<open>simp_all add: NewTCPServer_def actorOrNew_def\<close>, simp add: newSession_def)
  ultimately have "?run ([SvStart, SvTop, SvAccept] @ map (SvConn 0) es) (?s1\<lparr>conns := [(''s'', bytes, se)], gworld := sworld se\<rparr>)"
    by (rule srun_trans [rotated])
  moreover have "connEvents 0 ([SvStart, SvTop, SvAccept] @ map (SvConn 0) es) = es"
    by (simp add: connEvents_def comp_def)
  moreover have "begins_with (newline out) [?res]"
    using lines_read [of "[?res]" "[out]"] ok out by (simp add: deliverable_def)
  ultimately show thesis using run bytes(1) by (intro that) auto
qed

theorem clients_get_their_own_answers_witness:
  "\<exists>evs t c. server_run ''tcp.Accept'' (tcpSession (\<lambda>t. Inr [])) (NewTCPServer (Some (one_handler Sessions.pong)) 0) evs t \<and>
     client_of evs t [0] c \<and> calls c 0 = Some (Done ping (Inr Streaming_Client.pong)) \<and>
     own_answer (\<lambda>t. Inr []) (one_handler Sessions.pong) (tcpRequest ''s'') c 0 ping Streaming_Client.pong"
proof -
  obtain c where c: "client_reachable c" "calls c 0 = Some (Done ping (Inr Streaming_Client.pong))" "transmitted c = [MReq ping]"
    "received c = [Streaming_Client.pong]" by (rule ping_answered)
  obtain bytes evs t se where t: "server_run ''tcp.Accept'' (tcpSession (\<lambda>t. Inr [])) (NewTCPServer (Some (one_handler Sessions.pong)) 0) evs t"
    "conns t = [(''s'', bytes, se)]" "MessageBytes (MReq ping) = Inr bytes" "begins_with (written se) [Streaming_Client.pong]"
    "sentOf (connEvents 0 evs) = [Streaming_Client.pong]" "pushedOf (connEvents 0 evs) = []" by (rule pong_served)
  have "linked_over c (map (\<lambda>k. link_of (conns t ! k)) [0])"
    unfolding linked_over_def
    by (rule exI [of _ "[[MReq ping]]"], rule exI [of _ "[[Streaming_Client.pong]]"]) (use c t in \<open>simp add: link_of_def\<close>)
  then have "client_of evs t [0] c"
    using c t ping_ok pong_ok
    by (simp add: client_of_def deliverable_def params_value_def id_ok_def max_depth_def max_list_def raw_defs)
  moreover have "map_sum id MErr (ToMessage ErrTimeout ping) \<noteq> Inr Streaming_Client.pong"
    by (cases "ToMessage ErrTimeout ping") simp_all
  ultimately show ?thesis
    using clients_get_their_own_answers [of evs t "[0]" c 0 ping Streaming_Client.pong "\<lambda>t. Inr []" "Some (one_handler Sessions.pong)" 0 tcpRequest]
      c(2) t(1,2)
    by (intro exI [of _ evs] exI [of _ t] exI [of _ c]) (simp add: actorOrNew_def)
qed

end
