(* ===== verification/Utils.thy ===== *)
theory Utils
  imports Actor
begin

text \<open>
  The utilities of \<^verbatim>\<open>utils.go\<close> (guessing a value from a command line argument, the integers that travel as strings), the header
  flags of \<^verbatim>\<open>net/client_util.go\<close> and the TLS settings of \<^verbatim>\<open>net/server_utils.go\<close>. Files are an argument, a function from
  a path to the content.
\<close>

section \<open>Guessing a JSON value\<close>

definition MarshalJson :: "gval \<Rightarrow> marshal_error + string" where
  "MarshalJson data = map_sum id enc_json (marshal data)"

datatype guess_error = OpenFailed | GuessDecode decode_error

text \<open>One \<^verbatim>\<open>Decode\<close> into a variable of type \<^verbatim>\<open>any\<close>, \<^verbatim>\<open>[]any\<close>, \<^verbatim>\<open>map[string]any\<close> or \<^verbatim>\<open>string\<close>.\<close>

definition decodeVar :: "(json \<Rightarrow> decode_error + gval) \<Rightarrow> string \<Rightarrow> guess_error + gval" where
  "decodeVar f s = map_sum GuessDecode id (fst (decode_into f s))"

definition into_array :: "json \<Rightarrow> decode_error + gval" where
  "into_array v = (case v of JArr xs \<Rightarrow> Inr (to_any v) | JNull \<Rightarrow> Inr GNilList | _ \<Rightarrow> Inl TypeError)"

definition into_object :: "json \<Rightarrow> decode_error + gval" where
  "into_object v = (case v of JObj kvs \<Rightarrow> Inr (to_any v) | JNull \<Rightarrow> Inr (GMap []) | _ \<Rightarrow> Inl TypeError)"

definition into_text :: "json \<Rightarrow> decode_error + gval" where
  "into_text v = (case v of JStr s \<Rightarrow> Inr (GStr s) | JNull \<Rightarrow> Inr (GStr []) | _ \<Rightarrow> Inl TypeError)"

definition GuessJson :: "(string \<Rightarrow> string option) \<Rightarrow> string \<Rightarrow> guess_error + gval" where
  "GuessJson file inp =
     (if inp = [] then Inr (GStr [])
      else if inp = ''true'' \<or> inp = ''false'' then Inr (GBool (inp = ''true''))
      else if inp = ''null'' then Inr GNil
      else case ParseInt inp of
        Some iv \<Rightarrow> Inr (GInt64 iv)
      | None \<Rightarrow>
          (case ParseFloat inp of
             (fv, True) \<Rightarrow> Inr (GFloat fv)
           | (fv, False) \<Rightarrow>
               if hd inp = CHR ''@'' then
                 (case file (tl inp) of None \<Rightarrow> Inl OpenFailed | Some content \<Rightarrow> decodeVar (Inr \<circ> to_any) content)
               else if hd inp = CHR ''['' then decodeVar into_array inp
               else if hd inp = CHR ''{'' then decodeVar into_object inp
               else if hd inp = CHR 0x22 then decodeVar into_text inp
               else Inr (GStr inp)))"

text \<open>The values before the first error, and the error.\<close>

fun GuessJsonArray :: "(string \<Rightarrow> string option) \<Rightarrow> string list \<Rightarrow> gval list \<times> guess_error option" where
  "GuessJsonArray file [] = ([], None)"
| "GuessJsonArray file (inp # inputArr) =
     (case GuessJson file inp of
        Inl err \<Rightarrow> ([], Some err)
      | Inr v \<Rightarrow> map_prod (Cons v) id (GuessJsonArray file inputArr))"

text \<open>\<^verbatim>\<open>NewUuid\<close> of the text the package \<^verbatim>\<open>uuid\<close> makes.\<close>

definition NewUuid :: "string \<Rightarrow> string" where
  "NewUuid repr = filter (\<lambda>c. c \<noteq> CHR ''-'') repr"

section \<open>Big integers\<close>

text \<open>
  \<^verbatim>\<open>MarshalJSON\<close>, and \<^verbatim>\<open>UnmarshalJSON\<close> with \<^verbatim>\<open>SetString(s, 10)\<close>, whose failure is not looked at: \<open>None\<close> is a value that
  is undefined.
\<close>

definition bigintMarshalJSON :: "int \<Rightarrow> string" where
  "bigintMarshalJSON bn = CHR 0x22 # show_int bn @ [CHR 0x22]"

definition bigintUnmarshalJSON :: "string \<Rightarrow> int option" where
  "bigintUnmarshalJSON sd =
     (if sd \<noteq> [] \<and> hd sd = CHR 0x22 then parse_sdec (take (length sd - 2) (drop 1 sd)) else parse_sdec sd)"

definition bigintLoad :: "string \<Rightarrow> int option" where
  "bigintLoad repr = parse_sdec repr"

definition bigintString :: "int \<Rightarrow> string" where
  "bigintString bn = show_int bn"

section \<open>Header flags and TLS settings\<close>

type_synonym header_flags = "string list"

definition headerFlagsSet :: "header_flags \<Rightarrow> string \<Rightarrow> header_flags" where
  "headerFlagsSet flags v = flags @ [v]"

text \<open>\<^verbatim>\<open>strings.SplitN(hr, ":", 2)\<close> with two parts, and \<^verbatim>\<open>strings.Trim(s, " ")\<close>.\<close>

definition split_colon :: "string \<Rightarrow> (string \<times> string) option" where
  "split_colon s =
     (case dropWhile (\<lambda>c. c \<noteq> CHR '':'') s of
        [] \<Rightarrow> None
      | _ # r \<Rightarrow> Some (takeWhile (\<lambda>c. c \<noteq> CHR '':'') s, r))"

definition trim_spaces :: "string \<Rightarrow> string" where
  "trim_spaces s = rev (dropWhile (\<lambda>c. c = CHR '' '') (rev (dropWhile (\<lambda>c. c = CHR '' '') s)))"

definition addHeaderFlag :: "string \<Rightarrow> http_header \<Rightarrow> go_error + http_header" where
  "addHeaderFlag hr header =
     (case split_colon hr of
        None \<Rightarrow> Inl (ErrText ''invalid http header'')
      | Some (k, v) \<Rightarrow> Inr (headerAdd (trim_spaces k) (trim_spaces v) header))"

definition headerFlagsParse :: "header_flags \<Rightarrow> go_error + http_header" where
  "headerFlagsParse flags = foldR addHeaderFlag flags []"

record tls_config =
  Certfile :: string
  Keyfile :: string

definition tlsValidateValues :: "tls_config \<Rightarrow> string option" where
  "tlsValidateValues cfg =
     (if Certfile cfg = [] then Some ''certfile is empty''
      else if Keyfile cfg = [] then Some ''keyfile is empty''
      else None)"

text \<open>The configuration that \<^verbatim>\<open>ListenAndServe\<close> uses of those it is given: TLS when there is one that is not nil.\<close>

definition chosenTLS :: "tls_config option list \<Rightarrow> tls_config option" where
  "chosenTLS tlsConfigs = (case find (\<lambda>cfg. cfg \<noteq> None) tlsConfigs of Some cfg \<Rightarrow> cfg | None \<Rightarrow> None)"

text \<open>
  \<^verbatim>\<open>ListenAndServe\<close> with the results of listening and of serving as arguments: \<open>serveTLS\<close> is \<^verbatim>\<open>http.Server.ServeTLS\<close> with a
  certificate and a key, \<open>serve\<close> is \<^verbatim>\<open>http.Server.Serve\<close>.
\<close>

definition ListenAndServe ::
  "go_error option \<Rightarrow> (string \<Rightarrow> string \<Rightarrow> go_error option) \<Rightarrow> go_error option \<Rightarrow> tls_config option list \<Rightarrow> go_error option" where
  "ListenAndServe listenErr serveTLS serve tlsConfigs =
     (case listenErr of
        Some err \<Rightarrow> Some err
      | None \<Rightarrow>
          (case chosenTLS tlsConfigs of
             Some tlsConfig \<Rightarrow> serveTLS (Certfile tlsConfig) (Keyfile tlsConfig)
           | None \<Rightarrow> map_option (ErrWrap ''server.Serve'') serve))"

section \<open>Lemmas\<close>

text \<open>A bracket, a brace, a quote and a letter like them are no number.\<close>

lemma not_number:
  assumes "c \<in> {CHR ''['', CHR ''{'', CHR 0x22}"
  shows "ParseInt (c # s) = None" "snd (ParseFloat (c # s)) = False"
proof -
  have c: "\<not> is_digit c" "c \<noteq> CHR ''-''" "c \<noteq> CHR ''+''" "c \<noteq> CHR ''_''" "c \<noteq> CHR ''.''" "c \<noteq> CHR ''0''" "lower c = c" "c \<noteq> CHR ''i''" "c \<noteq> CHR ''n''"
    using assms by (auto simp: is_digit_def lower_def)
  then show "ParseInt (c # s) = None" by (simp add: ParseInt_def parse_sdec_def parse_udec_def)
  have "special_float (c # s) = None"
    using c by (simp add: special_float_def)
  moreover have "read_float (c # s) = None"
    using c by (simp add: read_float_def strip_sign_def float_digit_def Let_def)
  ultimately show "snd (ParseFloat (c # s)) = False" by (simp add: ParseFloat_def)
qed

lemma GuessJson_quoted:
  assumes "c \<in> {CHR ''['', CHR ''{'', CHR 0x22}"
  shows "GuessJson file (c # s) =
    (if c = CHR ''['' then decodeVar into_array (c # s)
     else if c = CHR ''{'' then decodeVar into_object (c # s) else decodeVar into_text (c # s))"
proof -
  obtain fv where "ParseFloat (c # s) = (fv, False)" using not_number(2) [OF assms] by (metis prod.collapse)
  with assms not_number(1) [OF assms] show ?thesis by (auto simp: GuessJson_def)
qed

text \<open>What \<open>MarshalJson\<close> prints, with anything after it.\<close>

lemma decodeVar_enc:
  assumes "json_ok j" "jdepth j \<le> max_depth" "num_end x"
  shows "decodeVar f (enc_json j @ x) = map_sum GuessDecode id (f (jclean j))"
  using decode_enc [OF assms] by (simp add: decodeVar_def decode_into_def)

lemma show_int_head: "\<exists>c r. show_int i = c # r \<and> (c = CHR ''-'' \<or> is_digit c)"
proof -
  have "\<exists>c r. show_nat n = c # r \<and> is_digit c" for n
    using hd_show_nat_is_digit [of n] by (cases "show_nat n") (auto simp: show_nat.simps [of n] split: if_splits)
  from this [of "nat i"] show ?thesis by (auto simp: show_int_def)
qed

lemma GuessJson_int: "in_int64 i \<Longrightarrow> GuessJson file (show_int i) = Inr (GInt64 i)"
proof -
  assume "in_int64 i"
  moreover obtain c r where "show_int i = c # r" "c = CHR ''-'' \<or> is_digit c" using show_int_head by blast
  then have "show_int i \<notin> {[], ''true'', ''false'', ''null''}" by (auto simp: is_digit_def)
  ultimately show ?thesis by (simp add: GuessJson_def)
qed

section \<open>Properties\<close>

text \<open>The value \<open>GuessJson\<close> gives for a printed one: integers become \<^verbatim>\<open>int64\<close>.\<close>

definition guessed :: "gval \<Rightarrow> gval" where
  "guessed v = (case v of GInt i \<Rightarrow> GInt64 i | GInt64 i \<Rightarrow> GInt64 i | _ \<Rightarrow> canon v)"

lemma ParseFloat_eval: "\<not> (case ParseFloat s of (fv, b) \<Rightarrow> b) \<Longrightarrow> \<exists>fv. ParseFloat s = (fv, False)"
  by (cases "ParseFloat s") auto

text \<open>
  \<^bold>\<open>C34.\<close> Round trip: \<open>GuessJson\<close> of what \<open>MarshalJson\<close> prints for nil, a boolean, a 64-bit integer, a string, a list or a map gives
  the value back in the decoder's form, integers as \<^verbatim>\<open>int64\<close>; and after a list, a map or a string whatever follows is ignored.
\<close>

theorem guess_json_marshal_json:
  assumes "marshal_ok v" "gdepth v \<le> max_depth"
    and "case v of GNil \<Rightarrow> x = [] | GBool b \<Rightarrow> x = [] | GInt i \<Rightarrow> in_int64 i \<and> x = [] | GInt64 i \<Rightarrow> in_int64 i \<and> x = []
      | GStr s \<Rightarrow> num_end x | GList vs \<Rightarrow> num_end x | GMap m \<Rightarrow> num_end x | _ \<Rightarrow> False"
  shows "\<exists>s. MarshalJson v = Inr s \<and> GuessJson file (s @ x) = Inr (guessed v)"
proof -
  obtain j where j: "marshal v = Inr j" "json_ok j" "jdepth j = gdepth v" "to_any (jclean j) = canon v"
    using marshal_canon [OF assms(1)] by (auto simp: carries_def)
  have dec: "decodeVar f (enc_json j @ x) = map_sum GuessDecode id (f (jclean j))" if "num_end x" for f
    using decodeVar_enc [OF j(2) _ that] j(3) assms(2) by simp
  have "GuessJson file (enc_json j @ x) = Inr (guessed v)"
  proof (cases v)
    case (GStr s)
    then have "j = JStr s" using j(1) by simp
    then show ?thesis
      using GStr assms(3) dec [of into_text] by (simp add: quote_def GuessJson_quoted guessed_def into_text_def)
  next
    case (GList vs)
    then obtain js where "j = JArr js" using j(1) by (auto split: sum.splits)
    then show ?thesis
      using GList assms(3) j(4) dec [of into_array] by (simp add: GuessJson_quoted guessed_def into_array_def)
  next
    case (GMap m)
    then obtain kvs where "j = JObj kvs" using j(1) by (auto split: sum.splits)
    then show ?thesis
      using GMap assms(3) j(4) dec [of into_object] by (simp add: GuessJson_quoted guessed_def into_object_def)
  next
    case (GBool b)
    then have "enc_json j = ''true'' \<and> b \<or> enc_json j = ''false'' \<and> \<not> b" using j(1) by (cases b) auto
    with GBool assms(3) show ?thesis by (auto simp: GuessJson_def guessed_def)
  next
    case GNil
    then have "enc_json j = ''null''" using j(1) by auto
    with GNil assms(3) show ?thesis by (simp add: GuessJson_def guessed_def)
  qed (use assms(3) j GuessJson_int in \<open>auto simp: guessed_def\<close>)
  then show ?thesis using j(1) by (simp add: MarshalJson_def)
qed

theorem guess_json_marshal_json_witness:
  "MarshalJson (GList [GBool True, GInt 1]) = Inr ''[true,1]'' \<and>
   GuessJson (\<lambda>p. None) (''[true,1]'' @ '' x'') = Inr (GList [GBool True, GNum ''1''])"
proof -
  have m: "MarshalJson (GList [GBool True, GInt 1]) = Inr ''[true,1]''" "show_int 1 = ''1''" by code_simp+
  show ?thesis
    using guess_json_marshal_json [of "GList [GBool True, GInt 1]" "'' x''" "\<lambda>p. None"] m
    by (simp add: max_depth_def max_list_def num_end_def is_digit_def guessed_def)
qed

text \<open>
  A big integer survives \<open>MarshalJSON\<close> and \<open>UnmarshalJSON\<close>, and is also read from a bare JSON number; a number with a
  fraction or an exponent and a text that is no integer give an undefined value without an error.
\<close>

theorem bigint_round_trip:
  "bigintUnmarshalJSON (bigintMarshalJSON n) = Some n \<and> bigintUnmarshalJSON (show_int n) = Some n \<and>
   bigintUnmarshalJSON (show_int n @ CHR ''.'' # ds) = None"
proof -
  obtain c r where cr: "show_int n = c # r" "c = CHR ''-'' \<or> is_digit c" "\<not> is_digit CHR 0x22" "\<not> is_digit CHR ''.''"
    using show_int_head [of n] by (auto simp: is_digit_def)
  have "bigintUnmarshalJSON (show_int n) = Some n"
    using cr parse_sdec_show_int [of n] by (auto simp: bigintUnmarshalJSON_def)
  moreover have "parse_sdec (show_int n @ CHR ''.'' # ds) = None"
    using cr by (simp add: parse_sdec_def parse_udec_def)
  ultimately show ?thesis
    using cr by (auto simp: bigintUnmarshalJSON_def bigintMarshalJSON_def)
qed

definition flagValues :: "header_flags \<Rightarrow> string \<Rightarrow> string list" where
  "flagValues flags name =
     concat (map (\<lambda>hr. case split_colon hr of None \<Rightarrow> []
       | Some (k, v) \<Rightarrow> if CanonicalHeaderKey (trim_spaces k) = CanonicalHeaderKey name then [trim_spaces v] else []) flags)"

lemma split_colon_None: "split_colon s = None \<longleftrightarrow> CHR '':'' \<notin> set s"
proof -
  have "dropWhile (\<lambda>c. c \<noteq> CHR '':'') s = [] \<longleftrightarrow> CHR '':'' \<notin> set s" by auto
  then show ?thesis by (auto simp: split_colon_def simp del: dropWhile_eq_Nil_conv split: list.splits)
qed

lemma headerFlags_fold:
  "foldR addHeaderFlag flags h0 =
     (case foldR addHeaderFlag flags h0 of Inl e \<Rightarrow> Inl (ErrText ''invalid http header'') | Inr h \<Rightarrow> Inr h)"
  "(\<exists>h. foldR addHeaderFlag flags h0 = Inr h) \<longleftrightarrow> list_all (\<lambda>hr. CHR '':'' \<in> set hr) flags"
  "foldR addHeaderFlag flags h0 = Inr h \<Longrightarrow> headerValues h name = headerValues h0 name @ flagValues flags name"
proof (induction flags arbitrary: h0)
  case (Cons hr flags)
  {
    case 1
    then show ?case using Cons.IH(1) by (auto simp: addHeaderFlag_def split: option.split prod.split)
  next
    case 2
    then show ?case
      using Cons.IH(2) split_colon_None [of hr] by (auto simp: addHeaderFlag_def split: option.split prod.split sum.split)
  next
    case 3
    then show ?case
      using Cons.IH(3) by (auto simp: addHeaderFlag_def flagValues_def headerValues_add split: option.splits prod.splits)
  }
qed (simp_all add: flagValues_def)

text \<open>
  Header flags are accepted exactly when each has a colon, and then the header has under each name the values of the
  flags with that name, in either case of its letters, in their order and without surrounding spaces; a value may have colons.
\<close>

theorem header_flags_parse:
  "(case headerFlagsParse flags of
      Inl err \<Rightarrow> \<not> list_all (\<lambda>hr. CHR '':'' \<in> set hr) flags \<and> err = ErrText ''invalid http header''
    | Inr header \<Rightarrow> list_all (\<lambda>hr. CHR '':'' \<in> set hr) flags \<and> (\<forall>name. headerValues header name = flagValues flags name))"
  using headerFlags_fold [of flags "[]"] headerFlags_fold(3) [of flags "[]"]
  by (auto simp: headerFlagsParse_def headerValues_def [of "[]"] split: sum.splits)

end
