(* ===== verification/Flags.thy ===== *)
theory Flags
  imports Utils
begin

text \<open>
  The package \<^verbatim>\<open>flag\<close> of the Go library as the programs use it: a flag set made with \<^verbatim>\<open>flag.ExitOnError\<close>, its string,
  boolean, integer and user-defined flags, and \<^verbatim>\<open>Parse\<close>. The numbers are those of \<^verbatim>\<open>strconv.ParseInt\<close> and
  \<^verbatim>\<open>strconv.ParseUint\<close> with base 0, which take prefixes and underscores.
\<close>

section \<open>Numbers with a prefix\<close>

definition digit_of :: "char \<Rightarrow> int option" where
  "digit_of c =
     (if is_digit c then Some (int (digit_val c))
      else if 97 \<le> char_code (lower c) \<and> char_code (lower c) \<le> 122 then Some (int (char_code (lower c)) - 97 + 10) else None)"

text \<open>The base and the digits: \<open>0b\<close>, \<open>0o\<close> and \<open>0x\<close> with at least one more character, and a leading zero for octal.\<close>

definition base_prefix :: "string \<Rightarrow> int \<times> string" where
  "base_prefix s =
     (case s of
        c # r \<Rightarrow>
          if c \<noteq> CHR ''0'' then (10, s)
          else if length s \<ge> 3 \<and> lower (hd r) = CHR ''b'' then (2, tl r)
          else if length s \<ge> 3 \<and> lower (hd r) = CHR ''o'' then (8, tl r)
          else if length s \<ge> 3 \<and> lower (hd r) = CHR ''x'' then (16, tl r)
          else (8, r)
      | [] \<Rightarrow> (10, s))"

fun read_base :: "int \<Rightarrow> int \<Rightarrow> string \<Rightarrow> int option" where
  "read_base b n [] = Some n"
| "read_base b n (c # cs) =
     (if c = CHR ''_'' then read_base b n cs
      else case digit_of c of None \<Rightarrow> None | Some d \<Rightarrow> if d < b then read_base b (n * b + d) cs else None)"

definition ParseUint0 :: "string \<Rightarrow> int option" where
  "ParseUint0 s =
     (if s = [] then None
      else case base_prefix s of (b, digits) \<Rightarrow>
        (case read_base b 0 digits of
           None \<Rightarrow> None
         | Some n \<Rightarrow> if n \<ge> 2 ^ 64 \<or> CHR ''_'' \<in> set digits \<and> \<not> underscoreOK s then None else Some n))"

definition ParseInt0 :: "string \<Rightarrow> int option" where
  "ParseInt0 s =
     (case strip_sign s of (neg, digits) \<Rightarrow>
        (case ParseUint0 digits of
           None \<Rightarrow> None
         | Some n \<Rightarrow> if neg then (if n > 2 ^ 63 then None else Some (- n)) else (if n \<ge> 2 ^ 63 then None else Some n)))"

definition ParseBool :: "string \<Rightarrow> bool option" where
  "ParseBool s =
     (if s \<in> {''1'', ''t'', ''T'', ''true'', ''TRUE'', ''True''} then Some True
      else if s \<in> {''0'', ''f'', ''F'', ''false'', ''FALSE'', ''False''} then Some False else None)"

section \<open>Flag sets\<close>

text \<open>A flag sets the state of the program, or fails to.\<close>

datatype 's flag = BoolFlag "bool \<Rightarrow> 's \<Rightarrow> 's" | ValueFlag "string \<Rightarrow> 's \<Rightarrow> 's option"

type_synonym 's flag_set = "string \<Rightarrow> 's flag option"

definition split_eq :: "string \<Rightarrow> string \<times> string option" where
  "split_eq name =
     (case dropWhile (\<lambda>c. c \<noteq> CHR ''='') name of
        [] \<Rightarrow> (name, None)
      | _ # v \<Rightarrow> (takeWhile (\<lambda>c. c \<noteq> CHR ''='') name, Some v))"

text \<open>
  \<^verbatim>\<open>parseOne\<close>: whether a flag was seen, the state and the arguments left, or the code the process exits with: 2 for an error, 0
  for the help that was asked for.
\<close>

definition setFlag :: "'s flag_set \<Rightarrow> string \<Rightarrow> string option \<Rightarrow> string list \<Rightarrow> 's \<Rightarrow> nat + bool \<times> 's \<times> string list" where
  "setFlag fs n given args st =
     (case fs n of
        None \<Rightarrow> Inl (if n \<in> {''help'', ''h''} then 0 else 2)
      | Some (BoolFlag setf) \<Rightarrow>
          (case given of
             None \<Rightarrow> Inr (True, setf True st, args)
           | Some v \<Rightarrow> (case ParseBool v of None \<Rightarrow> Inl 2 | Some b \<Rightarrow> Inr (True, setf b st, args)))
      | Some (ValueFlag setf) \<Rightarrow>
          (case (given, args) of
             (None, []) \<Rightarrow> Inl 2
           | (None, v # args') \<Rightarrow> (case setf v st of None \<Rightarrow> Inl 2 | Some st' \<Rightarrow> Inr (True, st', args'))
           | (Some v, _) \<Rightarrow> (case setf v st of None \<Rightarrow> Inl 2 | Some st' \<Rightarrow> Inr (True, st', args))))"

definition parseOne :: "'s flag_set \<Rightarrow> string list \<Rightarrow> 's \<Rightarrow> nat + bool \<times> 's \<times> string list" where
  "parseOne fs args st =
     (case args of
        [] \<Rightarrow> Inr (False, st, [])
      | s # rest \<Rightarrow>
          if length s < 2 \<or> hd s \<noteq> CHR ''-'' then Inr (False, st, args)
          else if s = ''--'' then Inr (False, st, rest)
          else
            let name = (if s ! 1 = CHR ''-'' then drop 2 s else drop 1 s) in
            if hd name = CHR ''-'' \<or> hd name = CHR ''='' then Inl 2
            else case split_eq name of (n, given) \<Rightarrow> setFlag fs n given rest st)"

lemma setFlag_shrinks: "setFlag fs n given args st = Inr (seen, st', rest) \<Longrightarrow> seen \<and> length rest \<le> length args"
  by (auto simp: setFlag_def split: option.splits flag.splits list.splits)

lemma parseOne_shrinks: "parseOne fs args st = Inr (True, st', rest) \<Longrightarrow> length rest < length args"
  by (auto simp: parseOne_def Let_def dest!: setFlag_shrinks split: list.splits if_splits prod.splits)

lemma parseOne_code: "parseOne fs args st = Inl code \<Longrightarrow> code \<in> {0, 2}"
  by (auto simp: parseOne_def setFlag_def Let_def split: list.splits if_splits prod.splits option.splits flag.splits)

text \<open>\<^verbatim>\<open>Parse\<close> goes on as long as flags are seen.\<close>

function parseFlags :: "'s flag_set \<Rightarrow> string list \<Rightarrow> 's \<Rightarrow> nat + 's \<times> string list" where
  "parseFlags fs args st =
     (case parseOne fs args st of
        Inl code \<Rightarrow> Inl code
      | Inr (seen, st', rest) \<Rightarrow> if seen then parseFlags fs rest st' else Inr (st', rest))"
  by pat_completeness auto
termination
  by (relation "measure (\<lambda>(fs, args, st). length args)") (auto dest: parseOne_shrinks)

declare parseFlags.simps [simp del]

lemma parseFlags_code: "parseFlags fs args st = Inl code \<Longrightarrow> code \<in> {0, 2}"
proof (induction fs args st rule: parseFlags.induct)
  case (1 fs args st)
  then show ?case
    using parseOne_code [of fs args st]
    by (subst (asm) (2) parseFlags.simps) (auto split: sum.splits prod.splits if_splits)
qed

text \<open>
  A flag with its value as the next argument, or after an equals sign, sets the state, with one or two dashes; the first argument that is no
  flag ends the flags.
\<close>

lemma split_eq_plain: "CHR ''='' \<notin> set n \<Longrightarrow> split_eq n = (n, None)"
  and split_eq_value: "CHR ''='' \<notin> set n \<Longrightarrow> split_eq (n @ CHR ''='' # v) = (n, Some v)"
proof -
  assume "CHR ''='' \<notin> set n"
  then have eqs: "dropWhile (\<lambda>c. c \<noteq> CHR ''='') n = []" "takeWhile (\<lambda>c. c \<noteq> CHR ''='') n = n" "\<forall>c\<in>set n. c \<noteq> CHR ''=''"
    by (auto simp: takeWhile_eq_all_conv)
  show "split_eq n = (n, None)" by (simp add: split_eq_def eqs(1))
  show "split_eq (n @ CHR ''='' # v) = (n, Some v)"
    using eqs(3) by (simp add: split_eq_def dropWhile_append takeWhile_append eqs(1,2))
qed

lemma parseFlags_value:
  assumes "fs n = Some (ValueFlag setf)" "n \<noteq> []" "hd n \<noteq> CHR ''-''" "CHR ''='' \<notin> set n"
  shows "parseFlags fs ((CHR ''-'' # n) # v # args) st = (case setf v st of None \<Rightarrow> Inl 2 | Some st' \<Rightarrow> parseFlags fs args st')"
    and "parseFlags fs ((CHR ''-'' # CHR ''-'' # n) # v # args) st = (case setf v st of None \<Rightarrow> Inl 2 | Some st' \<Rightarrow> parseFlags fs args st')"
    and "parseFlags fs ((CHR ''-'' # n @ CHR ''='' # v) # args) st = (case setf v st of None \<Rightarrow> Inl 2 | Some st' \<Rightarrow> parseFlags fs args st')"
proof -
  have hd: "hd n \<noteq> CHR ''=''" using assms(2,4) by (metis hd_in_set)
  obtain c r where n: "n = c # r" using assms(2) by (cases n) auto
  show "parseFlags fs ((CHR ''-'' # n) # v # args) st = (case setf v st of None \<Rightarrow> Inl 2 | Some st' \<Rightarrow> parseFlags fs args st')"
    "parseFlags fs ((CHR ''-'' # CHR ''-'' # n) # v # args) st = (case setf v st of None \<Rightarrow> Inl 2 | Some st' \<Rightarrow> parseFlags fs args st')"
    "parseFlags fs ((CHR ''-'' # n @ CHR ''='' # v) # args) st = (case setf v st of None \<Rightarrow> Inl 2 | Some st' \<Rightarrow> parseFlags fs args st')"
    using assms hd n split_eq_plain [OF assms(4)] split_eq_value [OF assms(4)]
    by (subst parseFlags.simps, simp add: parseOne_def setFlag_def split: option.split)+
qed

lemma parseFlags_stop:
  assumes "args \<noteq> [] \<longrightarrow> length (hd args) < 2 \<or> hd (hd args) \<noteq> CHR ''-''"
  shows "parseFlags fs args st = Inr (st, args)"
  using assms by (cases args) (subst parseFlags.simps, simp add: parseOne_def)+

end
