(* ===== verification/Tools.thy ===== *)
theory Tools
  imports Transports Utils Http1_Server
begin

text \<open>
  The programs around the library: what the command line tools \<^verbatim>\<open>cli/call\<close> and \<^verbatim>\<open>cli/notify\<close> do before they send, the retry
  loop of \<^verbatim>\<open>cli/watch\<close>, and the service of \<^verbatim>\<open>examples/fifo\<close>. The flags are parsed in \<open>Commands\<close>; the environment variable, files and \<^verbatim>\<open>url.Parse\<close>
  are arguments. The end of a tool by \<^verbatim>\<open>os.Exit\<close> is the text it printed.
\<close>

section \<open>Calling and notifying\<close>

definition serverUrlOf :: "string \<Rightarrow> string \<Rightarrow> string \<Rightarrow> string" where
  "serverUrlOf pServerUrl env otherwise = (if pServerUrl \<noteq> [] then pServerUrl else if env \<noteq> [] then env else otherwise)"

text \<open>The common part: parameters, header and client, in the order of the code. The method is the first argument.\<close>

definition prepareCall ::
  "(string \<Rightarrow> string option) \<Rightarrow> (string \<Rightarrow> string \<Rightarrow> go_error + string \<times> string) \<Rightarrow> string \<Rightarrow> header_flags \<Rightarrow> string list \<Rightarrow>
     go_panic + (string + 't client \<times> http_header \<times> string \<times> gval list)" where
  "prepareCall file authority connectUrl headerFlags args =
     (case args of
        [] \<Rightarrow> Inr (Inl ''method params...'')
      | m # clParams \<Rightarrow>
          (case GuessJsonArray file clParams of
             (_, Some err) \<Rightarrow> Inr (Inl ''params error'')
           | (params, None) \<Rightarrow>
               (case headerFlagsParse headerFlags of
                  Inl err \<Rightarrow> Inr (Inl ''err parse header flags'')
                | Inr header \<Rightarrow>
                    (case NewClient authority connectUrl [] of
                       Inl p \<Rightarrow> Inl p
                     | Inr (Inl err) \<Rightarrow> Inr (Inl ''fail to find jsonrpc client'')
                     | Inr (Inr c) \<Rightarrow> Inr (Inr (c, header, m, params))))))"

definition cliCall ::
  "(string \<Rightarrow> string option) \<Rightarrow> (string \<Rightarrow> string \<Rightarrow> go_error + string \<times> string) \<Rightarrow> string \<Rightarrow> string \<Rightarrow> header_flags \<Rightarrow> string \<Rightarrow>
     string list \<Rightarrow> go_panic + (string + 't client \<times> http_header \<times> request_message)" where
  "cliCall file authority pServerUrl env headerFlags uuid args =
     (case prepareCall file authority (serverUrlOf pServerUrl env ''http://127.0.0.1:9990'') headerFlags args of
        Inl p \<Rightarrow> Inl p
      | Inr (Inl out) \<Rightarrow> Inr (Inl out)
      | Inr (Inr (c, header, m, params)) \<Rightarrow>
          map_sum id (\<lambda>reqmsg. Inr (c, header, reqmsg)) (NewRequestMessage (GStr uuid) m (GList params)))"

definition cliNotify ::
  "(string \<Rightarrow> string option) \<Rightarrow> (string \<Rightarrow> string \<Rightarrow> go_error + string \<times> string) \<Rightarrow> string \<Rightarrow> string \<Rightarrow> header_flags \<Rightarrow>
     string list \<Rightarrow> go_panic + (string + 't client \<times> http_header \<times> notify_message)" where
  "cliNotify file authority pServerUrl env headerFlags args =
     (case prepareCall file authority (serverUrlOf pServerUrl env ''http://127.0.0.1:9990'') headerFlags args of
        Inl p \<Rightarrow> Inl p
      | Inr (Inl out) \<Rightarrow> Inr (Inl out)
      | Inr (Inr (c, header, m, params)) \<Rightarrow>
          map_sum id (\<lambda>ntfmsg. Inr (c, header, ntfmsg)) (NewNotifyMessage m (GList params)))"

section \<open>Watching\<close>

record watcher =
  method_name :: string
  retrylimit :: int
  connectretry :: int

text \<open>What happens on one \<^verbatim>\<open>connect\<close>: the connection fails, or it stands and there are the outcomes of a call and of \<^verbatim>\<open>Wait\<close>.\<close>

datatype attempt = ConnectFails go_error | Connects "go_error option" "go_error option"

datatype watch_end = GaveUp | Failed go_error | Finished | Panicked_call

definition watchConnect :: "attempt \<Rightarrow> watcher \<Rightarrow> (unit + go_error option) \<times> watcher" where
  "watchConnect att self =
     (case att of
        ConnectFails err \<Rightarrow> (Inr (Some err), self)
      | Connects callErr waitErr \<Rightarrow>
          (if method_name self \<noteq> [] \<and> callErr \<noteq> None then Inl () else Inr waitErr, self\<lparr>connectretry := 0\<rparr>))"

fun errorIs :: "go_error \<Rightarrow> go_error \<Rightarrow> bool" where
  "errorIs (ErrWrap s e) target = (ErrWrap s e = target \<or> errorIs e target)"
| "errorIs e target = (e = target)"

definition retryable :: "go_error \<Rightarrow> bool" where
  "retryable err \<longleftrightarrow> errorIs err TransportConnectFailed \<or> errorIs err TransportClosed \<or> errorIs err (ErrText ''EOF'')"

text \<open>The loop over the attempts that happen; \<open>None\<close> when it still runs after them.\<close>

fun watchRun :: "attempt list \<Rightarrow> watcher \<Rightarrow> (watch_end \<times> watcher) option" where
  "watchRun [] self = None"
| "watchRun (att # atts) self =
     (case watchConnect att self of
        (Inl (), self') \<Rightarrow> Some (Panicked_call, self')
      | (Inr None, self') \<Rightarrow> Some (Finished, self')
      | (Inr (Some err), self') \<Rightarrow>
          if retryable err then
            let self'' = self'\<lparr>connectretry := connectretry self' + 1\<rparr> in
            if connectretry self'' \<ge> retrylimit self'' then Some (GaveUp, self'') else watchRun atts self''
          else Some (Failed err, self'))"

section \<open>The fifo service\<close>

record fifo_world =
  fifo :: "gval list"
  subs :: "string list"                          \<comment> \<open>the ids of the sessions\<close>
  pushed :: "(string \<times> notify_message) list"    \<comment> \<open>what was sent to them\<close>

abbreviation rpc_fail :: "string \<Rightarrow> callback_outcome" where
  "rpc_fail s \<equiv> Returns (PlainValue GNil) (Some (ErrRPC (mk_error (-400) s GNil)))"

abbreviation gives :: "gval \<Rightarrow> callback_outcome" where
  "gives v \<equiv> Returns (PlainValue v) None"

definition fifoEcho :: "gval list \<Rightarrow> fifo_world \<Rightarrow> callback_outcome \<times> fifo_world" where
  "fifoEcho params w = (gives (case params of p # _ \<Rightarrow> p | [] \<Rightarrow> GStr []), w)"

definition fifoWillPanic :: "gval list \<Rightarrow> fifo_world \<Rightarrow> callback_outcome \<times> fifo_world" where
  "fifoWillPanic params w = (Panics PanicOther, w)"

definition subscription :: "gval \<Rightarrow> notify_message" where
  "subscription elem = \<lparr>kind = MKNotify, traceId = [], ntfMethod = ''fifo_subscription'', ntfParams = [elem], ntfParamsAreList = True\<rparr>"

text \<open>
  The sends are those of an application whose sessions have room. \<^verbatim>\<open>session.Send\<close> blocks on a full send channel, of capacity 100, and
  the handler holds the lock while it does: one subscriber that is not read from stalls every call of the service.
\<close>

definition fifoPush :: "gval list \<Rightarrow> fifo_world \<Rightarrow> callback_outcome \<times> fifo_world" where
  "fifoPush params w =
     (if params = [] then (rpc_fail ''no object is given'', w)
      else (gives (GStr ''ok''),
            w\<lparr>fifo := fifo w @ params,
              pushed := pushed w @ concat (map (\<lambda>elem. map (\<lambda>s. (s, subscription elem)) (subs w)) params)\<rparr>))"

definition fifoPop :: "gval list \<Rightarrow> fifo_world \<Rightarrow> callback_outcome \<times> fifo_world" where
  "fifoPop params w =
     (if fifo w = [] then (rpc_fail ''pop empty array'', w) else (gives (GStr ''ok''), w\<lparr>fifo := butlast (fifo w)\<rparr>))"

definition fifoList :: "gval list \<Rightarrow> fifo_world \<Rightarrow> callback_outcome \<times> fifo_world" where
  "fifoList params w = (gives (GList (fifo w)), w)"

definition fifoCount :: "gval list \<Rightarrow> fifo_world \<Rightarrow> callback_outcome \<times> fifo_world" where
  "fifoCount params w = (gives (GInt (int (length (fifo w)))), w)"

definition fifoGet :: "int \<Rightarrow> fifo_world \<Rightarrow> callback_outcome \<times> fifo_world" where
  "fifoGet idx w =
     (if idx < 0 \<or> idx \<ge> int (length (fifo w)) then (rpc_fail ''index out of range'', w) else (gives (fifo w ! nat idx), w))"

definition fifoSubscribe :: "string option \<Rightarrow> fifo_world \<Rightarrow> callback_outcome \<times> fifo_world" where
  "fifoSubscribe session w =
     (case session of
        None \<Rightarrow> (gives (GStr ''no sesion''), w)
      | Some sid \<Rightarrow> (gives (GStr ''ok''), w\<lparr>subs := List.insert sid (subs w)\<rparr>))"

definition fifoClosed :: "string \<Rightarrow> fifo_world \<Rightarrow> fifo_world" where
  "fifoClosed sid w = w\<lparr>subs := removeAll sid (subs w)\<rparr>"

text \<open>What a session was sent.\<close>

definition sentTo :: "string \<Rightarrow> fifo_world \<Rightarrow> notify_message list" where
  "sentTo sid w = map snd (filter (\<lambda>p. fst p = sid) (pushed w))"

section \<open>Lemmas\<close>

lemma errorIs_self [simp]: "errorIs e e"
  by (cases e) simp_all

lemma retryable_simps [simp]: "retryable TransportConnectFailed" "retryable TransportClosed" "retryable (ErrWrap s e) = retryable e"
  by (auto simp: retryable_def TransportConnectFailed_def TransportClosed_def)

text \<open>A push sends every element to every subscriber once.\<close>

lemma sentTo_push:
  assumes "distinct (subs w)" "ps \<noteq> []"
  shows "sentTo sid (snd (fifoPush ps w)) = sentTo sid w @ (if sid \<in> set (subs w) then map subscription ps else [])"
proof -
  have one: "filter (\<lambda>s. s = sid) ss = (if sid \<in> set ss then [sid] else [])" if "distinct ss" for ss
    using that by (induction ss) auto
  have "sentTo sid (snd (fifoPush ps w)) =
      sentTo sid w @ concat (map (\<lambda>elem. map (\<lambda>s. subscription elem) (filter (\<lambda>s. s = sid) (subs w))) ps)"
    using assms(2) by (simp add: fifoPush_def sentTo_def filter_concat map_concat comp_def filter_map)
  also have "concat (map (\<lambda>elem. map (\<lambda>s. subscription elem) (filter (\<lambda>s. s = sid) (subs w))) ps) =
      (if sid \<in> set (subs w) then map subscription ps else [])"
    unfolding one [OF assms(1)] by (induction ps) auto
  finally show ?thesis .
qed

section \<open>Properties\<close>

text \<open>
  The watcher gives up: when connecting keeps failing for want of a connection it stops after as many attempts
  as the limit has left, at least one; any other failure stops it at once, and so does the end of a watch without an error.
\<close>

theorem watch_terminates:
  assumes "list_all (\<lambda>att. \<exists>err. att = ConnectFails err \<and> retryable err) atts"
    and "int (length atts) \<ge> max 1 (retrylimit self - connectretry self)"
  shows "\<exists>self'. watchRun atts self = Some (GaveUp, self') \<and>
    connectretry self' = connectretry self + max 1 (retrylimit self - connectretry self)"
  using assms
proof (induction atts arbitrary: self)
  case (Cons att atts)
  then obtain err where att: "att = ConnectFails err" "retryable err" by auto
  show ?case
  proof (cases "connectretry self + 1 \<ge> retrylimit self")
    case True
    with att show ?thesis by (simp add: watchConnect_def Let_def)
  next
    case False
    then have "int (length atts) \<ge> max 1 (retrylimit self - (connectretry self + 1))" using Cons.prems(2) by simp
    with Cons.IH [of "self\<lparr>connectretry := connectretry self + 1\<rparr>"] Cons.prems(1) att False show ?thesis
      by (auto simp: watchConnect_def Let_def)
  qed
qed simp

theorem watch_terminates_witness:
  "\<exists>self'. watchRun (replicate 3 (ConnectFails TransportConnectFailed)) \<lparr>method_name = [], retrylimit = 3, connectretry = 0\<rparr> =
     Some (GaveUp, self') \<and> connectretry self' = 3"
  using watch_terminates [of "replicate 3 (ConnectFails TransportConnectFailed)" "\<lparr>method_name = [], retrylimit = 3, connectretry = 0\<rparr>"]
  by (simp add: numeral_3_eq_3)

text \<open>
  The fifo service is a stack: a pop after a push takes the last element that was pushed, the counts and the elements by
  index are those of the list, every subscriber is told of every pushed element in order, and a session that closed of none.
\<close>

theorem fifo_service:
  assumes "ps \<noteq> []" "distinct (subs w)"
  shows "let w1 = snd (fifoPush ps w); w2 = snd (fifoPop [] w1) in
    fst (fifoPush ps w) = gives (GStr ''ok'') \<and> fifo w1 = fifo w @ ps \<and> fifo w2 = fifo w @ butlast ps \<and>
    fst (fifoCount [] w1) = gives (GInt (int (length (fifo w) + length ps))) \<and>
    (\<forall>i. i < length ps \<longrightarrow> fst (fifoGet (int (length (fifo w) + i)) w1) = gives (ps ! i)) \<and>
    sentTo sid w1 = sentTo sid w @ (if sid \<in> set (subs w) then map subscription ps else []) \<and>
    sentTo sid (snd (fifoPush ps (fifoClosed sid w))) = sentTo sid w"
proof -
  have "sentTo sid (snd (fifoPush ps (fifoClosed sid w))) = sentTo sid w"
    using sentTo_push [of "fifoClosed sid w" ps sid] assms by (simp add: fifoClosed_def distinct_removeAll sentTo_def)
  moreover have "fst (fifoGet (int (length (fifo w) + i)) (snd (fifoPush ps w))) = gives (ps ! i)" if "i < length ps" for i
  proof -
    have "nat (int (length (fifo w)) + int i) = length (fifo w) + i" by simp
    then show ?thesis using that assms(1) by (simp add: fifoGet_def fifoPush_def)
  qed
  ultimately show ?thesis
    using assms sentTo_push [of w ps sid] by (simp add: fifoPush_def fifoPop_def fifoCount_def butlast_append Let_def)
qed

theorem fifo_service_witness:
  "fifo (snd (fifoPop [] (snd (fifoPush [GInt 1, GInt 2] \<lparr>fifo = [], subs = [''s''], pushed = []\<rparr>)))) = [GInt 1] \<and>
   sentTo ''s'' (snd (fifoPush [GInt 1, GInt 2] \<lparr>fifo = [], subs = [''s''], pushed = []\<rparr>)) = [subscription (GInt 1), subscription (GInt 2)]"
  using fifo_service [of "[GInt 1, GInt 2]" "\<lparr>fifo = [], subs = [''s''], pushed = []\<rparr>" "''s''"]
  by (simp add: Let_def sentTo_def [of _ "\<lparr>fifo = [], subs = [''s''], pushed = []\<rparr>"])

end
