(* ===== verification/Benchmark.thy ===== *)
theory Benchmark
  imports Transports "HOL-Library.Word" "HOL-Library.Multiset"
begin

text \<open>
  \<^verbatim>\<open>cli/benchmark\<close>: the goroutines of \<^verbatim>\<open>callNTimes\<close>, which measure calls and send the times to a channel, as a step relation with the loop that collects
  them, and the statistics, with \<^verbatim>\<open>uint\<close> arithmetic, which wraps at 64 bits; the percentile's position is computed in
  \<^verbatim>\<open>float64\<close>. How long a call takes is arbitrary.
\<close>

section \<open>The statistics\<close>

type_synonym nanoseconds = "64 word"

definition f64_mult :: "rat \<Rightarrow> rat \<Rightarrow> float64" where
  "f64_mult a b = f64_of_rat (a * b)"

text \<open>\<^verbatim>\<open>int(0.95 * float64(n))\<close>: the constant, the conversion and the product are rounded, the result is truncated.\<close>

definition pos95 :: "nat \<Rightarrow> int" where
  "pos95 n =
     (case (f64_of_rat (95 / 100), f64_of_rat (of_nat n)) of
        (Fin c, Fin x) \<Rightarrow> (case f64_mult c x of Fin r \<Rightarrow> \<lfloor>r\<rfloor> | _ \<Rightarrow> int64_min)
      | _ \<Rightarrow> int64_min)"

record bench_stats =
  avg :: nanoseconds
  minv :: nanoseconds
  t95 :: nanoseconds
  maxv :: nanoseconds

definition benchStats :: "nanoseconds list \<Rightarrow> go_panic + bench_stats" where
  "benchStats collected =
     (let results = sort collected; sum = sum_list collected in
      if of_nat (length results) = (0 :: nanoseconds) then Inl (PanicErr ''runtime error: integer divide by zero'')
      else if pos95 (length results) < 0 \<or> pos95 (length results) \<ge> int (length results) then Inl IndexOutOfRange
      else Inr \<lparr>avg = sum div of_nat (length results), minv = results ! 0, t95 = results ! nat (pos95 (length results)),
                maxv = results ! (length results - 1)\<rparr>)"

section \<open>The position of the percentile\<close>

lemma round_pos_dyadic:
  assumes "0 < m" "q = of_int m * 2 powi (- k)" "ilog2 q - 52 \<le> - k" "k \<le> 1074"
  shows "round_pos q = q"
proof (rule round_pos_exact)
  have k: "quantum q \<le> - k" using assms(3,4) by (simp add: quantum_def)
  have "q / 2 powi quantum q = of_int m * (2 powi (- k) / 2 powi quantum q)"
    unfolding assms(2) by simp
  also have "2 powi (- k) / 2 powi quantum q = (2 :: rat) powi (- k - quantum q)"
    by (simp add: power_int_diff)
  also have "\<dots> = of_int (2 ^ nat (- k - quantum q))"
    using k by (intro powi_nonneg_int) simp
  finally show "q / 2 powi quantum q = of_int (m * 2 ^ nat (- k - quantum q))" by simp
qed

text \<open>63/64 of a whole number up to \<open>2 ^ 46\<close> is a double.\<close>

lemma round_pos_63:
  assumes "0 < n" "n \<le> 2 ^ 46"
  shows "round_pos (of_nat n * 63 / 64) = of_nat n * 63 / 64"
proof (rule round_pos_dyadic [where k = 6 and m = "int n * 63"])
  let ?q = "of_nat n * 63 / 64 :: rat"
  have q: "0 < ?q" "?q < 2 powi 46"
  proof -
    have "(of_nat n :: rat) \<le> of_nat (2 ^ 46)" using assms(2) by (simp only: of_nat_le_iff)
    then show "?q < 2 powi 46" using assms(1) by simp
  qed (use assms(1) in simp)
  then have "(2 :: rat) powi ilog2 ?q < 2 powi 46" using ilog2_bounds(1) [OF q(1)] by linarith
  from powi_less_imp [OF this] show "ilog2 ?q - 52 \<le> - 6" by simp
qed (use assms in \<open>simp_all add: power_int_minus\<close>)

lemma pos95_bounds:
  assumes "0 < n" "n \<le> 2 ^ 46"
  shows "0 \<le> pos95 n" "pos95 n < int n"
proof -
  have r1: "round_pos (63 / 64) = 63 / 64" using round_pos_63 [of 1] by simp
  have lim: "x \<le> 2 ^ 46 \<Longrightarrow> x < f64_limit" for x :: rat
  proof -
    have "(2 :: rat) ^ 46 < 2 ^ 1024" by (rule power_strict_increasing) simp_all
    then show "x \<le> 2 ^ 46 \<Longrightarrow> x < f64_limit" by (simp add: f64_limit_def)
  qed
  define c where "c = round_pos (95 / 100)"
  have c: "0 \<le> c" "c \<le> 63 / 64"
    using round_pos_nonneg [of "95 / 100"] round_pos_mono [of "95 / 100" "63 / 64"] r1 by (simp_all add: c_def)
  have n: "round_pos (of_nat n) = of_nat n"
    using round_pos_int [of "int n"] assms by (simp add: order_trans [of _ "2 ^ 46"])
  have nr: "(of_nat n :: rat) \<le> 2 ^ 46"
    using assms(2) by (metis of_nat_le_iff of_nat_numeral of_nat_power)
  have fc: "f64_of_rat (19 / 20) = Fin c"
    using c lim [of c] by (simp add: f64_of_rat_def c_def Let_def)
  have fn: "f64_of_rat (of_nat n) = Fin (of_nat n)"
    using n assms lim [OF nr] by (simp add: f64_of_rat_def Let_def)
  define r where "r = (if c * of_nat n = 0 then 0 else round_pos (c * of_nat n))"
  have le: "c * of_nat n \<le> of_nat n * 63 / 64" using mult_right_mono [OF c(2), of "of_nat n"] by simp
  have r: "0 \<le> r" "r \<le> of_nat n * 63 / 64"
  proof -
    show "0 \<le> r" using c(1) assms(1) round_pos_nonneg [of "c * of_nat n"] by (auto simp: r_def)
    show "r \<le> of_nat n * 63 / 64"
      using round_pos_mono [OF _ le] round_pos_63 [OF assms] c(1) by (cases "c = 0") (auto simp: r_def)
  qed
  have "f64_mult c (of_nat n) = Fin r"
  proof (cases "c = 0")
    case True
    then show ?thesis by (simp add: f64_mult_def f64_of_rat_def r_def)
  next
    case False
    then have r': "r = round_pos (c * of_nat n)" "0 < c * of_nat n" using c(1) assms(1) by (simp_all add: r_def)
    have "r < f64_limit" using r(2) nr by (intro lim) simp
    with r' show ?thesis by (auto simp: f64_mult_def f64_of_rat_def Let_def)
  qed
  then have p: "pos95 n = \<lfloor>r\<rfloor>" by (simp add: pos95_def fc fn)
  then show "0 \<le> pos95 n" using r(1) by simp
  have "r < of_nat n" using r(2) assms(1) by (simp add: field_simps)
  then show "pos95 n < int n" by (simp add: p floor_less_iff)
qed

section \<open>Properties\<close>

lemma sum_unat:
  fixes ws :: "nanoseconds list"
  assumes "sum_list (map unat ws) < 2 ^ 64"
  shows "unat (sum_list ws) = sum_list (map unat ws)"
  using assms by (induction ws) (simp_all add: unat_word_ariths)

lemma unat_of_length: "length xs \<le> 2 ^ 46 \<Longrightarrow> unat (of_nat (length xs) :: nanoseconds) = length xs"
  by (simp add: unat_of_nat take_bit_nat_eq_self)

lemma sorted_ends:
  fixes xs :: "'a :: linorder list"
  assumes "x \<in> set xs"
  shows "sort xs ! 0 \<le> x" "x \<le> sort xs ! (length xs - 1)"
proof -
  obtain i where i: "i < length xs" "sort xs ! i = x"
    using assms by (metis in_set_conv_nth length_sort set_sort)
  then show "sort xs ! 0 \<le> x" using sorted_nth_mono [OF sorted_sort, of 0 i xs] by simp
  show "x \<le> sort xs ! (length xs - 1)" using sorted_nth_mono [OF sorted_sort, of i "length xs - 1" xs] i by simp
qed

lemma sum_between:
  fixes ws :: "nanoseconds list"
  assumes "\<forall>w \<in> set ws. lo \<le> w \<and> w \<le> hi"
  shows "length ws * unat lo \<le> sum_list (map unat ws)" "sum_list (map unat ws) \<le> length ws * unat hi"
  using assms by (induction ws) (auto simp: word_le_nat_alt)

text \<open>The statistics of times that were measured, and that they do not depend on the order in which these arrive.\<close>

lemma stats_of_times:
  assumes "ws \<noteq> []" "length ws \<le> 2 ^ 46"
  obtains st where "benchStats ws = Inr st" "minv st \<in> set ws" "t95 st \<in> set ws" "maxv st \<in> set ws"
    "\<forall>w \<in> set ws. minv st \<le> w \<and> w \<le> maxv st"
    "sum_list (map unat ws) < 2 ^ 64 \<longrightarrow> minv st \<le> avg st \<and> avg st \<le> maxv st \<and> unat (avg st) = sum_list (map unat ws) div length ws"
proof -
  have pos: "0 < length ws" using assms(1) by simp
  have len: "unat (of_nat (length ws) :: nanoseconds) = length ws" by (rule unat_of_length [OF assms(2)])
  then have nz: "of_nat (length ws) \<noteq> (0 :: nanoseconds)" using pos by (metis less_irrefl unat_0)
  have p: "0 \<le> pos95 (length ws)" "pos95 (length ws) < int (length ws)" using pos95_bounds [OF pos assms(2)] by simp_all
  let ?avg = "sum_list ws div of_nat (length ws) :: nanoseconds"
  let ?st = "\<lparr>avg = ?avg, minv = sort ws ! 0, t95 = sort ws ! nat (pos95 (length ws)), maxv = sort ws ! (length ws - 1)\<rparr>"
  have st: "benchStats ws = Inr ?st" using nz p by (simp add: benchStats_def Let_def)
  have mem: "i < length ws \<Longrightarrow> sort ws ! i \<in> set ws" for i by (metis length_sort nth_mem set_sort)
  have b: "\<forall>w \<in> set ws. sort ws ! 0 \<le> w \<and> w \<le> sort ws ! (length ws - 1)" using sorted_ends by blast
  have "sort ws ! 0 \<le> ?avg \<and> ?avg \<le> sort ws ! (length ws - 1) \<and> unat ?avg = sum_list (map unat ws) div length ws"
    if "sum_list (map unat ws) < 2 ^ 64"
  proof -
    have avg: "unat ?avg = sum_list (map unat ws) div length ws" using sum_unat [OF that] len by (simp add: unat_div)
    have "unat (sort ws ! 0) \<le> unat ?avg"
      unfolding avg using sum_between(1) [OF b] pos by (simp add: less_eq_div_iff_mult_less_eq mult.commute)
    moreover have "unat ?avg \<le> unat (sort ws ! (length ws - 1))"
      unfolding avg using div_le_mono [OF sum_between(2) [OF b], of "length ws"] pos by simp
    ultimately show ?thesis using avg by (simp add: word_le_nat_alt)
  qed
  moreover have "sort ws ! 0 \<in> set ws" "sort ws ! (length ws - 1) \<in> set ws" "sort ws ! nat (pos95 (length ws)) \<in> set ws"
    using pos p by (intro mem; linarith)+
  ultimately show thesis using b by (intro that [OF st]) simp_all
qed

lemma benchStats_mset: "mset ws = mset ws' \<Longrightarrow> benchStats ws = benchStats ws'"
proof -
  assume m: "mset ws = mset ws'"
  then have "sort ws = sort ws'" "length ws = length ws'" by (metis properties_for_sort sorted_sort mset_sort, metis size_mset)
  moreover have "sum_list ws = sum_list ws'" using m by (metis sum_mset_sum_list)
  ultimately show ?thesis by (simp add: benchStats_def)
qed

section \<open>The goroutines\<close>

text \<open>
  \<^verbatim>\<open>NewClient\<close> and \<^verbatim>\<open>NewRequestMessage\<close> panic or not for every goroutine alike: the panics they end the process with.
\<close>

definition clientPanic :: "(string \<Rightarrow> string \<Rightarrow> go_error + string \<times> string) \<Rightarrow> string \<Rightarrow> go_panic option" where
  "clientPanic authority connectUrl =
     (case (NewClient authority connectUrl [] :: go_panic + (go_error + unit client)) of
        Inl p \<Rightarrow> Some p
      | Inr (Inl err) \<Rightarrow> Some (PanicErr ''NewClient'')
      | Inr (Inr c) \<Rightarrow> None)"

definition requestPanic :: "string \<Rightarrow> gval list \<Rightarrow> go_panic option" where
  "requestPanic m params =
     (case NewRequestMessage (GStr []) m (GList params) of Inl p \<Rightarrow> Some p | Inr reqmsg \<Rightarrow> None)"

text \<open>
  A goroutine of \<^verbatim>\<open>callNTimes\<close>: before it has its client; at the top of its loop, in a call, with a time to send, or in a call that
  blocks for ever. The number is the calls it has left after the one it is at.
\<close>

datatype bench_worker = Starting | Looping nat | Calling nat | Measured nat nanoseconds | Hung nat

record bench =
  workers :: "bench_worker list"
  chResults :: "nanoseconds list"
  collected :: "nanoseconds list"

definition initBench :: "nanoseconds \<Rightarrow> bench" where
  "initBench concurrency = \<lparr>workers = replicate (unat concurrency) Starting, chResults = [], collected = []\<rparr>"

text \<open>
  A step of a goroutine or of the collecting loop; a panic ends the process. A call is given no deadline: it may return
  after any time, also with an error, which is printed, or block for ever; nothing is assumed of which it does. Its time is sent
  when the channel, of capacity \<open>want\<close>, has room. The client's own goroutines, which may panic, are not part of this.
\<close>

inductive bench_step :: "go_panic option \<Rightarrow> go_panic option \<Rightarrow> nanoseconds \<Rightarrow> nat \<Rightarrow> bench \<Rightarrow> go_panic + bench \<Rightarrow> bool"
  for newClient newRequest :: "go_panic option" and num :: nanoseconds and want :: nat where
  begins: "k < length (workers s) \<Longrightarrow> workers s ! k = Starting \<Longrightarrow> newClient = None \<Longrightarrow>
    bench_step newClient newRequest num want s (Inr (s\<lparr>workers := (workers s)[k := Looping (unat num)]\<rparr>))"
| no_client: "k < length (workers s) \<Longrightarrow> workers s ! k = Starting \<Longrightarrow> newClient = Some p \<Longrightarrow>
    bench_step newClient newRequest num want s (Inl p)"
| calls: "k < length (workers s) \<Longrightarrow> workers s ! k = Looping (Suc i) \<Longrightarrow> newRequest = None \<Longrightarrow>
    bench_step newClient newRequest num want s (Inr (s\<lparr>workers := (workers s)[k := Calling i]\<rparr>))"
| no_request: "k < length (workers s) \<Longrightarrow> workers s ! k = Looping (Suc i) \<Longrightarrow> newRequest = Some p \<Longrightarrow>
    bench_step newClient newRequest num want s (Inl p)"
| returns: "k < length (workers s) \<Longrightarrow> workers s ! k = Calling i \<Longrightarrow>
    bench_step newClient newRequest num want s (Inr (s\<lparr>workers := (workers s)[k := Measured i usedTime]\<rparr>))"
| blocks: "k < length (workers s) \<Longrightarrow> workers s ! k = Calling i \<Longrightarrow>
    bench_step newClient newRequest num want s (Inr (s\<lparr>workers := (workers s)[k := Hung i]\<rparr>))"
| sends: "k < length (workers s) \<Longrightarrow> workers s ! k = Measured i t \<Longrightarrow> length (chResults s) < want \<Longrightarrow>
    bench_step newClient newRequest num want s
      (Inr (s\<lparr>workers := (workers s)[k := Looping i], chResults := chResults s @ [t]\<rparr>))"
| collects: "length (collected s) < want \<Longrightarrow> chResults s = t # ts \<Longrightarrow>
    bench_step newClient newRequest num want s (Inr (s\<lparr>chResults := ts, collected := collected s @ [t]\<rparr>))"

inductive bench_run :: "go_panic option \<Rightarrow> go_panic option \<Rightarrow> nanoseconds \<Rightarrow> nat \<Rightarrow> bench \<Rightarrow> nat \<Rightarrow> bench \<Rightarrow> bool"
  for newClient newRequest :: "go_panic option" and num :: nanoseconds and want :: nat where
  brun_nil: "bench_run newClient newRequest num want s 0 s"
| brun_step: "bench_run newClient newRequest num want s j t \<Longrightarrow> bench_step newClient newRequest num want t (Inr u) \<Longrightarrow>
    bench_run newClient newRequest num want s (Suc j) u"

text \<open>The outcomes of \<^verbatim>\<open>RunCallBenchmark\<close>; \<open>limit\<close> is the number of elements up to which \<^verbatim>\<open>make\<close> gives a channel.\<close>

inductive RunCallBenchmark ::
  "nat \<Rightarrow> go_panic option \<Rightarrow> go_panic option \<Rightarrow> nanoseconds \<Rightarrow> nanoseconds \<Rightarrow> go_panic + bench_stats \<Rightarrow> bool"
  for limit :: nat and newClient newRequest :: "go_panic option" and concurrency num :: nanoseconds where
  no_channel: "limit < unat (concurrency * num) \<Longrightarrow>
    RunCallBenchmark limit newClient newRequest concurrency num (Inl (PanicErr ''makechan: size out of range''))"
| measured: "unat (concurrency * num) \<le> limit \<Longrightarrow>
    bench_run newClient newRequest num (unat (concurrency * num)) (initBench concurrency) j s \<Longrightarrow>
    length (collected s) = unat (concurrency * num) \<Longrightarrow>
    RunCallBenchmark limit newClient newRequest concurrency num (benchStats (collected s))"
| panicked: "unat (concurrency * num) \<le> limit \<Longrightarrow>
    bench_run newClient newRequest num (unat (concurrency * num)) (initBench concurrency) j s \<Longrightarrow>
    bench_step newClient newRequest num (unat (concurrency * num)) s (Inl p) \<Longrightarrow>
    RunCallBenchmark limit newClient newRequest concurrency num (Inl p)"

inductive_cases bench_stepE: "bench_step newClient newRequest num want s r"
inductive_cases RunCallBenchmarkE: "RunCallBenchmark limit newClient newRequest concurrency num r"

text \<open>The times that are still to come from a goroutine, and the steps it can still make, with their collection.\<close>

primrec calls_of :: "nat \<Rightarrow> bench_worker \<Rightarrow> nat" where
  "calls_of num Starting = num"
| "calls_of num (Looping i) = i"
| "calls_of num (Calling i) = Suc i"
| "calls_of num (Measured i t) = Suc i"
| "calls_of num (Hung i) = Suc i"

primrec steps_of :: "nat \<Rightarrow> bench_worker \<Rightarrow> nat" where
  "steps_of num Starting = Suc (4 * num)"
| "steps_of num (Looping i) = 4 * i"
| "steps_of num (Calling i) = 4 * i + 3"
| "steps_of num (Measured i t) = 4 * i + 2"
| "steps_of num (Hung i) = 0"

primrec is_hung :: "bench_worker \<Rightarrow> bool" where
  "is_hung Starting = False"
| "is_hung (Looping i) = False"
| "is_hung (Calling i) = False"
| "is_hung (Measured i t) = False"
| "is_hung (Hung i) = True"

definition calls_left :: "nat \<Rightarrow> bench \<Rightarrow> nat" where
  "calls_left num s = sum_list (map (calls_of num) (workers s)) + length (chResults s)"

definition steps_left :: "nat \<Rightarrow> bench \<Rightarrow> nat" where
  "steps_left num s = sum_list (map (steps_of num) (workers s)) + length (chResults s)"

lemma sum_map_update:
  fixes f :: "'a \<Rightarrow> nat"
  assumes "k < length xs"
  shows "sum_list (map f (xs[k := x])) + f (xs ! k) = sum_list (map f xs) + f x"
  using assms
proof (induction xs arbitrary: k)
  case (Cons y xs)
  show ?case
  proof (cases k)
    case (Suc j)
    with Cons.IH [of j] Cons.prems show ?thesis by simp
  qed simp
qed simp

lemma bench_step_accounts:
  assumes "bench_step newClient newRequest num want s (Inr t)"
  shows "calls_left (unat num) t + length (collected t) = calls_left (unat num) s + length (collected s) \<and>
    Suc (steps_left (unat num) t) \<le> steps_left (unat num) s \<and> (length (collected s) \<le> want \<longrightarrow> length (collected t) \<le> want)"
proof -
  note sums = sum_map_update [of _ "workers s" "calls_of (unat num)"] sum_map_update [of _ "workers s" "steps_of (unat num)"]
  show ?thesis
    using assms
  proof (cases rule: bench_step.cases)
    case (begins k)
    with sums [of k "Looping (unat num)"] show ?thesis by (simp add: calls_left_def steps_left_def)
  next
    case (calls k i)
    with sums [of k "Calling i"] show ?thesis by (simp add: calls_left_def steps_left_def)
  next
    case (returns k i usedTime)
    with sums [of k "Measured i usedTime"] show ?thesis by (simp add: calls_left_def steps_left_def)
  next
    case (blocks k i)
    with sums [of k "Hung i"] show ?thesis by (simp add: calls_left_def steps_left_def)
  next
    case (sends k i t)
    with sums [of k "Looping i"] show ?thesis by (simp add: calls_left_def steps_left_def)
  qed (simp add: calls_left_def steps_left_def)
qed

lemma bench_run_accounts:
  assumes "bench_run newClient newRequest num want (initBench concurrency) j s"
  shows "calls_left (unat num) s + length (collected s) = unat concurrency * unat num \<and>
    j + steps_left (unat num) s \<le> unat concurrency * Suc (4 * unat num) \<and> length (collected s) \<le> want"
  using assms
proof (induction "initBench concurrency" j s rule: bench_run.induct)
  case brun_nil
  show ?case by (simp add: initBench_def calls_left_def steps_left_def sum_list_replicate)
next
  case (brun_step j t u)
  with bench_step_accounts [OF brun_step.hyps(3)] show ?case by simp
qed

lemma positive_work:
  assumes "0 < sum_list (map (calls_of num) ws)" "\<not> list_ex is_hung ws"
  obtains (loop) k i where "k < length ws" "ws ! k = Starting \<or> ws ! k = Looping (Suc i) \<or> ws ! k = Calling i"
  | (measured) k i t where "k < length ws" "ws ! k = Measured i t"
proof -
  obtain w where w: "w \<in> set ws" "0 < calls_of num w"
    using assms(1) by (metis (no_types, lifting) gr0I imageE list.set_map not_less0 sum_list_eq_0_iff)
  have "w = Starting \<or> (\<exists>i. w = Looping (Suc i)) \<or> (\<exists>i. w = Calling i) \<or> (\<exists>i t. w = Measured i t)"
  proof -
    have "\<not> is_hung w" using w(1) assms(2) by (auto simp: list_ex_iff)
    then show ?thesis by (cases w) (use w(2) in \<open>auto simp: gr0_conv_Suc\<close>)
  qed
  with w(1) loop measured show thesis by (metis in_set_conv_nth)
qed

text \<open>A goroutine that hangs stays so, and its times never come.\<close>

lemma hung_stays:
  assumes "bench_run newClient newRequest num want s i t" "list_ex is_hung (workers s)"
  shows "list_ex is_hung (workers t)"
  using assms
proof (induction rule: bench_run.induct)
  case (brun_step s j t u)
  then obtain h where h: "h < length (workers t)" "is_hung (workers t ! h)" by (auto simp: list_ex_length)
  from brun_step.hyps(2) h show ?case
    by cases (auto simp: list_ex_length nth_list_update intro!: exI [of _ h])
qed simp

lemma hung_work: "list_ex is_hung ws \<Longrightarrow> 0 < sum_list (map (calls_of num) ws)"
proof (induction ws)
  case (Cons w ws)
  then show ?case by (cases w) auto
qed simp

text \<open>Without a client or a request nothing is measured.\<close>

lemma failing_collects_nothing:
  assumes "bench_run newClient newRequest num want (initBench concurrency) j s" "newClient \<noteq> None \<or> newRequest \<noteq> None"
  shows "chResults s = [] \<and> collected s = [] \<and>
    list_all (\<lambda>w. w = Starting \<or> newClient = None \<and> (\<exists>i. w = Looping i)) (workers s)"
  using assms
proof (induction "initBench concurrency" j s rule: bench_run.induct)
  case (brun_step j t u)
  then have t: "chResults t = []" "collected t = []"
    "list_all (\<lambda>w. w = Starting \<or> newClient = None \<and> (\<exists>i. w = Looping i)) (workers t)" by simp_all
  from brun_step.hyps(3) t brun_step.prems show ?case
    by (cases rule: bench_step.cases) (auto simp: list_all_length nth_list_update)
qed (simp add: initBench_def list_all_iff)

text \<open>
  The channel has room for every time that is left; and unless a call hangs, some goroutine can go on as long as times are
  missing, in a way that makes no call hang.
\<close>

lemma bench_progress:
  assumes "bench_run None None num (unat (concurrency * num)) (initBench concurrency) j s"
    and "unat concurrency * unat num < 2 ^ 64"
  shows "0 < sum_list (map (calls_of (unat num)) (workers s)) \<Longrightarrow> length (chResults s) < unat (concurrency * num)"
    and "length (collected s) \<le> unat (concurrency * num)"
    and "list_ex is_hung (workers s) \<Longrightarrow> length (collected s) < unat (concurrency * num)"
    and "length (collected s) < unat (concurrency * num) \<Longrightarrow> \<not> list_ex is_hung (workers s) \<Longrightarrow>
      \<exists>t. bench_step None None num (unat (concurrency * num)) s (Inr t) \<and> \<not> list_ex is_hung (workers t)"
proof -
  have acc: "calls_left (unat num) s + length (collected s) = unat (concurrency * num)"
    "length (collected s) \<le> unat (concurrency * num)"
    using bench_run_accounts [OF assms(1)] assms(2) by (simp_all add: unat_word_ariths)
  show room: "0 < sum_list (map (calls_of (unat num)) (workers s)) \<Longrightarrow> length (chResults s) < unat (concurrency * num)"
    using acc(1) by (simp add: calls_left_def)
  show "length (collected s) \<le> unat (concurrency * num)" by (rule acc(2))
  show "list_ex is_hung (workers s) \<Longrightarrow> length (collected s) < unat (concurrency * num)"
    using hung_work [of "workers s" "unat num"] acc(1) by (simp add: calls_left_def)
  have upd: "\<not> list_ex is_hung ((workers s)[k := w])" if "\<not> list_ex is_hung (workers s)" "\<not> is_hung w" for k w
    using that set_update_subset_insert [of "workers s" k w] by (auto simp: list_ex_iff)
  assume less: "length (collected s) < unat (concurrency * num)" and ok: "\<not> list_ex is_hung (workers s)"
  show "\<exists>t. bench_step None None num (unat (concurrency * num)) s (Inr t) \<and> \<not> list_ex is_hung (workers t)"
  proof (cases "chResults s")
    case Nil
    then have work: "0 < sum_list (map (calls_of (unat num)) (workers s))" using acc(1) less by (simp add: calls_left_def)
    from work ok show ?thesis
    proof (cases rule: positive_work)
      case (loop k i)
      with begins [OF loop(1)] calls [OF loop(1)] returns [OF loop(1)] upd [OF ok] show ?thesis by fastforce
    next
      case (measured k i t)
      with sends [OF measured(1) measured(2) room [OF work]] upd [OF ok, of "Looping i" k] show ?thesis by fastforce
    qed
  next
    case (Cons t ts)
    with collects [OF less Cons] ok show ?thesis by fastforce
  qed
qed

lemma bench_run_head:
  "bench_run newClient newRequest num want t i u \<Longrightarrow> bench_step newClient newRequest num want s (Inr t) \<Longrightarrow>
    bench_run newClient newRequest num want s (Suc i) u"
  by (induction t i u rule: bench_run.induct) (auto intro: bench_run.intros)

lemma bench_run_trans:
  "bench_run newClient newRequest num want s i t \<Longrightarrow> bench_run newClient newRequest num want r j s \<Longrightarrow>
     bench_run newClient newRequest num want r (j + i) t"
  by (induction rule: bench_run.induct) (auto intro: bench_run.intros)

text \<open>Every run in which no call hangs can go on until all times are collected.\<close>

lemma bench_completes:
  assumes "bench_run None None num (unat (concurrency * num)) (initBench concurrency) j s"
    and "unat concurrency * unat num < 2 ^ 64" "\<not> list_ex is_hung (workers s)"
  shows "\<exists>i t. bench_run None None num (unat (concurrency * num)) s i t \<and> length (collected t) = unat (concurrency * num)"
  using assms(1,3)
proof (induction "steps_left (unat num) s" arbitrary: j s rule: less_induct)
  case less
  show ?case
  proof (cases "length (collected s) < unat (concurrency * num)")
    case True
    then obtain t where t: "bench_step None None num (unat (concurrency * num)) s (Inr t)" "\<not> list_ex is_hung (workers t)"
      using bench_progress(4) [OF less.prems(1) assms(2) _ less.prems(2)] by blast
    then have "steps_left (unat num) t < steps_left (unat num) s" using bench_step_accounts [OF t(1)] by simp
    from less.hyps [OF this brun_step [OF less.prems(1) t(1)] t(2)] show ?thesis using bench_run_head [OF _ t(1)] by blast
  next
    case False
    then show ?thesis using bench_progress(2) [OF less.prems(1) assms(2)] brun_nil by (metis le_neq_implies_less)
  qed
qed

section \<open>Properties\<close>

text \<open>
  \<^bold>\<open>C39.\<close> Whatever the order in which the clients of a benchmark measure and their times arrive: a benchmark that ends without a panic has as many
  times as calls were asked for, and prints statistics that depend on these times only, not on their order; the least and
  the greatest are those of the times, the percentile is one of them, and the average lies between them, as long as they
  add up to less than \<open>2 ^ 64\<close> nanoseconds. It panics when the client or the request cannot be made, and for no calls, dividing by zero.
\<close>

theorem benchmark_statistics:
  assumes "RunCallBenchmark limit (clientPanic authority connectUrl) (requestPanic m params) concurrency num r" "limit \<le> 2 ^ 46"
  shows "if clientPanic authority connectUrl \<noteq> None \<or> requestPanic m params \<noteq> None \<or> limit < unat (concurrency * num) \<or>
      concurrency * num = 0 then is_panic r
    else \<exists>ws st. length ws = unat (concurrency * num) \<and> r = Inr st \<and> (\<forall>ws'. mset ws' = mset ws \<longrightarrow> benchStats ws' = r) \<and>
      minv st \<in> set ws \<and> t95 st \<in> set ws \<and> maxv st \<in> set ws \<and> (\<forall>w \<in> set ws. minv st \<le> w \<and> w \<le> maxv st) \<and>
      (sum_list (map unat ws) < 2 ^ 64 \<longrightarrow>
        minv st \<le> avg st \<and> avg st \<le> maxv st \<and> unat (avg st) = sum_list (map unat ws) div length ws)"
  using assms(1)
proof (cases rule: RunCallBenchmark.cases)
  case (measured j s)
  have n: "length (collected s) \<le> 2 ^ 46" using measured assms(2) by simp
  show ?thesis
  proof (cases "collected s = []")
    case True
    then have "concurrency * num = 0" using measured(4) by (simp add: unat_eq_0)
    then show ?thesis using measured True by (simp add: benchStats_def)
  next
    case False
    then have "\<not> (clientPanic authority connectUrl \<noteq> None \<or> requestPanic m params \<noteq> None)"
      using failing_collects_nothing [OF measured(3)] by blast
    then have ok: "clientPanic authority connectUrl = None" "requestPanic m params = None" by simp_all
    have run: "\<not> (clientPanic authority connectUrl \<noteq> None \<or> requestPanic m params \<noteq> None \<or> limit < unat (concurrency * num) \<or>
        concurrency * num = 0)"
      using ok measured(2,4) False by auto
    obtain st where st: "benchStats (collected s) = Inr st" "minv st \<in> set (collected s)" "t95 st \<in> set (collected s)"
      "maxv st \<in> set (collected s)" "\<forall>w \<in> set (collected s). minv st \<le> w \<and> w \<le> maxv st"
      "sum_list (map unat (collected s)) < 2 ^ 64 \<longrightarrow>
        minv st \<le> avg st \<and> avg st \<le> maxv st \<and> unat (avg st) = sum_list (map unat (collected s)) div length (collected s)"
      by (rule stats_of_times [OF False n])
    have perm: "\<forall>ws'. mset ws' = mset (collected s) \<longrightarrow> benchStats ws' = r" using benchStats_mset measured(1) by blast
    have r: "r = Inr st" using measured(1) st(1) by (rule trans)
    show ?thesis
      unfolding if_not_P [OF run] using measured(4) r perm st(2-6) by (intro exI conjI) assumption+
  qed
next
  case (panicked j s p)
  from panicked(4) show ?thesis by (cases rule: bench_step.cases) (use panicked in auto)
qed simp

theorem benchmark_statistics_witness:
  "\<exists>st. RunCallBenchmark 100 (clientPanic (\<lambda>s r. Inr (''h'', ''1'')) ''tcp://h:1'') (requestPanic ''m'' []) 1 2 (Inr st) \<and>
     minv st \<le> maxv st"
proof -
  let ?run = "bench_run (clientPanic (\<lambda>s r. Inr (''h'', ''1'')) ''tcp://h:1'') (requestPanic ''m'' []) (2 :: nanoseconds) 2 (initBench 1)"
  have c: "clientPanic (\<lambda>s r. Inr (''h'', ''1'')) ''tcp://h:1'' = None" by code_simp
  have r: "requestPanic ''m'' [] = None" by code_simp
  have 0: "?run 0 \<lparr>workers = [Starting], chResults = [], collected = []\<rparr>"
    using brun_nil [of "clientPanic (\<lambda>s r. Inr (''h'', ''1'')) ''tcp://h:1''" "requestPanic ''m'' []" 2 2 "initBench 1"]
    by (simp add: initBench_def)
  have 1: "?run 1 \<lparr>workers = [Looping 2], chResults = [], collected = []\<rparr>"
    using brun_step [OF 0 begins [of 0]] c by simp
  have 2: "?run 4 \<lparr>workers = [Looping 1], chResults = [7], collected = []\<rparr>"
    using brun_step [OF brun_step [OF brun_step [OF 1 calls [of 0 _ 1]] returns [of 0 _ 1 _ _ _ _ 7]] sends [of 0 _ 1 7]] r
    by (simp add: numeral_eq_Suc)
  have 3: "?run 5 \<lparr>workers = [Looping 1], chResults = [], collected = [7]\<rparr>"
    using brun_step [OF 2 collects [of _ _ 7 "[]"]] by simp
  have 4: "?run 8 \<lparr>workers = [Looping 0], chResults = [5], collected = [7]\<rparr>"
    using brun_step [OF brun_step [OF brun_step [OF 3 calls [of 0 _ 0]] returns [of 0 _ 0 _ _ _ _ 5]] sends [of 0 _ 0 5]] r by simp
  have 5: "?run 9 \<lparr>workers = [Looping 0], chResults = [], collected = [7, 5]\<rparr>"
    using brun_step [OF 4 collects [of _ _ 5 "[]"]] by simp
  have "RunCallBenchmark 100 (clientPanic (\<lambda>s r. Inr (''h'', ''1'')) ''tcp://h:1'') (requestPanic ''m'' []) 1 2 (benchStats [7, 5])"
    using measured [of 1 2 100 _ _ 9 "\<lparr>workers = [Looping 0], chResults = [], collected = [7, 5]\<rparr>"] 5 by simp
  with benchmark_statistics [OF this] c r show ?thesis by auto
qed

text \<open>
  \<^bold>\<open>C40.\<close> What makes a benchmark end: whatever happens, at most one step per client and four per call are made. As long as no call
  blocks for ever, some goroutine can go on while times are missing, and the run can go on until as many times are
  collected as there are calls; once a call does block for ever the benchmark never ends, whatever the other calls do, for none
  has a deadline. No time ever waits for the channel, which has room for all.
\<close>

theorem benchmark_terminates:
  assumes "bench_run None None num (unat (concurrency * num)) (initBench concurrency) j s"
    and "unat concurrency * unat num < 2 ^ 64"
  shows "j \<le> unat concurrency * (1 + 4 * unat num) \<and>
    (if list_ex is_hung (workers s)
     then \<forall>i t. bench_run None None num (unat (concurrency * num)) s i t \<longrightarrow> length (collected t) < unat concurrency * unat num
     else (length (collected s) < unat concurrency * unat num \<longrightarrow> (\<exists>t. bench_step None None num (unat (concurrency * num)) s (Inr t))) \<and>
       (\<exists>i t. bench_run None None num (unat (concurrency * num)) s i t \<and> length (collected t) = unat concurrency * unat num)) \<and>
    (0 < sum_list (map (calls_of (unat num)) (workers s)) \<longrightarrow> length (chResults s) < unat concurrency * unat num)"
proof -
  let ?want = "unat (concurrency * num)"
  have want: "?want = unat concurrency * unat num" using assms(2) by (simp add: unat_word_ariths)
  have "j + steps_left (unat num) s \<le> unat concurrency * Suc (4 * unat num)" using bench_run_accounts [OF assms(1)] by simp
  moreover have "length (collected t) < ?want" if "list_ex is_hung (workers s)" "bench_run None None num ?want s i t" for i t
    using bench_progress(3) [OF bench_run_trans [OF that(2) assms(1)] assms(2) hung_stays [OF that(2,1)]] .
  ultimately show ?thesis
    using bench_progress(1,4) [OF assms] bench_completes [OF assms] unfolding want [symmetric] by (auto simp: want)
qed

theorem benchmark_terminates_witness:
  "(\<exists>i t. bench_run None None 2 2 (initBench 1) i t \<and> length (collected t) = 2) \<and>
   (\<exists>j s. bench_run None None 2 2 (initBench 1) j s \<and>
      (\<forall>i t. bench_run None None 2 2 s i t \<longrightarrow> length (collected t) < 2))"
proof
  show "\<exists>i t. bench_run None None 2 2 (initBench 1) i t \<and> length (collected t) = 2"
    using benchmark_terminates [where num = 2 and concurrency = 1, OF brun_nil] by (simp add: initBench_def)
  have 0: "bench_run None None (2 :: nanoseconds) 2 (initBench 1) 0 \<lparr>workers = [Starting], chResults = [], collected = []\<rparr>"
    using brun_nil [of None None 2 2 "initBench 1"] by (simp add: initBench_def)
  have 1: "bench_run None None (2 :: nanoseconds) 2 (initBench 1) 3 \<lparr>workers = [Hung 1], chResults = [], collected = []\<rparr>"
    using brun_step [OF brun_step [OF brun_step [OF 0 begins [of 0]] calls [of 0 _ 1]] blocks [of 0 _ 1]] by (simp add: numeral_3_eq_3)
  with benchmark_terminates [where num = 2 and concurrency = 1 and j = 3, simplified, OF 1]
  show "\<exists>j s. bench_run None None 2 2 (initBench 1) j s \<and> (\<forall>i t. bench_run None None 2 2 s i t \<longrightarrow> length (collected t) < 2)"
    by auto
qed

end
