(* ===== verification/Commands.thy ===== *)
theory Commands
  imports Flags Pretty Tools Servers Benchmark
begin

text \<open>
  The \<^verbatim>\<open>main\<close> functions of \<^verbatim>\<open>cli/call\<close>, \<^verbatim>\<open>cli/notify\<close>, \<^verbatim>\<open>cli/watch\<close>, \<^verbatim>\<open>cli/benchmark\<close> and \<^verbatim>\<open>examples/fifo\<close>: flags, what is prepared, the call,
  and what is printed. A call through a client is an argument, which \<open>httpClientCall\<close> gives for the HTTP/1.1 client. Texts
  printed to the standard error are their constant part, the usage that goes with a bad flag is left out.
\<close>

section \<open>The flags of the programs\<close>

record flag_values =
  serverFlag :: string
  headerFlag :: header_flags
  dumpFlag :: bool
  retryFlag :: int
  concurrencyFlag :: int
  numFlag :: int
  tcpFlag :: string
  bindFlag :: string

definition noFlags :: flag_values where
  "noFlags = \<lparr>serverFlag = [], headerFlag = [], dumpFlag = False, retryFlag = 1, concurrencyFlag = 10, numFlag = 10,
     tcpFlag = [], bindFlag = []\<rparr>"

definition clientFlags :: "flag_values flag_set" where
  "clientFlags =
     [''c'' \<mapsto> ValueFlag (\<lambda>v st. Some (st\<lparr>serverFlag := v\<rparr>)),
      ''header'' \<mapsto> ValueFlag (\<lambda>v st. Some (st\<lparr>headerFlag := headerFlagsSet (headerFlag st) v\<rparr>))]"

definition callFlags :: "flag_values flag_set" where
  "callFlags = clientFlags(''dumpheader'' \<mapsto> BoolFlag (\<lambda>b st. st\<lparr>dumpFlag := b\<rparr>))"

definition watchFlags :: "flag_values flag_set" where
  "watchFlags = clientFlags(''retry'' \<mapsto> ValueFlag (\<lambda>v st. map_option (\<lambda>i. st\<lparr>retryFlag := i\<rparr>) (ParseInt0 v)))"

definition benchFlags :: "flag_values flag_set" where
  "benchFlags = clientFlags
     (''m'' \<mapsto> ValueFlag (\<lambda>v st. map_option (\<lambda>i. st\<lparr>concurrencyFlag := i\<rparr>) (ParseUint0 v)),
      ''n'' \<mapsto> ValueFlag (\<lambda>v st. map_option (\<lambda>i. st\<lparr>numFlag := i\<rparr>) (ParseUint0 v)))"

definition fifoFlags :: "flag_values flag_set" where
  "fifoFlags =
     [''tcp'' \<mapsto> ValueFlag (\<lambda>v st. Some (st\<lparr>tcpFlag := v\<rparr>)), ''bind'' \<mapsto> ValueFlag (\<lambda>v st. Some (st\<lparr>bindFlag := v\<rparr>))]"

section \<open>Ends of a program\<close>

datatype tool_end = Exits nat | Aborts go_panic

record tool_run =
  stdout :: "string list"
  stderr :: "string list"
  ended :: tool_end

definition exits :: "nat \<Rightarrow> string \<Rightarrow> tool_run" where
  "exits code err = \<lparr>stdout = [], stderr = [err], ended = Exits code\<rparr>"

definition aborts :: "go_panic \<Rightarrow> tool_run" where
  "aborts p = \<lparr>stdout = [], stderr = [], ended = Aborts p\<rparr>"

section \<open>Clients\<close>

text \<open>The methods of the interface \<^verbatim>\<open>Client\<close> that the programs use, and whether a client is \<^verbatim>\<open>Streamable\<close>.\<close>

primrec clientSetExtraHeader :: "http_header \<Rightarrow> 't client \<Rightarrow> 't client" where
  "clientSetExtraHeader h (Http1Client c) = Http1Client (SetExtraHeader h c)"
| "clientSetExtraHeader h (WSClient c) = WSClient (streamSetExtraHeader h c)"
| "clientSetExtraHeader h (Http2Client c) = Http2Client (streamSetExtraHeader h c)"
| "clientSetExtraHeader h (TCPClient c) = TCPClient (streamSetExtraHeader h c)"
| "clientSetExtraHeader h (VsockClient c) = VsockClient (streamSetExtraHeader h c)"

primrec isStreamable :: "'t client \<Rightarrow> bool" where
  "isStreamable (Http1Client c) = False"
| "isStreamable (WSClient c) = True"
| "isStreamable (Http2Client c) = True"
| "isStreamable (TCPClient c) = True"
| "isStreamable (VsockClient c) = True"

type_synonym ('t, 'w) client_call = "'t client \<Rightarrow> request_message \<Rightarrow> 'w \<Rightarrow> (go_panic + (go_error + message)) \<times> 'w"

definition httpClientCall :: "(string \<Rightarrow> bool) \<Rightarrow> ('t, 'w) network \<Rightarrow> ('t, 'w) client_call \<Rightarrow> ('t, 'w) client_call" where
  "httpClientCall url_ok net streams c q w =
     (case c of
        Http1Client hc \<Rightarrow> (case Call url_ok net hc q w of (res, q', hc', w') \<Rightarrow> (Inr res, w'))
      | _ \<Rightarrow> streams c q w)"

section \<open>The programs\<close>

text \<open>The response header, in the order in which the map is gone through.\<close>

definition dumpHeader :: "message \<Rightarrow> string list" where
  "dumpHeader m =
     (case (case m of MRes r \<Rightarrow> resHeader r | MErr r \<Rightarrow> errHeader r | _ \<Rightarrow> None) of
        None \<Rightarrow> []
      | Some h \<Rightarrow> ''Response header:'' # concat (map (\<lambda>(k, vs). map (\<lambda>v. ''  '' @ k @ '': '' @ v) vs) h))"

definition callMain ::
  "('t, 'w) client_call \<Rightarrow> (string \<Rightarrow> string option) \<Rightarrow> (string \<Rightarrow> string \<Rightarrow> go_error + string \<times> string) \<Rightarrow> string \<Rightarrow> string \<Rightarrow>
     string list \<Rightarrow> 'w \<Rightarrow> tool_run \<times> 'w" where
  "callMain call file authority env uuid args w =
     (case parseFlags callFlags args noFlags of
        Inl code \<Rightarrow> (exits code [], w)
      | Inr (fl, rest) \<Rightarrow>
          (case cliCall file authority (serverFlag fl) env (headerFlag fl) uuid rest of
             Inl p \<Rightarrow> (aborts p, w)
           | Inr (Inl err) \<Rightarrow> (exits 1 err, w)
           | Inr (Inr (c, header, reqmsg)) \<Rightarrow>
               (case call (clientSetExtraHeader header c) reqmsg w of
                  (Inl p, w') \<Rightarrow> (aborts p, w')
                | (Inr (Inl err), w') \<Rightarrow> (exits 1 ''rpc error'', w')
                | (Inr (Inr resmsg), w') \<Rightarrow>
                    (case EncodePretty resmsg of
                       Inl err \<Rightarrow> (aborts (PanicMarshal err), w')
                     | Inr repr \<Rightarrow>
                         (\<lparr>stdout = repr # (if dumpFlag fl then dumpHeader resmsg else []), stderr = [], ended = Exits 0\<rparr>, w')))))"

definition notifyMain ::
  "('t client \<Rightarrow> notify_message \<Rightarrow> 'w \<Rightarrow> go_error option \<times> 'w) \<Rightarrow> (string \<Rightarrow> string option) \<Rightarrow>
     (string \<Rightarrow> string \<Rightarrow> go_error + string \<times> string) \<Rightarrow> string \<Rightarrow> string list \<Rightarrow> 'w \<Rightarrow> tool_run \<times> 'w" where
  "notifyMain send file authority env args w =
     (case parseFlags clientFlags args noFlags of
        Inl code \<Rightarrow> (exits code [], w)
      | Inr (fl, rest) \<Rightarrow>
          (case cliNotify file authority (serverFlag fl) env (headerFlag fl) rest of
             Inl p \<Rightarrow> (aborts p, w)
           | Inr (Inl err) \<Rightarrow> (exits 1 err, w)
           | Inr (Inr (c, header, ntfmsg)) \<Rightarrow>
               (case send (clientSetExtraHeader header c) ntfmsg w of
                  (Some err, w') \<Rightarrow> (exits 1 ''rpc error'', w')
                | (None, w') \<Rightarrow> (\<lparr>stdout = [], stderr = [], ended = Exits 0\<rparr>, w'))))"

text \<open>
  \<^verbatim>\<open>cli/watch\<close> up to the loop of the watcher: the client, the watcher, and the request it will send, which is made when
  the connection stands. The order differs from that of the other tools, and the method is optional.
\<close>

definition watchMain ::
  "(string \<Rightarrow> string option) \<Rightarrow> (string \<Rightarrow> string \<Rightarrow> go_error + string \<times> string) \<Rightarrow> string \<Rightarrow> string list \<Rightarrow>
     tool_run + 't client \<times> watcher \<times> gval list" where
  "watchMain file authority env args =
     (case parseFlags watchFlags args noFlags of
        Inl code \<Rightarrow> Inl (exits code [])
      | Inr (fl, rest) \<Rightarrow>
          (case headerFlagsParse (headerFlag fl) of
             Inl err \<Rightarrow> Inl (exits 1 ''err parse header flags'')
           | Inr header \<Rightarrow>
               (case (case rest of [] \<Rightarrow> ([], None) | m # clParams \<Rightarrow> GuessJsonArray file clParams) of
                  (_, Some err) \<Rightarrow> Inl (exits 1 ''params error'')
                | (params, None) \<Rightarrow>
                    (case NewClient authority (serverUrlOf (serverFlag fl) env ''ws://127.0.0.1:9990'') [] of
                       Inl p \<Rightarrow> Inl (aborts p)
                     | Inr (Inl err) \<Rightarrow> Inl (exits 1 ''fail to find jsonrpc client'')
                     | Inr (Inr c) \<Rightarrow>
                         if \<not> isStreamable c then Inl (aborts (PanicText ''streaming client required''))
                         else Inr (clientSetExtraHeader header c,
                                   \<lparr>method_name = (case rest of [] \<Rightarrow> [] | m # _ \<Rightarrow> m), retrylimit = retryFlag fl, connectretry = 0\<rparr>,
                                   params)))))"

text \<open>
  What \<^verbatim>\<open>cli/watch\<close> prints: the messages that arrive, and on a standing connection the answer to its call, when it has a
  method. A call that fails ends the process, the \<open>Panicked_call\<close> of \<open>watchRun\<close>.
\<close>

definition watchMessage :: "message \<Rightarrow> go_panic + string" where
  "watchMessage m = map_sum (\<lambda>err. PanicText ''on message'') id (EncodePretty m)"

definition watchCall :: "(request_message \<Rightarrow> go_error + message) \<Rightarrow> string \<Rightarrow> watcher \<Rightarrow> gval list \<Rightarrow> go_panic + string list" where
  "watchCall call uuid self params =
     (if method_name self = [] then Inr []
      else case NewRequestMessage (GStr uuid) (method_name self) (GList params) of
        Inl p \<Rightarrow> Inl p
      | Inr reqmsg \<Rightarrow>
          (case call reqmsg of
             Inl err \<Rightarrow> Inl (PanicText ''rpc error'')
           | Inr resmsg \<Rightarrow> map_sum (\<lambda>err. PanicText ''encode pretty error'') (\<lambda>repr. [repr]) (EncodePretty resmsg)))"

text \<open>\<^verbatim>\<open>cli/benchmark\<close> up to \<^verbatim>\<open>RunCallBenchmark\<close>: its arguments.\<close>

definition benchMain ::
  "(string \<Rightarrow> string option) \<Rightarrow> string \<Rightarrow> string list \<Rightarrow>
     tool_run + string \<times> string \<times> gval list \<times> http_header \<times> nanoseconds \<times> nanoseconds" where
  "benchMain file env args =
     (case parseFlags benchFlags args noFlags of
        Inl code \<Rightarrow> Inl (exits code [])
      | Inr (fl, []) \<Rightarrow> Inl (exits 1 ''method params...'')
      | Inr (fl, m # clParams) \<Rightarrow>
          (case GuessJsonArray file clParams of
             (_, Some err) \<Rightarrow> Inl (exits 1 ''params error'')
           | (params, None) \<Rightarrow>
               (case headerFlagsParse (headerFlag fl) of
                  Inl err \<Rightarrow> Inl (exits 1 ''err parse header flags'')
                | Inr header \<Rightarrow>
                    Inr (serverUrlOf (serverFlag fl) env ''http://127.0.0.1:9990'', m, params, header,
                         of_int (concurrencyFlag fl), of_int (numFlag fl)))))"

datatype fifo_listen = ListenTCP string | ListenGateway string

definition fifoMain :: "string list \<Rightarrow> tool_run + fifo_listen" where
  "fifoMain args =
     (case parseFlags fifoFlags args noFlags of
        Inl code \<Rightarrow> Inl (exits code [])
      | Inr (fl, rest) \<Rightarrow>
          Inr (if tcpFlag fl \<noteq> [] then ListenTCP (tcpFlag fl)
               else ListenGateway (if bindFlag fl = [] then ''127.0.0.1:6000'' else bindFlag fl)))"

section \<open>Lemmas\<close>

text \<open>The tool once its arguments are good: it calls and prints the message it gets.\<close>

lemma callMain_calls:
  assumes "parseFlags callFlags args noFlags = Inr (fl, m # clParams)" "GuessJsonArray file clParams = (ps, None)"
    and "headerFlagsParse (headerFlag fl) = Inr header"
    and "NewClient authority (serverUrlOf (serverFlag fl) env ''http://127.0.0.1:9990'') [] = Inr (Inr c)"
    and "NewRequestMessage (GStr uuid) m (GList ps) = Inr q"
    and "call (clientSetExtraHeader header c) q w = (Inr (Inr res), w')" "EncodePretty res = Inr repr"
  shows "callMain call file authority env uuid args w =
    (\<lparr>stdout = repr # (if dumpFlag fl then dumpHeader res else []), stderr = [], ended = Exits 0\<rparr>, w')"
  using assms by (simp add: callMain_def cliCall_def prepareCall_def)

lemma NewClient_no_panic: "NewClient authority connectUrl optlist \<noteq> Inl p"
  by (auto simp: NewClient_def NewHttp1Client_def NewWSClient_def NewHttp2Client_def NewTCPClient_def NewVsockClient_def
      Let_def split: sum.splits)

lemma prepareCall_no_panic: "prepareCall file authority connectUrl headerFlags args \<noteq> Inl p"
  by (auto simp: prepareCall_def NewClient_no_panic split: list.splits prod.splits option.splits sum.splits)

lemma prepareCall_method:
  "prepareCall file authority connectUrl headerFlags args = Inr (Inr (c, header, m, params)) \<Longrightarrow> \<exists>clParams. args = m # clParams"
  by (auto simp: prepareCall_def split: list.splits prod.splits option.splits sum.splits)

text \<open>
  How the call tool ends: it exits with 2 for a bad flag and 0 when asked for help; with 1 for wrong arguments or a failed call; it aborts for an
  empty method, before anything is sent, and when the call panics or its answer cannot be printed; and it prints something
  only when it has called and then exits with 0, the answer first.
\<close>

lemma call_tool_ends:
  fixes call :: "('t, 'w) client_call"
  assumes "callMain call file authority env uuid args w = (out, w')"
  shows "case ended out of
      Exits code \<Rightarrow>
        if stdout out = [] then (code = 1 \<or> parseFlags callFlags args noFlags = Inl code \<and> code \<in> {0, 2})
        else code = 0 \<and> (\<exists>c q res. call c q w = (Inr (Inr res), w') \<and> EncodePretty res = Inr (hd (stdout out)))
    | Aborts p \<Rightarrow> stdout out = [] \<and>
        (p = PanicRPC ErrEmptyMethod \<and> w' = w \<and> (\<exists>fl clParams. parseFlags callFlags args noFlags = Inr (fl, [] # clParams)) \<or>
         (\<exists>c q. call c q w = (Inl p, w')) \<or>
         (\<exists>c q res err. call c q w = (Inr (Inr res), w') \<and> EncodePretty res = Inl err \<and> p = PanicMarshal err))"
proof (cases "parseFlags callFlags args noFlags")
  case (Inl code)
  with assms parseFlags_code [OF Inl] show ?thesis by (auto simp: callMain_def exits_def)
next
  case (Inr r)
  obtain fl rest where r: "r = (fl, rest)" by force
  show ?thesis
  proof (cases "cliCall file authority (serverFlag fl) env (headerFlag fl) uuid rest :: go_panic + (string + 't client \<times> http_header \<times> request_message)")
    case (Inl p)
    then have "p = PanicRPC ErrEmptyMethod \<and> (\<exists>clParams. rest = [] # clParams)"
      by (auto simp: cliCall_def prepareCall_no_panic NewRequestMessage_def Let_def dest!: prepareCall_method
        split: sum.splits prod.splits if_splits)
    with assms Inr r Inl show ?thesis by (auto simp: callMain_def aborts_def)
  next
    case res: (Inr res)
    show ?thesis
    proof (cases res)
      case (Inl err)
      with assms Inr r res show ?thesis by (auto simp: callMain_def exits_def)
    next
      case call: (Inr a)
      obtain c header q where a: "a = (c, header, q)" by (cases a)
      obtain got w1 where got: "call (clientSetExtraHeader header c) q w = (got, w1)" by force
      show ?thesis
        using assms Inr r res call a got
        by (auto simp: callMain_def exits_def aborts_def split: sum.splits) blast
    qed
  qed
qed

section \<open>Properties\<close>

text \<open>
  \<^bold>\<open>C23.\<close> The call tool against a server whose handler for the method returns a value prints a text that is read back as
  the result of the call, with its id and that value in the decoder's form, prints nothing else and exits with 0; the handler
  runs once, on the parameters guessed from the arguments, in a request with the header of the flags.
\<close>

theorem call_tool_prints_result:
  fixes c :: "'t http1_client" and other :: "('t, 'w) client_call"
  assumes "parseFlags callFlags args noFlags = Inr (fl, m # clParams)" "GuessJsonArray file clParams = (ps, None)"
    and "headerFlagsParse (headerFlag fl) = Inr header"
    and "NewClient authority (serverUrlOf (serverFlag fl) env ''http://127.0.0.1:9990'') [] = Inr (Inr (Http1Client c))"
    and "url_ok (urlText (serverUrl c))"
    and "NewRequestMessage (GStr uuid) m (GList ps) = Inr q" "sendable (MReq q)"
    and "canon_msg (MReq q) = MReq q'" "reqMethod q' \<noteq> ''rpc.discover''" "route a (reqMethod q') = Some (a', h)"
    and "validateRequest ms (ValidateSchema a') (hschema h) (MReq q') = None"
    and "\<And>r. reqHeader r = request_header [] header \<Longrightarrow>
      callback h (WithHTTPRequest (NewRPCRequest (MReq q') TransportHTTP) r) (reqParams q') w = (Returns (PlainValue v) None, w')"
    and "marshal_ok v" "gdepth v < max_depth"
  shows "\<exists>repr. callMain (httpClientCall url_ok (httpServer ms a) other) file authority env uuid args w =
      (\<lparr>stdout = [repr], stderr = [], ended = Exits 0\<rparr>, w') \<and>
    ParseBytes [] repr = Inr (MRes (rawResultMessage (GStr (to_valid_utf8 uuid)) (canon v) None))"
proof -
  have q: "traceId q = []" "reqId q = GStr uuid" "msg_ok (MReq q)"
    using assms(6) NewRequestMessage_ok [OF assms(6)] by (auto simp: NewRequestMessage_Inr)
  let ?res = "MRes (rawResultMessage (GStr (to_valid_utf8 uuid)) (canon v) None)"
  have call: "Call url_ok (httpNetwork (ServeHTTP ms a)) (SetExtraHeader header c) q w =
     (Inr (MRes \<lparr>kind = MKResult, traceId = traceId q, resId = canon_id (reqId q), resResult = canon v, resHeader = None\<rparr>),
     q\<lparr>traceId := []\<rparr>, snd (connect (SetExtraHeader header c)), w')"
  proof (rule served_call [where P = "\<lambda>r. reqHeader r = request_header [] header" and F = id and w = w, simplified id_apply])
    show "sendable (MReq q)" "msg_ok (MReq q)" by (fact assms q)+
    show "canon_msg (SetTraceId [] (MReq q)) = MReq q'" using assms(8) q by simp
    show "url_ok (urlText (serverUrl (SetExtraHeader header c)))" using assms(5) by (simp add: SetExtraHeader_def)
  next
    fix cr :: client_request
    assume "crHeader cr = request_header (traceId q) (extraHeader (SetExtraHeader header c))"
    then show "\<exists>r. verb r = ''POST'' \<and> reqBody r = Some (crBody cr) \<and> reqHeader r = request_header [] header \<and>
      ServeHTTP ms a (arriving cr) new_writer w = (let (res, w'') = ServeHTTP ms a r new_writer w in (res, w''))"
      using q by (intro exI [of _ "arriving cr"]) (simp add: arriving_def SetExtraHeader_def)
  qed (fact assms)+
  then have sent: "httpClientCall url_ok (httpServer ms a) other (clientSetExtraHeader header (Http1Client c)) q w = (Inr (Inr ?res), w')"
    using q by (simp add: httpClientCall_def httpServer_def raw_defs)
  obtain repr where repr: "EncodePretty ?res = Inr repr" "ParseBytes [] repr = Inr (canon_msg ?res)"
    using pretty_round_trip [of ?res "[]"] canon_wire [OF assms(13)] assms(14) by (auto simp: raw_defs id_ok_def)
  show ?thesis
    using callMain_calls [where call = "httpClientCall url_ok (httpServer ms a) other", OF assms(1-4,6) sent repr(1)] repr(2) canon_wire [OF assms(13)]
    by (intro exI [of _ repr]) (simp add: dumpHeader_def raw_defs to_valid_utf8_idem)
qed

theorem call_tool_prints_result_witness:
  "\<exists>repr. callMain (httpClientCall (\<lambda>u. True) (httpServer (\<lambda>t. Inr []) (one_handler (\<lambda>req ps w. (Returns (PlainValue (GBool True)) None, Suc w))))
       (\<lambda>(c :: nat client) q w. (Inr (Inl (ErrText [])), w))) (\<lambda>p. None) (\<lambda>s r. Inr (''http'', [])) [] ''u''
       [''-c'', ''http://h'', ''-header'', ''A: b'', ''m'', ''true''] 0 = (\<lparr>stdout = [repr], stderr = [], ended = Exits 0\<rparr>, 1) \<and>
     ParseBytes [] repr = Inr (MRes (rawResultMessage (GStr ''u'') (GBool True) None))"
proof -
  let ?h = "\<lparr>callback = (\<lambda>req ps w. (Returns (PlainValue (GBool True)) None, Suc w)), hschema = None\<rparr>"
  let ?a = "Actor True True [(''m'', ?h)] None None []"
  let ?fl = "noFlags\<lparr>serverFlag := ''http://h'', headerFlag := [''A: b'']\<rparr>"
  let ?q = "\<lparr>kind = MKRequest, traceId = [], reqId = GStr ''u'', reqMethod = ''m'', reqParams = [GBool True], reqParamsAreList = True\<rparr>"
  have fl: "parseFlags callFlags [''-c'', ''http://h'', ''-header'', ''A: b'', ''m'', ''true''] noFlags = Inr (?fl, ''m'' # [''true''])"
    by (simp add: parseFlags_value parseFlags_stop callFlags_def clientFlags_def headerFlagsSet_def noFlags_def)
  have guess: "GuessJsonArray (\<lambda>p. None) [''true''] = ([GBool True], None)" by code_simp
  have "headerFlagsParse [''A: b''] = Inr [(''A'', [''b''])]" by code_simp
  then have header: "headerFlagsParse (headerFlag ?fl) = Inr [(''A'', [''b''])]" by simp
  have "urlParse (\<lambda>s r. Inr (''http'', [])) ''http://h'' =
      Inr \<lparr>Scheme = ''http'', urlText = ''http://h'', urlHostname = ''http'', urlPort = []\<rparr>"
    by code_simp
  then obtain c :: "nat http1_client" where
    c: "NewClient (\<lambda>s r. Inr (''http'', [])) (serverUrlOf (serverFlag ?fl) [] ''http://127.0.0.1:9990'') [] = Inr (Inr (Http1Client c))"
    by (simp add: NewClient_def serverUrlOf_def NewHttp1Client_def)
  have q: "NewRequestMessage (GStr ''u'') ''m'' (GList [GBool True]) = Inr ?q" "sendable (MReq ?q)" "canon_msg (MReq ?q) = MReq ?q"
    by (simp_all add: NewRequestMessage_def params_of_def params_value_def to_valid_utf8_ascii_only id_ok_def max_depth_def max_list_def)
  show ?thesis
    using call_tool_prints_result [where url_ok = "\<lambda>u. True" and a = ?a and a' = ?a and h = ?h and ms = "\<lambda>t. Inr []" and w = 0
        and w' = 1 and v = "GBool True" and other = "\<lambda>c q w. (Inr (Inl (ErrText [])), w)", OF fl guess header c _ q(1,2,3)]
    by (simp add: validateRequest_def max_depth_def to_valid_utf8_ascii_only)
qed

end
