(* ===== verification/Typed_Handlers.thy ===== *)
theory Typed_Handlers
  imports Http1_Server
begin

text \<open>
  Typed handlers, \<^verbatim>\<open>net/typewrap.go\<close>: a Go function becomes a request callback that decodes the parameters into the
  types of its arguments. Types are what \<^verbatim>\<open>reflect\<close> tells the code of them. A function value is a record of its types
  and of its behaviour on argument values of a type \<open>'v\<close>. The library \<^verbatim>\<open>mapstructure\<close> is an argument.
\<close>

section \<open>Types and functions\<close>

datatype go_type =
    TStruct string                           \<comment> \<open>with its name\<close>
  | TPtr go_type
  | TInterface string "string list"          \<comment> \<open>with the interfaces it includes\<close>
  | TOther string

primrec typeString :: "go_type \<Rightarrow> string" where
  "typeString (TStruct n) = n"
| "typeString (TPtr t) = CHR ''*'' # typeString t"
| "typeString (TInterface n is) = n"
| "typeString (TOther n) = n"

primrec typeIsStruct :: "go_type \<Rightarrow> bool" where
  "typeIsStruct (TStruct n) = True"
| "typeIsStruct (TPtr t) = typeIsStruct t"
| "typeIsStruct (TInterface n is) = False"
| "typeIsStruct (TOther n) = False"

datatype 'v arg = ArgRequest rpc_request | ArgContext rpc_request | ArgValue 'v

text \<open>
  What a call gives: the values returned, the second as \<^verbatim>\<open>Interface()\<close> gives it, or a panic. \<open>implementsError\<close> is whether the
  second type returned implements \<^verbatim>\<open>error\<close>.
\<close>

datatype 'v call_result = CallReturns 'v "go_error option" | CallPanics panic_value

record ('v, 'w) go_func =
  inTypes :: "go_type list"
  outTypes :: "go_type list"
  implementsError :: bool
  callFunc :: "'v arg list \<Rightarrow> 'w \<Rightarrow> 'v call_result \<times> 'w"

text \<open>\<^verbatim>\<open>mapstructure\<close>: into a variable of a type (\<open>None\<close> is the zero \<^verbatim>\<open>reflect.Value\<close>), and from a value to a map or back to \<^verbatim>\<open>any\<close>.\<close>

record 'v mapstructure =
  decodeInto :: "go_type \<Rightarrow> gval \<Rightarrow> go_error + 'v option"
  decodeMap :: "'v \<Rightarrow> go_error + gval"
  decodeAny :: "go_type \<Rightarrow> 'v \<Rightarrow> go_error + gval"

definition interfaceToValue :: "'v mapstructure \<Rightarrow> gval \<Rightarrow> go_type \<Rightarrow> go_error + 'v option" where
  "interfaceToValue lib a outputType = decodeInto lib outputType a"

definition valueToInterface :: "'v mapstructure \<Rightarrow> go_type \<Rightarrow> 'v \<Rightarrow> go_error + gval" where
  "valueToInterface lib tp v = (if typeIsStruct tp then decodeMap lib v else decodeAny lib tp v)"

section \<open>The first argument\<close>

datatype first_arg_spec = ReqSpec | ContextSpec

definition specString :: "first_arg_spec \<Rightarrow> string" where
  "specString spec = (case spec of ReqSpec \<Rightarrow> ''*jsoffnet.RPCRequest'' | ContextSpec \<Rightarrow> ''context.Context'')"

definition specCheck :: "first_arg_spec \<Rightarrow> go_type \<Rightarrow> bool" where
  "specCheck spec t =
     (case spec of
        ReqSpec \<Rightarrow> (case t of TPtr _ \<Rightarrow> typeString t = specString ReqSpec | _ \<Rightarrow> False)
      | ContextSpec \<Rightarrow> (case t of TInterface n is \<Rightarrow> ''context.Context'' \<in> set (n # is) | _ \<Rightarrow> False))"

definition specValue :: "first_arg_spec \<Rightarrow> rpc_request \<Rightarrow> 'v arg" where
  "specValue spec req = (case spec of ReqSpec \<Rightarrow> ArgRequest req | ContextSpec \<Rightarrow> ArgContext req)"

section \<open>The wrapper\<close>

text \<open>The arguments from position \<open>i\<close> on, \<open>None\<close> standing for a value that a call panics on; an error names the position.\<close>

fun typedArgs :: "'v mapstructure \<Rightarrow> nat \<Rightarrow> go_type list \<Rightarrow> gval list \<Rightarrow> rpc_error + 'v arg option list" where
  "typedArgs lib i [] params = Inr []"
| "typedArgs lib i (argType # ts) [] = Inl (ParamsError [])"
| "typedArgs lib i (argType # ts) (param # params) =
     (case interfaceToValue lib param argType of
        Inl err \<Rightarrow> Inl (ParamsError (''params '' @ show_nat (i + 1) @ '' decode''))
      | Inr argValue \<Rightarrow> map_sum id (Cons (map_option ArgValue argValue)) (typedArgs lib (i + 1) ts params))"

definition typedHandler ::
  "'v mapstructure \<Rightarrow> ('v, 'w) go_func \<Rightarrow> first_arg_spec option \<Rightarrow> 'w request_callback" where
  "typedHandler lib tfunc spec req params w =
     (let firstArgNum = (if spec = None then 0 else 1) in
      if length (inTypes tfunc) > length params + firstArgNum
      then (Returns (PlainValue GNil) (Some (ErrRPC (ParamsError ''no enough params size''))), w)
      else
        let first = (case spec of None \<Rightarrow> [] | Some sp \<Rightarrow> [Some (specValue sp req)]) in
        case typedArgs lib firstArgNum (drop firstArgNum (inTypes tfunc)) params of
          Inl err \<Rightarrow> (Returns (PlainValue GNil) (Some (ErrRPC err)), w)
        | Inr fnArgs \<Rightarrow>
            if None \<in> set (first @ fnArgs) then (Panics PanicOther, w)
            else case callFunc tfunc (map the (first @ fnArgs)) w of
              (CallPanics p, w') \<Rightarrow> (Panics p, w')
            | (CallReturns v (Some err), w') \<Rightarrow> (Returns (PlainValue GNil) (Some err), w')
            | (CallReturns v None, w') \<Rightarrow>
                (case valueToInterface lib (hd (outTypes tfunc)) v of
                   Inl err \<Rightarrow> (Returns (PlainValue GNil) (Some err), w')
                 | Inr res \<Rightarrow> (Returns (PlainValue res) None, w')))"

text \<open>\<open>None\<close> for the function: \<^verbatim>\<open>tfunc\<close> is of another kind.\<close>

definition wrapTyped ::
  "'v mapstructure \<Rightarrow> ('v, 'w) go_func option \<Rightarrow> first_arg_spec option \<Rightarrow> go_error + 'w request_callback" where
  "wrapTyped lib tf spec =
     (case tf of
        None \<Rightarrow> Inl (ErrText ''tfunc is not func type'')
      | Some tfunc \<Rightarrow>
          (case (case spec of
                   None \<Rightarrow> None
                 | Some sp \<Rightarrow>
                     (case inTypes tfunc of
                        [] \<Rightarrow> Some ''func must have 1 more arguments''
                      | firstArgType # _ \<Rightarrow>
                          if \<not> specCheck sp firstArgType then Some (''the first arg must be '' @ specString sp) else None)) of
             Some reason \<Rightarrow> Inl (ErrText reason)
           | None \<Rightarrow>
               if length (outTypes tfunc) \<noteq> 2 then Inl (ErrText ''func return number must be 2'')
               else if \<not> implementsError tfunc then Inl (ErrText ''second output does not implement error'')
               else Inr (typedHandler lib tfunc spec)))"

section \<open>Registration\<close>

definition OnTyped ::
  "'v mapstructure \<Rightarrow> string \<Rightarrow> ('v, 'w) go_func option \<Rightarrow> 'w handler_setter list \<Rightarrow> 'w actor \<Rightarrow> panic_value + 'w actor" where
  "OnTyped lib name tf setters a =
     (case wrapTyped lib tf None of
        Inl err \<Rightarrow> Inl (PanicError err)
      | Inr handler \<Rightarrow> map_sum PanicError id (OnRequest name handler setters a))"

definition OnTypedRequest ::
  "'v mapstructure \<Rightarrow> string \<Rightarrow> ('v, 'w) go_func option \<Rightarrow> 'w handler_setter list \<Rightarrow> 'w actor \<Rightarrow> go_error + 'w actor" where
  "OnTypedRequest lib name tf setters a =
     (case wrapTyped lib tf (Some ReqSpec) of Inl err \<Rightarrow> Inl err | Inr handler \<Rightarrow> OnRequest name handler setters a)"

definition OnTypedContext ::
  "'v mapstructure \<Rightarrow> string \<Rightarrow> ('v, 'w) go_func option \<Rightarrow> 'w handler_setter list \<Rightarrow> 'w actor \<Rightarrow> go_error + 'w actor" where
  "OnTypedContext lib name tf setters a =
     (case wrapTyped lib tf (Some ContextSpec) of Inl err \<Rightarrow> Inl err | Inr handler \<Rightarrow> OnRequest name handler setters a)"

section \<open>Lemmas\<close>

abbreviation firstCount :: "first_arg_spec option \<Rightarrow> nat" where
  "firstCount spec \<equiv> (if spec = None then 0 else 1)"

text \<open>The types that parameters are decoded into, and the argument in front.\<close>

definition paramTypes :: "('v, 'w) go_func \<Rightarrow> first_arg_spec option \<Rightarrow> go_type list" where
  "paramTypes f spec = drop (firstCount spec) (inTypes f)"

definition firstArgs :: "first_arg_spec option \<Rightarrow> rpc_request \<Rightarrow> 'v arg list" where
  "firstArgs spec req = (case spec of None \<Rightarrow> [] | Some sp \<Rightarrow> [specValue sp req])"

text \<open>Arguments are decoded from left to right; the first that does not decode decides the error.\<close>

lemma typedArgs_ok:
  assumes "length ts \<le> length ps" "\<forall>i < length ts. decodeInto lib (ts ! i) (ps ! i) = Inr (vs ! i)" "length vs = length ts"
  shows "typedArgs lib n ts ps = Inr (map (map_option ArgValue) vs)"
  using assms
proof (induction lib n ts ps arbitrary: vs rule: typedArgs.induct)
  case (3 lib n t ts p ps)
  then obtain v vs' where vs: "vs = v # vs'" by (cases vs) auto
  have "decodeInto lib t p = Inr v" using 3(3) vs by force
  moreover have "\<forall>i < length ts. decodeInto lib (ts ! i) (ps ! i) = Inr (vs' ! i)" using 3(3) vs by force
  ultimately show ?case using 3(1) [of v vs'] 3(2,4) vs by (simp add: interfaceToValue_def)
qed auto

lemma typedArgs_error:
  assumes "i < length ts" "i < length ps" "decodeInto lib (ts ! i) (ps ! i) = Inl e"
  shows "\<exists>reason. typedArgs lib n ts ps = Inl (ParamsError reason)"
  using assms
proof (induction lib n ts ps arbitrary: i rule: typedArgs.induct)
  case (3 lib n t ts p ps)
  show ?case
  proof (cases "interfaceToValue lib p t")
    case (Inr v)
    then obtain j where "i = Suc j" using 3(4) by (cases i) (auto simp: interfaceToValue_def)
    with 3(1) [OF Inr, of j] 3(2-4) Inr show ?thesis by auto
  qed (simp, blast)
qed auto

lemma typedHandler_calls:
  assumes "length (paramTypes f spec) \<le> length ps" "firstCount spec \<le> length (inTypes f)"
    and "\<forall>i < length (paramTypes f spec). decodeInto lib (paramTypes f spec ! i) (ps ! i) = Inr (vs ! i)"
    and "length vs = length (paramTypes f spec)"
  shows "typedHandler lib f spec req ps w =
    (if None \<in> set vs then (Panics PanicOther, w)
     else case callFunc f (firstArgs spec req @ map (ArgValue \<circ> the) vs) w of
       (CallPanics p, w') \<Rightarrow> (Panics p, w')
     | (CallReturns v (Some err), w') \<Rightarrow> (Returns (PlainValue GNil) (Some err), w')
     | (CallReturns v None, w') \<Rightarrow>
         (case valueToInterface lib (hd (outTypes f)) v of
            Inl err \<Rightarrow> (Returns (PlainValue GNil) (Some err), w')
          | Inr res \<Rightarrow> (Returns (PlainValue res) None, w')))"
proof -
  have the: "map (the \<circ> map_option ArgValue) vs = map (ArgValue \<circ> the) vs" if "None \<notin> set vs"
    using that by (auto intro!: option.map_sel) (metis not_None_eq)
  have mem: "None \<in> set (map (map_option ArgValue) vs) \<longleftrightarrow> None \<in> set vs" by auto
  have enough: "\<not> length ps + firstCount spec < length (inTypes f)"
    using assms(1,2) by (auto simp: paramTypes_def split: if_splits)
  have first: "(case spec of None \<Rightarrow> [] | Some sp \<Rightarrow> [Some (specValue sp req)]) = map Some (firstArgs spec req)"
    by (simp add: firstArgs_def split: option.split)
  have args: "typedArgs lib (firstCount spec) (drop (firstCount spec) (inTypes f)) ps = Inr (map (map_option ArgValue) vs)"
    using typedArgs_ok [OF assms(1,3,4)] by (simp add: paramTypes_def)
  have unset: "None \<in> set (map Some (firstArgs spec req) @ map (map_option ArgValue) vs) \<longleftrightarrow> None \<in> set vs"
    using mem by auto
  have vals: "map the (map Some (firstArgs spec req) @ map (map_option ArgValue) vs) = firstArgs spec req @ map (ArgValue \<circ> the) vs"
    if "None \<notin> set vs"
    using the [OF that] by (simp add: comp_def)
  show ?thesis
    unfolding typedHandler_def Let_def first args if_not_P [OF enough] sum.case unset
    by (rule if_cong [OF refl refl]) (simp only: vals not_False_eq_True)
qed

lemma typedHandler_refuses:
  assumes "length ps < length (paramTypes f spec) \<or>
    (\<exists>i e. i < length (paramTypes f spec) \<and> i < length ps \<and> decodeInto lib (paramTypes f spec ! i) (ps ! i) = Inl e)"
  shows "\<exists>reason. typedHandler lib f spec req ps w = (Returns (PlainValue GNil) (Some (ErrRPC (ParamsError reason))), w)"
proof (cases "length ps < length (paramTypes f spec)")
  case True
  then have "length (inTypes f) > length ps + firstCount spec" by (simp add: paramTypes_def split: if_splits)
  then show ?thesis by (auto simp: typedHandler_def)
next
  case False
  then obtain reason where "typedArgs lib (firstCount spec) (paramTypes f spec) ps = Inl (ParamsError reason)"
    using assms typedArgs_error by metis
  with False show ?thesis by (cases spec) (auto simp: typedHandler_def paramTypes_def)
qed

lemma wrapTyped_Inr:
  "wrapTyped lib tf spec = Inr cb \<longleftrightarrow>
     (\<exists>f. tf = Some f \<and> cb = typedHandler lib f spec \<and> length (outTypes f) = 2 \<and> implementsError f \<and>
       (\<forall>sp. spec = Some sp \<longrightarrow> inTypes f \<noteq> [] \<and> specCheck sp (hd (inTypes f))))"
  by (auto simp: wrapTyped_def split: option.splits list.splits if_splits)

lemma OnRequest_route:
  assumes "OnRequest m cb [] a = Inr a'"
  shows "route a' m = Some (a', \<lparr>callback = cb, hschema = None\<rparr>)" "RecoverFromPanic a' = RecoverFromPanic a"
proof -
  have a': "a' = set_handlers (AList.update m \<lparr>callback = cb, hschema = None\<rparr> (methodHandlers a)) a"
    using assms by (simp add: OnRequest_def split: if_splits)
  show "route a' m = Some (a', \<lparr>callback = cb, hschema = None\<rparr>)"
    by (rule route_own) (simp add: a' update_conv')
  show "RecoverFromPanic a' = RecoverFromPanic a" by (simp add: a' set_handlers_def)
qed

text \<open>A request for a typed handler without a schema.\<close>

lemma Feed_typed:
  assumes "OnRequest (reqMethod q) cb [] a = Inr a'" "msg req = MReq q" "msg_ok (MReq q)"
  shows "Feed a' ms req w = recoverCall (RecoverFromPanic a) (MReq q) (cb req (reqParams q) w)"
  using Feed_callback [OF assms(2,3) OnRequest_route(1) [OF assms(1)], of ms w] OnRequest_route(2) [OF assms(1)]
  by (simp add: validateRequest_def)

section \<open>Properties\<close>

text \<open>A library and a function for the examples: the function takes an integer and gives it back, counting its calls.\<close>

definition int_lib :: "gval mapstructure" where
  "int_lib =
     \<lparr>decodeInto = (\<lambda>t v. case v of GInt i \<Rightarrow> Inr (Some v) | GNil \<Rightarrow> Inr None | _ \<Rightarrow> Inl (ErrText ''expected type int'')),
      decodeMap = Inr, decodeAny = (\<lambda>t. Inr)\<rparr>"

definition int_func :: "(gval, nat) go_func" where
  "int_func =
     \<lparr>inTypes = [TOther ''int''], outTypes = [TOther ''int'', TInterface ''error'' []], implementsError = True,
      callFunc = (\<lambda>args w. (CallReturns (case args of ArgValue v # _ \<Rightarrow> v | _ \<Rightarrow> GNil) None, Suc w))\<rparr>"

abbreviation get_call :: "gval list \<Rightarrow> request_message" where
  "get_call ps \<equiv> \<lparr>kind = MKRequest, traceId = [], reqId = GInt 1, reqMethod = ''get'', reqParams = ps, reqParamsAreList = True\<rparr>"

lemma int_func_registered:
  obtains a' where "wrapTyped int_lib (Some int_func) None = Inr (typedHandler int_lib int_func None)"
    "OnRequest ''get'' (typedHandler int_lib int_func None) [] NewActor = Inr a'"
    "OnTyped int_lib ''get'' (Some int_func) [] NewActor = Inr a'"
  by (rule that) (simp_all add: OnTyped_def wrapTyped_def int_func_def OnRequest_def NewActor_def)

lemmas int_eval = int_lib_def int_func_def paramTypes_def firstArgs_def valueToInterface_def params_ok_def

text \<open>
  \<^bold>\<open>C27.\<close> A typed handler of any of the three registrations: a request whose parameters decode into the types of the function runs
  the function once on the decoded values, after the request or its context where the function takes one, and is answered
  with the encoded value it returns; parameters beyond the arguments are ignored.
\<close>

theorem typed_call_result:
  assumes "wrapTyped lib (Some f) spec = Inr cb" "OnRequest (reqMethod q) cb [] a = Inr a'"
    and "msg req = MReq q" "msg_ok (MReq q)" "length (paramTypes f spec) \<le> length (reqParams q)"
    and "\<forall>i < length (paramTypes f spec). decodeInto lib (paramTypes f spec ! i) (reqParams q ! i) = Inr (Some (vs ! i))"
    and "length vs = length (paramTypes f spec)"
    and "callFunc f (firstArgs spec req @ map ArgValue vs) w = (CallReturns v None, w')"
    and "valueToInterface lib (hd (outTypes f)) v = Inr res"
  shows "\<exists>m. Feed a' ms req w = (Fed (Some (MRes m)) None, w') \<and> msg_ok (MRes m) \<and> answers (MRes m) (MReq q) \<and> resResult m = res"
proof -
  have cb: "cb = typedHandler lib f spec" "firstCount spec \<le> length (inTypes f)"
    using assms(1) by (auto simp: wrapTyped_Inr Suc_le_eq)
  have "cb req (reqParams q) w = (Returns (PlainValue res) None, w')"
    unfolding cb(1) using typedHandler_calls [OF assms(5) cb(2), of lib "map Some vs" req w] assms(6-9)
    by (simp add: comp_def image_iff)
  then show ?thesis
    using Feed_typed [OF assms(2-4), of ms w]
    by (simp add: recoverCall_def wrapResult_def IsRequest_MReq [OF assms(4)] NewResultMessage_def answers_def raw_defs)
qed

theorem typed_call_result_witness:
  "\<exists>a' m. OnTyped int_lib ''get'' (Some int_func) [] NewActor = Inr a' \<and>
     Feed a' (\<lambda>t. Inr []) (NewRPCRequest (MReq (get_call [GInt 7, GStr ''more''])) TransportHTTP) 0 = (Fed (Some (MRes m)) None, 1) \<and>
     resResult m = GInt 7"
proof -
  obtain a' where a': "wrapTyped int_lib (Some int_func) None = Inr (typedHandler int_lib int_func None)"
    "OnRequest ''get'' (typedHandler int_lib int_func None) [] NewActor = Inr a'"
    "OnTyped int_lib ''get'' (Some int_func) [] NewActor = Inr a'"
    by (rule int_func_registered)
  show ?thesis
    using typed_call_result [OF a'(1), of "get_call [GInt 7, GStr ''more'']" NewActor a'
        "NewRPCRequest (MReq (get_call [GInt 7, GStr ''more''])) TransportHTTP" "[GInt 7]" 0 "GInt 7" 1 "GInt 7" "\<lambda>t. Inr []"] a'(2,3)
    by (auto simp: int_eval NewRPCRequest_def)
qed

lemma typed_refuses:
  assumes "wrapTyped lib (Some f) spec = Inr cb" "OnRequest (reqMethod q) cb [] a = Inr a'"
    and "msg req = MReq q" "msg_ok (MReq q)"
    and "length (reqParams q) < length (paramTypes f spec) \<or>
      (\<exists>i e. i < length (paramTypes f spec) \<and> i < length (reqParams q) \<and>
        decodeInto lib (paramTypes f spec ! i) (reqParams q ! i) = Inl e)"
  shows "\<exists>m e. Feed a' ms req w = (Fed (Some (MErr m)) None, w) \<and> answers (MErr m) (MReq q) \<and> errError m = Some e \<and> Code e = -32602"
proof -
  have cb: "cb = typedHandler lib f spec" using assms(1) by (auto simp: wrapTyped_Inr)
  obtain reason where out: "cb req (reqParams q) w = (Returns (PlainValue GNil) (Some (ErrRPC (ParamsError reason))), w)"
    unfolding cb using typedHandler_refuses [OF assms(5)] by blast
  obtain m where "ToMessage (ParamsError reason) q = Inr m" "answers (MErr m) (MReq q)" "errError m = Some (ParamsError reason)"
    using ToMessage_answers by blast
  then show ?thesis
    using Feed_typed [OF assms(2-4), of ms w] out
    by (simp add: recoverCall_def wrapResult_def IsRequest_MReq [OF assms(4)] reply_def ParamsError_def mk_error_def)
qed

text \<open>
  The server of the README registers \<^verbatim>\<open>func(req *RPCRequest, text string)\<close> by \<^verbatim>\<open>OnTyped("echo", ...)\<close> and shows a call with one parameter
  that is answered with a result. \<^verbatim>\<open>OnTyped\<close> takes the request for a parameter like the others, so this call is refused, as too short;
  the registration that gives the function the request is \<^verbatim>\<open>OnTypedRequest\<close>.
\<close>

lemma readme_echo_refused:
  assumes "OnTyped lib ''echo'' (Some f) [] NewActor = Inr a'" "inTypes f = [requestType, textType]"
    and "msg req = MReq q" "msg_ok (MReq q)" "reqMethod q = ''echo''" "reqParams q = [p]"
  shows "\<exists>m e. Feed a' ms req w = (Fed (Some (MErr m)) None, w) \<and> answers (MErr m) (MReq q) \<and> errError m = Some e \<and> Code e = -32602"
proof -
  obtain cb where "wrapTyped lib (Some f) None = Inr cb" "OnRequest (reqMethod q) cb [] NewActor = Inr a'"
    using assms(1,5) by (auto simp: OnTyped_def split: sum.splits)
  then show ?thesis by (rule typed_refuses [OF _ _ assms(3,4)]) (simp add: assms paramTypes_def)
qed

text \<open>
  \<^bold>\<open>C28.\<close> A request with fewer parameters than the function has arguments that take one, or with one that does not decode into the
  type of its argument, is answered with an invalid-params error under its id, and the function is not called. For a function registered
  by \<^verbatim>\<open>OnTyped\<close> every argument takes a parameter, also a first one of the request's type.
\<close>

theorem typed_call_bad_params:
  assumes "wrapTyped lib (Some f) spec = Inr cb" "OnRequest (reqMethod q) cb [] a = Inr a'"
    and "msg req = MReq q" "msg_ok (MReq q)"
    and "length (reqParams q) < length (paramTypes f spec) \<or>
      (\<exists>i e. i < length (paramTypes f spec) \<and> i < length (reqParams q) \<and>
        decodeInto lib (paramTypes f spec ! i) (reqParams q ! i) = Inl e)"
  shows "\<exists>m e. Feed a' ms req w = (Fed (Some (MErr m)) None, w) \<and> answers (MErr m) (MReq q) \<and> errError m = Some e \<and> Code e = -32602"
  using assms by (rule typed_refuses)

theorem typed_call_bad_params_witness:
  "\<exists>a' m e. OnTyped int_lib ''get'' (Some int_func) [] NewActor = Inr a' \<and>
     Feed a' (\<lambda>t. Inr []) (NewRPCRequest (MReq (get_call [GStr ''x''])) TransportHTTP) 0 = (Fed (Some (MErr m)) None, 0) \<and>
     errError m = Some e \<and> Code e = -32602"
proof -
  obtain a' where a': "wrapTyped int_lib (Some int_func) None = Inr (typedHandler int_lib int_func None)"
    "OnRequest ''get'' (typedHandler int_lib int_func None) [] NewActor = Inr a'"
    "OnTyped int_lib ''get'' (Some int_func) [] NewActor = Inr a'"
    by (rule int_func_registered)
  show ?thesis
    using typed_call_bad_params [OF a'(1), of "get_call [GStr ''x'']" NewActor a'
        "NewRPCRequest (MReq (get_call [GStr ''x''])) TransportHTTP" "\<lambda>t. Inr []" 0] a'(2,3)
    by (auto simp: int_eval NewRPCRequest_def)
qed

text \<open>
  A parameter for which the library leaves the variable unset, as it does for a null into an argument of an interface
  type, makes the call of the function panic with a value that is no error: the actor does not recover it.
\<close>

theorem typed_call_unset_param_panics:
  assumes "wrapTyped lib (Some f) spec = Inr cb" "OnRequest (reqMethod q) cb [] a = Inr a'"
    and "msg req = MReq q" "msg_ok (MReq q)" "length (paramTypes f spec) \<le> length (reqParams q)"
    and "\<forall>i < length (paramTypes f spec). decodeInto lib (paramTypes f spec ! i) (reqParams q ! i) = Inr (vs ! i)"
    and "length vs = length (paramTypes f spec)" "None \<in> set vs"
  shows "Feed a' ms req w = (FeedPanic PanicOther, w)"
proof -
  have cb: "cb = typedHandler lib f spec" "firstCount spec \<le> length (inTypes f)"
    using assms(1) by (auto simp: wrapTyped_Inr Suc_le_eq)
  have "cb req (reqParams q) w = (Panics PanicOther, w)"
    unfolding cb(1) using typedHandler_calls [OF assms(5) cb(2) assms(6,7), of req w] assms(8) by simp
  then show ?thesis using Feed_typed [OF assms(2-4), of ms w] by (simp add: recoverCall_def)
qed

theorem typed_call_unset_param_panics_witness:
  "\<exists>a'. OnTyped int_lib ''get'' (Some int_func) [] NewActor = Inr a' \<and> RecoverFromPanic a' \<and>
     Feed a' (\<lambda>t. Inr []) (NewRPCRequest (MReq (get_call [GNil])) TransportHTTP) 0 = (FeedPanic PanicOther, 0)"
proof -
  obtain a' where a': "wrapTyped int_lib (Some int_func) None = Inr (typedHandler int_lib int_func None)"
    "OnRequest ''get'' (typedHandler int_lib int_func None) [] NewActor = Inr a'"
    "OnTyped int_lib ''get'' (Some int_func) [] NewActor = Inr a'"
    by (rule int_func_registered)
  have "RecoverFromPanic a'" using OnRequest_route(2) [OF a'(2)] by (simp add: NewActor_def)
  then show ?thesis
    using typed_call_unset_param_panics [OF a'(1), of "get_call [GNil]" NewActor a'
        "NewRPCRequest (MReq (get_call [GNil])) TransportHTTP" "[None]" "\<lambda>t. Inr []" 0] a'(2,3)
    by (auto simp: int_eval NewRPCRequest_def)
qed

end
