(* ===== verification/Params.thy ===== *)
theory Params
  imports Typed_Handlers
begin

text \<open>
  \<^verbatim>\<open>DecodeParams\<close> of \<^verbatim>\<open>utils.go\<close>: parameters by position become the exported fields of a struct. A struct value maps the index
  of a field, as \<^verbatim>\<open>reflect.VisibleFields\<close> gives it, to the field's value; the fields of an embedded struct are
  fields of their own here. \<^verbatim>\<open>mapstructure\<close> is the argument it is for typed handlers.
\<close>

record struct_field =
  fieldIndex :: "nat list"
  fieldType :: go_type
  IsExported :: bool

text \<open>What \<^verbatim>\<open>outputPtr\<close> is: a nil interface, no pointer, a pointer to something else, or a pointer to a struct.\<close>

datatype 'v output_ptr =
    OutNil
  | OutValue
  | OutPointer
  | OutStruct "struct_field list" "nat list \<Rightarrow> 'v"

text \<open>The loop; \<open>None\<close> for a decoded value is the zero \<^verbatim>\<open>reflect.Value\<close>, on which \<^verbatim>\<open>Set\<close> panics.\<close>

fun setFields ::
  "'v mapstructure \<Rightarrow> gval list \<Rightarrow> struct_field list \<Rightarrow> (nat list \<Rightarrow> 'v) \<Rightarrow> (go_panic + go_error option) \<times> (nat list \<Rightarrow> 'v)" where
  "setFields lib params [] s = (Inr None, s)"
| "setFields lib params (field # fs) s =
     (if \<not> IsExported field then setFields lib params fs s
      else case params of
        [] \<Rightarrow> setFields lib [] fs s
      | param # rest \<Rightarrow>
          (case decodeInto lib (fieldType field) param of
             Inl err \<Rightarrow> (Inr (Some (ErrWrap ''mapstruct.Decode'' err)), s)
           | Inr None \<Rightarrow> (Inl (PanicText ''reflect.Set''), s)
           | Inr (Some ov) \<Rightarrow> setFields lib rest fs (s(fieldIndex field := ov))))"

definition DecodeParams :: "'v mapstructure \<Rightarrow> gval list \<Rightarrow> 'v output_ptr \<Rightarrow> (go_panic + go_error option) \<times> 'v output_ptr" where
  "DecodeParams lib params outputPtr =
     (case outputPtr of
        OutNil \<Rightarrow> (Inl NilDereference, outputPtr)
      | OutValue \<Rightarrow> (Inr (Some (ErrText ''output is not a pointer'')), outputPtr)
      | OutPointer \<Rightarrow> (Inr (Some (ErrText ''output is not pointer of struct'')), outputPtr)
      | OutStruct fs s \<Rightarrow> map_prod id (OutStruct fs) (setFields lib params fs s))"

section \<open>Properties\<close>

text \<open>The exported fields that get a parameter, each with its own.\<close>

definition paired :: "struct_field list \<Rightarrow> gval list \<Rightarrow> (struct_field \<times> gval) list" where
  "paired fs params = zip (filter IsExported fs) params"

lemma paired_simps [simp]:
  "paired [] params = []" "\<not> IsExported f \<Longrightarrow> paired (f # fs) params = paired fs params"
  "paired fs [] = []" "IsExported f \<Longrightarrow> paired (f # fs) (p # ps) = (f, p) # paired fs ps"
  by (simp_all add: paired_def)

definition decoded :: "'v mapstructure \<Rightarrow> struct_field \<times> gval \<Rightarrow> 'v option" where
  "decoded lib fp = (case decodeInto lib (fieldType (fst fp)) (snd fp) of Inr v \<Rightarrow> v | Inl _ \<Rightarrow> None)"

text \<open>
  What the loop has done: the fields of a prefix of the pairs hold their decoded parameters and no other field has changed; there
  is nothing after the prefix, or a parameter that does not decode, or one that leaves its variable unset.
\<close>

definition fields_set ::
  "'v mapstructure \<Rightarrow> (struct_field \<times> gval) list \<Rightarrow> (nat list \<Rightarrow> 'v) \<Rightarrow> (go_panic + go_error option) \<times> (nat list \<Rightarrow> 'v) \<Rightarrow> bool" where
  "fields_set lib pairs s r \<longleftrightarrow>
     (\<exists>done rest. pairs = done @ rest \<and> list_all (\<lambda>fp. decoded lib fp \<noteq> None) done \<and>
        (\<forall>i. snd r i = (case map_of (map (\<lambda>fp. (fieldIndex (fst fp), the (decoded lib fp))) done) i of Some v \<Rightarrow> v | None \<Rightarrow> s i)) \<and>
        (case rest of
           [] \<Rightarrow> fst r = Inr None
         | fp # _ \<Rightarrow>
             decoded lib fp = None \<and>
             fst r = (case decodeInto lib (fieldType (fst fp)) (snd fp) of
                Inl err \<Rightarrow> Inr (Some (ErrWrap ''mapstruct.Decode'' err)) | Inr _ \<Rightarrow> Inl (PanicText ''reflect.Set''))))"

lemma fields_set_stop:
  assumes "decoded lib fp = None"
    and "x = (case decodeInto lib (fieldType (fst fp)) (snd fp) of
                Inl err \<Rightarrow> Inr (Some (ErrWrap ''mapstruct.Decode'' err)) | Inr _ \<Rightarrow> Inl (PanicText ''reflect.Set''))"
  shows "fields_set lib (fp # pairs) s (x, s)"
  unfolding fields_set_def using assms
  by (intro exI [of _ "[]"] exI [of _ "fp # pairs"]) simp

lemma fields_set_step:
  assumes "fields_set lib pairs (s(i := v)) r" "decoded lib fp = Some v" "fieldIndex (fst fp) = i"
    and "i \<notin> (\<lambda>fp. fieldIndex (fst fp)) ` set pairs"
  shows "fields_set lib (fp # pairs) s r"
proof -
  obtain ds rest where d: "pairs = ds @ rest" "list_all (\<lambda>fp. decoded lib fp \<noteq> None) ds"
    "\<forall>j. snd r j = (case map_of (map (\<lambda>fp. (fieldIndex (fst fp), the (decoded lib fp))) ds) j of
        Some v \<Rightarrow> v | None \<Rightarrow> (s(i := v)) j)"
    "case rest of
       [] \<Rightarrow> fst r = Inr None
     | fp # _ \<Rightarrow>
         decoded lib fp = None \<and>
         fst r = (case decodeInto lib (fieldType (fst fp)) (snd fp) of
            Inl err \<Rightarrow> Inr (Some (ErrWrap ''mapstruct.Decode'' err)) | Inr _ \<Rightarrow> Inl (PanicText ''reflect.Set''))"
    using assms(1) unfolding fields_set_def by blast
  have "i \<notin> (\<lambda>fp. fieldIndex (fst fp)) ` set ds" using assms(4) d(1) by auto
  then have "map_of (map (\<lambda>fp. (fieldIndex (fst fp), the (decoded lib fp))) ds) i = None"
    by (auto simp: map_of_eq_None_iff image_iff)
  then have "snd r j = (case map_of (map (\<lambda>fp. (fieldIndex (fst fp), the (decoded lib fp))) (fp # ds)) j of
      Some v \<Rightarrow> v | None \<Rightarrow> s j)" for j
    using d(3) [rule_format, of j] assms(2,3) by (cases "j = i") (simp_all split: option.split)
  with d(1,2,4) assms(2) show ?thesis
    unfolding fields_set_def by (intro exI [of _ "fp # ds"] exI [of _ rest]) simp
qed

lemma setFields_set:
  "distinct (map fieldIndex fs) \<Longrightarrow> fields_set lib (paired fs params) s (setFields lib params fs s)"
proof (induction lib params fs s rule: setFields.induct)
  case (1 lib params s)
  show ?case by (simp add: fields_set_def)
next
  case (2 lib params field fs s)
  consider (hidden) "\<not> IsExported field" | (short) "IsExported field" "params = []"
    | (param) param ps where "IsExported field" "params = param # ps" by (cases params) auto
  then show ?case
  proof cases
    case hidden
    then show ?thesis using "2.IH"(1) "2.prems" by simp
  next
    case short
    then show ?thesis using "2.IH"(2) "2.prems" by simp
  next
    case param
    show ?thesis
    proof (cases "decoded lib (field, param)")
      case None
      with param show ?thesis
        using fields_set_stop [OF None refl] by (auto simp: decoded_def split: sum.splits option.splits)
    next
      case (Some ov)
      then have dec: "decodeInto lib (fieldType field) param = Inr (Some ov)"
        by (auto simp: decoded_def split: sum.splits)
      have "set (map fst (paired fs ps)) \<subseteq> set fs"
        using set_zip_leftD by (fastforce simp: paired_def)
      then have "fieldIndex field \<notin> (\<lambda>fp. fieldIndex (fst fp)) ` set (paired fs ps)"
        using "2.prems" by force
      moreover have "fields_set lib (paired fs ps) (s(fieldIndex field := ov)) (setFields lib ps fs (s(fieldIndex field := ov)))"
        by (rule "2.IH"(3) [OF _ param(2) dec refl]) (use "2.prems" param(1) in simp_all)
      moreover have "setFields lib params (field # fs) s = setFields lib ps fs (s(fieldIndex field := ov))"
        using param dec by simp
      ultimately show ?thesis
        using param Some by (simp add: fields_set_step [of lib _ s "fieldIndex field" ov] del: setFields.simps)
    qed
  qed
qed

lemma fields_set_all:
  assumes "fields_set lib pairs s r"
  shows "fst r = Inr None \<longleftrightarrow> list_all (\<lambda>fp. decoded lib fp \<noteq> None) pairs"
    and "fst r = Inr None \<Longrightarrow> distinct (map (\<lambda>fp. fieldIndex (fst fp)) pairs) \<Longrightarrow> fp \<in> set pairs \<Longrightarrow>
      decoded lib fp = Some (snd r (fieldIndex (fst fp)))"
proof -
  obtain ds rest where d: "pairs = ds @ rest" "list_all (\<lambda>fp. decoded lib fp \<noteq> None) ds"
    "\<forall>j. snd r j = (case map_of (map (\<lambda>fp. (fieldIndex (fst fp), the (decoded lib fp))) ds) j of Some v \<Rightarrow> v | None \<Rightarrow> s j)"
    "case rest of
       [] \<Rightarrow> fst r = Inr None
     | fp # _ \<Rightarrow>
         decoded lib fp = None \<and>
         fst r = (case decodeInto lib (fieldType (fst fp)) (snd fp) of
            Inl err \<Rightarrow> Inr (Some (ErrWrap ''mapstruct.Decode'' err)) | Inr _ \<Rightarrow> Inl (PanicText ''reflect.Set''))"
    using assms unfolding fields_set_def by blast
  show all: "fst r = Inr None \<longleftrightarrow> list_all (\<lambda>fp. decoded lib fp \<noteq> None) pairs"
    using d by (cases rest) (auto split: sum.splits)
  assume r: "fst r = Inr None" and dist: "distinct (map (\<lambda>fp. fieldIndex (fst fp)) pairs)" and fp: "fp \<in> set pairs"
  have rest: "rest = []" using d(4) r by (auto split: list.splits sum.splits)
  have "map_of (map (\<lambda>fp. (fieldIndex (fst fp), the (decoded lib fp))) pairs) (fieldIndex (fst fp)) = Some (the (decoded lib fp))"
    using dist fp by (intro map_of_is_SomeI) (auto simp: comp_def)
  with d rest fp show "decoded lib fp = Some (snd r (fieldIndex (fst fp)))"
    by (auto simp: list_all_iff)
qed

lemma paired_distinct: "distinct (map fieldIndex fs) \<Longrightarrow> distinct (map (\<lambda>fp. fieldIndex (fst fp)) (paired fs params))"
proof (induction fs arbitrary: params)
  case (Cons f fs)
  have "set (map fst (paired fs ps)) \<subseteq> set fs" for ps
    using set_zip_leftD by (fastforce simp: paired_def)
  with Cons show ?case by (cases "IsExported f"; cases params) force+
qed simp

text \<open>
  \<^verbatim>\<open>DecodeParams\<close> gives the exported fields their parameters by position: extra parameters are ignored, fields without one keep
  their value, and so do the fields that are not exported. It returns nil exactly when every paired parameter decodes to a value;
  otherwise it stops at the first that does not, with an error, or with a panic where a null meets a field of an
  interface type, and the fields before it are set.
\<close>

theorem decode_params_by_position:
  assumes "distinct (map fieldIndex fs)"
  shows "\<exists>r s'. DecodeParams lib params (OutStruct fs s) = (r, OutStruct fs s') \<and> fields_set lib (paired fs params) s (r, s') \<and>
    (r = Inr None \<longleftrightarrow> list_all (\<lambda>fp. decoded lib fp \<noteq> None) (paired fs params)) \<and>
    (r = Inr None \<longrightarrow> (\<forall>fp \<in> set (paired fs params). decoded lib fp = Some (s' (fieldIndex (fst fp)))))"
proof -
  obtain r s' where rs: "setFields lib params fs s = (r, s')" by force
  note set = setFields_set [OF assms, of lib params s, unfolded rs]
  from fields_set_all(1) [OF set] fields_set_all(2) [OF set _ paired_distinct [OF assms]] set rs show ?thesis
    by (intro exI [of _ r] exI [of _ s']) (simp add: DecodeParams_def)
qed

theorem decode_params_by_position_witness:
  "\<exists>s'. DecodeParams int_lib [GInt 1, GInt 2, GInt 3]
       (OutStruct [\<lparr>fieldIndex = [0], fieldType = TOther ''int'', IsExported = True\<rparr>,
          \<lparr>fieldIndex = [1], fieldType = TOther ''int'', IsExported = False\<rparr>,
          \<lparr>fieldIndex = [2], fieldType = TOther ''int'', IsExported = True\<rparr>] (\<lambda>i. GNil)) = (Inr None, OutStruct
         [\<lparr>fieldIndex = [0], fieldType = TOther ''int'', IsExported = True\<rparr>,
          \<lparr>fieldIndex = [1], fieldType = TOther ''int'', IsExported = False\<rparr>,
          \<lparr>fieldIndex = [2], fieldType = TOther ''int'', IsExported = True\<rparr>] s') \<and> s' [0] = GInt 1 \<and> s' [2] = GInt 2"
  using decode_params_by_position [of
      "[\<lparr>fieldIndex = [0], fieldType = TOther ''int'', IsExported = True\<rparr>,
        \<lparr>fieldIndex = [1], fieldType = TOther ''int'', IsExported = False\<rparr>,
        \<lparr>fieldIndex = [2], fieldType = TOther ''int'', IsExported = True\<rparr>]" int_lib "[GInt 1, GInt 2, GInt 3]" "\<lambda>i. GNil"]
  by (auto simp: decoded_def int_lib_def)

text \<open>A null for a field of an interface type panics, with \<open>mapstructure\<close> leaving the variable unset.\<close>

theorem decode_params_null_panics:
  assumes "IsExported field" "decodeInto lib (fieldType field) GNil = Inr None"
  shows "DecodeParams lib (GNil # params) (OutStruct (field # fs) s) = (Inl (PanicText ''reflect.Set''), OutStruct (field # fs) s)"
  using assms by (simp add: DecodeParams_def)

end
