(* ===== verification/Fifo.thy ===== *)
theory Fifo
  imports Params Servers Tools
begin

text \<open>
  The service of \<^verbatim>\<open>examples/fifo\<close> as a whole: \<^verbatim>\<open>fifoActor\<close> with its registrations and schemas, fed with the requests of streaming
  sessions. It is the library put together: typed handlers, schemas, sessions attached to requests, pushes and the close handler.
\<close>

section \<open>The actor\<close>

text \<open>A text with tildes for double quotes.\<close>

definition json_text :: "string \<Rightarrow> string" where
  "json_text s = map (\<lambda>c. if c = CHR ''~'' then CHR 0x22 else c) s"

text \<open>The function \<^verbatim>\<open>func(at int) (any, error)\<close>.\<close>

definition fifoGetFunc :: "(gval, fifo_world) go_func" where
  "fifoGetFunc =
     \<lparr>inTypes = [TOther ''int''], outTypes = [TInterface ''interface {}'' [], TInterface ''error'' []], implementsError = True,
      callFunc = (\<lambda>args w. case args of
        [ArgValue (GInt idx)] \<Rightarrow>
          (case fifoGet idx w of
             (Returns (PlainValue v) err, w') \<Rightarrow> (CallReturns v err, w')
           | (Panics p, w') \<Rightarrow> (CallPanics p, w')
           | (Returns (MessageValue m) err, w') \<Rightarrow> (CallReturns GNil err, w'))
      | _ \<Rightarrow> (CallPanics PanicOther, w))\<rparr>"

definition countSchema :: string where
  "countSchema = json_text ''{~description~: ~get the element count~, ~params~: [], ~returns~: ~integer~}''"

definition getSchema :: string where
  "getSchema = json_text ''{~description~: ~get an element at index~, ~type~: ~method~, ~params~: [~integer~]}''"

text \<open>\<^verbatim>\<open>WithSchemaJson\<close> panics on a description that does not build.\<close>

definition withSchema ::
  "string \<Rightarrow> ('w handler_setter \<Rightarrow> 'w actor \<Rightarrow> panic_value + 'w actor) \<Rightarrow> 'w actor \<Rightarrow> panic_value + 'w actor" where
  "withSchema jsonSchema reg a =
     (case WithSchemaJson jsonSchema of Inl err \<Rightarrow> Inl (PanicError (ErrText ''schema'')) | Inr setter \<Rightarrow> reg setter a)"

text \<open>An error of a registration that nobody looks at.\<close>

definition ignored :: "('a \<Rightarrow> go_error + 'a) \<Rightarrow> 'a \<Rightarrow> panic_value + 'a" where
  "ignored reg a = Inr (case reg a of Inl err \<Rightarrow> a | Inr a' \<Rightarrow> a')"

definition fifoActor :: "gval mapstructure \<Rightarrow> panic_value + fifo_world actor" where
  "fifoActor lib = foldR (\<lambda>reg. reg)
     [On ''example_echo'' fifoEcho [],
      On ''example_willPanic'' fifoWillPanic [],
      On ''fifo_push'' fifoPush [],
      On ''fifo_pop'' fifoPop [],
      On ''fifo_list'' fifoList [],
      withSchema countSchema (\<lambda>setter. On ''fifo_count'' fifoCount [setter]),
      withSchema getSchema (\<lambda>setter. OnTyped lib ''fifo_get'' (Some fifoGetFunc) [setter]),
      ignored (OnRequest ''fifo_subscribe'' (\<lambda>req params. fifoSubscribe (Session req)) []),
      ignored (OnClose fifoClosed)] NewActor"

section \<open>Feeding it\<close>

lemma schemas_build:
  "\<exists>s. WithSchemaJson countSchema = Inr (WithSchema s)" "\<exists>s. WithSchemaJson getSchema = Inr (WithSchema s)"
proof -
  have "\<not> isl (BuildBytes countSchema)" "\<not> isl (BuildBytes getSchema)" by code_simp+
  then show "\<exists>s. WithSchemaJson countSchema = Inr (WithSchema s)" "\<exists>s. WithSchemaJson getSchema = Inr (WithSchema s)"
    by (cases "BuildBytes countSchema"; cases "BuildBytes getSchema"; auto simp: WithSchemaJson_def)+
qed

text \<open>The actor is built, and the calls without a schema go to their handlers.\<close>

lemma fifoActor_built:
  obtains a where "fifoActor lib = Inr a" "RecoverFromPanic a" "HandleClose a = fifoClosed" "MethodList a =
      [''example_echo'', ''example_willPanic'', ''fifo_push'', ''fifo_pop'', ''fifo_list'', ''fifo_count'', ''fifo_get'', ''fifo_subscribe'']"
    "route a ''fifo_push'' = Some (a, \<lparr>callback = (\<lambda>req. fifoPush), hschema = None\<rparr>)"
    "route a ''fifo_pop'' = Some (a, \<lparr>callback = (\<lambda>req. fifoPop), hschema = None\<rparr>)"
    "route a ''fifo_subscribe'' = Some (a, \<lparr>callback = (\<lambda>req params. fifoSubscribe (Session req)), hschema = None\<rparr>)"
proof -
  obtain s1 s2 where
    s: "WithSchemaJson countSchema = Inr (WithSchema s1 :: fifo_world handler_setter)"
    "WithSchemaJson getSchema = Inr (WithSchema s2 :: fifo_world handler_setter)"
    using schemas_build by blast
  have "wrapTyped lib (Some fifoGetFunc) None = Inr (typedHandler lib fifoGetFunc None)"
    by (simp add: wrapTyped_def fifoGetFunc_def)
  with s that show thesis
    by (simp add: fifoActor_def withSchema_def ignored_def On_def OnTyped_def OnRequest_def OnClose_def NewActor_def set_handlers_def
        WithSchema_def fun_eq_iff)
qed

section \<open>Histories\<close>

text \<open>What happens at the service, each call made by a session; and the world afterwards, the calls going through \<^verbatim>\<open>Feed\<close>.\<close>

datatype fifo_event = Push string "gval list" | Pop string | Subscribe string | Closed string

definition fifoCall :: "string \<Rightarrow> string \<Rightarrow> gval list \<Rightarrow> rpc_request" where
  "fifoCall sid method params = tcpRequest sid (MReq
     \<lparr>kind = MKRequest, traceId = [], reqId = GInt 1, reqMethod = method, reqParams = params, reqParamsAreList = True\<rparr>)"

definition fifoStep :: "(template \<Rightarrow> go_error + gmap) \<Rightarrow> fifo_world actor \<Rightarrow> fifo_event \<Rightarrow> fifo_world \<Rightarrow> fifo_world" where
  "fifoStep ms a e w =
     (case e of
        Push sid ps \<Rightarrow> snd (Feed a ms (fifoCall sid ''fifo_push'' ps) w)
      | Pop sid \<Rightarrow> snd (Feed a ms (fifoCall sid ''fifo_pop'' []) w)
      | Subscribe sid \<Rightarrow> snd (Feed a ms (fifoCall sid ''fifo_subscribe'' []) w)
      | Closed sid \<Rightarrow> HandleClose a sid w)"

text \<open>The specification: the elements pushed while a session is subscribed, and the list.\<close>

fun pushesSeen :: "string \<Rightarrow> bool \<Rightarrow> fifo_event list \<Rightarrow> gval list" where
  "pushesSeen sid sub [] = []"
| "pushesSeen sid sub (Push s ps # es) = (if sub then ps else []) @ pushesSeen sid sub es"
| "pushesSeen sid sub (Pop s # es) = pushesSeen sid sub es"
| "pushesSeen sid sub (Subscribe s # es) = pushesSeen sid (sid = s \<or> sub) es"
| "pushesSeen sid sub (Closed s # es) = pushesSeen sid (sub \<and> sid \<noteq> s) es"

fun stacked :: "fifo_event \<Rightarrow> gval list \<Rightarrow> gval list" where
  "stacked (Push s ps) xs = xs @ ps"
| "stacked (Pop s) xs = butlast xs"
| "stacked e xs = xs"

lemma fifoStep_simps:
  assumes "fifoActor lib = Inr a"
  shows "fifoStep ms a (Push sid ps) w = snd (fifoPush ps w)" "fifoStep ms a (Pop sid) w = snd (fifoPop [] w)"
    "fifoStep ms a (Subscribe sid) w = snd (fifoSubscribe (Some sid) w)" "fifoStep ms a (Closed sid) w = fifoClosed sid w"
proof -
  obtain a' where a': "fifoActor lib = Inr a'" "RecoverFromPanic a'" "HandleClose a' = fifoClosed"
    "route a' ''fifo_push'' = Some (a', \<lparr>callback = (\<lambda>req. fifoPush), hschema = None\<rparr>)"
    "route a' ''fifo_pop'' = Some (a', \<lparr>callback = (\<lambda>req. fifoPop), hschema = None\<rparr>)"
    "route a' ''fifo_subscribe'' = Some (a', \<lparr>callback = (\<lambda>req params. fifoSubscribe (Session req)), hschema = None\<rparr>)"
    by (rule fifoActor_built)
  have snd_recover: "snd (recoverCall b m r) = snd r" for b m and r :: "callback_outcome \<times> fifo_world"
    by (simp add: recoverCall_def split: prod.split)
  have feed: "snd (Feed a ms (fifoCall sid mname ps) w) = snd (cb (fifoCall sid mname ps) ps w)"
    if "route a mname = Some (a, \<lparr>callback = cb, hschema = None\<rparr>)" "mname \<noteq> []" for mname cb ps w
    using that Feed_callback [of "fifoCall sid mname ps" "\<lparr>kind = MKRequest, traceId = [], reqId = GInt 1, reqMethod = mname,
        reqParams = ps, reqParamsAreList = True\<rparr>" a a "\<lparr>callback = cb, hschema = None\<rparr>" ms w]
    by (simp add: fifoCall_def request_defs validateRequest_def snd_recover params_ok_def)
  show "fifoStep ms a (Push sid ps) w = snd (fifoPush ps w)" "fifoStep ms a (Pop sid) w = snd (fifoPop [] w)"
    "fifoStep ms a (Subscribe sid) w = snd (fifoSubscribe (Some sid) w)" "fifoStep ms a (Closed sid) w = fifoClosed sid w"
    using a' assms feed by (simp_all add: fifoStep_def) (simp_all add: fifoCall_def request_defs)
qed

lemma subs_step:
  assumes "fifoActor lib = Inr a" "distinct (subs w)"
  shows "distinct (subs (fifoStep ms a e w))"
  using assms
  by (cases e) (auto simp: fifoStep_simps fifoPush_def fifoPop_def fifoSubscribe_def fifoClosed_def distinct_removeAll)

text \<open>
  \<^bold>\<open>C30.\<close> Over any history of pushes, pops, subscriptions and closed sessions, each fed to the actor, every session is sent exactly the
  elements pushed while it was subscribed, in their order, and the service holds what a stack would.
\<close>

theorem fifo_history:
  assumes "fifoActor lib = Inr a" "distinct (subs w)"
  shows "sentTo sid (fold (fifoStep ms a) es w) =
      sentTo sid w @ map subscription (pushesSeen sid (sid \<in> set (subs w)) es) \<and>
    fifo (fold (fifoStep ms a) es w) = fold stacked es (fifo w)"
  using assms(2)
proof (induction es arbitrary: w)
  case (Cons e es)
  note step = fifoStep_simps [OF assms(1)]
  have IH: "sentTo sid (fold (fifoStep ms a) es (fifoStep ms a e w)) = sentTo sid (fifoStep ms a e w) @
      map subscription (pushesSeen sid (sid \<in> set (subs (fifoStep ms a e w))) es) \<and>
    fifo (fold (fifoStep ms a) es (fifoStep ms a e w)) = fold stacked es (fifo (fifoStep ms a e w))"
    by (rule Cons.IH) (rule subs_step [OF assms(1) Cons.prems])
  have "sentTo sid (fifoStep ms a e w) @ map subscription (pushesSeen sid (sid \<in> set (subs (fifoStep ms a e w))) es) =
      sentTo sid w @ map subscription (pushesSeen sid (sid \<in> set (subs w)) (e # es)) \<and>
    fifo (fifoStep ms a e w) = stacked e (fifo w)"
  proof (cases e)
    case (Push s ps)
    show ?thesis
    proof (cases "ps = []")
      case True
      then show ?thesis by (simp add: Push step fifoPush_def)
    next
      case False
      from sentTo_push [OF Cons.prems this, of sid] False show ?thesis by (simp add: Push step) (simp add: fifoPush_def)
    qed
  next
    case (Pop s)
    then show ?thesis by (simp add: step fifoPop_def sentTo_def)
  next
    case (Subscribe s)
    then show ?thesis by (auto simp: step fifoSubscribe_def sentTo_def)
  next
    case (Closed s)
    then show ?thesis by (auto simp: step fifoClosed_def sentTo_def)
  qed
  with IH show ?case by simp
qed simp

theorem fifo_history_witness:
  "\<exists>a. fifoActor int_lib = Inr a \<and>
     sentTo ''s'' (fold (fifoStep (\<lambda>t. Inr []) a) [Push ''r'' [GInt 1], Subscribe ''s'', Push ''r'' [GInt 2, GInt 3], Closed ''s'', Push ''r'' [GInt 4]]
       \<lparr>fifo = [], subs = [], pushed = []\<rparr>) = [subscription (GInt 2), subscription (GInt 3)]"
proof -
  obtain a where a: "fifoActor int_lib = Inr a" by (rule fifoActor_built)
  with fifo_history [OF a, of "\<lparr>fifo = [], subs = [], pushed = []\<rparr>" "''s''" "\<lambda>t. Inr []"
      "[Push ''r'' [GInt 1], Subscribe ''s'', Push ''r'' [GInt 2, GInt 3], Closed ''s'', Push ''r'' [GInt 4]]"]
  show ?thesis by (simp add: sentTo_def [of _ "\<lparr>fifo = [], subs = [], pushed = []\<rparr>"])
qed


section \<open>A subscription that stays\<close>

abbreviation subscribeMsg :: request_message where
  "subscribeMsg \<equiv> \<lparr>kind = MKRequest, traceId = [], reqId = GInt 1, reqMethod = ''fifo_subscribe'', reqParams = [],
     reqParamsAreList = True\<rparr>"

lemma subscribe_bytes: obtains bytes where "decodeRead bytes = (ReadMsg (MReq subscribeMsg), [])"
proof -
  have "\<exists>bs. MessageBytes (MReq subscribeMsg) = Inr bs \<and> (\<forall>x. DecodeMessage [] (bs @ x) = (Inr (canon_msg (MReq subscribeMsg)), x))"
    by (rule round_trip) (simp_all add: params_ok_def params_value_def id_ok_def max_depth_def max_list_def id_allowed_def opts_of_def)
  then obtain bs where "DecodeMessage [] (bs @ []) = (Inr (canon_msg (MReq subscribeMsg)), [])" by blast
  moreover have "canon_msg (MReq subscribeMsg) = MReq subscribeMsg"
    by (simp add: params_value_def to_valid_utf8_ascii_only)
  ultimately show thesis using that [of bs] by (simp add: decodeRead_Msg)
qed

text \<open>A session whose peer hangs up after one message may close before the message is handled.\<close>

lemma closes_before_handling:
  assumes "readInput code i = (ReadMsg p, i')" "readInput code i' = (ReadEnd, i')" "spawns code" "afterWait code = [CloseConn, TellClosed]"
  shows "session_run code (newSession i w) [EvReceived p, EvInternal, EvInternal, EvInternal, EvClosed]
    (newSession i' w\<lparr>goroutines := [GoReceived p], receiving := False, waiting := False, connOpen := False, sworld := onClose code w\<rparr>)"
proof -
  let ?s0 = "newSession i w"
  let ?s1 = "?s0\<lparr>input := i', goroutines := [GoReceived p]\<rparr>"
  let ?s2 = "?s1\<lparr>receiving := False, doneChannel := [None]\<rparr>"
  let ?s3 = "?s2\<lparr>waiting := False, doneChannel := [], cleanups := [CloseConn, TellClosed]\<rparr>"
  let ?s3' = "?s3\<lparr>cleanups := [TellClosed], connOpen := False\<rparr>"
  let ?s4 = "newSession i' w\<lparr>goroutines := [GoReceived p], receiving := False, waiting := False, connOpen := False, sworld := onClose code w\<rparr>"
  have 1: "session_step code ?s0 (EvReceived p) ?s1"
    by (rule session_step.recv) (simp_all add: newSession_def recvBody_def assms)
  have 2: "session_step code ?s1 EvInternal ?s2"
    by (rule session_step.recv) (simp_all add: newSession_def recvBody_def doneCapacity_def assms)
  have 3: "session_step code ?s2 EvInternal ?s3"
    by (rule session_step.wait) (simp_all add: newSession_def waitBody_def assms)
  have 4: "session_step code ?s3 EvInternal ?s3'"
    by (rule session_step.close) (simp_all add: newSession_def closeBody_def)
  have 5: "session_step code ?s3' EvClosed ?s4"
    by (rule session_step.close) (simp_all add: newSession_def closeBody_def)
  show ?thesis
    by (rule run_snoc [OF run_snoc [OF run_snoc [OF run_snoc [OF run_one [OF 1] 2 refl] 3 refl] 4 refl] 5]) simp
qed

lemma subscription_handled:
  assumes "fifoActor lib = Inr a"
  obtains res w' where "sid \<in> set (subs w')"
    "msgReceived ms a (tcpRequest sid (MReq subscribeMsg)) w = (Inr [GoSend res] :: panic_value + message goroutine list, w')"
proof -
  obtain a' where a': "fifoActor lib = Inr a'" "RecoverFromPanic a'"
    "route a' ''fifo_subscribe'' = Some (a', \<lparr>callback = (\<lambda>req params. fifoSubscribe (Session req)), hschema = None\<rparr>)"
    by (rule fifoActor_built)
  have "msgReceived ms a (tcpRequest sid (MReq subscribeMsg)) w =
      (Inr [GoSend (MRes (rawResultMessage (GInt 1) (GStr ''ok'') None))] :: panic_value + message goroutine list,
       snd (fifoSubscribe (Some sid) w))"
    using a' assms Feed_callback [of "tcpRequest sid (MReq subscribeMsg)" subscribeMsg a' a'
        "\<lparr>callback = (\<lambda>req params. fifoSubscribe (Session req)), hschema = None\<rparr>" ms w]
    by (simp add: request_defs validateRequest_def params_ok_def recoverCall_def fifoSubscribe_def wrapResult_def IsRequest_MReq
        NewResultMessage_def raw_defs msgReceived_def)
  then show thesis by (rule that [rotated]) (simp add: fifoSubscribe_def)
qed

text \<open>
  \<^bold>\<open>C35.\<close> The close handler of a session may run before the handler of a message the session has received: the goroutine of the
  message is not waited for. So a client that sends a subscription and hangs up can leave itself subscribed for good: the
  close handler runs once, before the subscription is stored, and every later push is sent to a session that is gone.
\<close>

theorem subscription_outlives_session:
  assumes "fifoActor lib = Inr a" "sid \<notin> set (subs w)"
  shows "\<exists>bytes es s. session_run (tcpSession ms a sid) (newSession bytes w) es s \<and>
    receivedOf es = [MReq subscribeMsg] \<and> closings es = 1 \<and> \<not> connOpen s \<and> sid \<in> set (subs (sworld s)) \<and>
    (\<forall>es' t. session_run (tcpSession ms a sid) s es' t \<longrightarrow> closings es' = 0)"
proof -
  obtain bytes where read: "decodeRead bytes = (ReadMsg (MReq subscribeMsg), [])" by (rule subscribe_bytes)
  let ?c = "tcpSession ms a sid" and ?m = "MReq subscribeMsg"
  let ?es = "[EvReceived ?m, EvInternal, EvInternal, EvInternal, EvClosed]"
  let ?s = "(newSession [] w :: (string, message, fifo_world) session)\<lparr>goroutines := [GoReceived ?m], receiving := False,
      waiting := False, connOpen := False, sworld := HandleClose a sid w\<rparr>"
  have run: "session_run ?c (newSession bytes w) ?es ?s"
    using closes_before_handling [of ?c bytes ?m "[]" w] read by (simp add: tcpSession_def decodeRead_end)
  obtain res w' where w': "sid \<in> set (subs w')" and handled: "msgReceived ms a (tcpRequest sid ?m) (HandleClose a sid w) =
      (Inr [GoSend res] :: panic_value + message goroutine list, w')"
    by (rule subscription_handled [OF assms(1)])
  then have "session_step ?c ?s (EvHandled ?m [GoSend res]) (?s\<lparr>goroutines := [GoSend res], sworld := w'\<rparr>)"
    by (intro session_step.go [where k = 0]) (simp_all add: newSession_def goBody_def tcpSession_def Let_def)
  from run_snoc [OF run this refl] show ?thesis
    using w' closing_run [of ?c "?s\<lparr>goroutines := [GoSend res], sworld := w'\<rparr>"]
    by (intro exI [of _ bytes] exI [of _ "?es @ [EvHandled ?m [GoSend res]]"] exI [of _ "?s\<lparr>goroutines := [GoSend res], sworld := w'\<rparr>"])
       (auto simp: receivedOf_def closings_def owed_def newSession_def)
qed

theorem subscription_outlives_session_witness:
  "\<exists>a bytes es s. fifoActor int_lib = Inr a \<and>
     session_run (tcpSession (\<lambda>t. Inr []) a ''s'') (newSession bytes \<lparr>fifo = [], subs = [], pushed = []\<rparr>) es s \<and>
     closings es = 1 \<and> ''s'' \<in> set (subs (sworld s))"
proof -
  obtain a where a: "fifoActor int_lib = Inr a" by (rule fifoActor_built)
  with subscription_outlives_session [OF a, of "''s''" "\<lparr>fifo = [], subs = [], pushed = []\<rparr>" "\<lambda>t. Inr []"]
  show ?thesis by auto
qed

end
