(* ===== verification/Schema_Roundtrip.thy ===== *)
theory Schema_Roundtrip
  imports Schema_Build
begin

text \<open>
  A schema, its description and the schema built from the description: \<^verbatim>\<open>Map\<close> and \<^verbatim>\<open>SchemaToString\<close> of
  \<^verbatim>\<open>schema/schema.go\<close> against \<^verbatim>\<open>BuildBytes\<close> of \<^verbatim>\<open>schema/builder.go\<close>. \<open>described\<close> is what comes back, \<open>describable\<close> says
  for which schemas anything does, and \<open>lossless\<close> for which of them it means the same.
\<close>

section \<open>What a description stands for\<close>

definition described_range :: "'a range \<Rightarrow> 'a range" where
  "described_range r =
     r\<lparr>ExclusiveMaximum := (if Maximum r = None then None else ExclusiveMaximum r),
       ExclusiveMinimum := (if Minimum r = None then None else ExclusiveMinimum r)\<rparr>"

text \<open>
  The lengths of strings and lists and the schema of the additional items of a tuple are not described;
  a method without a result schema gets one that accepts anything; the properties come back in the order of their names.
\<close>

primrec described :: "schema \<Rightarrow> schema" where
  "described (AnySchema m) = AnySchema m"
| "described (NullSchema m) = NullSchema m"
| "described (BoolSchema m) = BoolSchema m"
| "described (NumberSchema m r) = NumberSchema m (described_range r)"
| "described (IntegerSchema m r) = IntegerSchema m (described_range r)"
| "described (StringSchema m a b) = StringSchema m None None"
| "described (AnyOfSchema m cs) = AnyOfSchema m (map described cs)"
| "described (AllOfSchema m cs) = AllOfSchema m (map described cs)"
| "described (NotSchema m c) = NotSchema m (described c)"
| "described (ListSchema m c a b) = ListSchema m (described c) None None"
| "described (TupleSchema m cs add) = TupleSchema m (map described cs) None"
| "described (ObjectSchema m props reqs add) =
     ObjectSchema m (sort_key fst (map (map_prod id described) props)) reqs (map_option described add)"
| "described (MethodSchema m ps ret add) =
     MethodSchema m (map described ps)
       (Some (case map_option described ret of None \<Rightarrow> AnySchema no_mixin | Some r \<Rightarrow> r)) (map_option described add)"

definition mixin_ok :: "schema_mixin \<Rightarrow> bool" where
  "mixin_ok m \<longleftrightarrow> valid_utf8 (sname m) \<and> valid_utf8 (sdescription m)"

text \<open>A float bound whose JSON text reads back as the bound.\<close>

definition float_text_ok :: "float64 \<Rightarrow> bool" where
  "float_text_ok f \<longleftrightarrow>
     (case fmt_float f of Some s \<Rightarrow> is_number s \<and> ParseFloat s = (f, True) | None \<Rightarrow> False)"

definition bounds_ok :: "('a \<Rightarrow> bool) \<Rightarrow> 'a range \<Rightarrow> bool" where
  "bounds_ok P r \<longleftrightarrow> pred_option P (Maximum r) \<and> pred_option P (Minimum r)"

text \<open>
  The builder guesses the type of the map of properties: a property with one of these names and none
  named \<^verbatim>\<open>type\<close> spoils it.
\<close>

definition props_ok :: "string list \<Rightarrow> bool" where
  "props_ok ks \<longleftrightarrow> distinct ks \<and> list_all valid_utf8 ks \<and>
     (''type'' \<in> set ks \<or> set ks \<inter> {''params'', ''properties'', ''anyOf'', ''allOf'', ''not''} = {})"

primrec describable :: "schema \<Rightarrow> bool" where
  "describable (AnySchema m) = mixin_ok m"
| "describable (NullSchema m) = mixin_ok m"
| "describable (BoolSchema m) = mixin_ok m"
| "describable (NumberSchema m r) \<longleftrightarrow> mixin_ok m \<and> bounds_ok float_text_ok r"
| "describable (IntegerSchema m r) \<longleftrightarrow> mixin_ok m \<and> bounds_ok in_int64 r"
| "describable (StringSchema m a b) = mixin_ok m"
| "describable (AnyOfSchema m cs) \<longleftrightarrow> mixin_ok m \<and> list_all describable cs"
| "describable (AllOfSchema m cs) \<longleftrightarrow> mixin_ok m \<and> list_all describable cs"
| "describable (NotSchema m c) \<longleftrightarrow> mixin_ok m \<and> describable c"
| "describable (ListSchema m c a b) \<longleftrightarrow> mixin_ok m \<and> describable c"
| "describable (TupleSchema m cs add) \<longleftrightarrow> mixin_ok m \<and> list_all describable cs"
| "describable (ObjectSchema m props reqs add) \<longleftrightarrow> mixin_ok m \<and> props_ok (map fst props) \<and>
     list_all (pred_prod (\<lambda>_. True) describable) props \<and> pred_option describable add \<and>
     go_map_ok reqs \<and> list_all (\<lambda>(k, b). b \<and> map_of props k \<noteq> None) reqs"
| "describable (MethodSchema m ps ret add) \<longleftrightarrow> mixin_ok m \<and>
     list_all describable ps \<and> pred_option describable ret \<and> pred_option describable add"

text \<open>Schemas whose description says all that validation uses.\<close>

primrec lossless :: "schema \<Rightarrow> bool" where
  "lossless (AnySchema m) = True"
| "lossless (NullSchema m) = True"
| "lossless (BoolSchema m) = True"
| "lossless (NumberSchema m r) = True"
| "lossless (IntegerSchema m r) = True"
| "lossless (StringSchema m a b) \<longleftrightarrow> a = None \<and> b = None"
| "lossless (AnyOfSchema m cs) = list_all lossless cs"
| "lossless (AllOfSchema m cs) = list_all lossless cs"
| "lossless (NotSchema m c) = lossless c"
| "lossless (ListSchema m c a b) \<longleftrightarrow> lossless c \<and> a = None \<and> b = None"
| "lossless (TupleSchema m cs add) \<longleftrightarrow> list_all lossless cs \<and> add = None"
| "lossless (ObjectSchema m props reqs add) \<longleftrightarrow>
     list_all (pred_prod (\<lambda>_. True) lossless) props \<and> pred_option lossless add"
| "lossless (MethodSchema m ps ret add) \<longleftrightarrow>
     list_all lossless ps \<and> pred_option lossless ret \<and> pred_option lossless add"

section \<open>The described schema accepts the same values\<close>

lemma in_range_described [simp]: "in_range (described_range r) v = in_range r v"
  by (auto simp: in_range_def described_range_def split: option.split)

lemma valid_object_sorted:
  "valid_object (sort_key fst props) reqs add obj = valid_object props reqs add obj"
  by (cases add) (simp_all add: valid_object_def)

lemma valid_described:
  "lossless s \<Longrightarrow> describable s \<Longrightarrow> valid (described s) = valid s"
proof (induction s)
  case (AnyOfSchema m cs)
  then have "map valid (map described cs) = map valid cs" by (simp add: list_all_iff)
  then show ?case by (simp only: described.simps valid.simps)
next
  case (AllOfSchema m cs)
  then have "map valid (map described cs) = map valid cs" by (simp add: list_all_iff)
  then show ?case by (simp only: described.simps valid.simps)
next
  case (TupleSchema m cs add)
  then have "map valid (map described cs) = map valid cs" by (simp add: list_all_iff)
  with TupleSchema.prems show ?case
    by (auto simp only: described.simps valid.simps lossless.simps option.map)
next
  case (ObjectSchema m props reqs add)
  have "map (map_prod id valid) (map (map_prod id described) props) = map (map_prod id valid) props"
    using ObjectSchema by (force simp: list_all_pred_snd snds.simps)
  moreover have "map_option valid (map_option described add) = map_option valid add"
    using ObjectSchema by (cases add) simp_all
  ultimately show ?case
    by (simp only: described.simps valid.simps sort_key_map_snd [symmetric] valid_object_sorted)
next
  case (MethodSchema m ps ret add)
  have "map valid (map described ps) = map valid ps"
    using MethodSchema by (simp add: list_all_iff)
  moreover have "map_option valid (map_option described add) = map_option valid add"
    using MethodSchema by (cases add) simp_all
  moreover have "valid (case map_option described ret of None \<Rightarrow> AnySchema no_mixin | Some r \<Rightarrow> r) =
      (case map_option valid ret of None \<Rightarrow> (\<lambda>d. True) | Some r \<Rightarrow> r)"
    using MethodSchema by (cases ret) simp_all
  ultimately show ?case
    by (cases ret) (simp_all only: described.simps valid.simps valid_method_def option.map option.case)
qed (auto simp: in_length_def fun_eq_iff list_all_iff split: option.splits)

section \<open>The description on the wire\<close>

definition wire_map :: "gmap \<Rightarrow> gmap" where
  "wire_map m = sort_key fst (map (map_prod id canon) m)"

lemma canon_GMap [simp]: "canon (GMap m) = GMap (wire_map m)"
  by (simp add: wire_map_def)

declare canon.simps(12) [simp del]

lemma map_of_map_prod: "map_of (map (map_prod id f) m) k = map_option f (map_of m k)"
  by (induction m) auto

lemma map_of_wire_map: "go_map_ok m \<Longrightarrow> map_of (wire_map m) k = map_option canon (map_of m k)"
  using map_of_perm [of "map (map_prod id canon) m" "wire_map m"]
  by (simp add: wire_map_def map_of_map_prod)

lemma map_of_rebuildType:
  "map_of (rebuildType m t @ rest) k =
     (if k = ''type'' then Some (GStr t)
      else if k = ''name'' \<and> sname m \<noteq> [] then Some (GStr (sname m))
      else if k = ''description'' \<and> sdescription m \<noteq> [] then Some (GStr (sdescription m))
      else map_of rest k)"
  by (simp add: rebuildType_def)

lemma map_of_range_map [simp]:
  "map_of (range_map f r) k =
     (if k = ''maximum'' then map_option f (Maximum r)
      else if k = ''exclusiveMaximum'' \<and> Maximum r \<noteq> None then map_option GBool (ExclusiveMaximum r)
      else if k = ''minimum'' then map_option f (Minimum r)
      else if k = ''exclusiveMinimum'' \<and> Minimum r \<noteq> None then map_option GBool (ExclusiveMinimum r)
      else None)"
  by (auto simp: range_map_def split: option.split)

lemma map_of_opt_member [simp]:
  "map_of (opt_member k v) k' = (if k' = k then map_option GMap v else None)"
  by (simp add: opt_member_def split: option.split)

lemma map_of_opt_member_append [simp]:
  "map_of (opt_member k v @ rest) k' = (if k' = k \<and> v \<noteq> None then map_option GMap v else map_of rest k')"
  by (simp add: opt_member_def split: option.split)

lemma go_map_ok_Map [simp]: "go_map_ok (Map s)"
  by (cases s) (auto simp: go_map_ok_def rebuildType_def range_map_def opt_member_def split: option.splits)

declare map_of_append [simp del]

lemmas map_of_rebuildType_only = map_of_rebuildType [where rest = "[]", unfolded append_Nil2 map_of.simps(1)]

lemma map_of_Map_mixin:
  "map_of (Map s) ''type'' = Some (GStr (Type s))"
  "map_of (Map s) ''name'' = (if sname (mixin s) \<noteq> [] then Some (GStr (sname (mixin s))) else None)"
  "map_of (Map s) ''description'' = (if sdescription (mixin s) \<noteq> [] then Some (GStr (sdescription (mixin s))) else None)"
  by (cases s; simp add: map_of_rebuildType map_of_rebuildType_only)+

lemma mixin_ok_mixin: "describable s \<Longrightarrow> mixin_ok (mixin s)"
  by (cases s) auto

lemma canon_valid: "valid_utf8 s \<Longrightarrow> canon (GStr s) = GStr s"
  by (simp add: valid_utf8_def)

lemma mixin_described [simp]: "mixin (described s) = mixin s"
  by (cases s) simp_all

lemma set_mixin_set_mixin [simp]: "set_mixin a (set_mixin b s) = set_mixin a s" "mixin (set_mixin a s) = a"
  "set_mixin (mixin s) s = s"
  by (cases s; simp)+

lemma valid_utf8_type [simp]: "to_valid_utf8 (Type s) = Type s"
  by (cases s) (simp_all add: to_valid_utf8_ascii)

text \<open>Once the node's own attributes are built, the name and the description follow.\<close>

lemma buildNodeMap_wire:
  assumes "describable s"
    and "build_type buildNodeMap (GStr (Type s)) (wire_map (Map s)) ps = Inr (set_mixin no_mixin (described s))"
  shows "buildNodeMap (wire_map (Map s)) ps = Inr (described s)"
proof -
  let ?s = "described s" and ?m = "mixin s"
  have ok: "to_valid_utf8 (sname ?m) = sname ?m" "to_valid_utf8 (sdescription ?m) = sdescription ?m"
    using mixin_ok_mixin [OF assms(1)] by (simp_all add: mixin_ok_def valid_utf8_def)
  have "buildMixin (set_mixin no_mixin ?s) (wire_map (Map s)) ps = Inr (set_mixin ?m ?s)"
    using ok by (cases ?m) (auto simp: buildMixin_def map_of_wire_map map_of_Map_mixin SetName_def SetDescription_def no_mixin_def)
  moreover have "set_mixin ?m ?s = ?s"
    by (metis mixin_described set_mixin_set_mixin(3))
  ultimately show ?thesis
    using assms(2) by (simp add: buildNodeMap.simps [of "wire_map _"] map_of_wire_map map_of_Map_mixin)
qed

lemma guess_wire [simp]: "guess_type (wire_map (Map s)) = wire_map (Map s)"
  by (simp add: guess_type_def has_key_def map_of_wire_map map_of_Map_mixin)

lemma convertTypeMap_wire [simp]: "convertTypeMap (GMap (wire_map (Map s))) = Some (wire_map (Map s))"
  by (simp add: convertTypeMap_def)

lemma has_type_wire [simp]: "has_key (wire_map (Map s)) ''type''"
  by (simp add: has_key_def map_of_wire_map map_of_Map_mixin)

section \<open>Building the description\<close>

definition rebuilds :: "schema \<Rightarrow> bool" where
  "rebuilds s \<longleftrightarrow> (\<forall>ps. buildNodeMap (wire_map (Map s)) ps = Inr (described s))"

lemma rebuildsI:
  assumes "describable s"
    and "\<And>node ps. (\<And>k. map_of node k = map_option canon (map_of (Map s) k)) \<Longrightarrow>
      build_type buildNodeMap (GStr (Type s)) node ps = Inr (set_mixin no_mixin (described s))"
  shows "rebuilds s"
  unfolding rebuilds_def
  using buildNodeMap_wire [OF assms(1) assms(2) [of "wire_map (Map s)"]] by (simp add: map_of_wire_map)

lemma rebuildsD [simp]: "rebuilds s \<Longrightarrow> buildNodeMap (wire_map (Map s)) ps = Inr (described s)"
  by (simp add: rebuilds_def)

lemma mapR_enumerate:
  "(\<And>i x. x \<in> set xs \<Longrightarrow> f (i, h x) = Inr (g x)) \<Longrightarrow> mapR f (enumerate n (map h xs)) = Inr (map g xs)"
  by (induction xs arbitrary: n) auto

lemma map_opt_map: "(\<And>x. x \<in> set xs \<Longrightarrow> f (g x) = Some (h x)) \<Longrightarrow> map_opt f (map g xs) = Some (map h xs)"
  by (induction xs) auto

lemma build_each_wire:
  "\<forall>c \<in> set cs. rebuilds c \<Longrightarrow> build_each buildNodeMap (map (\<lambda>c. wire_map (Map c)) cs) ps = Inr (map described cs)"
  unfolding build_each_def by (rule mapR_enumerate) simp

lemma convertAttrListOfMap_wire:
  assumes "map_of node k = Some (GList (map (\<lambda>c. GMap (wire_map (Map c))) cs))"
  shows "convertAttrListOfMap node k opt = Some (map (\<lambda>c. wire_map (Map c)) cs)"
  using assms by (simp add: convertAttrListOfMap_def map_opt_map)

lemma build_opt_wire:
  assumes "map_of node k = map_option (\<lambda>c. GMap (wire_map (Map c))) s" "pred_option rebuilds s"
  shows "build_opt buildNodeMap node k ps = Inr (map_option described s)"
  using assms by (cases s) (simp_all add: build_opt_def buildNode_def)

lemma described_range_eq:
  "\<lparr>Minimum = Minimum r, Maximum = Maximum r,
    ExclusiveMinimum = (if Minimum r = None then None else ExclusiveMinimum r),
    ExclusiveMaximum = (if Maximum r = None then None else ExclusiveMaximum r)\<rparr> = described_range r"
  by (cases r) (simp add: described_range_def)

lemma convertAttrFloat_wire:
  "map_of node k = map_option canon (map_option GFloat b) \<Longrightarrow> pred_option float_text_ok b \<Longrightarrow>
   convertAttrFloat node k False = b"
  by (cases b) (auto simp: convertAttrFloat_def float_text_ok_def split: option.splits)

lemma convertAttrInt_wire:
  "map_of node k = map_option canon (map_option GInt64 b) \<Longrightarrow> pred_option in_int64 b \<Longrightarrow>
   convertAttrInt node k False = b"
  by (cases b) (auto simp: convertAttrInt_def)

lemma convertAttrBool_wire:
  "map_of node k = map_option canon (if p then None else map_option GBool b) \<Longrightarrow>
   convertAttrBool node k False = (if p then None else b)"
  by (auto simp: convertAttrBool_def split: option.split)

lemma rebuilds_number:
  assumes "describable (NumberSchema m r)"
  shows "rebuilds (NumberSchema m r)"
proof (rule rebuildsI [OF assms])
  fix node ps assume node: "\<And>k. map_of node k = map_option canon (map_of (Map (NumberSchema m r)) k)"
  have "convertAttrFloat node ''maximum'' False = Maximum r" "convertAttrFloat node ''minimum'' False = Minimum r"
    using assms by (intro convertAttrFloat_wire; simp add: node map_of_rebuildType bounds_ok_def del: canon.simps)+
  moreover have "convertAttrBool node ''exclusiveMaximum'' False = (if Maximum r = None then None else ExclusiveMaximum r)"
    "convertAttrBool node ''exclusiveMinimum'' False = (if Minimum r = None then None else ExclusiveMinimum r)"
    by (intro convertAttrBool_wire; simp add: node map_of_rebuildType)+
  ultimately show "build_type buildNodeMap (GStr (Type (NumberSchema m r))) node ps =
      Inr (set_mixin no_mixin (described (NumberSchema m r)))"
    by (simp add: build_type_def buildNumberSchema_def described_range_eq)
qed

lemma rebuilds_integer:
  assumes "describable (IntegerSchema m r)"
  shows "rebuilds (IntegerSchema m r)"
proof (rule rebuildsI [OF assms])
  fix node ps assume node: "\<And>k. map_of node k = map_option canon (map_of (Map (IntegerSchema m r)) k)"
  have "convertAttrInt node ''maximum'' False = Maximum r" "convertAttrInt node ''minimum'' False = Minimum r"
    using assms by (intro convertAttrInt_wire; simp add: node map_of_rebuildType bounds_ok_def del: canon.simps)+
  moreover have "convertAttrBool node ''exclusiveMaximum'' False = (if Maximum r = None then None else ExclusiveMaximum r)"
    "convertAttrBool node ''exclusiveMinimum'' False = (if Minimum r = None then None else ExclusiveMinimum r)"
    by (intro convertAttrBool_wire; simp add: node map_of_rebuildType)+
  ultimately show "build_type buildNodeMap (GStr (Type (IntegerSchema m r))) node ps =
      Inr (set_mixin no_mixin (described (IntegerSchema m r)))"
    by (simp add: build_type_def buildIntegerSchema_def described_range_eq)
qed

lemma rebuilds_string:
  assumes "describable (StringSchema m a b)"
  shows "rebuilds (StringSchema m a b)"
  using assms
  by (rule rebuildsI)
     (simp add: build_type_def buildStringSchema_def convertAttrInt_def non_negative_def
       map_of_rebuildType_only)

lemma rebuilds_any_of:
  assumes "\<forall>c \<in> set cs. rebuilds c" "describable (AnyOfSchema m cs)"
  shows "rebuilds (AnyOfSchema m cs)"
proof (rule rebuildsI [OF assms(2)])
  fix node ps assume node: "\<And>k. map_of node k = map_option canon (map_of (Map (AnyOfSchema m cs)) k)"
  have "convertAttrListOfMap node ''anyOf'' False = Some (map (\<lambda>c. wire_map (Map c)) cs)"
    by (rule convertAttrListOfMap_wire) (simp add: node map_of_rebuildType comp_def)
  then show "build_type buildNodeMap (GStr (Type (AnyOfSchema m cs))) node ps =
      Inr (set_mixin no_mixin (described (AnyOfSchema m cs)))"
    using assms(1) by (simp add: build_type_def buildAnyOfSchema_def build_each_wire)
qed

lemma rebuilds_all_of:
  assumes "\<forall>c \<in> set cs. rebuilds c" "describable (AllOfSchema m cs)"
  shows "rebuilds (AllOfSchema m cs)"
proof (rule rebuildsI [OF assms(2)])
  fix node ps assume node: "\<And>k. map_of node k = map_option canon (map_of (Map (AllOfSchema m cs)) k)"
  have "convertAttrListOfMap node ''allOf'' False = Some (map (\<lambda>c. wire_map (Map c)) cs)"
    by (rule convertAttrListOfMap_wire) (simp add: node map_of_rebuildType comp_def)
  then show "build_type buildNodeMap (GStr (Type (AllOfSchema m cs))) node ps =
      Inr (set_mixin no_mixin (described (AllOfSchema m cs)))"
    using assms(1) by (simp add: build_type_def buildAllOfSchema_def build_each_wire)
qed

lemma rebuilds_not: "rebuilds c \<Longrightarrow> describable (NotSchema m c) \<Longrightarrow> rebuilds (NotSchema m c)"
  by (rule rebuildsI)
     (simp_all add: build_type_def buildNotSchema_def convertAttrMap_def map_of_rebuildType)

lemma rebuilds_list: "rebuilds c \<Longrightarrow> describable (ListSchema m c a b) \<Longrightarrow> rebuilds (ListSchema m c a b)"
  by (rule rebuildsI)
     (simp_all add: build_type_def buildListSchema_def buildNode_def convertAttrInt_def non_negative_def map_of_rebuildType)

lemma rebuilds_tuple:
  assumes "\<forall>c \<in> set cs. rebuilds c" "describable (TupleSchema m cs add)"
  shows "rebuilds (TupleSchema m cs add)"
proof (rule rebuildsI [OF assms(2)])
  fix node ps assume node: "\<And>k. map_of node k = map_option canon (map_of (Map (TupleSchema m cs add)) k)"
  have "mapR (\<lambda>(i, item). buildNode buildNodeMap item (ps @ [idx_path i]))
      (enumerate 0 (map (\<lambda>c. GMap (wire_map (Map c))) cs)) = Inr (map described cs)"
    using assms(1) by (intro mapR_enumerate) (simp add: buildNode_def)
  then show "build_type buildNodeMap (GStr (Type (TupleSchema m cs add))) node ps =
      Inr (set_mixin no_mixin (described (TupleSchema m cs add)))"
    by (simp add: build_type_def buildListSchema_def node map_of_rebuildType build_opt_def comp_def)
qed

text \<open>The properties of an object, sorted by name, each with the node it is built from.\<close>

lemma wire_map_props:
  "wire_map (map (map_prod id GMap) (map (map_prod id Map) props)) =
     map (map_prod id (\<lambda>c. GMap (wire_map (Map c)))) (sort_key fst props)"
proof -
  have "map (map_prod id canon) (map (map_prod id GMap) (map (map_prod id Map) props)) =
      map (map_prod id (\<lambda>c. GMap (wire_map (Map c)))) props"
    by (induction props) auto
  then show ?thesis by (simp only: wire_map_def [of "map _ _"] sort_key_map_snd)
qed

lemma guess_type_props:
  assumes "props_ok (map fst props)"
  shows "guess_type (map (map_prod id f) (sort_key fst props)) = map (map_prod id f) (sort_key fst props)"
proof -
  have "has_key (map (map_prod id f) (sort_key fst props)) k \<longleftrightarrow> k \<in> set (map fst props)" for k
    by (simp add: has_key_def map_of_eq_None_iff image_image)
  with assms show ?thesis
    by (auto simp: guess_type_def props_ok_def simp del: set_map)
qed

lemma convert_props:
  assumes "props_ok (map fst props)"
    and "map_of node ''properties'' = Some (canon (GMap (map (map_prod id GMap) (map (map_prod id Map) props))))"
  shows "convertAttrMapOfMap node ''properties'' True =
    Some (map (map_prod id (\<lambda>c. wire_map (Map c))) (sort_key fst props))"
proof -
  have "convertAttrMap node ''properties'' False = Some (map (map_prod id (\<lambda>c. GMap (wire_map (Map c)))) (sort_key fst props))"
    using assms(2)
    by (simp add: convertAttrMap_def convertTypeMap_def wire_map_props guess_type_props [OF assms(1)] del: map_map)
  moreover have "map_opt (\<lambda>(name, value). map_option (Pair name) (convertTypeMap value))
      (map (map_prod id (\<lambda>c. GMap (wire_map (Map c)))) (sort_key fst props)) =
      Some (map (map_prod id (\<lambda>c. wire_map (Map c))) (sort_key fst props))"
    by (rule map_opt_map) auto
  ultimately show ?thesis by (simp add: convertAttrMapOfMap_def)
qed

lemma build_props_wire:
  assumes "\<forall>(k, c) \<in> set props. rebuilds c"
  shows "build_props buildNodeMap (map (map_prod id (\<lambda>c. wire_map (Map c))) props) ps =
    Inr (map (map_prod id described) props)"
  using assms by (induction props) (auto simp: build_props_def)

lemma foldR_requires:
  assumes "go_map_ok (acc @ reqs)" "list_all (\<lambda>(k, b). b \<and> map_of props k \<noteq> None) reqs"
  shows "foldR (\<lambda>reqProp reqs. if map_of props reqProp = None then Inl (e reqProp)
      else Inr (AList.update reqProp True reqs)) (map fst reqs) acc = Inr (acc @ reqs)"
  using assms
proof (induction reqs arbitrary: acc)
  case (Cons r reqs)
  obtain k b where r: "r = (k, b)" by (cases r)
  with Cons.prems have "k \<notin> fst ` set acc" by (auto simp: go_map_ok_def)
  moreover have "foldR (\<lambda>reqProp reqs. if map_of props reqProp = None then Inl (e reqProp)
      else Inr (AList.update reqProp True reqs)) (map fst reqs) (acc @ [r]) = Inr ((acc @ [r]) @ reqs)"
    using Cons.prems by (intro Cons.IH) auto
  ultimately show ?case using Cons.prems by (auto simp: r AList_update_new)
qed simp

lemma build_requires_wire:
  assumes "map_of node ''requires'' = Some (canon (GStrs (map fst reqs)))" "list_all valid_utf8 (map fst props)"
    and "go_map_ok reqs" "list_all (\<lambda>(k, b). b \<and> map_of props k \<noteq> None) reqs"
  shows "build_requires (sort_key fst (map (map_prod id f) props)) node ps = Inr reqs"
proof -
  let ?props = "sort_key fst (map (map_prod id f) props)"
  have known: "map_of ?props k \<noteq> None \<longleftrightarrow> map_of props k \<noteq> None" for k
    by (simp add: map_of_eq_None_iff image_image)
  have "valid_utf8 k" if "k \<in> fst ` set reqs" for k
    using that assms(2,4) by (force simp: list_all_iff dest!: map_of_SomeD)
  then have "canon (GStrs (map fst reqs)) = GList (map GStr (map fst reqs))"
    by (auto simp: valid_utf8_def)
  with assms(1) have "map_of node ''requires'' = Some (GList (map GStr (map fst reqs)))"
    by (simp only:)
  then have "convertAttrListOfString node ''requires'' True = Some (map fst reqs)"
    using map_opt_map [of "map fst reqs" as_string GStr id]
    by (simp add: convertAttrListOfString_def del: map_map)
  moreover have "list_all (\<lambda>(k, b). b \<and> map_of ?props k \<noteq> None) reqs"
    using assms(4) known by (auto simp: list_all_iff)
  ultimately show ?thesis
    using foldR_requires [of "[]" reqs ?props] assms(3) by (simp add: build_requires_def)
qed

lemma rebuilds_object:
  assumes "\<forall>(k, c) \<in> set props. rebuilds c" "pred_option rebuilds add"
    and ok: "describable (ObjectSchema m props reqs add)"
  shows "rebuilds (ObjectSchema m props reqs add)"
proof (rule rebuildsI [OF ok])
  fix node ps assume node: "\<And>k. map_of node k = map_option canon (map_of (Map (ObjectSchema m props reqs add)) k)"
  have p: "convertAttrMapOfMap node ''properties'' True =
      Some (map (map_prod id (\<lambda>c. wire_map (Map c))) (sort_key fst props))"
    using ok by (intro convert_props) (simp_all add: node map_of_rebuildType)
  have "build_props buildNodeMap (map (map_prod id (\<lambda>c. wire_map (Map c))) (sort_key fst props)) ps =
      Inr (map (map_prod id described) (sort_key fst props))"
    using assms(1) by (intro build_props_wire) simp
  moreover have "build_requires (sort_key fst (map (map_prod id described) props)) node ps = Inr reqs"
  proof (rule build_requires_wire)
    show "list_all valid_utf8 (map fst props)" "go_map_ok reqs"
      and "list_all (\<lambda>(k, b). b \<and> map_of props k \<noteq> None) reqs"
      using ok by (simp_all add: props_ok_def del: not_None_eq)
  qed (simp add: node map_of_rebuildType)
  moreover have "build_opt buildNodeMap node ''additionalProperties'' ps = Inr (map_option described add)"
    by (rule build_opt_wire) (simp_all add: node map_of_rebuildType assms(2) option.map_comp comp_def)
  ultimately show "build_type buildNodeMap (GStr (Type (ObjectSchema m props reqs add))) node ps =
      Inr (set_mixin no_mixin (described (ObjectSchema m props reqs add)))"
    by (simp add: build_type_def buildObjectSchema_def p sort_key_map_snd)
qed

lemma buildNodeMap_any: "buildNodeMap [(''type'', GStr ''any'')] ps = Inr (AnySchema no_mixin)"
  by (simp add: buildNodeMap.simps build_type_def buildMixin_def)

lemma build_returns_wire:
  assumes "map_of node ''returns'' = map_option (\<lambda>c. GMap (wire_map (Map c))) ret" "pred_option rebuilds ret"
  shows "build_returns buildNodeMap node ps =
    Inr (Some (case map_option described ret of None \<Rightarrow> AnySchema no_mixin | Some r \<Rightarrow> r))"
  using assms
  by (cases ret) (simp_all add: build_returns_def convertAttrMap_def has_key_def [of "[]"] buildNodeMap_any)

lemma rebuilds_method:
  assumes "\<forall>c \<in> set params. rebuilds c" "pred_option rebuilds ret" "pred_option rebuilds add"
    and ok: "describable (MethodSchema m params ret add)"
  shows "rebuilds (MethodSchema m params ret add)"
proof (rule rebuildsI [OF ok])
  fix node ps assume node: "\<And>k. map_of node k = map_option canon (map_of (Map (MethodSchema m params ret add)) k)"
  have "convertAttrListOfMap node ''params'' False = Some (map (\<lambda>c. wire_map (Map c)) params)"
    by (rule convertAttrListOfMap_wire) (simp add: node map_of_rebuildType comp_def)
  moreover have "build_opt buildNodeMap node ''additionalParams'' ps = Inr (map_option described add)"
    by (rule build_opt_wire) (simp_all add: node map_of_rebuildType assms(3) option.map_comp comp_def)
  moreover have "build_returns buildNodeMap node ps =
      Inr (Some (case map_option described ret of None \<Rightarrow> AnySchema no_mixin | Some r \<Rightarrow> r))"
    by (rule build_returns_wire) (simp_all add: node map_of_rebuildType assms(2) option.map_comp comp_def)
  ultimately show "build_type buildNodeMap (GStr (Type (MethodSchema m params ret add))) node ps =
      Inr (set_mixin no_mixin (described (MethodSchema m params ret add)))"
    using assms(1) by (simp add: build_type_def buildMethodSchema_def build_each_wire)
qed

lemma rebuilds_describable: "describable s \<Longrightarrow> rebuilds s"
proof (induction s)
  case (ObjectSchema m props reqs add)
  then show ?case
    by (intro rebuilds_object) (auto simp: list_all_pred_snd snds.simps pred_option_def)
next
  case (MethodSchema m ps ret add)
  then show ?case
    by (intro rebuilds_method) (auto simp: list_all_iff pred_option_def)
next
  case (AnyOfSchema m cs)
  then show ?case by (intro rebuilds_any_of) (auto simp: list_all_iff)
next
  case (AllOfSchema m cs)
  then show ?case by (intro rebuilds_all_of) (auto simp: list_all_iff)
next
  case (TupleSchema m cs add)
  then show ?case by (intro rebuilds_tuple) (auto simp: list_all_iff)
next
  case (NotSchema m c)
  then show ?case by (intro rebuilds_not) simp_all
next
  case (ListSchema m c a b)
  then show ?case by (intro rebuilds_list) simp_all
qed (auto intro!: rebuilds_number rebuilds_integer rebuilds_string intro: rebuildsI simp: build_type_def)

section \<open>Printing and building\<close>

lemma valid_utf8_keys [simp]:
  "valid_utf8 ''type''" "valid_utf8 ''name''" "valid_utf8 ''description''" "valid_utf8 ''maximum''"
  "valid_utf8 ''exclusiveMaximum''" "valid_utf8 ''minimum''" "valid_utf8 ''exclusiveMinimum''" "valid_utf8 ''anyOf''"
  "valid_utf8 ''allOf''" "valid_utf8 ''not''" "valid_utf8 ''items''" "valid_utf8 ''properties''" "valid_utf8 ''requires''"
  "valid_utf8 ''additionalProperties''" "valid_utf8 ''params''" "valid_utf8 ''returns''" "valid_utf8 ''additionalParams''"
  by (simp_all add: valid_utf8_def to_valid_utf8_ascii)

definition members_ok :: "gmap \<Rightarrow> bool" where
  "members_ok m \<longleftrightarrow> (\<forall>(k, v) \<in> set m. valid_utf8 k \<and> marshal_ok v)"

lemma members_ok_simps [simp]:
  "members_ok []" "members_ok ((k, v) # m) \<longleftrightarrow> valid_utf8 k \<and> marshal_ok v \<and> members_ok m"
  "members_ok (m @ m') \<longleftrightarrow> members_ok m \<and> members_ok m'" "members_ok (rebuildType mx t)"
  by (auto simp: members_ok_def rebuildType_def)

lemma marshal_ok_members: "go_map_ok m \<Longrightarrow> members_ok m \<Longrightarrow> marshal_ok (GMap m)"
  by (auto simp: members_ok_def list_all_iff pred_prod_beta)

lemma members_ok_range [simp]:
  "members_ok (range_map f r) \<longleftrightarrow> bounds_ok (\<lambda>b. marshal_ok (f b)) r"
  by (cases "Maximum r"; cases "Minimum r"; cases "ExclusiveMaximum r"; cases "ExclusiveMinimum r")
     (simp_all add: range_map_def bounds_ok_def)

lemma members_ok_opt [simp]:
  "valid_utf8 k \<Longrightarrow> members_ok (opt_member k v) \<longleftrightarrow> pred_option (\<lambda>m. marshal_ok (GMap m)) v"
  by (simp add: opt_member_def split: option.split)

lemma bounds_ok_mono: "bounds_ok P r \<Longrightarrow> (\<And>b. P b \<Longrightarrow> Q b) \<Longrightarrow> bounds_ok Q r"
  by (auto simp: bounds_ok_def pred_option_def)

lemma marshal_ok_float: "float_text_ok f \<Longrightarrow> marshal_ok (GFloat f)"
  by (auto simp: float_text_ok_def split: option.splits)

lemma marshal_ok_Map: "describable s \<Longrightarrow> marshal_ok (GMap (Map s))"
proof (rule marshal_ok_members [OF go_map_ok_Map], induction s)
  case (NumberSchema m r)
  then have "bounds_ok (\<lambda>b. marshal_ok (GFloat b)) r"
    by (auto intro: bounds_ok_mono marshal_ok_float simp del: marshal_ok.simps)
  then show ?case by (simp del: marshal_ok.simps)
next
  case (ObjectSchema m props reqs add)
  have c: "marshal_ok (GMap (Map c))" if "(k, c) \<in> set props" for k c
    using ObjectSchema that by (intro marshal_ok_members) (auto simp: list_all_pred_snd snds.simps)
  have k: "valid_utf8 k" if "(k, c) \<in> set props" for k c
    using ObjectSchema.prems that by (force simp: props_ok_def list_all_iff)
  have "marshal_ok (GMap (map (map_prod id GMap) (map (map_prod id Map) props)))"
  proof (rule marshal_ok_members)
    show "go_map_ok (map (map_prod id GMap) (map (map_prod id Map) props))"
      using ObjectSchema.prems by (simp add: props_ok_def go_map_ok_def comp_def)
    show "members_ok (map (map_prod id GMap) (map (map_prod id Map) props))"
      using c k by (auto simp: members_ok_def simp del: marshal_ok.simps)
  qed
  moreover have "pred_option (\<lambda>m. marshal_ok (GMap m)) (map_option Map add)"
    using ObjectSchema by (cases add) (simp_all del: marshal_ok.simps add: marshal_ok_members)
  ultimately show ?case by (simp del: marshal_ok.simps(12) map_map)
next
  case (MethodSchema m ps ret add)
  have "pred_option (\<lambda>m. marshal_ok (GMap m)) (map_option Map add)"
    using MethodSchema by (cases add) (simp_all del: marshal_ok.simps add: marshal_ok_members)
  moreover have "pred_option (\<lambda>m. marshal_ok (GMap m)) (map_option Map ret)"
    using MethodSchema by (cases ret) (simp_all del: marshal_ok.simps add: marshal_ok_members)
  moreover have "\<forall>c \<in> set ps. marshal_ok (GMap (Map c))"
    using MethodSchema by (auto simp: list_all_iff simp del: marshal_ok.simps intro: marshal_ok_members)
  ultimately show ?case by (simp add: list_all_iff del: marshal_ok.simps(12))
qed (auto simp: list_all_iff bounds_ok_def pred_option_def simp del: marshal_ok.simps(12) intro!: marshal_ok_members)

lemma BuildBytes_SchemaToString:
  assumes "describable s" "gdepth (GMap (Map s)) \<le> max_depth"
  shows "\<exists>text. SchemaToString s = Inr text \<and> BuildBytes text = Inr (described s)"
proof -
  from marshal_canon [OF marshal_ok_Map [OF assms(1)]] obtain j where j: "carries (GMap (Map s)) j" ..
  then obtain kjs where obj: "j = JObj kjs" by (auto simp: carries_def split: sum.splits)
  have "decode (enc_json j) = DOk (jclean j) []"
    using decode_enc_obj [of kjs "[]"] j assms(2) by (simp add: obj carries_def del: enc_json.simps jclean.simps)
  then have "BuildBytes (enc_json j) = Build (GMap (wire_map (Map s)))"
    using j by (simp add: BuildBytes_def decode_into_def carries_def)
  also have "\<dots> = Inr (described s)"
    using rebuilds_describable [OF assms(1)] by (simp add: Build_def buildNode_def)
  finally show ?thesis using j by (simp add: SchemaToString_def carries_def)
qed

section \<open>Properties\<close>

text \<open>
  \<^bold>\<open>C10.\<close> A schema printed with \<^verbatim>\<open>SchemaToString\<close> and built again from the text comes back as \<open>described\<close>
  says; when it has no length bounds and no additional items, it accepts exactly the values it accepted before.
\<close>

theorem schema_description_round_trip:
  assumes "describable s" "gdepth (GMap (Map s)) \<le> max_depth"
  shows "\<exists>text. SchemaToString s = Inr text \<and> BuildBytes text = Inr (described s) \<and>
    (lossless s \<longrightarrow> (\<forall>d. valid (described s) d = valid s d))"
  using BuildBytes_SchemaToString [OF assms] valid_described [of s] assms(1) by auto

definition point_schema :: schema where
  "point_schema = ObjectSchema \<lparr>sname = ''point'', sdescription = []\<rparr>
     [(''y'', IntegerSchema no_mixin (no_range\<lparr>Maximum := Some 100\<rparr>)), (''x'', NumberSchema no_mixin (no_range\<lparr>Minimum := Some (Fin 0)\<rparr>))]
     [(''y'', True)] (Some (BoolSchema no_mixin))"

theorem schema_description_round_trip_witness:
  "\<exists>text. SchemaToString point_schema = Inr text \<and> BuildBytes text = Inr (described point_schema) \<and>
    (\<forall>d. valid (described point_schema) d = valid point_schema d)"
proof -
  have "float_text_ok (Fin 0)" by code_simp
  moreover have "valid_utf8 ''point''" "valid_utf8 ''x''" "valid_utf8 ''y''" "valid_utf8 []" by code_simp+
  ultimately have "describable point_schema"
    by (simp add: point_schema_def mixin_ok_def bounds_ok_def no_mixin_def no_range_def props_ok_def
        in_int64_def int64_min_def int64_max_def)
  moreover have "gdepth (GMap (Map point_schema)) \<le> max_depth"
    by (simp add: point_schema_def rebuildType_def range_map_def opt_member_def no_mixin_def no_range_def max_list_def max_depth_def)
  moreover have "lossless point_schema" by (simp add: point_schema_def)
  ultimately show ?thesis
    using schema_description_round_trip [of point_schema] by blast
qed

text \<open>
  The description drops constraints: what is built from the text of a bounded string schema accepts every
  string, and a tuple that allowed additional items accepts none.
\<close>

theorem description_drops_bounds:
  assumes "mixin_ok m"
  shows "\<exists>text. SchemaToString (StringSchema m maxi mini) = Inr text \<and>
      (\<exists>t. BuildBytes text = Inr t \<and> (\<forall>s. valid t (GStr s)))"
    and "\<exists>text. SchemaToString (TupleSchema m [] (Some a)) = Inr text \<and>
      (\<exists>t. BuildBytes text = Inr t \<and> (\<forall>d ds. \<not> valid t (GList (d # ds))))"
proof -
  have d: "gdepth (GMap (Map (StringSchema m maxi mini))) \<le> max_depth"
    by (auto simp: rebuildType_def max_list_def max_depth_def)
  show "\<exists>text. SchemaToString (StringSchema m maxi mini) = Inr text \<and>
      (\<exists>t. BuildBytes text = Inr t \<and> (\<forall>s. valid t (GStr s)))"
    using BuildBytes_SchemaToString [OF _ d] assms by (auto simp: in_length_def)
  have d: "gdepth (GMap (Map (TupleSchema m [] (Some a)))) \<le> max_depth"
    by (auto simp: rebuildType_def max_list_def max_depth_def)
  show "\<exists>text. SchemaToString (TupleSchema m [] (Some a)) = Inr text \<and>
      (\<exists>t. BuildBytes text = Inr t \<and> (\<forall>d ds. \<not> valid t (GList (d # ds))))"
    using BuildBytes_SchemaToString [OF _ d] assms by (auto simp: valid_positional_def)
qed

theorem description_drops_bounds_witness:
  "\<exists>text. SchemaToString (StringSchema no_mixin (Some 3) None) = Inr text \<and>
      (\<exists>t. BuildBytes text = Inr t \<and> (\<forall>s. valid t (GStr s)))"
  by (rule description_drops_bounds) (simp add: mixin_ok_def no_mixin_def valid_utf8_def)

end
