(* ===== verification/Spec2Isabelle.thy ===== *)
theory Spec2Isabelle
  imports Guarded_Calls Pretty Systems Commands Fifo Benchmark Schema_Roundtrip
begin

text \<open>
  A model of \<^verbatim>\<open>jsoff\<close>, a JSON-RPC 2.0 library in Go, and the properties that make it correct.

  \<^bold>\<open>The program.\<close> The root package has the four message kinds and their operations
  (\<^verbatim>\<open>types.go\<close>, \<^verbatim>\<open>messageimpl.go\<close>, \<^verbatim>\<open>errors.go\<close>), a message factory (\<^verbatim>\<open>messagefactory.go\<close>) and the
  wire format (\<^verbatim>\<open>messagemarshal.go\<close>, \<^verbatim>\<open>parse.go\<close>). The package \<^verbatim>\<open>schema\<close> builds schemas from
  descriptions and validates values and messages against them. The package \<^verbatim>\<open>net\<close> routes messages to handlers
  (the actor of \<^verbatim>\<open>request.go\<close>) and carries them: an HTTP/1.1 server and client, an authentication handler, streaming
  servers (TCP, vsock, HTTP/2, websocket) with one session per connection, and streaming clients that run many calls
  over one connection. A message travels: client, wire format, transport, session or HTTP handler, actor,
  schema validation, handler, and the reply the same way back.

  \<^bold>\<open>The theories\<close>, in the order of their imports.
  \<^item> \<open>Prelude\<close>: lists, options, sums with early return, the collections of simplification rules.
  \<^item> \<open>Float64\<close>: the float64 values that occur, NaN and infinities included, with their comparisons and texts.
  \<^item> \<open>Json_Text\<close>: \<^verbatim>\<open>encoding/json\<close> as the program uses it: the scanner with its nesting limit of 10000, the decoder with
    \<^verbatim>\<open>UseNumber\<close>, the encoder, and that decoding what was encoded gives the value back.
  \<^item> \<open>Go_Values\<close>: values of type \<^verbatim>\<open>any\<close>, their marshalling, and the form a value has after a round trip.
  \<^item> \<open>Messages\<close>: \<^verbatim>\<open>types.go\<close>, \<^verbatim>\<open>errors.go\<close>, \<^verbatim>\<open>messageimpl.go\<close>, \<^verbatim>\<open>messagefactory.go\<close>, \<^verbatim>\<open>validators.go\<close>. A message is
    one of four records over the base message; a panic is a value. \<open>msg_ok\<close> is the invariant of all constructors.
  \<^item> \<open>Wire\<close>: \<^verbatim>\<open>messagemarshal.go\<close> and \<^verbatim>\<open>parse.go\<close>: the templates, ids, the union and \<^verbatim>\<open>DecodeMessage\<close> on a stream.
  \<^item> \<open>Pretty\<close>: \<^verbatim>\<open>EncodePretty\<close> with the indentation of \<^verbatim>\<open>json.MarshalIndent\<close>, and the fields that are logged.
  \<^item> \<open>Schema\<close>, \<open>Schema_Equal\<close>, \<open>Schema_Build\<close>, \<open>Schema_Roundtrip\<close>: the package \<^verbatim>\<open>schema\<close>: \<^verbatim>\<open>Scan\<close> with the path stack and its
    refinement of the set of values a schema stands for, \<^verbatim>\<open>Equal\<close>, \<^verbatim>\<open>Map\<close>, the builder and its conversions, and what building
    the description of a schema gives back.
  \<^item> \<open>Http\<close>: headers, requests, and a response writer that keeps what was sent; the response errors of \<^verbatim>\<open>net/errors.go\<close>.
  \<^item> \<open>Actor\<close>: \<^verbatim>\<open>net/request.go\<close>: registration, routing over a tree of actors, validation, recovery of panics, \<^verbatim>\<open>Feed\<close>.
  \<^item> \<open>Http1_Server\<close>: \<^verbatim>\<open>http1_server.go\<close>, \<^verbatim>\<open>gateway_handler.go\<close>. The locale \<open>http_handler\<close> is the
    interface of an HTTP handler: a complete answer or a panic.
  \<^item> \<open>Http1_Client\<close>: \<^verbatim>\<open>http1_client.go\<close>, and client and server composed over an exchange of bytes.
  \<^item> \<open>Auth\<close>: \<^verbatim>\<open>auth_handler.go\<close>; the JWT library and the LRU cache are arguments with the laws \<open>lru_laws\<close>.
  \<^item> \<open>Guarded_Calls\<close>: calls of the HTTP/1 client to a server behind the authentication handler.
  \<^item> \<open>Sessions\<close>: the streaming servers. The loops of a session are functions to the next event and state, the
    interleavings of the goroutines are a step relation; the locales \<open>session_protocol\<close> and \<open>actor_session\<close> are the contract
    the loops keep, interpreted for each server. A handler, or other code of the application, may push messages to a session.
  \<^item> \<open>Servers\<close>: \<^verbatim>\<open>Start\<close>, \<^verbatim>\<open>Stop\<close> and the accepting loop of the TCP and vsock servers, and the construction of the
    HTTP handlers: the sessions of a server run over one world, and a run of the server projects to a run of each of them.
  \<^item> \<open>Streaming_Client\<close>: \<^verbatim>\<open>streaming_client.go\<close>: calls as goroutines with phases over the shared map of pending
    requests, result channels and timers, as a step relation with an invariant.
  \<^item> \<open>Transports\<close>: \<^verbatim>\<open>tcp_client.go\<close>, \<^verbatim>\<open>vsock_client.go\<close>, \<^verbatim>\<open>http2_client.go\<close>, \<^verbatim>\<open>ws_client.go\<close> and \<^verbatim>\<open>client_factory.go\<close>: the four
    implementations of the interface \<^verbatim>\<open>Transport\<close>, the locale \<open>transport_link\<close> with what the client's loops rely on, interpreted
    for each. The loops go through program counters, so that a check of \<^verbatim>\<open>Connected\<close>, the start of a read or a write and its end
    are steps apart, and old loops go on beside those of a new connection.
  \<^item> \<open>Stream_Calls\<close>: client and server composed; the locale \<open>duplex\<close> is the two ends of a connection, interpreted for TCP, vsock,
    HTTP/2 and websocket.
  \<^item> \<open>Systems\<close>: several streaming clients and a TCP or vsock server, composed through the bytes on their connections.
  \<^item> \<open>Utils\<close>: \<^verbatim>\<open>utils.go\<close>, \<^verbatim>\<open>client_util.go\<close> and \<^verbatim>\<open>server_utils.go\<close>.
  \<^item> \<open>Typed_Handlers\<close>: \<^verbatim>\<open>typewrap.go\<close> and the typed registrations; \<^verbatim>\<open>mapstructure\<close> is an argument.
  \<^item> \<open>Params\<close>: \<^verbatim>\<open>DecodeParams\<close> of \<^verbatim>\<open>utils.go\<close>: the fields of a structure set from a list of parameters.
  \<^item> \<open>Tools\<close>: what the command line tools prepare, the retry loop of \<^verbatim>\<open>cli/watch\<close>, and the handlers of the fifo example.
  \<^item> \<open>Fifo\<close>: the actor of the example, and what histories of its calls do.
  \<^item> \<open>Benchmark\<close>: \<^verbatim>\<open>RunCallBenchmark\<close>: the goroutines that measure calls and the loop that collects the times as a step relation,
    and the statistics in 64-bit and floating-point arithmetic.
  \<^item> \<open>Flags\<close>: the package \<^verbatim>\<open>flag\<close> as the programs use it, and the integers of \<^verbatim>\<open>strconv\<close> with a prefix.
  \<^item> \<open>Commands\<close>: the functions \<^verbatim>\<open>main\<close> of the tools and of the example: flags, client, call, what is printed, the exit code.

  \<^bold>\<open>What is shown.\<close> Decoding what was encoded gives a message back, also from a stream and from indented text; decoding never
  panics and what it returns is well-formed; validation is exactly membership in the schema's values; building a schema
  terminates with a well-formed one or an error placed under the node, and the description of a schema without the parts the
  builder cannot express builds an equal one. A request is answered exactly by what its handler returns, with its id, an
  invalid one never reaches the handler, and nothing but requests is answered. A call over HTTP or over any of the four
  streaming transports gives the caller the handler's value; a typed handler runs on decoded parameters or is not called;
  authentication guards the handler behind it, which gets the authenticated user. In every interleaving a streaming session answers
  each request at most once with the actor's reply, each connection of a server is answered as if it were alone, the end of
  a session changes the world of the actor once, and a server that was stopped accepts no connection after at most the one it waits for. A
  system of any number of clients and a server gives every client the answers to its own requests, and no other. A
  streaming call returns only an answer to the message that was sent for it, or the timeout; all interleavings of the
  loops over the concrete transports refine these steps, and the only panic of a loop is the nil dereference that
  \<^verbatim>\<open>Close\<close> between its check and its use of the connection makes. The fifo example keeps the values pushed, in order and cut to its
  size. The call tool prints the value that the handler of the server returns; the benchmark can end as long as no call
  blocks for ever, and not after that, and its statistics depend on the times measured but not on their order.

  Other theorems state where the code departs from what it means to do: cloning a request with by-name parameters, the bounds a
  description of a schema drops, calls with one id at the same time, a websocket session after its end, a reply that cannot be marshalled,
  websocket clients that share a dialer, subscribers that stay after their session, a null parameter of a typed
  handler or of \<^verbatim>\<open>DecodeParams\<close>, the header that panics, a client closed while it reads or writes, the receive loop of a closed
  connection that resets the next one, the example of the README that its server refuses.

  \<^bold>\<open>Bounds.\<close> No definition has fuel: the decoder recurses on the input, the builder on the size of the
  description, validation on the schema. The capacities are those of the code: 100 messages in a send channel, 10 entries in
  \<^verbatim>\<open>done\<close> and close channels; a send on a full channel is a step that is not enabled. Integers of a
  message are unbounded with the 64-bit range checked where the code checks it.

  \<^bold>\<open>Not modelled.\<close> Sockets, TLS and HTTP framing: dialling, accepting, an exchange and an upgrade are arguments with their
  outcome; the output of the logger; \<^verbatim>\<open>DecodeInterface\<close>, which is a call of \<^verbatim>\<open>mapstructure\<close>, an argument; the texts of errors of the Go
  library, which are one fixed text, and of \<^verbatim>\<open>RPCError.Error\<close>; contexts, whose end is a step that may happen at any
  moment; the steps within \<^verbatim>\<open>Connect\<close>, \<^verbatim>\<open>Close\<close> and \<^verbatim>\<open>Reset\<close> of a streaming client, each of which is one step, and a caller that stays blocked on the full
  send channel of a connection that was reset; a push of the fifo example that blocks on a full session; a schema with a nil child; the
  failure of the copy of an HTTP/2 client's URL; time, which is an argument or a timer that may fire at any moment. The package \<^verbatim>\<open>uuid\<close> gives
  an arbitrary text. Of what the command line tools print to the standard error the constant part is kept.

  \<^bold>\<open>Plan.\<close> Every component is modelled. What could be added are the proxying of requests from one streaming server to another, and clients
  of HTTP/2 and websocket servers in one system, whose sessions and calls are shown one connection at a time.
\<close>

end
